(* ===== verification/Prelude.thy ===== *)
theory Prelude
  imports Main "HOL-Library.Word"
begin

text \<open>
  Shared vocabulary of the development: the machine integers of the C++ sources, byte
  sequences, the exceptions the library throws as values, big-endian byte splitting, and two
  interfaces that several components implement (a self-delimiting codec read at an offset, and
  a deterministic machine with an invariant).

  Conventions.  \<open>std::uint8_t .. std::uint64_t\<close> are words of that width.  \<open>std::size_t\<close>
  is \<open>nat\<close>: sizes of in-memory buffers, whose sums stay far below \<open>2 ^ 64\<close>.
  A C++ exception is a value of type \<open>exn\<close>, carried on the left of a sum; a \<open>bool try_...\<close>
  with an out parameter is an \<open>option\<close> or a sum.  Instants and durations of the chrono
  clocks are integers counting nanoseconds (the tick of both clocks in libstdc++ and libc++ on
  Linux and on the ESP32 tool chain).
\<close>

unbundle bit_operations_syntax

type_synonym u8 = "8 word"
type_synonym u16 = "16 word"
type_synonym u32 = "32 word"
type_synonym u64 = "64 word"
type_synonym bytes = "u8 list"

named_theorems codec_simps "defining equations the codec proofs unfold"
named_theorems step_simps "defining equations the state machine proofs unfold"

subsection \<open>Exceptions as values\<close>

datatype exn =
    Out_of_range string
  | Invalid_argument string
  | Length_error string
  | Runtime_error string
  | Logic_error string
  | Ber_format_error nat  \<comment> \<open>offset of the TLV that could not be read\<close>
  | Tpkt_format_error string
  | Cotp_format_error string
  | Mms_format_error string

type_synonym 'a result = "exn + 'a"

definition bindE :: "'e + 'a \<Rightarrow> ('a \<Rightarrow> 'e + 'b) \<Rightarrow> 'e + 'b" where
  "bindE m f = (case m of Inl e \<Rightarrow> Inl e | Inr x \<Rightarrow> f x)"

lemma bindE_simps [simp]:
  "bindE (Inl e) f = Inl e"
  "bindE (Inr x) f = f x"
  by (simp_all add: bindE_def)

lemma bindE_Inr_iff: "bindE m f = Inr y \<longleftrightarrow> (\<exists>x. m = Inr x \<and> f x = Inr y)"
  by (cases m) auto

text \<open>\<open>mapE\<close> runs a fallible step over a list and stops at the first exception.\<close>

fun mapE :: "('a \<Rightarrow> 'e + 'b) \<Rightarrow> 'a list \<Rightarrow> 'e + 'b list" where
  "mapE f [] = Inr []"
| "mapE f (x # xs) = bindE (f x) (\<lambda>y. bindE (mapE f xs) (\<lambda>ys. Inr (y # ys)))"

lemma mapE_Inr_iff:
  "mapE f xs = Inr ys \<longleftrightarrow> list_all2 (\<lambda>x y. f x = Inr y) xs ys"
proof (induction xs arbitrary: ys)
  case Nil
  then show ?case by auto
next
  case (Cons x xs)
  then show ?case by (auto simp: bindE_Inr_iff list_all2_Cons1)
qed

lemma mapE_cong [fundef_cong]:
  "xs = ys \<Longrightarrow> (\<And>x. x \<in> set ys \<Longrightarrow> f x = g x) \<Longrightarrow> mapE f xs = mapE g ys"
  by (induction ys arbitrary: xs) auto

text \<open>\<open>foldE\<close> threads a state through a fallible step.\<close>

fun foldE :: "('a \<Rightarrow> 's \<Rightarrow> 'e + 's) \<Rightarrow> 'a list \<Rightarrow> 's \<Rightarrow> 'e + 's" where
  "foldE f [] s = Inr s"
| "foldE f (x # xs) s = bindE (f x s) (foldE f xs)"

subsection \<open>Words\<close>

lemma unat_ucast_widen:
  "LENGTH('a::len) \<le> LENGTH('b::len) \<Longrightarrow> unat (ucast (v :: 'a word) :: 'b word) = unat v"
  by (simp add: unsigned_ucast_eq take_bit_nat_eq_self order.strict_trans2 [OF unsigned_less])

lemma ucast_ucast_narrow:
  "LENGTH('a::len) \<le> LENGTH('b::len) \<Longrightarrow> ucast (ucast (v :: 'a word) :: 'b word) = v"
  by (rule bit_word_eqI) (auto simp: bit_simps)

lemma unat_less_exp: "unat (v :: 'a::len word) < 2 ^ LENGTH('a)"
  by (rule unsigned_less)

lemma unat_of_char_u8: "unat (of_char c :: u8) = of_char c"
proof -
  have "(of_char c :: u8) = of_nat (of_char c)" by (rule of_nat_of_char [symmetric])
  then have "unat (of_char c :: u8) = of_char c mod 256" by (simp only: unat_of_nat) simp
  then show ?thesis by simp
qed

lemma bit_octet_ones: "bit (0xFF :: u8) i \<longleftrightarrow> i < 8"
  by (simp add: mask_eq_exp_minus_1 [of 8, where 'a = "8 word", simplified, symmetric] bit_simps)

subsection \<open>Big-endian byte sequences\<close>

text \<open>\<open>be_value\<close> is the accumulation loop \<open>value = (value << 8) | byte\<close> of the readers;
  \<open>be_bytes n v\<close> the shift-and-mask loop of the writers, most significant octet first.\<close>

definition be_value :: "bytes \<Rightarrow> 'a::len word" where
  "be_value bs = foldl (\<lambda>v b. push_bit 8 v OR ucast b) 0 bs"

definition be_bytes :: "nat \<Rightarrow> 'a::len word \<Rightarrow> bytes" where
  "be_bytes n v = map (\<lambda>i. ucast (drop_bit (8 * i) v AND 0xFF)) (rev [0..<n])"

definition read_be_u16 :: "bytes \<Rightarrow> nat \<Rightarrow> u16" where
  "read_be_u16 bs i = push_bit 8 (ucast (bs ! i)) OR ucast (bs ! Suc i)"

definition write_be_u16 :: "u16 \<Rightarrow> bytes" where
  "write_be_u16 v = [ucast (drop_bit 8 v AND 0xFF), ucast (v AND 0xFF)]"

lemma low_octet_mask: "(0xFF :: 'a::len word) = mask 8"
  by (simp add: mask_eq_exp_minus_1)

lemma u8_bit_beyond [simp]: "8 \<le> n \<Longrightarrow> \<not> bit (b :: u8) n"
  by (auto dest: bit_imp_le_length)

lemma be_value_Nil [simp]: "be_value [] = 0"
  by (simp add: be_value_def)

lemma be_value_snoc [simp]: "be_value (bs @ [b]) = push_bit 8 (be_value bs) OR ucast b"
  by (simp add: be_value_def)

lemma be_value_zero_Cons [simp]: "be_value (0 # bs) = be_value bs"
  by (simp add: be_value_def)

lemma bit_be_value:
  "bit (be_value bs :: 'a::len word) k \<longleftrightarrow>
     k < LENGTH('a) \<and> k < 8 * length bs \<and> bit (rev bs ! (k div 8)) (k mod 8)"
proof (induction bs arbitrary: k rule: rev_induct)
  case Nil
  then show ?case by simp
next
  case (snoc b bs)
  show ?case
  proof (cases "k < 8")
    case True
    then show ?thesis by (auto simp: bit_simps)
  next
    case False
    then have "k div 8 = Suc ((k - 8) div 8)" "k mod 8 = (k - 8) mod 8"
      by (simp_all add: le_div_geq le_mod_geq)
    with False snoc.IH [of "k - 8"] show ?thesis by (auto simp: bit_simps)
  qed
qed

lemma length_be_bytes [simp]: "length (be_bytes n v) = n"
  by (simp add: be_bytes_def)

lemma be_bytes_Suc:
  "be_bytes (Suc n) v = ucast (drop_bit (8 * n) v AND 0xFF) # be_bytes n v"
  by (simp add: be_bytes_def)

lemma rev_be_bytes_nth:
  "j < n \<Longrightarrow> rev (be_bytes n v) ! j = ucast (drop_bit (8 * j) v AND 0xFF)"
  by (simp add: be_bytes_def rev_map [symmetric])

lemma be_value_be_bytes_bit:
  "bit (be_value (be_bytes n v) :: 'b::len word) k \<longleftrightarrow>
     k < LENGTH('b) \<and> k < 8 * n \<and> bit (v :: 'a::len word) k"
proof -
  have "bit (rev (be_bytes n v) ! (k div 8)) (k mod 8) = bit v k" if "k < 8 * n"
  proof -
    have "k div 8 < n" using that by (simp add: less_mult_imp_div_less mult.commute)
    then show ?thesis
      by (auto simp: rev_be_bytes_nth low_octet_mask bit_simps dest: bit_imp_le_length)
  qed
  then show ?thesis by (auto simp: bit_be_value)
qed

lemma be_value_be_bytes:
  "LENGTH('a) \<le> 8 * n \<Longrightarrow> be_value (be_bytes n (v :: 'a::len word)) = (ucast v :: 'b::len word)"
  by (rule bit_word_eqI) (auto simp: be_value_be_bytes_bit bit_simps dest: bit_imp_le_length)

lemma be_bytes_be_value:
  assumes "length bs = n" "8 * n \<le> LENGTH('a::len)"
  shows "be_bytes n (be_value bs :: 'a word) = bs"
proof -
  have "rev (be_bytes n (be_value bs :: 'a word)) = rev bs"
  proof (rule nth_equalityI)
    fix j assume "j < length (rev (be_bytes n (be_value bs :: 'a word)))"
    then have j: "j < n" by simp
    then have "8 * j + k < 8 * n" if "k < 8" for k using that by linarith
    moreover have "(8 * j + k) div 8 = j" "(8 * j + k) mod 8 = k" if "k < 8" for k using that by simp_all
    ultimately show "rev (be_bytes n (be_value bs :: 'a word)) ! j = rev bs ! j"
      using j assms
      by (intro bit_word_eqI) (fastforce simp: rev_be_bytes_nth low_octet_mask bit_simps bit_be_value)
  qed (use assms in simp)
  then show ?thesis by (simp only: rev_is_rev_conv rev_rev_ident)
qed

lemma unat_be_value_less:
  assumes "8 * length bs < LENGTH('a::len)"
  shows "unat (be_value bs :: 'a word) < 2 ^ (8 * length bs)"
proof -
  have "(be_value bs :: 'a word) = take_bit (8 * length bs) (be_value bs)"
    by (rule bit_word_eqI) (auto simp: bit_simps bit_be_value)
  then have "unat (be_value bs :: 'a word) = take_bit (8 * length bs) (unat (be_value bs :: 'a word))"
    by (metis unsigned_take_bit_eq)
  then show ?thesis by (metis take_bit_nat_less_exp)
qed

lemma be_value_Cons:
  assumes "8 * Suc (length bs) \<le> LENGTH('a::len)"
  shows "(be_value (b # bs) :: 'a word) = push_bit (8 * length bs) (ucast b) OR be_value bs"
proof (rule bit_word_eqI)
  fix k assume k: "k < LENGTH('a)"
  have nth: "(rev bs @ [b]) ! (k div 8) = (if k < 8 * length bs then rev bs ! (k div 8) else b)"
    if "k < 8 * Suc (length bs)"
    using that by (auto simp: nth_append less_mult_imp_div_less mult.commute not_less)
  show "bit (be_value (b # bs) :: 'a word) k =
    bit (push_bit (8 * length bs) (ucast b) OR be_value bs :: 'a word) k"
  proof (cases "k < 8 * Suc (length bs)")
    case True
    then have "k \<ge> 8 * length bs \<Longrightarrow> k mod 8 = k - 8 * length bs"
      by (metis le_add_diff_inverse mod_less mod_mult_self4 mult_Suc_right nat_add_left_cancel_less
          add.commute)
    with True k nth show ?thesis by (auto simp: bit_be_value bit_simps)
  next
    case False
    with k show ?thesis by (auto simp: bit_be_value bit_simps)
  qed
qed

lemma read_be_u16_append [simp]:
  "i = length pre \<Longrightarrow> read_be_u16 (pre @ write_be_u16 v @ post) i = v"
  by (rule bit_word_eqI)
    (auto simp: read_be_u16_def write_be_u16_def nth_append low_octet_mask bit_simps)

lemma read_write_be_u16 [simp]: "read_be_u16 (write_be_u16 v @ post) 0 = v"
  using read_be_u16_append [of 0 "[]" v post] by simp

lemma write_read_be_u16:
  "Suc i < length bs \<Longrightarrow> write_be_u16 (read_be_u16 bs i) = [bs ! i, bs ! Suc i]"
  by (auto intro!: bit_word_eqI simp: read_be_u16_def write_be_u16_def low_octet_mask bit_simps)

lemma length_write_be_u16 [simp]: "length (write_be_u16 v) = 2"
  by (simp add: write_be_u16_def)

definition read_be_u32 :: "bytes \<Rightarrow> nat \<Rightarrow> u32" where
  "read_be_u32 bs i = push_bit 24 (ucast (bs ! i)) OR push_bit 16 (ucast (bs ! (i + 1)))
     OR push_bit 8 (ucast (bs ! (i + 2))) OR ucast (bs ! (i + 3))"

lemma list_length_4: "length bs = 4 \<Longrightarrow> \<exists>a b c d. bs = [a, b, c, d]"
  by (auto simp: numeral_eq_Suc length_Suc_conv)

lemma read_be_u32_eq_be_value:
  assumes "i + 4 \<le> length bs"
  shows "read_be_u32 bs i = be_value (take 4 (drop i bs))"
proof -
  obtain a b c d where q: "take 4 (drop i bs) = [a, b, c, d]"
    using list_length_4 [of "take 4 (drop i bs)"] assms by auto
  have "bs ! (i + j) = [a, b, c, d] ! j" if "j < 4" for j
    using that assms by (simp add: q [symmetric])
  from this [of 0] this [of 1] this [of 2] this [of 3] show ?thesis
    by (simp add: q read_be_u32_def be_value_def push_bit_or or.assoc)
qed

text \<open>\<open>wire::EncodeStatus\<close> and \<open>wire::EncodeResult\<close> of the allocation-free encoders: status, octets
  written, octets required.\<close>

datatype encode_status = Encode_ok | Buffer_too_small | Value_out_of_range

type_synonym encode_result = "encode_status \<times> nat \<times> nat"

text \<open>Writing octets into a caller's buffer at an offset (\<open>std::copy\<close> into a subspan).\<close>

definition put_at :: "nat \<Rightarrow> bytes \<Rightarrow> bytes \<Rightarrow> bytes" where
  "put_at off bs dest = take off dest @ bs @ drop (off + length bs) dest"

lemma length_put_at [simp]: "off + length bs \<le> length dest \<Longrightarrow> length (put_at off bs dest) = length dest"
  by (simp add: put_at_def)

lemma put_at_append:
  "off + length xs + length ys \<le> length dest \<Longrightarrow> j = off + length xs \<Longrightarrow>
     put_at j ys (put_at off xs dest) = put_at off (xs @ ys) dest"
  by (simp add: put_at_def ac_simps)

lemma put_at_Nil [simp]: "put_at off [] dest = dest"
  by (simp add: put_at_def)

lemma put_at_zero [simp]: "put_at 0 bs dest = bs @ drop (length bs) dest"
  by (simp add: put_at_def)

subsection \<open>Self-delimiting encodings read at an offset\<close>

text \<open>
  BER elements and COTP parameters are both parsed by a loop that reads one element at
  \<open>offset\<close>, advances past it and stops at an end index.  The interface: \<open>enc\<close> writes one
  element, \<open>dec bs e i\<close> reads the element at index \<open>i\<close> of the part of \<open>bs\<close> before \<open>e\<close>,
  \<open>dec_all bs e i\<close> is the loop.
\<close>

locale offset_codec =
  fixes enc :: "'a \<Rightarrow> bytes"
    and dec :: "bytes \<Rightarrow> nat \<Rightarrow> nat \<Rightarrow> (nat \<times> 'a) option"
    and dec_all :: "bytes \<Rightarrow> nat \<Rightarrow> nat \<Rightarrow> exn + 'a list"
    and wf :: "'a \<Rightarrow> bool"
  assumes dec_enc: "wf x \<Longrightarrow> length pre + length (enc x) \<le> e \<Longrightarrow> e \<le> length (pre @ enc x @ post) \<Longrightarrow>
      dec (pre @ enc x @ post) e (length pre) = Some (length pre + length (enc x), x)"
    and enc_nonempty: "wf x \<Longrightarrow> enc x \<noteq> []"
    and dec_all_step: "i < e \<Longrightarrow> dec bs e i = Some (j, x) \<Longrightarrow> dec_all bs e j = Inr xs \<Longrightarrow>
      dec_all bs e i = Inr (x # xs)"
    and dec_all_done: "dec_all bs e e = Inr []"
begin

lemma dec_all_concat:
  "list_all wf xs \<Longrightarrow> e = length pre + length (concat (map enc xs)) \<Longrightarrow>
     dec_all (pre @ concat (map enc xs) @ post) e (length pre) = Inr xs"
proof (induction xs arbitrary: pre)
  case Nil
  then show ?case by (simp add: dec_all_done)
next
  case (Cons x xs)
  let ?bs = "pre @ concat (map enc (x # xs)) @ post"
  have "dec ?bs e (length pre) = Some (length pre + length (enc x), x)"
    using Cons.prems dec_enc [of x pre e "concat (map enc xs) @ post"] by simp
  moreover have "dec_all ?bs e (length pre + length (enc x)) = Inr xs"
    using Cons.prems Cons.IH [of "pre @ enc x"] by simp
  moreover have "length pre < e"
    using Cons.prems enc_nonempty [of x] by (cases "enc x") auto
  ultimately show ?case by (rule dec_all_step [rotated 1])
qed

lemma concat_enc_injective:
  "list_all wf xs \<Longrightarrow> list_all wf ys \<Longrightarrow> concat (map enc xs) = concat (map enc ys) \<Longrightarrow> xs = ys"
  using dec_all_concat [of xs _ "[]" "[]"] dec_all_concat [of ys _ "[]" "[]"] by simp

end

subsection \<open>Machines with an invariant\<close>

text \<open>A component driven by a sequence of calls is a step function on its state.  \<open>run_ok\<close> says
  that every call of a sequence is made when its caller's obligation \<open>allowed\<close> holds.\<close>

fun run_ok :: "('e \<Rightarrow> 's \<Rightarrow> bool) \<Rightarrow> ('e \<Rightarrow> 's \<Rightarrow> 's) \<Rightarrow> 'e list \<Rightarrow> 's \<Rightarrow> bool" where
  "run_ok allowed step [] s = True"
| "run_ok allowed step (e # es) s = (allowed e s \<and> run_ok allowed step es (step e s))"

locale machine =
  fixes step :: "'e \<Rightarrow> 's \<Rightarrow> 's"
    and allowed :: "'e \<Rightarrow> 's \<Rightarrow> bool"
    and inv :: "'s \<Rightarrow> bool"
  assumes step_inv: "inv s \<Longrightarrow> allowed e s \<Longrightarrow> inv (step e s)"
begin

lemma run_inv: "run_ok allowed step es s \<Longrightarrow> inv s \<Longrightarrow> inv (fold step es s)"
  by (induction es arbitrary: s) (auto intro: step_inv)

lemma run_prefix_inv:
  "run_ok allowed step (es @ e # es') s \<Longrightarrow> inv s \<Longrightarrow>
     inv (fold step es s) \<and> allowed e (fold step es s)"
  by (induction es arbitrary: s) (auto intro: step_inv)

end

lemma run_ok_always [simp]: "run_ok (\<lambda>_ _. True) step es s"
  by (induction es arbitrary: s) auto

end
