(* ===== verification/Ber.thy ===== *)
theory Ber
  imports Prelude
begin

text \<open>
  ASN.1 BER as the protocol stack uses it (\<open>src/asn1/ber.cpp\<close>,
  \<open>src/asn1/ber_span_reader.cpp\<close>, \<open>include/ariec61850/asn1/ber_span_writer.hpp\<close>):
  definite-length TLVs with low and high tag numbers, the primitive integer codecs, and the
  allocation-free span reader and writer.  Main results: reading back what was written, agreement
  of the owning and the span reader, minimality-independent integer round trips, and that the
  children loop always terminates.
\<close>

subsection \<open>Tags\<close>

datatype ber_class = Universal | Application | Context_specific | Private_class

fun ber_class_code :: "ber_class \<Rightarrow> u8" where
  "ber_class_code Universal = 0"
| "ber_class_code Application = 1"
| "ber_class_code Context_specific = 2"
| "ber_class_code Private_class = 3"

definition ber_class_of :: "u8 \<Rightarrow> ber_class" where
  "ber_class_of w = (if w = 0 then Universal else if w = 1 then Application
     else if w = 2 then Context_specific else Private_class)"

record ber_tlv =
  encoded_tag :: u8
  tag_class :: ber_class
  constructed :: bool
  tag_number :: int
  tlv_value :: bytes

subsection \<open>Reader\<close>

text \<open>A failed read leaves the advanced offset on the left; a successful one returns the new
  offset and the element.\<close>

definition ber_next_tag :: "int \<Rightarrow> u8 \<Rightarrow> int" where
  "ber_next_tag t b = sint (push_bit 7 (word_of_int t :: u32) OR ucast (b AND 0x7F))"

function ber_read_high_tag :: "bytes \<Rightarrow> nat \<Rightarrow> int \<Rightarrow> nat + nat \<times> int" where
  "ber_read_high_tag src off t =
     (if off < length src then
        let b = src ! off in
        if t > 7812 then Inl (Suc off)
        else let t' = ber_next_tag t b in
          if t' > 1000000 then Inl (Suc off)
          else if b AND 0x80 = 0 then Inr (Suc off, t')
          else ber_read_high_tag src (Suc off) t'
      else Inl off)"
  by pat_completeness auto
termination
  by (relation "measure (\<lambda>(src, off, t). length src - off)") auto

declare ber_read_high_tag.simps [simp del]

definition ber_read_tag :: "bytes \<Rightarrow> nat \<Rightarrow> nat + nat \<times> int" where
  "ber_read_tag src off =
     (let t = uint (src ! off AND 0x1F) in
      if t = 0x1F then ber_read_high_tag src (Suc off) 0 else Inr (Suc off, t))"

definition ber_read_length :: "bytes \<Rightarrow> nat \<Rightarrow> nat + nat \<times> nat" where
  "ber_read_length src off =
     (let lb = src ! off; off1 = Suc off in
      if lb AND 0x80 = 0 then Inr (off1, unat lb)
      else let n = unat (lb AND 0x7F) in
        if n = 0 \<or> n > 4 \<or> off1 + n > length src then Inl off1
        else Inr (off1 + n, unat (be_value (take n (drop off1 src)) :: u64)))"

definition ber_try_read_tlv :: "bytes \<Rightarrow> nat \<Rightarrow> nat + nat \<times> ber_tlv" where
  "ber_try_read_tlv src off =
     (if off \<ge> length src then Inl off
      else let et = src ! off in
        bindE (ber_read_tag src off) (\<lambda>(off1, t).
        if off1 \<ge> length src then Inl off1
        else bindE (ber_read_length src off1) (\<lambda>(off2, len).
          if len > length src - off2 then Inl off2
          else Inr (off2 + len,
            \<lparr>encoded_tag = et, tag_class = ber_class_of (drop_bit 6 et AND 0x03),
             constructed = (et AND 0x20 \<noteq> 0), tag_number = t,
             tlv_value = take len (drop off2 src)\<rparr>))))"

lemma ber_read_high_tag_progress:
  "ber_read_high_tag src off t = Inr (off', t') \<Longrightarrow> off < off' \<and> off' \<le> length src"
proof (induction src off t rule: ber_read_high_tag.induct)
  case (1 src off t)
  show ?case
    using "1.prems" "1.IH" [of "src ! off" "ber_next_tag t (src ! off)"]
    by (subst (asm) ber_read_high_tag.simps) (auto simp: Let_def split: if_splits)
qed

lemma ber_read_tag_progress:
  "ber_read_tag src off = Inr (off', t) \<Longrightarrow> off < length src \<Longrightarrow> off < off' \<and> off' \<le> length src"
  by (auto simp: ber_read_tag_def Let_def split: if_splits dest: ber_read_high_tag_progress)

lemma ber_read_length_progress:
  "ber_read_length src off = Inr (off', n) \<Longrightarrow> off < length src \<Longrightarrow> off < off' \<and> off' \<le> length src"
  by (auto simp: ber_read_length_def Let_def split: if_splits)

lemma ber_try_read_tlv_progress:
  assumes "ber_try_read_tlv src off = Inr (off', tlv)"
  shows "off + 2 \<le> off'" "off' \<le> length src" "off + 2 + length (tlv_value tlv) \<le> off'"
  using assms ber_read_tag_progress ber_read_length_progress
  by (fastforce simp: ber_try_read_tlv_def Let_def bindE_Inr_iff split: if_splits)+

function ber_read_children_from :: "bytes \<Rightarrow> nat \<Rightarrow> ber_tlv list result" where
  "ber_read_children_from src off =
     (if off < length src then
        (case ber_try_read_tlv src off of
           Inl _ \<Rightarrow> Inl (Ber_format_error off)
         | Inr (off', tlv) \<Rightarrow>
             bindE (ber_read_children_from src off') (\<lambda>tlvs. Inr (tlv # tlvs)))
      else Inr [])"
  by pat_completeness auto
termination
proof (relation "measure (\<lambda>(src, off). length src - off)")
  fix src off x p off' tlv
  assume "off < length src" "ber_try_read_tlv src off = Inr x" "(off', tlv) = x"
  then show "((src, off'), src, off) \<in> measure (\<lambda>(src, off). length src - off)"
    using ber_try_read_tlv_progress [of src off off' tlv] by auto
qed auto

declare ber_read_children_from.simps [simp del]

definition ber_read_children :: "bytes \<Rightarrow> ber_tlv list result" where
  "ber_read_children src = ber_read_children_from src 0"

text \<open>Primitive value readers.  \<open>std::string\<close> contents are octets, kept as characters.\<close>

definition ascii_of_bytes :: "bytes \<Rightarrow> string" where
  "ascii_of_bytes bs = map (\<lambda>b. char_of (unat b)) bs"

definition ber_read_ascii_string :: "ber_tlv \<Rightarrow> string" where
  "ber_read_ascii_string tlv = ascii_of_bytes (tlv_value tlv)"

definition ber_read_boolean :: "ber_tlv \<Rightarrow> bool option" where
  "ber_read_boolean tlv =
     (if length (tlv_value tlv) \<noteq> 1 then None else Some (tlv_value tlv ! 0 \<noteq> 0))"

definition ber_read_unsigned_integer :: "ber_tlv \<Rightarrow> u64 option" where
  "ber_read_unsigned_integer tlv =
     (if length (tlv_value tlv) > 8 then None else Some (be_value (tlv_value tlv)))"

text \<open>\<open>std::int64_t\<close> results are kept as their two's complement word (\<open>std::bit_cast\<close>).\<close>

definition ber_read_signed_integer :: "ber_tlv \<Rightarrow> u64 option" where
  "ber_read_signed_integer tlv =
     (let bs = tlv_value tlv in
      if bs = [] then Some 0
      else if length bs > 8 then None
      else let raw = be_value bs in
        if hd bs AND 0x80 \<noteq> 0 \<and> length bs < 8
        then Some (raw OR push_bit (length bs * 8) (NOT 0))
        else Some raw)"

definition ber_read_uint16 :: "ber_tlv \<Rightarrow> u16 option" where
  "ber_read_uint16 tlv = (case ber_read_unsigned_integer tlv of None \<Rightarrow> None
     | Some v \<Rightarrow> if v > 0xFFFF then None else Some (ucast v))"

definition ber_read_uint32 :: "ber_tlv \<Rightarrow> u32 option" where
  "ber_read_uint32 tlv = (case ber_read_unsigned_integer tlv of None \<Rightarrow> None
     | Some v \<Rightarrow> if v > 0xFFFFFFFF then None else Some (ucast v))"

definition ber_read_uint32_big_endian :: "bytes \<Rightarrow> u32 result" where
  "ber_read_uint32_big_endian src =
     (if length src \<noteq> 4
      then Inl (Invalid_argument ''A 32-bit integer requires exactly four bytes.'')
      else Inr (push_bit 24 (ucast (src ! 0)) OR push_bit 16 (ucast (src ! 1))
                OR push_bit 8 (ucast (src ! 2)) OR ucast (src ! 3)))"

subsection \<open>Writer\<close>

text \<open>The writer's buffer only grows by appending; each operation is modelled by the octets it
  appends, or the exception it throws.\<close>

definition ber_identifier_octet :: "ber_class \<Rightarrow> bool \<Rightarrow> u32 \<Rightarrow> u8" where
  "ber_identifier_octet cls c low =
     ucast (push_bit 6 (ucast (ber_class_code cls)) OR (if c then 0x20 else 0) OR low :: u32)"

definition ber_encode_identifier :: "ber_class \<Rightarrow> bool \<Rightarrow> int \<Rightarrow> u8 result" where
  "ber_encode_identifier cls c t =
     (if t < 0 \<or> t > 30
      then Inl (Out_of_range ''Use write_tlv/encode_tlv for high-tag-number BER identifiers.'')
      else Inr (ber_identifier_octet cls c (word_of_int t)))"

text \<open>The seven-bit groups of a high tag number, least significant first (the \<open>do .. while\<close>
  loop), and their emission in reverse order with the continuation bit on all but the last.\<close>

function ber_tag_groups :: "nat \<Rightarrow> u32 \<Rightarrow> bytes result" where
  "ber_tag_groups count r =
     (if count \<ge> 5 then Inl (Out_of_range ''BER tag number is too large.'')
      else let g = ucast (r AND 0x7F); r' = drop_bit 7 r in
        if r' > 0 then bindE (ber_tag_groups (Suc count) r') (\<lambda>gs. Inr (g # gs))
        else Inr [g])"
  by pat_completeness auto
termination
  by (relation "measure (\<lambda>(count, r). 5 - count)") auto

declare ber_tag_groups.simps [simp del]

fun ber_emit_groups :: "bytes \<Rightarrow> bytes" where
  "ber_emit_groups [] = []"
| "ber_emit_groups (g # gs) = map (\<lambda>h. h OR 0x80) (rev gs) @ [g]"

definition ber_write_identifier :: "ber_class \<Rightarrow> bool \<Rightarrow> int \<Rightarrow> bytes result" where
  "ber_write_identifier cls c t =
     (if t < 0 then Inl (Out_of_range ''BER tag number cannot be negative.'')
      else if t \<le> 30 then bindE (ber_encode_identifier cls c t) (\<lambda>octet. Inr [octet])
      else bindE (ber_tag_groups 0 (word_of_int t)) (\<lambda>gs.
        Inr (ber_identifier_octet cls c 0x1F # ber_emit_groups gs)))"

fun ber_strip_zeros :: "bytes \<Rightarrow> bytes" where
  "ber_strip_zeros (b # c # bs) = (if b = 0 then ber_strip_zeros (c # bs) else b # c # bs)"
| "ber_strip_zeros bs = bs"

definition ber_write_length :: "nat \<Rightarrow> bytes result" where
  "ber_write_length n =
     (if n < 0x80 then Inr [of_nat n]
      else if n > 0xFFFFFFFF
      then Inl (Out_of_range ''BER length exceeds the supported 32-bit range.'')
      else let bs = ber_strip_zeros (be_bytes 4 (of_nat n :: u32))
           in Inr ((0x80 OR of_nat (length bs)) # bs))"

definition ber_encode_tlv :: "ber_class \<Rightarrow> bool \<Rightarrow> int \<Rightarrow> bytes \<Rightarrow> bytes result" where
  "ber_encode_tlv cls c t v =
     bindE (ber_write_identifier cls c t) (\<lambda>ident.
     bindE (ber_write_length (length v)) (\<lambda>len. Inr (ident @ len @ v)))"

definition ber_encode_tlv_octet :: "u8 \<Rightarrow> bytes \<Rightarrow> bytes result" where
  "ber_encode_tlv_octet et v = bindE (ber_write_length (length v)) (\<lambda>len. Inr (et # len @ v))"

definition ber_encode_ascii :: "string \<Rightarrow> bytes" where
  "ber_encode_ascii s = map of_char s"

definition ber_encode_boolean :: "bool \<Rightarrow> bytes" where
  "ber_encode_boolean b = [if b then 0x01 else 0x00]"

definition ber_encode_unsigned_integer :: "u64 \<Rightarrow> bytes" where
  "ber_encode_unsigned_integer v = ber_strip_zeros (be_bytes 8 v)"

fun ber_strip_sign :: "bytes \<Rightarrow> bytes" where
  "ber_strip_sign (b # c # bs) =
     (if (b = 0x00 \<and> c AND 0x80 = 0) \<or> (b = 0xFF \<and> c AND 0x80 \<noteq> 0)
      then ber_strip_sign (c # bs) else b # c # bs)"
| "ber_strip_sign bs = bs"

definition ber_encode_signed_integer :: "u64 \<Rightarrow> bytes" where
  "ber_encode_signed_integer raw = ber_strip_sign (be_bytes 8 raw)"

text \<open>A \<open>float\<close> is its IEEE bit pattern (\<open>std::bit_cast\<close>).\<close>

definition ber_encode_single_precision_float :: "u32 \<Rightarrow> bytes" where
  "ber_encode_single_precision_float raw = 0x08 # be_bytes 4 raw"

subsection \<open>Integer round trips\<close>

lemma ber_strip_zeros_be_value [simp]: "be_value (ber_strip_zeros bs) = be_value bs"
  by (induction bs rule: ber_strip_zeros.induct) auto

lemma ber_strip_zeros_length: "length (ber_strip_zeros bs) \<le> length bs"
  by (induction bs rule: ber_strip_zeros.induct) auto

lemma ber_strip_zeros_nonempty: "bs \<noteq> [] \<Longrightarrow> ber_strip_zeros bs \<noteq> []"
  by (induction bs rule: ber_strip_zeros.induct) auto

lemma ber_read_unsigned_encode [simp]:
  "tlv_value tlv = ber_encode_unsigned_integer v \<Longrightarrow> ber_read_unsigned_integer tlv = Some v"
  using ber_strip_zeros_length [of "be_bytes 8 v"]
  by (simp add: ber_read_unsigned_integer_def ber_encode_unsigned_integer_def be_value_be_bytes)

lemma ber_read_uint32_encode [simp]:
  assumes "tlv_value tlv = ber_encode_unsigned_integer (ucast (v :: u32))"
  shows "ber_read_uint32 tlv = Some v"
proof -
  have "(ucast v :: u64) \<le> 0xFFFFFFFF"
    using unat_less_exp [of v] by (simp add: word_le_nat_alt unat_ucast_widen)
  then show ?thesis using assms by (simp add: ber_read_uint32_def ucast_ucast_narrow not_less)
qed

lemma ber_strip_sign_length: "length (ber_strip_sign bs) \<le> length bs"
  by (induction bs rule: ber_strip_sign.induct) auto

lemma ber_strip_sign_nonempty: "bs \<noteq> [] \<Longrightarrow> ber_strip_sign bs \<noteq> []"
  by (induction bs rule: ber_strip_sign.induct) auto

definition sign_extended :: "bytes \<Rightarrow> u64" where
  "sign_extended bs =
     (if hd bs AND 0x80 \<noteq> 0 \<and> length bs < 8
      then be_value bs OR push_bit (length bs * 8) (NOT 0) else be_value bs)"

lemma ber_read_signed_alt:
  "tlv_value tlv \<noteq> [] \<Longrightarrow> length (tlv_value tlv) \<le> 8 \<Longrightarrow>
     ber_read_signed_integer tlv = Some (sign_extended (tlv_value tlv))"
  by (auto simp: ber_read_signed_integer_def sign_extended_def Let_def)

lemma bit_sign_extended:
  assumes "bs \<noteq> []" "length bs \<le> 8" "k < 64"
  shows "bit (sign_extended bs) k \<longleftrightarrow>
    (if k < 8 * length bs then bit (rev bs ! (k div 8)) (k mod 8) else hd bs AND 0x80 \<noteq> 0)"
proof -
  have "bit (push_bit n (NOT 0) :: u64) k \<longleftrightarrow> n \<le> k" for n
    using assms(3) by (auto simp: bit_simps)
  then show ?thesis
    using assms by (simp add: sign_extended_def bit_be_value bit_or_iff mult.commute)
qed

lemma sign_extended_drop_ones:
  assumes "c AND 0x80 \<noteq> 0" "length bs + 2 \<le> 8"
  shows "sign_extended (0xFF # c # bs) = sign_extended (c # bs)"
proof (rule bit_word_eqI)
  fix k assume k: "k < LENGTH(64)"
  have hd: "(0xFF :: u8) AND 0x80 \<noteq> 0" by simp
  have ones: "bit (0xFF :: u8) (k mod 8)" by (simp only: bit_octet_ones)
  have nth: "(rev bs @ [c, 0xFF]) ! (k div 8) =
      (if k < 8 * Suc (length bs) then (rev bs @ [c]) ! (k div 8) else 0xFF)"
    if "k < 8 * Suc (Suc (length bs))"
  proof (cases "k < 8 * Suc (length bs)")
    case True
    then have "k div 8 < Suc (length bs)" by arith
    with True show ?thesis by (simp add: nth_append)
  next
    case False
    with that have "k div 8 = Suc (length bs)" by (intro div_nat_eqI) auto
    with False show ?thesis by (simp add: nth_append)
  qed
  show "bit (sign_extended (0xFF # c # bs)) k = bit (sign_extended (c # bs)) k"
    using assms k hd nth ones by (auto simp: bit_sign_extended)
qed

lemma sign_extended_strip: "bs \<noteq> [] \<Longrightarrow> length bs \<le> 8 \<Longrightarrow> sign_extended (ber_strip_sign bs) = sign_extended bs"
proof (induction bs rule: ber_strip_sign.induct)
  case (1 b c bs)
  show ?case
  proof (cases "(b = 0x00 \<and> c AND 0x80 = 0) \<or> (b = 0xFF \<and> c AND 0x80 \<noteq> 0)")
    case True
    then have "sign_extended (b # c # bs) = sign_extended (c # bs)"
      using "1.prems" sign_extended_drop_ones [of c bs] by (auto simp: sign_extended_def)
    with 1 True show ?thesis by auto
  qed auto
qed auto

lemma be_bytes_nonempty [simp]: "0 < n \<Longrightarrow> be_bytes n v \<noteq> []"
  by (metis length_be_bytes length_greater_0_conv)

lemma ber_read_signed_encode [simp]:
  assumes "tlv_value tlv = ber_encode_signed_integer v"
  shows "ber_read_signed_integer tlv = Some v"
proof -
  have "length (ber_strip_sign (be_bytes 8 v)) \<le> 8" "ber_strip_sign (be_bytes 8 v) \<noteq> []"
    using ber_strip_sign_length [of "be_bytes 8 v"] ber_strip_sign_nonempty [of "be_bytes 8 v"]
    by simp_all
  moreover have "sign_extended (ber_strip_sign (be_bytes 8 v)) = v"
    by (simp add: sign_extended_strip) (simp add: sign_extended_def be_value_be_bytes)
  ultimately show ?thesis
    using assms by (simp add: ber_read_signed_alt ber_encode_signed_integer_def)
qed

lemma ascii_of_encode [simp]: "ascii_of_bytes (ber_encode_ascii s) = s"
proof -
  have "char_of (unat (of_char c :: u8)) = c" for c
    by (simp only: unat_of_char_u8 char_of_char)
  then show ?thesis by (simp add: ascii_of_bytes_def ber_encode_ascii_def map_idI)
qed

lemma ber_read_boolean_encode [simp]:
  "tlv_value tlv = ber_encode_boolean b \<Longrightarrow> ber_read_boolean tlv = Some b"
  by (simp add: ber_read_boolean_def ber_encode_boolean_def)

subsection \<open>TLV round trip\<close>

text \<open>Seven-bit groups: the reader's accumulation is exact below the tag limit.\<close>

lemma low7_take_bit: "(b :: u8) AND 0x7F = take_bit 7 b" "(r :: u32) AND 0x7F = take_bit 7 r"
  by (simp_all add: take_bit_eq_mask mask_eq_exp_minus_1)

lemma uint_low7_less: "uint (take_bit 7 (b :: 'a::len word)) < 128"
  using take_bit_int_less_exp [of 7 "uint b"] by (simp add: unsigned_take_bit_eq)

lemma sint_of_small_int: "- (2 ^ 31) \<le> k \<Longrightarrow> k < 2 ^ 31 \<Longrightarrow> sint (word_of_int k :: u32) = k"
  by (simp add: signed_of_int signed_take_bit_int_eq_self)

lemma uint_drop_bit_7: "uint (drop_bit 7 (r :: u32)) = uint r div 128"
  by (simp add: drop_bit_eq_div uint_div_distrib)

lemma ber_next_tag_exact:
  assumes "0 \<le> t" "t \<le> 7812"
  shows "ber_next_tag t b = t * 128 + uint (take_bit 7 b)"
proof -
  let ?g = "take_bit 7 b" and ?k = "t * 128 + uint (take_bit 7 b)"
  have "push_bit 7 (word_of_int t) OR (ucast ?g :: u32) = push_bit 7 (word_of_int t) + ucast ?g"
    by (rule disjunctive_add [symmetric]) (auto simp: bit_simps)
  also have "... = word_of_int ?k"
    by (simp add: push_bit_eq_mult)
  finally have "ber_next_tag t b = sint (word_of_int ?k :: u32)"
    by (simp add: ber_next_tag_def low7_take_bit)
  moreover have "- (2 ^ 31) \<le> ?k" "?k < 2 ^ 31"
    using assms uint_low7_less [of b] uint_nonnegative [of "take_bit 7 b"]
    by (auto intro: order_trans [of _ 0])
  ultimately show ?thesis by (simp only: sint_of_small_int)
qed

definition tag_horner :: "int \<Rightarrow> bytes \<Rightarrow> int" where
  "tag_horner acc ds = foldl (\<lambda>a d. a * 128 + uint d) acc ds"

lemma tag_horner_simps [simp]:
  "tag_horner acc [] = acc"
  "tag_horner acc (d # ds) = tag_horner (acc * 128 + uint d) ds"
  "tag_horner acc (ds @ [d]) = tag_horner acc ds * 128 + uint d"
  by (simp_all add: tag_horner_def)

lemma tag_horner_mono: "0 \<le> acc \<Longrightarrow> acc \<le> tag_horner acc ds"
proof (induction ds arbitrary: acc)
  case (Cons d ds)
  have "acc \<le> acc * 128 + uint d" using Cons.prems by simp
  also have "... \<le> tag_horner (acc * 128 + uint d) ds" using Cons by simp
  finally show ?case by simp
qed simp

lemma group_octet:
  assumes "uint (d :: u8) < 128"
  shows "take_bit 7 (d OR 0x80) = d" "(d OR 0x80) AND 0x80 \<noteq> 0" "take_bit 7 d = d" "d AND 0x80 = 0"
proof -
  show seven: "take_bit 7 d = d"
    using assms by (intro word_uint_eqI) (simp add: unsigned_take_bit_eq take_bit_int_eq_self)
  have small: "n < 7" if "bit d n" for n
    using that by (subst (asm) seven [symmetric]) (simp add: bit_take_bit_iff)
  have top: "bit (0x80 :: u8) n \<longleftrightarrow> n = 7" for n
    using bit_exp_iff [of 7 n, where 'a = u8] by auto
  have "bit ((d OR 0x80) AND 0x80) 7" by (simp only: bit_or_iff bit_and_iff top simp_thms)
  then show "(d OR 0x80) AND 0x80 \<noteq> 0" by auto
  show "take_bit 7 (d OR 0x80) = d"
    using small top by (auto intro!: bit_word_eqI simp only: bit_take_bit_iff bit_or_iff)
  have "\<not> bit (d AND 0x80) n" for n
    using small [of n] top [of n] by (auto simp only: bit_and_iff)
  then show "d AND 0x80 = 0" by (auto intro: bit_word_eqI)
qed

lemma ber_tag_groups_value:
  "ber_tag_groups count r = Inr gs \<Longrightarrow>
     gs \<noteq> [] \<and> (\<forall>g \<in> set gs. uint g < 128) \<and> tag_horner 0 (rev gs) = uint r"
proof (induction count r arbitrary: gs rule: ber_tag_groups.induct)
  case (1 count r)
  have g: "uint (ucast (take_bit 7 r) :: u8) = uint r mod 128"
    by (simp add: unsigned_ucast_eq unsigned_take_bit_eq)
      (simp add: take_bit_eq_mod)
  have z: "uint r < 128" if "drop_bit 7 r = 0"
  proof -
    have "uint r div 128 = 0" using that uint_drop_bit_7 [of r] by simp
    then show ?thesis by linarith
  qed
  show ?case
    using "1.prems" "1.IH" [of "ucast (r AND 0x7F)" "drop_bit 7 r"]
    by (subst (asm) ber_tag_groups.simps)
      (auto simp: Let_def bindE_Inr_iff low7_take_bit g z uint_drop_bit_7 word_gt_0 split: if_splits)
qed

lemma ber_tag_groups_total:
  "uint r < 128 ^ (5 - count) \<Longrightarrow> count < 5 \<Longrightarrow> \<exists>gs. ber_tag_groups count r = Inr gs"
proof (induction count r rule: ber_tag_groups.induct)
  case (1 count r)
  have "(128 :: int) ^ (5 - count) = 128 * 128 ^ (5 - Suc count)"
    using "1.prems"(2) by (simp add: Suc_diff_Suc flip: power_Suc)
  then have small: "uint (drop_bit 7 r) < 128 ^ (5 - Suc count)"
    using "1.prems"(1) by (simp only: uint_drop_bit_7)
  show ?case
  proof (cases "drop_bit 7 r > 0")
    case True
    have "uint (drop_bit 7 r) \<noteq> 0" using True by (simp add: word_gt_0 unsigned_eq_0_iff)
    then have "1 \<le> uint (drop_bit 7 r)" using uint_nonnegative [of "drop_bit 7 r"] by linarith
    then have "Suc count < 5"
      using small "1.prems"(2) by (cases "Suc count < 5") auto
    with True small "1.IH" [OF _ refl refl True] "1.prems" show ?thesis
      by (subst ber_tag_groups.simps) (auto simp: Let_def)
  next
    case False
    with "1.prems" show ?thesis by (subst ber_tag_groups.simps) (simp add: Let_def)
  qed
qed

lemma ber_read_high_tag_emit:
  assumes "\<forall>d \<in> set ds. uint d < 128" "uint g < 128" "0 \<le> acc" "tag_horner acc (ds @ [g]) \<le> 1000000"
  shows "ber_read_high_tag (pre @ map (\<lambda>h. h OR 0x80) ds @ g # post) (length pre) acc =
    Inr (length pre + length ds + 1, tag_horner acc (ds @ [g]))"
  using assms
proof (induction ds arbitrary: pre acc)
  case Nil
  then have "acc * 128 + uint g \<le> 1000000" by simp
  then have "acc \<le> 7812" using uint_nonnegative [of g] by linarith
  with Nil show ?case
    by (subst ber_read_high_tag.simps) (simp add: group_octet ber_next_tag_exact)
next
  case (Cons d ds)
  let ?acc = "acc * 128 + uint d"
  have "?acc \<le> 1000000" "0 \<le> ?acc"
    using tag_horner_mono [of ?acc "ds @ [g]"] Cons.prems by auto
  moreover have "acc \<le> 7812"
    using \<open>?acc \<le> 1000000\<close> uint_nonnegative [of d] by linarith
  ultimately show ?case
    using Cons.prems Cons.IH [of ?acc "pre @ [d OR 0x80]"]
    by (subst ber_read_high_tag.simps) (simp add: group_octet ber_next_tag_exact)
qed

text \<open>The identifier octet: class, constructed bit and low tag bits do not overlap.\<close>

lemma ber_identifier_octet_table:
  "\<forall>m \<in> set [0..<32]. \<forall>cls \<in> set [Universal, Application, Context_specific, Private_class].
     \<forall>c \<in> set [False, True].
       (let o1 = ber_identifier_octet cls c (of_nat m) in
        ber_class_of (drop_bit 6 o1 AND 0x03) = cls \<and> (o1 AND 0x20 \<noteq> 0) = c \<and>
        unat (o1 AND 0x1F) = m)"
  by code_simp

lemma ber_identifier_octet_fields:
  assumes "m < 32"
  shows "ber_class_of (drop_bit 6 (ber_identifier_octet cls c (of_nat m)) AND 0x03) = cls"
    "(ber_identifier_octet cls c (of_nat m) AND 0x20 \<noteq> 0) = c"
    "unat (ber_identifier_octet cls c (of_nat m) AND 0x1F) = m"
  using ber_identifier_octet_table assms by (cases cls; cases c; force simp: Let_def)+

definition ber_first_octet :: "ber_class \<Rightarrow> bool \<Rightarrow> int \<Rightarrow> u8" where
  "ber_first_octet cls c t = ber_identifier_octet cls c (if t \<le> 30 then word_of_int t else 0x1F)"

lemma ber_write_identifier_read:
  assumes "0 \<le> t" "t \<le> 1000000"
  shows "\<exists>ident. ber_write_identifier cls c t = Inr ident \<and> ident \<noteq> [] \<and> hd ident = ber_first_octet cls c t \<and>
    ber_read_tag (pre @ ident @ post) (length pre) = Inr (length pre + length ident, t)"
proof (cases "t \<le> 30")
  case True
  then have t: "word_of_int t = (of_nat (nat t) :: u32)" "nat t < 32" using assms by auto
  have "uint (ber_identifier_octet cls c (of_nat (nat t)) AND 0x1F) = t"
    using ber_identifier_octet_fields(3) [OF t(2), of cls c] assms
    by (simp add: uint_nat)
  with True assms t(1) show ?thesis
    by (auto simp: ber_write_identifier_def ber_encode_identifier_def ber_first_octet_def
        ber_read_tag_def)
next
  case False
  have u: "uint (word_of_int t :: u32) = t"
    using assms by (simp add: unsigned_of_int take_bit_int_eq_self)
  obtain gs where gs: "ber_tag_groups 0 (word_of_int t) = Inr gs"
    using ber_tag_groups_total [of "word_of_int t" 0] u assms by auto
  then obtain g ds where g: "gs = g # rev ds"
    using ber_tag_groups_value by (metis neq_Nil_conv rev_rev_ident)
  have val: "\<forall>d \<in> set ds. uint d < 128" "uint g < 128" "tag_horner 0 (ds @ [g]) = t"
    using ber_tag_groups_value [OF gs] g u by auto
  have "unat (ber_identifier_octet cls c (of_nat 31) AND 0x1F) = 31"
    by (rule ber_identifier_octet_fields) simp
  then have low: "uint (ber_identifier_octet cls c 0x1F AND 0x1F) = 31"
    by (simp add: uint_nat)
  have "ber_read_high_tag ((pre @ [ber_identifier_octet cls c 0x1F]) @ map (\<lambda>h. h OR 0x80) ds @ g # post)
      (Suc (length pre)) 0 = Inr (Suc (length pre) + length ds + 1, t)"
    using ber_read_high_tag_emit [of ds g 0 "pre @ [ber_identifier_octet cls c 0x1F]" post] val assms
    by simp
  with False assms gs g low show ?thesis
    by (auto simp: ber_write_identifier_def ber_first_octet_def ber_read_tag_def nth_append)
qed

lemma ber_write_length_read:
  assumes "n \<le> 0xFFFFFFFF"
  shows "\<exists>lbs. ber_write_length n = Inr lbs \<and> lbs \<noteq> [] \<and>
    ber_read_length (pre @ lbs @ post) (length pre) = Inr (length pre + length lbs, n)"
proof (cases "n < 0x80")
  case True
  then have "unat (of_nat n :: u8) = n" by (simp add: unat_of_nat)
  moreover from this True have "(of_nat n :: u8) AND 0x80 = 0"
    by (intro group_octet) (simp add: uint_nat)
  ultimately show ?thesis using True
    by (simp add: ber_write_length_def ber_read_length_def)
next
  case False
  define bs where "bs = ber_strip_zeros (be_bytes 4 (of_nat n :: u32))"
  have len: "bs \<noteq> []" "length bs \<le> 4"
    using ber_strip_zeros_length [of "be_bytes 4 (of_nat n :: u32)"]
      ber_strip_zeros_nonempty [of "be_bytes 4 (of_nat n :: u32)"] by (auto simp: bs_def)
  have k: "unat (of_nat (length bs) :: u8) = length bs" using len by (simp add: unat_of_nat)
  have small: "uint (of_nat (length bs) :: u8) < 128" using len by (simp add: uint_nat k)
  have lb: "(0x80 OR of_nat (length bs) :: u8) AND 0x80 \<noteq> 0"
    "unat ((0x80 OR of_nat (length bs) :: u8) AND 0x7F) = length bs"
    using group_octet [OF small] k by (simp_all add: low7_take_bit or.commute)
  have "unat (be_value bs :: u64) = unat (ucast (of_nat n :: u32) :: u64)"
    by (simp add: bs_def be_value_be_bytes)
  also have "... = n" using assms by (simp add: unat_ucast_widen unat_of_nat)
  finally have "unat (be_value bs :: u64) = n" .
  with False assms len lb show ?thesis
    by (auto simp: ber_write_length_def ber_read_length_def Let_def bs_def [symmetric])
qed

definition tlv_wf :: "ber_tlv \<Rightarrow> bool" where
  "tlv_wf tlv \<longleftrightarrow> 0 \<le> tag_number tlv \<and> tag_number tlv \<le> 1000000 \<and>
     length (tlv_value tlv) \<le> 0xFFFFFFFF \<and>
     encoded_tag tlv = ber_first_octet (tag_class tlv) (constructed tlv) (tag_number tlv)"

definition tlv_of :: "ber_class \<Rightarrow> bool \<Rightarrow> int \<Rightarrow> bytes \<Rightarrow> ber_tlv" where
  "tlv_of cls c t v = \<lparr>encoded_tag = ber_first_octet cls c t, tag_class = cls, constructed = c,
     tag_number = t, tlv_value = v\<rparr>"

lemma tlv_of_simps [simp]:
  "tag_class (tlv_of cls c t v) = cls" "constructed (tlv_of cls c t v) = c"
  "tag_number (tlv_of cls c t v) = t" "tlv_value (tlv_of cls c t v) = v"
  "encoded_tag (tlv_of cls c t v) = ber_first_octet cls c t"
  by (simp_all add: tlv_of_def)

lemma ber_first_octet_fields:
  assumes "0 \<le> t"
  shows "ber_class_of (drop_bit 6 (ber_first_octet cls c t) AND 0x03) = cls"
    "(ber_first_octet cls c t AND 0x20 \<noteq> 0) = c"
proof -
  define m where "m = (if t \<le> 30 then nat t else 31)"
  have "m < 32" by (auto simp: m_def)
  moreover have "ber_first_octet cls c t = ber_identifier_octet cls c (of_nat m)"
    using assms by (simp add: ber_first_octet_def m_def)
  ultimately show "ber_class_of (drop_bit 6 (ber_first_octet cls c t) AND 0x03) = cls"
    "(ber_first_octet cls c t AND 0x20 \<noteq> 0) = c"
    by (simp_all only: ber_identifier_octet_fields)
qed

lemma ber_tlv_read_back:
  assumes "0 \<le> t" "t \<le> 1000000" "length v \<le> 0xFFFFFFFF"
  shows "\<exists>enc. ber_encode_tlv cls c t v = Inr enc \<and> enc \<noteq> [] \<and>
    ber_try_read_tlv (pre @ enc @ post) (length pre) =
      Inr (length pre + length enc, tlv_of cls c t v)"
proof -
  obtain lbs where lbs: "ber_write_length (length v) = Inr lbs" "lbs \<noteq> []"
    using ber_write_length_read [OF assms(3), of "[]" "[]"] by blast
  obtain ident where ident: "ber_write_identifier cls c t = Inr ident" "ident \<noteq> []"
      "hd ident = ber_first_octet cls c t"
      "ber_read_tag (pre @ ident @ (lbs @ v @ post)) (length pre) = Inr (length pre + length ident, t)"
    using ber_write_identifier_read [OF assms(1,2), of cls c pre "lbs @ v @ post"] by blast
  have len: "ber_read_length ((pre @ ident) @ lbs @ (v @ post)) (length (pre @ ident)) =
      Inr (length (pre @ ident) + length lbs, length v)"
    using ber_write_length_read [OF assms(3), of "pre @ ident" "v @ post"] lbs by auto
  let ?src = "pre @ ident @ lbs @ v @ post"
  have "?src ! length pre = hd ident"
    using ident(2) by (simp add: nth_append hd_conv_nth)
  then have "ber_try_read_tlv ?src (length pre) =
      Inr (length pre + length (ident @ lbs @ v), tlv_of cls c t v)"
    using ident len lbs ber_first_octet_fields [OF assms(1), of cls c]
    by (simp add: ber_try_read_tlv_def Let_def tlv_of_def)
  then show ?thesis
    using ident lbs by (auto simp: ber_encode_tlv_def)
qed

definition tlv_encoding :: "ber_tlv \<Rightarrow> bytes" where
  "tlv_encoding tlv =
     projr (ber_encode_tlv (tag_class tlv) (constructed tlv) (tag_number tlv) (tlv_value tlv))"

definition tlv_at :: "bytes \<Rightarrow> nat \<Rightarrow> nat \<Rightarrow> (nat \<times> ber_tlv) option" where
  "tlv_at bs e i = (case ber_try_read_tlv (take e bs) i of Inl _ \<Rightarrow> None | Inr r \<Rightarrow> Some r)"

lemma tlv_wf_eta: "tlv_wf tlv \<Longrightarrow>
    tlv_of (tag_class tlv) (constructed tlv) (tag_number tlv) (tlv_value tlv) = tlv"
  by (cases tlv) (simp add: tlv_wf_def tlv_of_def)

text \<open>The children loop implements the offset codec interface.\<close>

interpretation tlvs: offset_codec tlv_encoding tlv_at
  "\<lambda>bs e i. ber_read_children_from (take e bs) i" tlv_wf
proof
  fix x :: ber_tlv and pre post :: bytes and e
  assume wf: "tlv_wf x" and e: "length pre + length (tlv_encoding x) \<le> e"
    "e \<le> length (pre @ tlv_encoding x @ post)"
  have rb: "\<exists>enc. ber_encode_tlv (tag_class x) (constructed x) (tag_number x) (tlv_value x) = Inr enc \<and>
      enc \<noteq> [] \<and> ber_try_read_tlv (pre @ enc @ rest) (length pre) = Inr (length pre + length enc, x)"
    for rest
    using ber_tlv_read_back [of "tag_number x" "tlv_value x" "tag_class x" "constructed x" pre rest]
      wf tlv_wf_eta [OF wf] by (auto simp: tlv_wf_def)
  let ?rest = "take (e - length pre - length (tlv_encoding x)) post"
  have "take e (pre @ tlv_encoding x @ post) = pre @ tlv_encoding x @ ?rest"
    using e by simp
  moreover have "ber_try_read_tlv (pre @ tlv_encoding x @ ?rest) (length pre) =
      Inr (length pre + length (tlv_encoding x), x)"
    using rb [of ?rest] by (auto simp: tlv_encoding_def)
  ultimately show "tlv_at (pre @ tlv_encoding x @ post) e (length pre) =
      Some (length pre + length (tlv_encoding x), x)"
    by (simp only: tlv_at_def sum.case)
next
  fix x :: ber_tlv
  assume "tlv_wf x"
  then show "tlv_encoding x \<noteq> []"
    using ber_tlv_read_back [of "tag_number x" "tlv_value x" "tag_class x" "constructed x" "[]" "[]"]
    by (auto simp: tlv_wf_def tlv_encoding_def)
next
  fix bs :: bytes and e i j x xs
  assume "i < e" and rd: "tlv_at bs e i = Some (j, x)"
    and rest: "ber_read_children_from (take e bs) j = Inr xs"
  then have "ber_try_read_tlv (take e bs) i = Inr (j, x)"
    by (auto simp: tlv_at_def split: sum.splits)
  moreover from this have "i < length (take e bs)"
    by (auto simp: ber_try_read_tlv_def split: if_splits)
  ultimately show "ber_read_children_from (take e bs) i = Inr (x # xs)"
    using rest by (subst ber_read_children_from.simps) simp
next
  fix bs :: bytes and e
  show "ber_read_children_from (take e bs) e = Inr []"
    by (subst ber_read_children_from.simps) simp
qed

lemma ber_read_children_concat:
  "list_all tlv_wf xs \<Longrightarrow> ber_read_children (concat (map tlv_encoding xs)) = Inr xs"
  using tlvs.dec_all_concat [of xs _ "[]" "[]"] by (simp add: ber_read_children_def)

lemma ber_encode_tlv_encoding:
  "ber_encode_tlv cls c t v = Inr enc \<Longrightarrow> tlv_encoding (tlv_of cls c t v) = enc"
  by (simp add: tlv_encoding_def)

lemma ber_encode_tlv_Inr_bounds:
  assumes "ber_encode_tlv cls c t v = Inr enc"
  shows "0 \<le> t" "length v \<le> 0xFFFFFFFF" "length v < length enc"
  using assms by (auto simp: ber_encode_tlv_def bindE_Inr_iff ber_write_identifier_def
      ber_write_length_def Let_def split: if_splits)

lemma tlv_wf_of_encode:
  "ber_encode_tlv cls c t v = Inr enc \<Longrightarrow> t \<le> 1000000 \<Longrightarrow> tlv_wf (tlv_of cls c t v)"
  by (auto simp: tlv_wf_def dest: ber_encode_tlv_Inr_bounds)

text \<open>The header of a TLV takes at most eleven octets.\<close>

lemma ber_tag_groups_length: "ber_tag_groups count r = Inr gs \<Longrightarrow> length gs + count \<le> 5"
proof (induction count r arbitrary: gs rule: ber_tag_groups.induct)
  case (1 count r)
  show ?case
    using "1.prems" "1.IH" [of "ucast (r AND 0x7F)" "drop_bit 7 r"]
    by (subst (asm) ber_tag_groups.simps) (fastforce simp: Let_def bindE_Inr_iff split: if_splits)
qed

lemma ber_encode_tlv_total:
  assumes "0 \<le> t" "t \<le> 1000000" "length v \<le> 0xFFFFFFFF"
  obtains enc where "ber_encode_tlv cls c t v = Inr enc" "length enc \<le> length v + 11"
proof -
  obtain enc where enc: "ber_encode_tlv cls c t v = Inr enc"
    using ber_tlv_read_back [OF assms, of cls c "[]" "[]"] by blast
  then obtain ident lbs where w: "ber_write_identifier cls c t = Inr ident"
      "ber_write_length (length v) = Inr lbs" "enc = ident @ lbs @ v"
    by (auto simp: ber_encode_tlv_def bindE_Inr_iff)
  have "length (ber_emit_groups gs) = length gs" for gs by (cases gs) auto
  then have "length ident \<le> 6" using w(1)
    by (auto simp: ber_write_identifier_def bindE_Inr_iff dest: ber_tag_groups_length split: if_splits)
  moreover have "length lbs \<le> 5" using w(2) ber_strip_zeros_length [of "be_bytes 4 (of_nat (length v) :: u32)"]
    by (auto simp: ber_write_length_def Let_def split: if_splits)
  ultimately show ?thesis using that enc w(3) by simp
qed

lemma ber_encode_children:
  assumes "\<forall>(t, v) \<in> set es. 0 \<le> t \<and> t \<le> 1000000 \<and> length v \<le> 0xFFFFFFFF"
  shows "\<exists>encs. mapE (\<lambda>(t, v). ber_encode_tlv cls c t v) es = Inr encs \<and>
    ber_read_children (concat encs) = Inr (map (\<lambda>(t, v). tlv_of cls c t v) es)"
proof -
  let ?tlvs = "map (\<lambda>(t, v). tlv_of cls c t v) es"
  have "mapE (\<lambda>(t, v). ber_encode_tlv cls c t v) es = Inr (map tlv_encoding ?tlvs) \<and> list_all tlv_wf ?tlvs"
    using assms
  proof (induction es)
    case (Cons e es)
    obtain t v where e: "e = (t, v)" by fastforce
    obtain enc where "ber_encode_tlv cls c t v = Inr enc"
      using ber_encode_tlv_total [of t v cls c] Cons.prems e by auto
    with Cons e show ?case by (auto simp: ber_encode_tlv_encoding intro: tlv_wf_of_encode)
  qed simp
  then show ?thesis using ber_read_children_concat [of ?tlvs] by auto
qed

text \<open>A tag above the reader's limit is refused, however its groups are spread.\<close>

lemma ber_read_high_tag_refuses:
  assumes "\<forall>d \<in> set ds. uint d < 128" "uint g < 128" "0 \<le> acc" "1000000 < tag_horner acc (ds @ [g])"
  shows "\<exists>off. ber_read_high_tag (pre @ map (\<lambda>h. h OR 0x80) ds @ g # post) (length pre) acc = Inl off"
  using assms
proof (induction ds arbitrary: pre acc)
  case Nil
  then show ?case
    by (subst ber_read_high_tag.simps) (simp add: ber_next_tag_exact group_octet)
next
  case (Cons d ds)
  then show ?case
    using Cons.IH [of "acc * 128 + uint d" "pre @ [d OR 0x80]"]
    by (subst ber_read_high_tag.simps) (auto simp: ber_next_tag_exact group_octet Let_def)
qed

lemma ber_encode_high_tag:
  assumes "1000000 < t" "t < 2 ^ 31" "length v \<le> 0xFFFFFFFF"
  shows "\<exists>enc off. ber_encode_tlv cls c t v = Inr enc \<and> ber_try_read_tlv (enc @ post) 0 = Inl off"
proof -
  have u: "uint (word_of_int t :: u32) = t"
    using assms by (simp add: unsigned_of_int take_bit_int_eq_self)
  obtain gs where gs: "ber_tag_groups 0 (word_of_int t) = Inr gs"
    using ber_tag_groups_total [of "word_of_int t" 0] u assms by auto
  then obtain g ds where g: "gs = g # rev ds"
    using ber_tag_groups_value by (metis neq_Nil_conv rev_rev_ident)
  have val: "\<forall>d \<in> set ds. uint d < 128" "uint g < 128" "tag_horner 0 (ds @ [g]) = t"
    using ber_tag_groups_value [OF gs] g u by auto
  obtain lbs where lbs: "ber_write_length (length v) = Inr lbs"
    using ber_write_length_read [OF assms(3), of "[]" "[]"] by blast
  have "unat (ber_identifier_octet cls c (of_nat 31) AND 0x1F) = 31"
    by (rule ber_identifier_octet_fields) simp
  then have low: "uint (ber_identifier_octet cls c 0x1F AND 0x1F) = 31"
    by (simp add: uint_nat)
  obtain off where "ber_read_high_tag ([ber_identifier_octet cls c 0x1F] @ map (\<lambda>h. h OR 0x80) ds @
      g # lbs @ v @ post) 1 0 = Inl off"
    using ber_read_high_tag_refuses [of ds g 0 "[ber_identifier_octet cls c 0x1F]" "lbs @ v @ post"]
      val assms(1) by auto
  then show ?thesis
    using gs g lbs low assms(1)
    by (simp add: ber_encode_tlv_def ber_write_identifier_def ber_try_read_tlv_def ber_read_tag_def)
qed

text \<open>The integer encoders leave no redundant leading octet.\<close>

lemma ber_strip_zeros_minimal: "1 < length (ber_strip_zeros bs) \<Longrightarrow> hd (ber_strip_zeros bs) \<noteq> 0"
  by (induction bs rule: ber_strip_zeros.induct) auto

lemma ber_strip_sign_minimal:
  "1 < length (ber_strip_sign bs) \<Longrightarrow>
     \<not> (hd (ber_strip_sign bs) = 0 \<and> ber_strip_sign bs ! 1 AND 0x80 = 0) \<and>
     \<not> (hd (ber_strip_sign bs) = 0xFF \<and> ber_strip_sign bs ! 1 AND 0x80 \<noteq> 0)"
  by (induction bs rule: ber_strip_sign.induct) auto

subsection \<open>Properties\<close>



text \<open>A constructed element's contents: the concatenated encodings of a list of elements are
  split by the children loop into exactly that list.\<close>

theorem ber_children_round_trip:
  assumes "\<forall>(t, v) \<in> set es. 0 \<le> t \<and> t \<le> 1000000 \<and> length v \<le> 0xFFFFFFFF"
  shows "\<exists>encs. mapE (\<lambda>(t, v). ber_encode_tlv cls c t v) es = Inr encs \<and>
    ber_read_children (concat encs) = Inr (map (\<lambda>(t, v). tlv_of cls c t v) es)"
  using ber_encode_children [OF assms] .

theorem ber_children_round_trip_witness:
  "\<exists>encs. mapE (\<lambda>(t, v). ber_encode_tlv Context_specific False t v) [(0, [1]), (31, []), (500, [2, 3])] = Inr encs \<and>
    ber_read_children (concat encs) =
      Inr (map (\<lambda>(t, v). tlv_of Context_specific False t v) [(0, [1]), (31, []), (500, [2, 3])])"
  by (rule ber_children_round_trip) simp

text \<open>Integer contents: every 64-bit value, signed or unsigned, is encoded in at most eight
  octets with no redundant leading octet, and reading the contents gives the value back.\<close>

theorem ber_integer_round_trip:
  "ber_read_signed_integer (tlv_of cls c t (ber_encode_signed_integer i)) = Some i \<and>
   ber_read_unsigned_integer (tlv_of cls c t (ber_encode_unsigned_integer u)) = Some u \<and>
   length (ber_encode_signed_integer i) \<le> 8 \<and> length (ber_encode_unsigned_integer u) \<le> 8 \<and>
   (length (ber_encode_unsigned_integer u) = 1 \<or> hd (ber_encode_unsigned_integer u) \<noteq> 0) \<and>
   (length (ber_encode_signed_integer i) = 1 \<or>
     hd (ber_encode_signed_integer i) \<noteq>
       (if ber_encode_signed_integer i ! 1 AND 0x80 = 0 then 0 else 0xFF))"
proof -
  have "ber_strip_zeros (be_bytes 8 u) \<noteq> []" "ber_strip_sign (be_bytes 8 i) \<noteq> []"
    by (rule ber_strip_zeros_nonempty ber_strip_sign_nonempty, simp)+
  then show ?thesis
    using ber_strip_zeros_length [of "be_bytes 8 u"] ber_strip_sign_length [of "be_bytes 8 i"]
      ber_strip_zeros_minimal [of "be_bytes 8 u"] ber_strip_sign_minimal [of "be_bytes 8 i"]
    by (auto simp: ber_encode_unsigned_integer_def ber_encode_signed_integer_def Suc_lessI)
qed

theorem ber_integer_round_trip_witness:
  "ber_read_signed_integer (tlv_of Context_specific False 5 (ber_encode_signed_integer (- 129))) = Some (- 129) \<and>
   ber_read_unsigned_integer (tlv_of Context_specific False 5 (ber_encode_unsigned_integer 70000)) = Some 70000 \<and>
   ber_encode_signed_integer (- 129) = [0xFF, 0x7F]"
  using ber_integer_round_trip [of Context_specific False 5 "- 129" 70000]
  by (simp add: ber_encode_signed_integer_def) code_simp

text \<open>C32.  The writer accepts tag numbers that the reader refuses: an element with a tag above
  1000000 is encoded without an exception, and reading it fails.\<close>

theorem ber_large_tag_written_not_read:
  assumes "1000000 < t" "t < 2 ^ 31" "length v \<le> 0xFFFFFFFF"
  shows "\<exists>enc off. ber_encode_tlv cls c t v = Inr enc \<and> ber_try_read_tlv (enc @ post) 0 = Inl off"
  using ber_encode_high_tag [OF assms] .

theorem ber_large_tag_written_not_read_witness:
  "\<exists>enc off. ber_encode_tlv Context_specific False 1000001 [5] = Inr enc \<and>
     ber_try_read_tlv (enc @ []) 0 = Inl off"
  by (rule ber_large_tag_written_not_read) simp_all

end
