(* ===== verification/Utc_Time.thy ===== *)
theory Utc_Time
  imports Ber
begin

text \<open>
  IEC 61850 UTC time (\<open>src/mms/utc_time.cpp\<close> and \<open>BerWriter::encode_utc_time\<close>): four octets of
  seconds, three octets of binary fraction, one octet of quality.  A \<open>system_clock\<close> time point is
  an integer number of nanoseconds.  The encoder goes through \<open>double\<close>: the nanosecond part is
  divided by \<open>1e9\<close> in IEEE binary64, scaled by \<open>2^24\<close> and rounded by \<open>std::llround\<close>; that
  division is modelled exactly, so the results below are about the floating-point code.
\<close>

record utc_time =
  utc_ns :: int
  utc_quality :: u8

subsection \<open>Decoding\<close>

text \<open>\<open>duration_cast\<close> from \<open>2^-24\<close> seconds to nanoseconds multiplies by 1953125 and divides by
  32768, the reduced ratio.\<close>

definition utc_try_from_bytes :: "bytes \<Rightarrow> utc_time option" where
  "utc_try_from_bytes bs =
     (if length bs \<noteq> 8 then None
      else let seconds = read_be_u32 bs 0;
               fraction = push_bit 16 (ucast (bs ! 4)) OR push_bit 8 (ucast (bs ! 5)) OR ucast (bs ! 6) :: u32
           in Some \<lparr>utc_ns = uint seconds * 1000000000 + uint fraction * 1953125 div 32768,
                    utc_quality = bs ! 7\<rparr>)"

definition utc_from_bytes :: "bytes \<Rightarrow> utc_time result" where
  "utc_from_bytes bs = (case utc_try_from_bytes bs of
     None \<Rightarrow> Inl (Invalid_argument ''IEC 61850 UTC time requires exactly 8 bytes.'')
   | Some t \<Rightarrow> Inr t)"

subsection \<open>Encoding\<close>

text \<open>The binary64 quotient \<open>n / 1e9\<close> for \<open>0 < n < 1e9\<close> is \<open>m / 2^e\<close> with a 53-bit
  significand: \<open>e\<close> is the least exponent with \<open>n * 2^e / 1e9 \<ge> 2^52\<close>, and \<open>m\<close> is rounded to
  nearest, ties to even.  Scaling by \<open>2^24\<close> is exact; \<open>llround\<close> rounds half away from zero.\<close>

function double_exponent :: "nat \<Rightarrow> nat \<Rightarrow> nat" where
  "double_exponent n e =
     (if n = 0 \<or> 2 ^ 52 * 1000000000 \<le> n * 2 ^ e then e else double_exponent n (Suc e))"
  by pat_completeness auto
termination
proof (relation "measure (\<lambda>(n, e). 2 ^ 52 * 1000000000 - n * 2 ^ e)")
  fix n e :: nat
  assume a: "\<not> (n = 0 \<or> 2 ^ 52 * 1000000000 \<le> n * 2 ^ e)"
  then have "0 < n * 2 ^ e" by simp
  then have "n * 2 ^ e < n * 2 ^ Suc e" by simp
  with a show "((n, Suc e), n, e) \<in> measure (\<lambda>(n, e). 2 ^ 52 * 1000000000 - n * 2 ^ e)"
    by (simp del: power_Suc) (rule diff_less_mono2; simp)
qed simp

declare double_exponent.simps [simp del]

definition round_half_even :: "nat \<Rightarrow> nat \<Rightarrow> nat" where
  "round_half_even a b =
     (let q = a div b; r = a mod b
      in if 2 * r < b \<or> (2 * r = b \<and> even q) then q else Suc q)"

definition utc_fraction :: "nat \<Rightarrow> nat" where
  "utc_fraction n =
     (if n = 0 then 0
      else let e = double_exponent n 0; m = round_half_even (n * 2 ^ e) 1000000000
           in (m * 2 ^ 25 + 2 ^ e) div 2 ^ Suc e)"

definition utc_write_bytes :: "int \<Rightarrow> u8 \<Rightarrow> bytes option" where
  "utc_write_bytes ns q =
     (let seconds = ns div 1000000000; fractional = nat (ns mod 1000000000);
          fraction = utc_fraction fractional;
          (seconds, fraction) = (if fraction \<ge> 16777216 then (seconds + 1, 0) else (seconds, fraction))
      in if seconds < 0 \<or> seconds > 0xFFFFFFFF then None
         else Some (be_bytes 4 (word_of_int seconds :: u32) @
                    be_bytes 3 (of_nat fraction :: u32) @ [q]))"

definition utc_try_write_bytes :: "utc_time \<Rightarrow> bytes option" where
  "utc_try_write_bytes t = utc_write_bytes (utc_ns t) (utc_quality t)"

definition utc_to_bytes :: "utc_time \<Rightarrow> bytes result" where
  "utc_to_bytes t = (case utc_try_write_bytes t of
     None \<Rightarrow> Inl (Out_of_range ''UTC time seconds are outside the IEC 61850 32-bit range.'')
   | Some bs \<Rightarrow> Inr bs)"

definition ber_encode_utc_time :: "int \<Rightarrow> u8 \<Rightarrow> bytes result" where
  "ber_encode_utc_time ns q = (case utc_write_bytes ns q of
     None \<Rightarrow> Inl (Out_of_range ''UTC time seconds are outside the IEC 61850 32-bit range.'')
   | Some bs \<Rightarrow> Inr bs)"

subsection \<open>The rounding error of the encoder\<close>

lemma double_exponent_ge: "0 < n \<Longrightarrow> 2 ^ 52 * 1000000000 \<le> n * 2 ^ double_exponent n e"
proof (induction n e rule: double_exponent.induct)
  case (1 n e)
  then show ?case by (cases "2 ^ 52 * 1000000000 \<le> n * 2 ^ e") (simp_all add: double_exponent.simps [of n e])
qed

lemma double_exponent_large:
  assumes "0 < n" "n < 1000000000"
  shows "53 \<le> double_exponent n 0"
proof (rule ccontr)
  assume "\<not> 53 \<le> double_exponent n 0"
  then have "(2 :: nat) ^ double_exponent n 0 \<le> 2 ^ 52" by (intro power_increasing) auto
  then have "n * 2 ^ double_exponent n 0 \<le> n * 2 ^ 52" by simp
  also have "... < 2 ^ 52 * 1000000000" using assms by simp
  finally show False using double_exponent_ge [of n 0] assms by simp
qed

lemma round_half_even_error:
  assumes "0 < b"
  shows "2 * a \<le> 2 * (round_half_even a b * b) + b" "2 * (round_half_even a b * b) \<le> 2 * a + b"
proof -
  have a: "a = a div b * b + a mod b" and r: "a mod b < b" using assms by simp_all
  define q r where "q = a div b" and "r = a mod b"
  have "a = q * b + r" "r < b" using a r by (simp_all add: q_def r_def)
  then show "2 * a \<le> 2 * (round_half_even a b * b) + b" "2 * (round_half_even a b * b) \<le> 2 * a + b"
    by (auto simp: round_half_even_def Let_def q_def [symmetric] r_def [symmetric])
qed

text \<open>\<open>utc_fraction n\<close> is the nearest multiple, up to the error of the division.\<close>

lemma utc_fraction_bounds:
  assumes "n < 1000000000"
  shows "n * 2 ^ 25 \<le> utc_fraction n * 2000000000 + 1000000002"
    "utc_fraction n * 2000000000 \<le> n * 2 ^ 25 + 1000000002"
proof -
  have "n * 2 ^ 25 \<le> utc_fraction n * 2000000000 + 1000000002 \<and>
    utc_fraction n * 2000000000 \<le> n * 2 ^ 25 + 1000000002"
  proof (cases "n = 0")
    case False
    define E where "E = (2 :: nat) ^ double_exponent n 0"
    define m where "m = round_half_even (n * E) 1000000000"
    define f where "f = utc_fraction n"
    have E: "2 ^ 53 \<le> E"
      using double_exponent_large [of n] False assms unfolding E_def by (intro power_increasing) auto
    have f: "f = (m * 2 ^ 25 + E) div (2 * E)"
      using False by (simp add: f_def utc_fraction_def Let_def E_def m_def)
    have fl: "f * (2 * E) \<le> m * 2 ^ 25 + E"
      by (simp add: f)
    have fu: "m * 2 ^ 25 + E < f * (2 * E) + 2 * E"
      unfolding f using E dividend_less_div_times [of "2 * E" "m * 2 ^ 25 + E"] by (simp add: algebra_simps)
    have m: "2 * (n * E) \<le> 2 * (m * 1000000000) + 1000000000"
      "2 * (m * 1000000000) \<le> 2 * (n * E) + 1000000000"
      using round_half_even_error [of 1000000000 "n * E"] by (simp_all add: m_def)
    have "n * E * 2 ^ 25 < (f * 2000000000 + 1000000003) * E"
      using fu m(1) E by (simp add: algebra_simps)
    then have "n * 2 ^ 25 * E < (f * 2000000000 + 1000000003) * E"
      by (simp only: ac_simps)
    moreover have "f * 2000000000 * E < (n * 2 ^ 25 + 1000000003) * E"
      using fl m(2) E by (simp add: algebra_simps)
    ultimately show ?thesis by (auto simp: f_def)
  qed (simp add: utc_fraction_def)
  then show "n * 2 ^ 25 \<le> utc_fraction n * 2000000000 + 1000000002"
    "utc_fraction n * 2000000000 \<le> n * 2 ^ 25 + 1000000002" by auto
qed

subsection \<open>Round trips\<close>

lemma utc_fraction_exact:
  assumes "f < 2 ^ 24"
  shows "utc_fraction (f * 1953125 div 32768) = f"
proof -
  define n where "n = f * 1953125 div 32768"
  have n: "n * 32768 \<le> f * 1953125" "f * 1953125 < n * 32768 + 32768"
    unfolding n_def using dividend_less_div_times [of 32768 "f * 1953125"] by simp_all
  then have "n < 1000000000" using assms by simp
  from utc_fraction_bounds [OF this] n show ?thesis
    unfolding n_def [symmetric] by simp
qed

text \<open>The bytes of a UTC time, decoded: seconds, fraction and quality octets.\<close>

lemma utc_try_from_bytes_append:
  assumes "length ss = 4" "length fs = 3"
  shows "utc_try_from_bytes (ss @ fs @ [q]) =
    Some \<lparr>utc_ns = uint (be_value ss :: u32) * 1000000000 + uint (be_value fs :: u32) * 1953125 div 32768,
      utc_quality = q\<rparr>"
proof -
  obtain a b c where fs: "fs = [a, b, c]"
    using assms(2) by (auto simp: numeral_eq_Suc length_Suc_conv)
  have "read_be_u32 (ss @ fs @ [q]) 0 = be_value ss"
    using assms by (subst read_be_u32_eq_be_value) auto
  with assms fs show ?thesis
    by (simp add: utc_try_from_bytes_def Let_def nth_append be_value_def push_bit_or or.assoc)
qed

lemma utc_bytes_split:
  assumes "length bs = 8"
  shows "bs = take 4 bs @ take 3 (drop 4 bs) @ [bs ! 7]"
  using assms by (auto simp: numeral_eq_Suc length_Suc_conv)

lemma be_bytes_word_of_int_be_value:
  "length bs = n \<Longrightarrow> 8 * n \<le> 32 \<Longrightarrow> be_bytes n (word_of_int (uint (be_value bs :: u32)) :: u32) = bs"
  by (simp add: be_bytes_be_value)

lemma utc_write_bytes_decoded:
  assumes "length ss = 4" "length fs = 3"
  shows "utc_write_bytes (uint (be_value ss :: u32) * 1000000000 +
      uint (be_value fs :: u32) * 1953125 div 32768) q = Some (ss @ fs @ [q])"
proof -
  define s where "s = uint (be_value ss :: u32)"
  define f where "f = unat (be_value fs :: u32)"
  have f: "f < 2 ^ 24" using unat_be_value_less [of fs, where 'a = 32] assms by (simp add: f_def)
  have s: "0 \<le> s" "s \<le> 0xFFFFFFFF" using uint_lt2p [of "be_value ss :: u32"] by (simp_all add: s_def)
  have fi: "uint (be_value fs :: u32) = int f" by (simp add: f_def)
  define n where "n = f * 1953125 div 32768"
  have ni: "int f * 1953125 div 32768 = int n" by (simp add: n_def zdiv_int)
  have "n < 1000000000" using f by (simp add: n_def)
  then have "(s * 1000000000 + int n) div 1000000000 = s" "nat ((s * 1000000000 + int n) mod 1000000000) = n"
    by simp_all
  moreover have "utc_fraction n = f" using utc_fraction_exact [OF f] by (simp add: n_def)
  moreover have "be_bytes 4 (word_of_int s :: u32) = ss" "be_bytes 3 (of_nat f :: u32) = fs"
    using assms be_bytes_word_of_int_be_value [of ss 4] be_bytes_word_of_int_be_value [of fs 3]
    by (simp_all add: s_def f_def)
  ultimately show ?thesis using s f
    by (simp add: s_def [symmetric] fi ni utc_write_bytes_def)
qed

lemma utc_from_to_bytes:
  "length bs = 8 \<Longrightarrow> bindE (utc_from_bytes bs) utc_to_bytes = Inr bs"
proof -
  assume len: "length bs = 8"
  define ss fs q where "ss = take 4 bs" and "fs = take 3 (drop 4 bs)" and "q = bs ! 7"
  have "length ss = 4" "length fs = 3" and bs: "bs = ss @ fs @ [q]"
    using len utc_bytes_split [OF len] by (simp_all add: ss_def fs_def q_def)
  then show ?thesis unfolding bs
    by (simp add: utc_from_bytes_def utc_try_from_bytes_append utc_to_bytes_def utc_try_write_bytes_def
        utc_write_bytes_decoded)
qed

lemma utc_decoded_exact:
  assumes "utc_from_bytes bs = Inr t"
  shows "bindE (utc_to_bytes t) utc_from_bytes = Inr t"
proof -
  have "length bs = 8"
    using assms by (auto simp: utc_from_bytes_def utc_try_from_bytes_def split: if_splits)
  from utc_from_to_bytes [OF this] assms show ?thesis by simp
qed

text \<open>The other direction loses at most the rounding of the 24-bit fraction.\<close>

lemma utc_encoding_accuracy:
  assumes "utc_write_bytes ns q = Some bs"
  obtains t where "utc_try_from_bytes bs = Some t" "utc_quality t = q"
    "- 30 \<le> utc_ns t - ns" "utc_ns t - ns \<le> 29"
proof -
  define n where "n = nat (ns mod 1000000000)"
  define f where "f = utc_fraction n"
  define s f' where "s = ns div 1000000000 + (if f \<ge> 16777216 then 1 else 0)"
    and "f' = (if f \<ge> 16777216 then 0 else f)"
  have n: "n < 1000000000" "ns = ns div 1000000000 * 1000000000 + int n" by (simp_all add: n_def)
  have bs: "bs = be_bytes 4 (word_of_int s :: u32) @ be_bytes 3 (of_nat f' :: u32) @ [q]"
      and s: "0 \<le> s" "s \<le> 0xFFFFFFFF" and f': "f' < 2 ^ 24"
    using assms unfolding s_def f'_def f_def n_def
    by (auto simp: utc_write_bytes_def Let_def split: if_splits)
  have v: "uint (be_value (be_bytes 4 (word_of_int s :: u32)) :: u32) = s"
    using s by (simp add: be_value_be_bytes unsigned_of_int take_bit_int_eq_self)
  have w: "(be_value (be_bytes 3 (of_nat f' :: u32)) :: u32) = of_nat f'"
  proof (rule bit_word_eqI)
    fix k assume "k < LENGTH(32)"
    have "take_bit 24 f' = f'" using f' by (simp add: take_bit_nat_eq_self)
    then have "bit f' k \<Longrightarrow> k < 24" by (metis bit_take_bit_iff)
    then show "bit (be_value (be_bytes 3 (of_nat f' :: u32)) :: u32) k = bit (of_nat f' :: u32) k"
      by (auto simp: be_value_be_bytes_bit bit_simps)
  qed
  define d where "d = f' * 1953125 div 32768"
  have d: "d * 32768 \<le> f' * 1953125" "f' * 1953125 < d * 32768 + 32768"
    unfolding d_def using dividend_less_div_times [of 32768 "f' * 1953125"] by simp_all
  have di: "uint (of_nat f' :: u32) * 1953125 div 32768 = int d"
    using f' by (simp add: unsigned_of_nat take_bit_nat_eq_self d_def zdiv_int)
  have dec: "utc_try_from_bytes bs = Some \<lparr>utc_ns = s * 1000000000 + int d, utc_quality = q\<rparr>"
    unfolding bs by (simp add: utc_try_from_bytes_append v w di del: uint_word_of_int_eq)
  have "- 30 \<le> s * 1000000000 + int d - ns \<and> s * 1000000000 + int d - ns \<le> 29"
    using utc_fraction_bounds [OF n(1)] d n
    unfolding s_def f'_def f_def [symmetric] by (simp split: if_splits)
  with dec that show ?thesis by simp
qed

lemma utc_write_bytes_total:
  "0 \<le> ns \<Longrightarrow> ns < 4294967295 * 1000000000 \<Longrightarrow> \<exists>bs. utc_write_bytes ns q = Some bs"
  by (auto simp: utc_write_bytes_def Let_def)

subsection \<open>Properties\<close>

text \<open>Every eight-octet UTC time decodes, and re-encoding it through the floating-point
  encoder gives back the same octets.\<close>

theorem utc_bytes_round_trip:
  assumes "length bs = 8"
  shows "\<exists>t. utc_from_bytes bs = Inr t \<and> utc_to_bytes t = Inr bs"
  using utc_from_to_bytes [OF assms] by (auto simp: bindE_Inr_iff)

theorem utc_bytes_round_trip_witness:
  "\<exists>t. utc_from_bytes [0x65, 0, 0, 0, 0xFF, 0xFF, 0xFF, 0x0A] = Inr t \<and>
     utc_to_bytes t = Inr [0x65, 0, 0, 0, 0xFF, 0xFF, 0xFF, 0x0A]"
  by (rule utc_bytes_round_trip) simp

text \<open>A time between 1970 and the last full second of the 32-bit range encodes; decoding the
  octets gives the same quality and an instant at most 30 ns away, which is the resolution of the
  24-bit fraction, floating-point rounding included.\<close>

theorem utc_time_accuracy:
  assumes "0 \<le> utc_ns t" "utc_ns t < 4294967295 * 1000000000"
  shows "\<exists>bs t'. utc_to_bytes t = Inr bs \<and> utc_from_bytes bs = Inr t' \<and> length bs = 8 \<and>
    utc_quality t' = utc_quality t \<and> \<bar>utc_ns t' - utc_ns t\<bar> \<le> 30"
proof -
  obtain bs where bs: "utc_write_bytes (utc_ns t) (utc_quality t) = Some bs"
    using utc_write_bytes_total [OF assms] by blast
  from utc_encoding_accuracy [OF this] obtain t' where
    t': "utc_try_from_bytes bs = Some t'" "utc_quality t' = utc_quality t"
      "- 30 \<le> utc_ns t' - utc_ns t" "utc_ns t' - utc_ns t \<le> 29" .
  then have "\<bar>utc_ns t' - utc_ns t\<bar> \<le> 30" by simp
  moreover from t'(1) have "length bs = 8" by (auto simp: utc_try_from_bytes_def split: if_splits)
  ultimately show ?thesis
    using bs t'(1,2) by (auto simp: utc_to_bytes_def utc_try_write_bytes_def utc_from_bytes_def)
qed

theorem utc_time_accuracy_witness:
  "\<exists>bs t'. utc_to_bytes \<lparr>utc_ns = 1999999999, utc_quality = 3\<rparr> = Inr bs \<and> utc_from_bytes bs = Inr t' \<and>
     length bs = 8 \<and> utc_quality t' = 3 \<and> \<bar>utc_ns t' - 1999999999\<bar> \<le> 30"
  using utc_time_accuracy [of "\<lparr>utc_ns = 1999999999, utc_quality = 3\<rparr>"] by simp

end
