(* ===== verification/Mms_Data.thy ===== *)
theory Mms_Data
  imports Utc_Time
begin

text \<open>
  MMS data values and their BER codec (\<open>src/mms/data_value.cpp\<close>, \<open>src/mms/data_codec.cpp\<close>).
  The class has a private constructor and public factories; \<open>mms_data\<close> has one constructor per
  factory and keeps the fields that factory fills.  The two \<open>floating_point\<close> overloads hold a
  \<open>float\<close> and a \<open>double\<close>, kept as their bit patterns.  Main result: a value that respects the
  encoding limits survives encoding and decoding, nested arrays and structures included.
\<close>

datatype mms_data =
    Mms_array "mms_data list"
  | Mms_structure "mms_data list"
  | Mms_boolean bool
  | Mms_bit_string bytes  \<comment> \<open>the raw value: unused-bit count and data\<close>
  | Mms_integer u64       \<comment> \<open>two's complement of the \<open>std::int64_t\<close>\<close>
  | Mms_unsigned u64
  | Mms_float u32
  | Mms_double u64
  | Mms_octet_string bytes
  | Mms_visible_string string
  | Mms_string string
  | Mms_utc_time utc_time
  | Mms_binary_time bytes
  | Mms_unknown int bytes

definition mms_bit_string :: "u8 \<Rightarrow> bytes \<Rightarrow> mms_data" where
  "mms_bit_string unused d = Mms_bit_string (unused # d)"

subsection \<open>Encoding\<close>

fun mms_tag_for :: "mms_data \<Rightarrow> int" where
  "mms_tag_for (Mms_array _) = 1"
| "mms_tag_for (Mms_structure _) = 2"
| "mms_tag_for (Mms_boolean _) = 3"
| "mms_tag_for (Mms_bit_string _) = 4"
| "mms_tag_for (Mms_integer _) = 5"
| "mms_tag_for (Mms_unsigned _) = 6"
| "mms_tag_for (Mms_float _) = 7"
| "mms_tag_for (Mms_double _) = 7"
| "mms_tag_for (Mms_octet_string _) = 9"
| "mms_tag_for (Mms_visible_string _) = 10"
| "mms_tag_for (Mms_binary_time _) = 12"
| "mms_tag_for (Mms_string _) = 16"
| "mms_tag_for (Mms_utc_time _) = 17"
| "mms_tag_for (Mms_unknown t _) = t"

fun mms_is_constructed :: "mms_data \<Rightarrow> bool" where
  "mms_is_constructed (Mms_array _) = True"
| "mms_is_constructed (Mms_structure _) = True"
| "mms_is_constructed _ = False"

definition encode_double_precision_float :: "u64 \<Rightarrow> bytes" where
  "encode_double_precision_float raw = 0x0B # be_bytes 8 raw"

fun mms_encode :: "mms_data \<Rightarrow> bytes result"
  and mms_encode_content :: "mms_data \<Rightarrow> bytes result" where
  "mms_encode v = bindE (mms_encode_content v) (\<lambda>content.
     ber_encode_tlv Context_specific (mms_is_constructed v) (mms_tag_for v) content)"
| "mms_encode_content (Mms_array vs) = bindE (mapE mms_encode vs) (\<lambda>bss. Inr (concat bss))"
| "mms_encode_content (Mms_structure vs) = bindE (mapE mms_encode vs) (\<lambda>bss. Inr (concat bss))"
| "mms_encode_content (Mms_boolean b) = Inr (ber_encode_boolean b)"
| "mms_encode_content (Mms_bit_string raw) = Inr raw"
| "mms_encode_content (Mms_octet_string raw) = Inr raw"
| "mms_encode_content (Mms_binary_time raw) = Inr raw"
| "mms_encode_content (Mms_unknown _ raw) = Inr raw"
| "mms_encode_content (Mms_integer i) = Inr (ber_encode_signed_integer i)"
| "mms_encode_content (Mms_unsigned u) = Inr (ber_encode_unsigned_integer u)"
| "mms_encode_content (Mms_float f) = Inr (ber_encode_single_precision_float f)"
| "mms_encode_content (Mms_double d) = Inr (encode_double_precision_float d)"
| "mms_encode_content (Mms_visible_string s) = Inr (ber_encode_ascii s)"
| "mms_encode_content (Mms_string s) = Inr (ber_encode_ascii s)"
| "mms_encode_content (Mms_utc_time t) = utc_to_bytes t"

definition mms_encode_all :: "mms_data list \<Rightarrow> bytes result" where
  "mms_encode_all vs = bindE (mapE mms_encode vs) (\<lambda>bss. Inr (concat bss))"

subsection \<open>Decoding\<close>

definition mms_decode_bit_string :: "bytes \<Rightarrow> mms_data" where
  "mms_decode_bit_string bs = (if bs = [] then mms_bit_string 0 [] else mms_bit_string (hd bs) (tl bs))"

definition read_u64_be :: "bytes \<Rightarrow> u64" where
  "read_u64_be bs = be_value (take 8 bs)"

definition mms_decode_floating_point :: "bytes \<Rightarrow> mms_data" where
  "mms_decode_floating_point bs =
     (if length bs = 9 then Mms_double (read_u64_be (take 8 (drop 1 bs)))
      else if length bs = 8 then Mms_double (read_u64_be bs)
      else if length bs = 5 then Mms_float (read_be_u32 (take 4 (drop 1 bs)) 0)
      else if length bs = 4 then Mms_float (read_be_u32 bs 0)
      else Mms_float 0x7FC00000)"

text \<open>The nesting of arrays and structures is bounded by the octets: the content of a TLV is
  shorter than the input it was read from.\<close>

lemma ber_read_children_from_smaller:
  "ber_read_children_from src off = Inr tlvs \<Longrightarrow> tlv \<in> set tlvs \<Longrightarrow>
     length (tlv_value tlv) + 2 \<le> length src"
proof (induction src off arbitrary: tlvs rule: ber_read_children_from.induct)
  case (1 src off)
  show ?case
    using "1.prems" "1.IH" ber_try_read_tlv_progress(3,2) [of src off]
    by (subst (asm) ber_read_children_from.simps)
      (fastforce simp: bindE_Inr_iff split: if_splits sum.splits)
qed

lemma ber_read_children_smaller:
  "ber_read_children src = Inr tlvs \<Longrightarrow> tlv \<in> set tlvs \<Longrightarrow> length (tlv_value tlv) < length src"
  by (auto simp: ber_read_children_def dest: ber_read_children_from_smaller)

function mms_decode :: "ber_tlv \<Rightarrow> mms_data result"
  and mms_decode_all :: "bytes \<Rightarrow> mms_data list result" where
  "mms_decode tlv =
     (if tag_class tlv \<noteq> Context_specific then Inr (Mms_unknown (tag_number tlv) (tlv_value tlv))
      else if tag_number tlv = 1 then bindE (mms_decode_all (tlv_value tlv)) (\<lambda>vs. Inr (Mms_array vs))
      else if tag_number tlv = 2 then bindE (mms_decode_all (tlv_value tlv)) (\<lambda>vs. Inr (Mms_structure vs))
      else if tag_number tlv = 3 then Inr (Mms_boolean (case ber_read_boolean tlv of None \<Rightarrow> False | Some b \<Rightarrow> b))
      else if tag_number tlv = 4 then Inr (mms_decode_bit_string (tlv_value tlv))
      else if tag_number tlv = 5 then Inr (Mms_integer (case ber_read_signed_integer tlv of None \<Rightarrow> 0 | Some i \<Rightarrow> i))
      else if tag_number tlv = 6 then Inr (Mms_unsigned (case ber_read_unsigned_integer tlv of None \<Rightarrow> 0 | Some u \<Rightarrow> u))
      else if tag_number tlv = 7 then Inr (mms_decode_floating_point (tlv_value tlv))
      else if tag_number tlv = 9 then Inr (Mms_octet_string (tlv_value tlv))
      else if tag_number tlv = 10 then Inr (Mms_visible_string (ber_read_ascii_string tlv))
      else if tag_number tlv = 12 then Inr (Mms_binary_time (tlv_value tlv))
      else if tag_number tlv = 16 then Inr (Mms_string (ber_read_ascii_string tlv))
      else if tag_number tlv = 17 then bindE (utc_from_bytes (tlv_value tlv)) (\<lambda>t. Inr (Mms_utc_time t))
      else Inr (Mms_unknown (tag_number tlv) (tlv_value tlv)))"
| "mms_decode_all bs =
     (if bs = [] then Inr []
      else case ber_read_children bs of
          Inl e \<Rightarrow> Inl e
        | Inr children \<Rightarrow> mapE mms_decode children)"
  by pat_completeness auto
termination
  by (relation "measure (\<lambda>x. case x of Inl tlv \<Rightarrow> 2 * length (tlv_value tlv) + 1 | Inr bs \<Rightarrow> 2 * length bs)")
    (auto dest: ber_read_children_smaller)

declare mms_decode.simps [simp del] mms_decode_all.simps [simp del]

subsection \<open>Round trip\<close>

text \<open>Values the codec represents: a bit string has its unused-bit octet (the factory puts it
  there), a UTC time has a 24-bit fraction, and an unknown value has a tag the decoder does not
  interpret and accepts.\<close>

fun wf_mms_data :: "mms_data \<Rightarrow> bool" where
  "wf_mms_data (Mms_array vs) = list_all wf_mms_data vs"
| "wf_mms_data (Mms_structure vs) = list_all wf_mms_data vs"
| "wf_mms_data (Mms_bit_string raw) = (raw \<noteq> [])"
| "wf_mms_data (Mms_utc_time t) = (bindE (utc_to_bytes t) utc_from_bytes = Inr t)"
| "wf_mms_data (Mms_unknown t raw) = (0 \<le> t \<and> t \<le> 1000000 \<and>
     t \<notin> {1, 2, 3, 4, 5, 6, 7, 9, 10, 12, 16, 17})"
| "wf_mms_data _ = True"

lemma wf_mms_tag: "wf_mms_data v \<Longrightarrow> 0 \<le> mms_tag_for v \<and> mms_tag_for v \<le> 1000000"
  by (cases v) auto

text \<open>The TLV a value is encoded as.\<close>

definition mms_tlv :: "mms_data \<Rightarrow> ber_tlv" where
  "mms_tlv v = tlv_of Context_specific (mms_is_constructed v) (mms_tag_for v) (projr (mms_encode_content v))"

lemma mms_encode_tlv:
  assumes "mms_encode v = Inr enc" "wf_mms_data v"
  shows "mms_encode_content v = Inr (tlv_value (mms_tlv v))" "enc = tlv_encoding (mms_tlv v)"
    "tlv_wf (mms_tlv v)"
  using assms wf_mms_tag [of v]
  by (auto simp: bindE_Inr_iff mms_tlv_def ber_encode_tlv_encoding intro: tlv_wf_of_encode)

lemma mapE_mms_encode_tlvs:
  "mapE mms_encode vs = Inr bss \<Longrightarrow> list_all wf_mms_data vs \<Longrightarrow>
     concat bss = concat (map tlv_encoding (map mms_tlv vs)) \<and> list_all tlv_wf (map mms_tlv vs)"
proof (induction vs arbitrary: bss)
  case (Cons v vs)
  then show ?case
    by (auto simp del: mms_encode.simps simp: bindE_Inr_iff mms_encode_tlv(2,3))
qed simp

lemma mapE_map_Inr: "(\<And>x. x \<in> set xs \<Longrightarrow> f (g x) = Inr x) \<Longrightarrow> mapE f (map g xs) = Inr xs"
  by (induction xs) auto

lemma mms_decode_all_tlvs:
  assumes "list_all tlv_wf (map mms_tlv vs)" "\<And>v. v \<in> set vs \<Longrightarrow> mms_decode (mms_tlv v) = Inr v"
  shows "mms_decode_all (concat (map tlv_encoding (map mms_tlv vs))) = Inr vs"
proof (cases vs)
  case Nil
  then show ?thesis by (simp add: mms_decode_all.simps)
next
  case (Cons v ws)
  have "tlv_encoding (mms_tlv v) \<noteq> []"
    using assms(1) Cons by (intro tlvs.enc_nonempty) simp
  then show ?thesis
    using ber_read_children_concat [OF assms(1)] Cons
    by (subst mms_decode_all.simps) (simp add: mapE_map_Inr [where g = mms_tlv] assms(2) flip: map_map)
qed

lemma mapE_mms_encode_each:
  "mapE mms_encode vs = Inr bss \<Longrightarrow> v \<in> set vs \<Longrightarrow> \<exists>enc. mms_encode v = Inr enc"
  by (induction vs arbitrary: bss) (auto simp del: mms_encode.simps simp: bindE_Inr_iff)

lemma mms_decode_floating_point_encode:
  "mms_decode_floating_point (encode_double_precision_float d) = Mms_double d"
  "mms_decode_floating_point (ber_encode_single_precision_float f) = Mms_float f"
  by (simp_all add: mms_decode_floating_point_def encode_double_precision_float_def
      ber_encode_single_precision_float_def read_u64_be_def be_value_be_bytes read_be_u32_eq_be_value)

lemma mms_decode_list_tlv:
  assumes "\<And>v. v \<in> set vs \<Longrightarrow> \<forall>enc. mms_encode v = Inr enc \<longrightarrow> wf_mms_data v \<longrightarrow> mms_decode (mms_tlv v) = Inr v"
    and "mapE mms_encode vs = Inr bss" "list_all wf_mms_data vs"
  shows "mms_decode_all (concat bss) = Inr vs"
proof -
  have "mms_decode (mms_tlv v) = Inr v" if "v \<in> set vs" for v
    using assms(1) [OF that] mapE_mms_encode_each [OF assms(2) that] assms(3) that
    by (auto simp: list_all_iff simp del: mms_encode.simps)
  with mapE_mms_encode_tlvs [OF assms(2,3)] show ?thesis
    by (simp add: mms_decode_all_tlvs del: map_map)
qed

lemma mms_decode_encode_tlv:
  "mms_encode v = Inr enc \<Longrightarrow> wf_mms_data v \<Longrightarrow> mms_decode (mms_tlv v) = Inr v"
proof (induction v arbitrary: enc)
  case (Mms_array vs)
  obtain bss where bss: "mapE mms_encode vs = Inr bss"
    using mms_encode_tlv(1) [OF Mms_array.prems] by (auto simp: bindE_Inr_iff simp del: mms_encode.simps)
  have "mms_decode_all (concat bss) = Inr vs"
    using Mms_array.IH Mms_array.prems(2) by (intro mms_decode_list_tlv [OF _ bss]) (blast, simp)
  then show ?case
    by (simp add: mms_decode.simps mms_tlv_def bss del: mms_encode.simps)
next
  case (Mms_structure vs)
  obtain bss where bss: "mapE mms_encode vs = Inr bss"
    using mms_encode_tlv(1) [OF Mms_structure.prems] by (auto simp: bindE_Inr_iff simp del: mms_encode.simps)
  have "mms_decode_all (concat bss) = Inr vs"
    using Mms_structure.IH Mms_structure.prems(2) by (intro mms_decode_list_tlv [OF _ bss]) (blast, simp)
  then show ?case
    by (simp add: mms_decode.simps mms_tlv_def bss del: mms_encode.simps)
next
  case (Mms_bit_string raw)
  then show ?case
    by (subst mms_decode.simps) (auto simp: mms_tlv_def mms_decode_bit_string_def mms_bit_string_def)
next
  case (Mms_utc_time t)
  then show ?case
    by (subst mms_decode.simps) (auto simp: mms_tlv_def bindE_Inr_iff)
qed (simp_all add: mms_decode.simps mms_tlv_def mms_decode_floating_point_encode
    ber_read_ascii_string_def split: option.splits)

lemma mms_read_back:
  assumes "mms_encode v = Inr enc" "wf_mms_data v"
  shows "ber_try_read_tlv (pre @ enc @ post) (length pre) = Inr (length pre + length enc, mms_tlv v)"
    "mms_decode (mms_tlv v) = Inr v"
proof -
  let ?t = "mms_tlv v"
  have "tlv_wf ?t" "enc = tlv_encoding ?t" using mms_encode_tlv [OF assms] by auto
  then show "ber_try_read_tlv (pre @ enc @ post) (length pre) = Inr (length pre + length enc, mms_tlv v)"
    using tlvs.dec_enc [of ?t pre "length (pre @ enc @ post)" post]
    by (auto simp: tlv_at_def split: sum.splits)
  show "mms_decode (mms_tlv v) = Inr v" by (rule mms_decode_encode_tlv [OF assms])
qed

lemma mms_decode_encode_all:
  assumes "mms_encode_all vs = Inr bs" "list_all wf_mms_data vs"
  shows "mms_decode_all bs = Inr vs"
proof -
  obtain bss where "mapE mms_encode vs = Inr bss" "bs = concat bss"
    using assms(1) by (auto simp: mms_encode_all_def bindE_Inr_iff simp del: mms_encode.simps)
  then show ?thesis
    using assms(2) mms_decode_list_tlv [of vs bss] mms_decode_encode_tlv by blast
qed

subsection \<open>The encoder is total on values of bounded size\<close>

fun mms_size_bound :: "mms_data \<Rightarrow> nat" where
  "mms_size_bound (Mms_array vs) = 11 + sum_list (map mms_size_bound vs)"
| "mms_size_bound (Mms_structure vs) = 11 + sum_list (map mms_size_bound vs)"
| "mms_size_bound (Mms_bit_string raw) = 11 + length raw"
| "mms_size_bound (Mms_octet_string raw) = 11 + length raw"
| "mms_size_bound (Mms_binary_time raw) = 11 + length raw"
| "mms_size_bound (Mms_unknown _ raw) = 11 + length raw"
| "mms_size_bound (Mms_visible_string s) = 11 + length s"
| "mms_size_bound (Mms_string s) = 11 + length s"
| "mms_size_bound _ = 20"

lemma length_utc_to_bytes: "utc_to_bytes t = Inr bs \<Longrightarrow> length bs = 8"
  by (auto simp: utc_to_bytes_def utc_try_write_bytes_def utc_write_bytes_def Let_def
      split: option.splits if_splits)

lemma length_ber_integers:
  "length (ber_encode_unsigned_integer u) \<le> 8" "length (ber_encode_signed_integer i) \<le> 8"
  using ber_strip_zeros_length [of "be_bytes 8 u"] ber_strip_sign_length [of "be_bytes 8 i"]
  by (simp_all add: ber_encode_unsigned_integer_def ber_encode_signed_integer_def)

lemma mapE_mms_encode_total:
  assumes "\<And>v. v \<in> set vs \<Longrightarrow> \<exists>enc. mms_encode v = Inr enc \<and> length enc \<le> mms_size_bound v"
  shows "\<exists>bss. mapE mms_encode vs = Inr bss \<and> length (concat bss) \<le> sum_list (map mms_size_bound vs)"
  using assms
proof (induction vs)
  case (Cons v vs)
  obtain enc bss where "mms_encode v = Inr enc" "length enc \<le> mms_size_bound v"
    "mapE mms_encode vs = Inr bss" "length (concat bss) \<le> sum_list (map mms_size_bound vs)"
    using Cons.IH Cons.prems by (metis list.set_intros)
  then show ?case by (simp del: mms_encode.simps)
qed simp

lemma mms_encode_of_content:
  assumes "wf_mms_data v" "mms_size_bound v \<le> 0xFFFFFFFF"
    "\<exists>c. mms_encode_content v = Inr c \<and> length c + 11 \<le> mms_size_bound v"
  shows "\<exists>enc. mms_encode v = Inr enc \<and> length enc \<le> mms_size_bound v"
proof -
  obtain c where c: "mms_encode_content v = Inr c" "length c + 11 \<le> mms_size_bound v"
    using assms(3) by blast
  obtain enc where "ber_encode_tlv Context_specific (mms_is_constructed v) (mms_tag_for v) c = Inr enc"
    "length enc \<le> length c + 11"
    using ber_encode_tlv_total [of "mms_tag_for v" c] wf_mms_tag [OF assms(1)] assms(2) c(2) by auto
  then show ?thesis using c by simp
qed

lemma mms_encode_list_total:
  assumes IH: "\<And>v. v \<in> set vs \<Longrightarrow> wf_mms_data v \<Longrightarrow> mms_size_bound v \<le> 0xFFFFFFFF \<Longrightarrow>
      \<exists>enc. mms_encode v = Inr enc \<and> length enc \<le> mms_size_bound v"
    and "list_all wf_mms_data vs" "sum_list (map mms_size_bound vs) \<le> 0xFFFFFFFF"
  shows "\<exists>bss. mapE mms_encode vs = Inr bss \<and> length (concat bss) \<le> sum_list (map mms_size_bound vs)"
proof (rule mapE_mms_encode_total)
  fix v assume v: "v \<in> set vs"
  then have "mms_size_bound v \<le> sum_list (map mms_size_bound vs)" by (simp add: member_le_sum_list)
  with v assms show "\<exists>enc. mms_encode v = Inr enc \<and> length enc \<le> mms_size_bound v"
    by (intro IH) (auto simp: list_all_iff)
qed

lemma mms_encode_total:
  "wf_mms_data v \<Longrightarrow> mms_size_bound v \<le> 0xFFFFFFFF \<Longrightarrow>
     \<exists>enc. mms_encode v = Inr enc \<and> length enc \<le> mms_size_bound v"
proof (induction v)
  case (Mms_array vs)
  then obtain bss where "mapE mms_encode vs = Inr bss"
      "length (concat bss) \<le> sum_list (map mms_size_bound vs)"
    using mms_encode_list_total [of vs] by auto
  then show ?case using Mms_array.prems by (intro mms_encode_of_content) (auto simp del: mms_encode.simps)
next
  case (Mms_structure vs)
  then obtain bss where "mapE mms_encode vs = Inr bss"
      "length (concat bss) \<le> sum_list (map mms_size_bound vs)"
    using mms_encode_list_total [of vs] by auto
  then show ?case using Mms_structure.prems by (intro mms_encode_of_content) (auto simp del: mms_encode.simps)
next
  case (Mms_utc_time t)
  then obtain bs where "utc_to_bytes t = Inr bs" "length bs = 8"
    using length_utc_to_bytes by (auto simp: bindE_Inr_iff)
  with Mms_utc_time show ?case by (intro mms_encode_of_content) auto
qed (rule mms_encode_of_content; simp add: ber_encode_boolean_def ber_encode_single_precision_float_def
    encode_double_precision_float_def ber_encode_ascii_def
    order_trans [OF length_ber_integers(1)] order_trans [OF length_ber_integers(2)] del: mms_encode.simps)+

subsection \<open>Properties\<close>

text \<open>C1.  MMS data round trip: a well-formed value of bounded size encodes, and wherever its
  octets stand in a buffer the BER reader finds one TLV extending over exactly those octets, which
  decodes to the value.\<close>

theorem mms_data_round_trip:
  assumes "wf_mms_data v" "mms_size_bound v \<le> 0xFFFFFFFF"
  shows "\<exists>enc tlv. mms_encode v = Inr enc \<and>
    ber_try_read_tlv (pre @ enc @ post) (length pre) = Inr (length pre + length enc, tlv) \<and>
    mms_decode tlv = Inr v"
proof -
  obtain enc where "mms_encode v = Inr enc" using mms_encode_total [OF assms] by blast
  with mms_read_back [OF this assms(1)] show ?thesis by blast
qed

theorem mms_data_round_trip_witness:
  "\<exists>enc tlv. mms_encode (Mms_structure [Mms_array [Mms_integer 5, Mms_boolean True],
       Mms_visible_string ''LLN0'', Mms_unknown 40 [1, 2]]) = Inr enc \<and>
    ber_try_read_tlv ([0x30, 0] @ enc @ [0xFF]) (length [0x30 :: u8, 0]) =
      Inr (length [0x30 :: u8, 0] + length enc, tlv) \<and>
    mms_decode tlv = Inr (Mms_structure [Mms_array [Mms_integer 5, Mms_boolean True],
       Mms_visible_string ''LLN0'', Mms_unknown 40 [1, 2]])"
  by (rule mms_data_round_trip) simp_all

text \<open>A list of values: encoding each and concatenating, then splitting the buffer into TLVs
  and decoding each, gives the list back; in particular the encoding of lists is injective.\<close>

theorem mms_data_list_round_trip:
  assumes "list_all wf_mms_data vs" "sum_list (map mms_size_bound vs) \<le> 0xFFFFFFFF"
  shows "\<exists>bs. mms_encode_all vs = Inr bs \<and> mms_decode_all bs = Inr vs"
proof -
  obtain bss where "mapE mms_encode vs = Inr bss"
    using mms_encode_list_total [OF mms_encode_total assms] by blast
  then have "mms_encode_all vs = Inr (concat bss)" by (simp add: mms_encode_all_def)
  with mms_decode_encode_all [OF this assms(1)] show ?thesis by blast
qed

theorem mms_data_list_round_trip_witness:
  "\<exists>bs. mms_encode_all [Mms_float 0x40490FDB, Mms_array [], Mms_bit_string [6, 0x40]] = Inr bs \<and>
     mms_decode_all bs = Inr [Mms_float 0x40490FDB, Mms_array [], Mms_bit_string [6, 0x40]]"
  by (rule mms_data_list_round_trip) simp_all

end
