(* ===== verification/Ethernet.thy ===== *)
theory Ethernet
  imports Prelude
begin

text \<open>
  Ethernet II and IEEE 802.1Q framing, MAC addresses and the IEC 61850-8-1/9-2 process-bus
  header (\<open>src/ethernet/ethernet.cpp\<close>, \<open>include/ariec61850/ethernet/ethernet.hpp\<close>).
  A codec that sizes a vector and then writes every octet of it at ascending offsets is modelled
  by the concatenation of what it writes.
\<close>

subsection \<open>MAC addresses\<close>

type_synonym mac_address = bytes  \<comment> \<open>\<open>std::array<std::uint8_t, 6>\<close>\<close>

definition mac_ok :: "mac_address \<Rightarrow> bool" where
  "mac_ok m \<longleftrightarrow> length m = 6"

definition mac_of_bytes :: "bytes \<Rightarrow> mac_address result" where
  "mac_of_bytes bs = (if length bs \<noteq> 6
     then Inl (Invalid_argument ''A MAC address must contain exactly 6 bytes.'') else Inr bs)"

definition hex_value :: "char \<Rightarrow> int" where
  "hex_value ch = (let c = of_char ch :: int in
     if 48 \<le> c \<and> c \<le> 57 then c - 48
     else if 97 \<le> c \<and> c \<le> 102 then c - 97 + 10
     else if 65 \<le> c \<and> c \<le> 70 then c - 65 + 10
     else -1)"

definition is_space :: "char \<Rightarrow> bool" where
  "is_space ch = (let c = of_char ch :: nat in c = 32 \<or> (9 \<le> c \<and> c \<le> 13))"

definition mac_normalize :: "string \<Rightarrow> string" where
  "mac_normalize text =
     map (\<lambda>ch. if ch = CHR ''-'' then CHR '':'' else ch)
       (rev (dropWhile is_space (rev (dropWhile is_space text))))"

definition mac_parse_octet :: "string \<Rightarrow> nat \<Rightarrow> u8 option" where
  "mac_parse_octet s index =
     (let offset = index * 3 in
      if index \<noteq> 5 \<and> s ! (offset + 2) \<noteq> CHR '':'' then None
      else let high = hex_value (s ! offset); low = hex_value (s ! (offset + 1)) in
        if high < 0 \<or> low < 0 then None
        else Some (word_of_int (push_bit 4 high OR low)))"

text \<open>The loop over the six octets stops at the first malformed one.\<close>

fun mac_parse_loop :: "string \<Rightarrow> nat list \<Rightarrow> bytes option" where
  "mac_parse_loop s [] = Some []"
| "mac_parse_loop s (i # is) = (case mac_parse_octet s i of None \<Rightarrow> None
     | Some b \<Rightarrow> map_option ((#) b) (mac_parse_loop s is))"

definition mac_try_parse :: "string \<Rightarrow> mac_address option" where
  "mac_try_parse text =
     (let normalized = mac_normalize text in
      if normalized = [] then None
      else if length normalized \<noteq> 17 then None
      else mac_parse_loop normalized [0..<6])"

definition mac_parse :: "string \<Rightarrow> mac_address result" where
  "mac_parse text = (case mac_try_parse text of
     None \<Rightarrow> Inl (Invalid_argument (''Invalid MAC address '' @ [char_of (39::nat)] @ text @ [char_of (39::nat)] @ ''.''))
   | Some m \<Rightarrow> Inr m)"

text \<open>\<open>std::uppercase << std::hex << std::setw(2) << std::setfill('0')\<close>.\<close>

definition hex_digit :: "nat \<Rightarrow> char" where
  "hex_digit n = char_of (if n < 10 then 48 + n else 55 + n)"

definition hex_octet :: "u8 \<Rightarrow> string" where
  "hex_octet b = [hex_digit (unat b div 16), hex_digit (unat b mod 16)]"

fun mac_to_string :: "mac_address \<Rightarrow> string" where
  "mac_to_string [] = []"
| "mac_to_string [b] = hex_octet b"
| "mac_to_string (b # bs) = hex_octet b @ CHR '':'' # mac_to_string bs"

lemma hex_digit_table:
  "\<forall>n < 16. hex_value (hex_digit n) = int n \<and> \<not> is_space (hex_digit n) \<and> hex_digit n \<noteq> CHR ''-''"
  by code_simp

lemma hex_digit_facts [simp]:
  assumes "n < 16"
  shows "hex_value (hex_digit n) = int n" "\<not> is_space (hex_digit n)" "hex_digit n \<noteq> CHR ''-''"
  using hex_digit_table assms by auto

lemma unat_octet_high [simp]: "unat (b :: u8) div 16 < 16"
  using unat_less_exp [of b] by simp

lemma hex_octet_value:
  "(word_of_int (push_bit 4 (int (unat b div 16)) OR int (unat b mod 16)) :: u8) = b"
proof -
  have n: "unat b div 16 = drop_bit 4 (unat b)" "unat b mod 16 = take_bit 4 (unat b)"
    by (simp_all add: drop_bit_eq_div take_bit_eq_mod)
  show ?thesis
    unfolding n by (rule bit_word_eqI) (auto simp: bit_simps)
qed

lemma length_mac_to_string: "length m = Suc n \<Longrightarrow> length (mac_to_string m) = 3 * n + 2"
  by (induction m arbitrary: n rule: mac_to_string.induct) (auto simp: hex_octet_def)

lemma mac_to_string_six:
  "mac_to_string [a, b, c, d, e, f] = hex_octet a @ CHR '':'' # hex_octet b @ CHR '':'' # hex_octet c @
     CHR '':'' # hex_octet d @ CHR '':'' # hex_octet e @ CHR '':'' # hex_octet f"
  by simp

lemma mac_ok_obtain:
  assumes "mac_ok m" obtains a b c d e f where "m = [a, b, c, d, e, f]"
  using assms by (auto simp: mac_ok_def numeral_eq_Suc length_Suc_conv)

lemma mac_normalize_to_string:
  assumes "mac_ok m" shows "mac_normalize (mac_to_string m) = mac_to_string m"
proof -
  obtain a b c d e f where "m = [a, b, c, d, e, f]" using mac_ok_obtain [OF assms] .
  then show ?thesis by (simp add: mac_normalize_def hex_octet_def)
qed

lemma mac_parse_to_string:
  assumes "mac_ok m" shows "mac_try_parse (mac_to_string m) = Some m"
proof -
  obtain a b c d e f where m: "m = [a, b, c, d, e, f]" using mac_ok_obtain [OF assms] .
  have r: "[0..<6] = [0, 1, 2, 3, 4, 5]" by (simp add: upt_rec)
  have len: "length (mac_to_string m) = 17" using length_mac_to_string [of m 5] m by simp
  then have "mac_to_string m \<noteq> []" by auto
  moreover have "mac_parse_loop (mac_to_string m) [0..<6] = Some m"
    unfolding r m mac_to_string_six
    by (simp add: mac_parse_octet_def hex_octet_def hex_octet_value)
  ultimately show ?thesis
    using len by (simp add: mac_try_parse_def mac_normalize_to_string [OF assms])
qed

subsection \<open>VLAN tags\<close>

record vlan_tag =
  priority_code_point :: u8
  drop_eligible :: bool
  vlan_id :: u16

definition is_valid_vlan_id :: "u16 \<Rightarrow> bool" where
  "is_valid_vlan_id v \<longleftrightarrow> v \<le> 4094"

definition is_valid_vlan_priority :: "u8 \<Rightarrow> bool" where
  "is_valid_vlan_priority p \<longleftrightarrow> p \<le> 7"

definition to_tag_control_information :: "vlan_tag \<Rightarrow> u16 result" where
  "to_tag_control_information v =
     (if \<not> is_valid_vlan_priority (priority_code_point v)
      then Inl (Out_of_range ''VLAN priority must be 0..7.'')
      else if \<not> is_valid_vlan_id (vlan_id v)
      then Inl (Out_of_range ''VLAN ID must be 0..4094.'')
      else Inr (ucast (push_bit 13 (ucast (priority_code_point v)) OR
                       (if drop_eligible v then 0x1000 else 0) OR ucast (vlan_id v) :: u32)))"

definition from_tag_control_information :: "u16 \<Rightarrow> vlan_tag" where
  "from_tag_control_information tci =
     \<lparr>priority_code_point = ucast (drop_bit 13 tci AND 0x07),
      drop_eligible = (tci AND 0x1000 \<noteq> 0),
      vlan_id = tci AND 0x0FFF\<rparr>"

lemma tci_fields:
  "(w :: u16) AND 0x0FFF = take_bit 12 w" "(w :: u16) AND 0x07 = take_bit 3 w"
  "(w :: u16) AND 0x1000 \<noteq> 0 \<longleftrightarrow> bit w 12"
  using and_exp_eq_0_iff_not_bit [of w 12]
  by (simp_all add: take_bit_eq_mask mask_eq_exp_minus_1)

lemma vlan_bounds:
  "p \<le> (7 :: u8) \<Longrightarrow> take_bit 3 p = p" "v \<le> (4094 :: u16) \<Longrightarrow> take_bit 12 v = v"
  by (auto simp: take_bit_eq_mod word_le_nat_alt word_arith_nat_mod unat_arith_simps
      intro!: word_unat_eq_iff [THEN iffD2])

lemma bit_drop_eligible [simp]:
  "bit (0x1000 :: u32) k \<longleftrightarrow> k = 12" "bit (0x1000 :: u16) k \<longleftrightarrow> k = 12"
  "bit (0x1000 :: int) k \<longleftrightarrow> k = 12" "bit (0x1000 :: nat) k \<longleftrightarrow> k = 12"
  using bit_exp_iff [of 12 k, where 'a = "32 word"] bit_exp_iff [of 12 k, where 'a = "16 word"]
    bit_exp_iff [of 12 k, where 'a = int] bit_exp_iff [of 12 k, where 'a = nat]
  by (auto simp: bit_simps)

lemma from_to_tci:
  assumes "to_tag_control_information v = Inr tci"
  shows "from_tag_control_information tci = v"
proof -
  have p: "take_bit 3 (priority_code_point v) = priority_code_point v"
    and i: "take_bit 12 (vlan_id v) = vlan_id v"
    using assms vlan_bounds by (auto simp: to_tag_control_information_def is_valid_vlan_priority_def
        is_valid_vlan_id_def split: if_splits)
  have pb: "bit (priority_code_point v) k \<Longrightarrow> k < 3" for k by (metis p bit_take_bit_iff)
  have ib: "bit (vlan_id v) k \<Longrightarrow> k < 12" for k by (metis i bit_take_bit_iff)
  have b: "bit tci k \<longleftrightarrow> k < 16 \<and> (13 \<le> k \<and> bit (priority_code_point v) (k - 13) \<or>
      k = 12 \<and> drop_eligible v \<or> bit (vlan_id v) k)" for k
    using assms unfolding to_tag_control_information_def
    by (auto simp: bit_simps split: if_splits)
  have "ucast (take_bit 3 (drop_bit 13 tci)) = priority_code_point v"
    by (rule bit_word_eqI) (auto simp: bit_simps b dest: pb ib)
  moreover have "take_bit 12 tci = vlan_id v"
    by (rule bit_word_eqI) (auto simp: bit_simps b dest: pb ib)
  moreover have "bit tci 12 = drop_eligible v"
    using ib [of 12] by (auto simp: b)
  ultimately show ?thesis
    by (simp add: from_tag_control_information_def tci_fields)
qed

lemma to_from_tci:
  assumes "is_valid_vlan_id (vlan_id (from_tag_control_information tci))"
  shows "to_tag_control_information (from_tag_control_information tci) = Inr tci"
proof -
  have "ucast (take_bit 3 (drop_bit 13 tci)) \<le> (7 :: u8)"
  proof -
    have "(ucast (take_bit 3 (drop_bit 13 tci)) :: u8) = take_bit 3 (ucast (drop_bit 13 tci))"
      by (rule bit_word_eqI) (auto simp: bit_simps)
    then show ?thesis
      using take_bit_nat_less_exp [of 3 "unat (ucast (drop_bit 13 tci) :: u8)"]
      by (simp add: word_le_nat_alt unsigned_take_bit_eq)
  qed
  moreover have "(ucast (push_bit 13 (ucast (ucast (take_bit 3 (drop_bit 13 tci)) :: u8)) OR
      (if bit tci 12 then 0x1000 else 0) OR ucast (take_bit 12 tci) :: u32) :: u16) = tci"
  proof (rule bit_word_eqI)
    fix k assume "k < LENGTH(16)"
    then consider "k < 12" | "k = 12" | "13 \<le> k" "k < 16" by fastforce
    then show "bit (ucast (push_bit 13 (ucast (ucast (take_bit 3 (drop_bit 13 tci)) :: u8)) OR
      (if bit tci 12 then 0x1000 else 0) OR ucast (take_bit 12 tci) :: u32) :: u16) k = bit tci k"
      by cases (auto simp: bit_simps)
  qed
  ultimately show ?thesis
    using assms by (simp add: to_tag_control_information_def from_tag_control_information_def
        tci_fields is_valid_vlan_priority_def)
qed

subsection \<open>Ethernet frames\<close>

record ethernet_frame =
  destination :: mac_address
  source :: mac_address
  ether_type :: u16
  vlan :: "vlan_tag option"
  payload :: bytes

definition frame_ok :: "ethernet_frame \<Rightarrow> bool" where
  "frame_ok f \<longleftrightarrow> mac_ok (destination f) \<and> mac_ok (source f)"

definition ethernet_encode :: "ethernet_frame \<Rightarrow> bytes result" where
  "ethernet_encode f =
     (case vlan f of
        None \<Rightarrow> Inr (destination f @ source f @ write_be_u16 (ether_type f) @ payload f)
      | Some v \<Rightarrow> bindE (to_tag_control_information v) (\<lambda>tci.
          Inr (destination f @ source f @ write_be_u16 0x8100 @ write_be_u16 tci @
               write_be_u16 (ether_type f) @ payload f)))"

definition ethernet_try_decode :: "bytes \<Rightarrow> ethernet_frame option" where
  "ethernet_try_decode bs =
     (if length bs < 14 then None
      else let dst = take 6 bs; src = take 6 (drop 6 bs); type = read_be_u16 bs 12 in
        if type = 0x8100 then
          (if length bs < 18 then None
           else let decoded_vlan = from_tag_control_information (read_be_u16 bs 14) in
             if \<not> is_valid_vlan_id (vlan_id decoded_vlan) then None
             else Some \<lparr>destination = dst, source = src, ether_type = read_be_u16 bs 16,
                        vlan = Some decoded_vlan, payload = drop 18 bs\<rparr>)
        else Some \<lparr>destination = dst, source = src, ether_type = type, vlan = None,
                   payload = drop 14 bs\<rparr>)"

text \<open>A frame without a tag must not carry the tag's own ether type.\<close>

definition frame_unambiguous :: "ethernet_frame \<Rightarrow> bool" where
  "frame_unambiguous f \<longleftrightarrow> vlan f = None \<longrightarrow> ether_type f \<noteq> 0x8100"

lemma ethernet_decode_encode:
  assumes "frame_ok f" "frame_unambiguous f" "ethernet_encode f = Inr bs"
  shows "ethernet_try_decode bs = Some f"
proof (cases "vlan f")
  case None
  let ?d = "destination f @ source f"
  have len: "length (destination f) = 6" "length (source f) = 6"
    using assms(1) by (simp_all add: frame_ok_def mac_ok_def)
  have bs: "bs = ?d @ write_be_u16 (ether_type f) @ payload f"
    using assms(3) None by (simp add: ethernet_encode_def)
  have "read_be_u16 bs 12 = ether_type f"
    unfolding bs by (rule read_be_u16_append) (simp add: len)
  with None assms(2) len show ?thesis
    by (cases f) (simp add: ethernet_try_decode_def frame_unambiguous_def bs)
next
  case (Some v)
  have len: "length (destination f) = 6" "length (source f) = 6"
    using assms(1) by (simp_all add: frame_ok_def mac_ok_def)
  obtain tci where tci: "to_tag_control_information v = Inr tci"
    and bs: "bs = destination f @ source f @ write_be_u16 0x8100 @ write_be_u16 tci @
      write_be_u16 (ether_type f) @ payload f"
    using assms(3) Some by (auto simp: ethernet_encode_def bindE_Inr_iff)
  have "read_be_u16 bs 12 = 0x8100"
    using read_be_u16_append [of 12 "destination f @ source f"] by (simp add: bs len)
  moreover have "read_be_u16 bs 14 = tci"
    using read_be_u16_append [of 14 "destination f @ source f @ write_be_u16 0x8100"] by (simp add: bs len)
  moreover have "read_be_u16 bs 16 = ether_type f"
    using read_be_u16_append [of 16 "destination f @ source f @ write_be_u16 0x8100 @ write_be_u16 tci"]
    by (simp add: bs len)
  moreover have "is_valid_vlan_id (vlan_id v)"
    using tci by (simp add: to_tag_control_information_def split: if_splits)
  ultimately show ?thesis
    using Some len from_to_tci [OF tci] by (cases f) (simp add: ethernet_try_decode_def bs)
qed

lemma split_at_u16:
  assumes "i + 2 \<le> length bs"
  shows "write_be_u16 (read_be_u16 bs i) @ drop (i + 2) bs = drop i bs"
  using assms by (simp add: write_read_be_u16 Cons_nth_drop_Suc)

lemma ethernet_encode_decode:
  assumes "ethernet_try_decode bs = Some f"
  shows "ethernet_encode f = Inr bs" "frame_ok f"
proof -
  have "take 6 bs @ take 6 (drop 6 bs) @ drop 6 (drop 6 bs) = bs"
    by (simp only: append_take_drop_id)
  then have "take 6 bs @ take 6 (drop 6 bs) @ drop 12 bs = bs" by simp
  then show "ethernet_encode f = Inr bs" "frame_ok f"
    using assms split_at_u16 [of 12 bs] split_at_u16 [of 14 bs] split_at_u16 [of 16 bs]
    by (auto simp: ethernet_try_decode_def ethernet_encode_def frame_ok_def mac_ok_def Let_def
        to_from_tci split: if_splits)
qed

subsection \<open>The process-bus header\<close>

record process_bus_frame =
  ethernet :: ethernet_frame
  app_id :: u16
  declared_length :: u16
  reserved1 :: u16
  reserved2 :: u16
  apdu :: bytes

definition pb_encode_payload :: "u16 \<Rightarrow> bytes \<Rightarrow> u16 \<Rightarrow> u16 \<Rightarrow> bytes result" where
  "pb_encode_payload appid ap r1 r2 =
     (if length ap > 0xFFFF - 8
      then Inl (Out_of_range ''Process-bus APDU exceeds the 16-bit declared length.'')
      else Inr (write_be_u16 appid @ write_be_u16 (of_nat (8 + length ap)) @
                write_be_u16 r1 @ write_be_u16 r2 @ ap))"

definition pb_encode_ethernet_frame ::
  "mac_address \<Rightarrow> mac_address \<Rightarrow> u16 \<Rightarrow> u16 \<Rightarrow> bytes \<Rightarrow> vlan_tag option \<Rightarrow> u16 \<Rightarrow> u16 \<Rightarrow> ethernet_frame result" where
  "pb_encode_ethernet_frame dst src type appid ap v r1 r2 =
     bindE (pb_encode_payload appid ap r1 r2) (\<lambda>pl.
       Inr \<lparr>destination = dst, source = src, ether_type = type, vlan = v, payload = pl\<rparr>)"

definition pb_try_decode :: "ethernet_frame \<Rightarrow> process_bus_frame option" where
  "pb_try_decode f =
     (let pl = payload f in
      if length pl < 8 then None
      else let dl = read_be_u16 pl 2;
               available = length pl - 8;
               declared = (if unat dl \<ge> 8 then unat dl - 8 else available)
        in if declared > available then None
           else Some \<lparr>ethernet = f, app_id = read_be_u16 pl 0, declared_length = dl,
                      reserved1 = read_be_u16 pl 4, reserved2 = read_be_u16 pl 6,
                      apdu = take declared (drop 8 pl)\<rparr>)"

lemma pb_decode_payload:
  assumes "pb_encode_payload appid ap r1 r2 = Inr pl" "payload f = pl @ padding"
  shows "pb_try_decode f = Some \<lparr>ethernet = f, app_id = appid, declared_length = of_nat (8 + length ap),
    reserved1 = r1, reserved2 = r2, apdu = ap\<rparr>"
proof -
  have len: "length ap \<le> 0xFFFF - 8" and pl: "payload f = write_be_u16 appid @
      write_be_u16 (of_nat (8 + length ap)) @ write_be_u16 r1 @ write_be_u16 r2 @ ap @ padding"
    using assms by (auto simp: pb_encode_payload_def split: if_splits)
  have u: "unat (of_nat (8 + length ap) :: u16) = 8 + length ap"
    using len by (simp add: unat_of_nat del: of_nat_add)
  have "read_be_u16 (payload f) 0 = appid"
    unfolding pl by simp
  moreover have "read_be_u16 (payload f) 2 = of_nat (8 + length ap)"
    unfolding pl using read_be_u16_append [of 2 "write_be_u16 appid"] by simp
  moreover have "read_be_u16 (payload f) 4 = r1"
    unfolding pl
    using read_be_u16_append [of 4 "write_be_u16 appid @ write_be_u16 (of_nat (8 + length ap))"] by simp
  moreover have "read_be_u16 (payload f) 6 = r2"
    unfolding pl using read_be_u16_append
      [of 6 "write_be_u16 appid @ write_be_u16 (of_nat (8 + length ap)) @ write_be_u16 r1"] by simp
  moreover have "length (payload f) = 8 + length ap + length padding" "drop 8 (payload f) = ap @ padding"
    unfolding pl by simp_all
  ultimately show ?thesis using u by (simp add: pb_try_decode_def Let_def)
qed

lemma ethernet_encode_padding:
  "ethernet_encode f = Inr bs \<Longrightarrow> ethernet_encode (f\<lparr>payload := payload f @ padding\<rparr>) = Inr (bs @ padding)"
  by (auto simp: ethernet_encode_def bindE_Inr_iff split: option.splits)

lemma ether_types_differ: "(0x88B8 :: u16) \<noteq> 0x8100" "(0x88BA :: u16) \<noteq> 0x8100"
  by simp_all

lemma process_bus_transfer:
  assumes "mac_ok dst" "mac_ok src" "type \<noteq> 0x8100" "length ap \<le> 0xFFFF - 8"
    "\<forall>t. v = Some t \<longrightarrow> is_valid_vlan_priority (priority_code_point t) \<and> is_valid_vlan_id (vlan_id t)"
  shows "\<exists>f bs f' p. pb_encode_ethernet_frame dst src type appid ap v r1 r2 = Inr f \<and>
    ethernet_encode f = Inr bs \<and> ethernet_try_decode (bs @ padding) = Some f' \<and>
    pb_try_decode f' = Some p \<and> destination f' = dst \<and> source f' = src \<and> ether_type f' = type \<and>
    vlan f' = v \<and> app_id p = appid \<and> reserved1 p = r1 \<and> reserved2 p = r2 \<and> apdu p = ap \<and>
    declared_length p = of_nat (8 + length ap)"
proof -
  obtain pl where pl: "pb_encode_payload appid ap r1 r2 = Inr pl"
    using assms(4) by (simp add: pb_encode_payload_def)
  let ?f = "\<lparr>destination = dst, source = src, ether_type = type, vlan = v, payload = pl\<rparr>"
  let ?f' = "?f\<lparr>payload := pl @ padding\<rparr>"
  obtain bs where bs: "ethernet_encode ?f = Inr bs"
    using assms(5) by (cases v) (auto simp: ethernet_encode_def to_tag_control_information_def)
  have "ethernet_encode ?f' = Inr (bs @ padding)"
    using ethernet_encode_padding [OF bs, of padding] by simp
  then have "ethernet_try_decode (bs @ padding) = Some ?f'"
    using assms(1,2,3) by (intro ethernet_decode_encode) (simp_all add: frame_ok_def frame_unambiguous_def)
  moreover have "pb_try_decode ?f' = Some \<lparr>ethernet = ?f', app_id = appid,
      declared_length = of_nat (8 + length ap), reserved1 = r1, reserved2 = r2, apdu = ap\<rparr>"
    by (rule pb_decode_payload [OF pl]) simp
  ultimately show ?thesis
    using pl bs by (fastforce simp: pb_encode_ethernet_frame_def)
qed

subsection \<open>Properties\<close>

text \<open>The textual form of a MAC address parses back to the same six octets.\<close>

theorem mac_text_round_trip:
  assumes "mac_ok m"
  shows "mac_parse (mac_to_string m) = Inr m"
  by (simp add: mac_parse_def mac_parse_to_string [OF assms])

theorem mac_text_round_trip_witness:
  "mac_parse (mac_to_string [0x01, 0x0C, 0xCD, 0x01, 0x00, 0xFF]) = Inr [0x01, 0x0C, 0xCD, 0x01, 0x00, 0xFF]"
  by (rule mac_text_round_trip) (simp add: mac_ok_def)

text \<open>Decoding is closed under encoding: whatever octets the decoder accepts, encoding the
  decoded frame gives exactly those octets (so no accepted VLAN tag is refused by the encoder).\<close>

theorem ethernet_decode_closed_under_encode:
  "case ethernet_try_decode bs of None \<Rightarrow> True | Some f \<Rightarrow> ethernet_encode f = Inr bs"
  using ethernet_encode_decode(1) [of bs] by (cases "ethernet_try_decode bs") auto

text \<open>A process-bus APDU put in an Ethernet frame, encoded, padded by the medium and decoded
  again is delivered unchanged, with its addresses, VLAN tag, APPID and reserved words: the declared
  length separates it from the padding.\<close>

theorem process_bus_round_trip:
  assumes "mac_ok dst" "mac_ok src" "type \<noteq> 0x8100" "length ap \<le> 0xFFFF - 8"
    "\<forall>t. v = Some t \<longrightarrow> is_valid_vlan_priority (priority_code_point t) \<and> is_valid_vlan_id (vlan_id t)"
  shows "\<exists>f bs f' p. pb_encode_ethernet_frame dst src type appid ap v r1 r2 = Inr f \<and>
    ethernet_encode f = Inr bs \<and> ethernet_try_decode (bs @ padding) = Some f' \<and>
    pb_try_decode f' = Some p \<and> destination f' = dst \<and> source f' = src \<and> ether_type f' = type \<and>
    vlan f' = v \<and> app_id p = appid \<and> reserved1 p = r1 \<and> reserved2 p = r2 \<and> apdu p = ap"
  using process_bus_transfer [OF assms, of appid r1 r2 padding] by blast

theorem process_bus_round_trip_witness:
  "\<exists>f bs f' p. pb_encode_ethernet_frame [1,2,3,4,5,6] [6,5,4,3,2,1] 0x88B8 0x3000 [0x61, 0]
      (Some \<lparr>priority_code_point = 4, drop_eligible = False, vlan_id = 10\<rparr>) 0 0 = Inr f \<and>
    ethernet_encode f = Inr bs \<and> ethernet_try_decode (bs @ replicate 30 0) = Some f' \<and>
    pb_try_decode f' = Some p \<and> destination f' = [1,2,3,4,5,6] \<and> source f' = [6,5,4,3,2,1] \<and>
    ether_type f' = 0x88B8 \<and> vlan f' = Some \<lparr>priority_code_point = 4, drop_eligible = False, vlan_id = 10\<rparr> \<and>
    app_id p = 0x3000 \<and> reserved1 p = 0 \<and> reserved2 p = 0 \<and> apdu p = [0x61, 0]"
  by (rule process_bus_round_trip)
    (simp_all add: mac_ok_def is_valid_vlan_priority_def is_valid_vlan_id_def)

end
