(* ===== verification/Goose_Codec.thy ===== *)
theory Goose_Codec
  imports Mms_Data Ethernet
begin

text \<open>
  The GOOSE PDU and frame codecs (\<open>src/goose/pdu_codec.cpp\<close>, \<open>src/goose/frame_codec.cpp\<close>).
  The decoder accepts the fields in any order and ignores unknown ones; the round trip composes the
  BER, UTC time, MMS data, process-bus and Ethernet results.
\<close>

record goose_pdu =
  go_cb_ref :: string
  time_allowed_to_live :: u32  \<comment> \<open>milliseconds\<close>
  data_set_reference :: string
  go_id :: string
  timestamp :: utc_time
  state_number :: u32
  sequence_number :: u32
  test_flag :: bool
  configuration_revision :: u32
  needs_commissioning :: bool
  goose_values :: "mms_data list"

subsection \<open>Encoding\<close>

definition write_context_primitive :: "int \<times> bytes \<Rightarrow> bytes \<Rightarrow> bytes result" where
  "write_context_primitive = (\<lambda>(tag, v) w. bindE (ber_encode_tlv Context_specific False tag v) (\<lambda>enc. Inr (w @ enc)))"

definition goose_pdu_encode :: "goose_pdu \<Rightarrow> bytes result" where
  "goose_pdu_encode p =
     bindE (foldE write_context_primitive
       [(0, ber_encode_ascii (go_cb_ref p)),
        (1, ber_encode_unsigned_integer (ucast (time_allowed_to_live p))),
        (2, ber_encode_ascii (data_set_reference p)),
        (3, ber_encode_ascii (go_id p))] []) (\<lambda>w.
     bindE (utc_to_bytes (timestamp p)) (\<lambda>ts.
     bindE (foldE write_context_primitive
       [(4, ts),
        (5, ber_encode_unsigned_integer (ucast (state_number p))),
        (6, ber_encode_unsigned_integer (ucast (sequence_number p))),
        (7, ber_encode_boolean (test_flag p)),
        (8, ber_encode_unsigned_integer (ucast (configuration_revision p))),
        (9, ber_encode_boolean (needs_commissioning p)),
        (10, ber_encode_unsigned_integer (of_nat (length (goose_values p))))] w) (\<lambda>w.
     bindE (mms_encode_all (goose_values p)) (\<lambda>all_data.
     bindE (ber_encode_tlv Context_specific True 11 all_data) (\<lambda>enc.
     ber_encode_tlv Application True 1 (w @ enc))))))"

subsection \<open>Decoding\<close>

text \<open>The local variables of the decoder: the fields of the PDU and the declared entry count.\<close>

definition value_or :: "'a \<Rightarrow> 'a option \<Rightarrow> 'a" where
  "value_or d x = (case x of None \<Rightarrow> d | Some y \<Rightarrow> y)"

definition goose_decode_field :: "ber_tlv \<Rightarrow> goose_pdu \<times> u32 \<Rightarrow> (goose_pdu \<times> u32) result" where
  "goose_decode_field field = (\<lambda>(p, n).
     if tag_class field \<noteq> Context_specific then Inr (p, n)
     else if tag_number field = 0 then Inr (p\<lparr>go_cb_ref := ber_read_ascii_string field\<rparr>, n)
     else if tag_number field = 1 then Inr (p\<lparr>time_allowed_to_live := value_or 0 (ber_read_uint32 field)\<rparr>, n)
     else if tag_number field = 2 then Inr (p\<lparr>data_set_reference := ber_read_ascii_string field\<rparr>, n)
     else if tag_number field = 3 then Inr (p\<lparr>go_id := ber_read_ascii_string field\<rparr>, n)
     else if tag_number field = 4 then bindE (utc_from_bytes (tlv_value field)) (\<lambda>t. Inr (p\<lparr>timestamp := t\<rparr>, n))
     else if tag_number field = 5 then Inr (p\<lparr>state_number := value_or 0 (ber_read_uint32 field)\<rparr>, n)
     else if tag_number field = 6 then Inr (p\<lparr>sequence_number := value_or 0 (ber_read_uint32 field)\<rparr>, n)
     else if tag_number field = 7 then Inr (p\<lparr>test_flag := value_or False (ber_read_boolean field)\<rparr>, n)
     else if tag_number field = 8 then Inr (p\<lparr>configuration_revision := value_or 0 (ber_read_uint32 field)\<rparr>, n)
     else if tag_number field = 9 then Inr (p\<lparr>needs_commissioning := value_or False (ber_read_boolean field)\<rparr>, n)
     else if tag_number field = 10 then Inr (p, value_or 0 (ber_read_uint32 field))
     else if tag_number field = 11 then bindE (mms_decode_all (tlv_value field)) (\<lambda>vs. Inr (p\<lparr>goose_values := vs\<rparr>, n))
     else Inr (p, n))"

definition goose_decode_init :: goose_pdu where
  "goose_decode_init = \<lparr>go_cb_ref = '''', time_allowed_to_live = 0, data_set_reference = '''', go_id = '''',
     timestamp = \<lparr>utc_ns = 0, utc_quality = 0\<rparr>, state_number = 0, sequence_number = 0, test_flag = False,
     configuration_revision = 0, needs_commissioning = False, goose_values = []\<rparr>"

text \<open>Every exception is caught and reported as failure.\<close>

definition goose_pdu_try_decode :: "bytes \<Rightarrow> goose_pdu option" where
  "goose_pdu_try_decode ap =
     (case ber_try_read_tlv ap 0 of
        Inl _ \<Rightarrow> None
      | Inr (_, outer) \<Rightarrow>
          if tag_class outer \<noteq> Application \<or> tag_number outer \<noteq> 1 \<or> \<not> constructed outer then None
          else (case bindE (ber_read_children (tlv_value outer)) (\<lambda>fields.
                       foldE goose_decode_field fields (goose_decode_init, 0)) of
              Inl _ \<Rightarrow> None
            | Inr (p, n) \<Rightarrow>
                if n \<noteq> 0 \<and> length (goose_values p) \<noteq> unat n then None else Some p))"

subsection \<open>Frames\<close>

record goose_frame =
  gf_destination :: mac_address
  gf_source :: mac_address
  gf_vlan :: "vlan_tag option"
  gf_app_id :: u16
  gf_reserved1 :: u16
  gf_reserved2 :: u16
  gf_pdu :: goose_pdu

definition goose_frame_encode :: "goose_frame \<Rightarrow> bytes result" where
  "goose_frame_encode f =
     bindE (goose_pdu_encode (gf_pdu f)) (\<lambda>ap.
     bindE (pb_encode_ethernet_frame (gf_destination f) (gf_source f) 0x88B8 (gf_app_id f) ap
              (gf_vlan f) (gf_reserved1 f) (gf_reserved2 f)) ethernet_encode)"

definition goose_frame_try_decode :: "bytes \<Rightarrow> goose_frame option" where
  "goose_frame_try_decode bs =
     (case ethernet_try_decode bs of
        None \<Rightarrow> None
      | Some ef \<Rightarrow>
          if ether_type ef \<noteq> 0x88B8 then None
          else (case pb_try_decode ef of
              None \<Rightarrow> None
            | Some pb \<Rightarrow>
                (case goose_pdu_try_decode (apdu pb) of
                   None \<Rightarrow> None
                 | Some p \<Rightarrow> Some \<lparr>gf_destination = destination ef, gf_source = source ef,
                     gf_vlan = vlan ef, gf_app_id = app_id pb, gf_reserved1 = reserved1 pb,
                     gf_reserved2 = reserved2 pb, gf_pdu = p\<rparr>)))"

subsection \<open>Round trip\<close>

definition goose_pdu_ok :: "goose_pdu \<Rightarrow> bool" where
  "goose_pdu_ok p \<longleftrightarrow> bindE (utc_to_bytes (timestamp p)) utc_from_bytes = Inr (timestamp p) \<and>
     list_all wf_mms_data (goose_values p) \<and> length (goose_values p) \<le> 0xFFFFFFFF"

definition prim_tlv :: "int \<times> bytes \<Rightarrow> ber_tlv" where
  "prim_tlv = (\<lambda>(tag, v). tlv_of Context_specific False tag v)"

lemma write_context_primitives:
  "foldE write_context_primitive fs w = Inr w' \<Longrightarrow> \<forall>(t, v) \<in> set fs. t \<le> 1000000 \<Longrightarrow>
     w' = w @ concat (map tlv_encoding (map prim_tlv fs)) \<and> list_all tlv_wf (map prim_tlv fs)"
proof (induction fs arbitrary: w)
  case (Cons f fs)
  obtain t v where f: "f = (t, v)" by fastforce
  then obtain enc where enc: "ber_encode_tlv Context_specific False t v = Inr enc"
      and rest: "foldE write_context_primitive fs (w @ enc) = Inr w'"
    using Cons.prems(1) by (auto simp: write_context_primitive_def bindE_Inr_iff)
  from Cons.IH [OF rest] Cons.prems(2) enc f show ?case
    by (auto simp: prim_tlv_def ber_encode_tlv_encoding intro: tlv_wf_of_encode)
qed simp

lemma ber_read_back_encoded:
  assumes "ber_encode_tlv cls c t v = Inr enc" "t \<le> 1000000"
  shows "ber_try_read_tlv (enc @ post) 0 = Inr (length enc, tlv_of cls c t v)"
  using ber_tlv_read_back [of t v cls c "[]" post] ber_encode_tlv_Inr_bounds [OF assms(1)] assms by auto

lemma goose_decode_fields:
  assumes "utc_from_bytes ts = Inr (timestamp p)" "mms_decode_all d = Inr (goose_values p)"
    "length (goose_values p) \<le> 0xFFFFFFFF"
  shows "foldE goose_decode_field
    (map prim_tlv [(0, ber_encode_ascii (go_cb_ref p)),
        (1, ber_encode_unsigned_integer (ucast (time_allowed_to_live p))),
        (2, ber_encode_ascii (data_set_reference p)), (3, ber_encode_ascii (go_id p))] @
     map prim_tlv [(4, ts), (5, ber_encode_unsigned_integer (ucast (state_number p))),
        (6, ber_encode_unsigned_integer (ucast (sequence_number p))),
        (7, ber_encode_boolean (test_flag p)),
        (8, ber_encode_unsigned_integer (ucast (configuration_revision p))),
        (9, ber_encode_boolean (needs_commissioning p)),
        (10, ber_encode_unsigned_integer (of_nat (length (goose_values p))))] @
     [tlv_of Context_specific True 11 d]) (goose_decode_init, 0) = Inr (p, of_nat (length (goose_values p)))"
proof -
  have n: "(of_nat (length (goose_values p)) :: u64) = ucast (of_nat (length (goose_values p)) :: u32)"
    using assms(3) by (simp add: word_unat_eq_iff unat_ucast_widen unat_of_nat)
  show ?thesis
    using assms(1,2) unfolding n
    by (simp add: prim_tlv_def goose_decode_field_def value_or_def ber_read_ascii_string_def
        goose_decode_init_def)
qed

lemma goose_pdu_read_back:
  assumes "goose_pdu_encode p = Inr ap" "goose_pdu_ok p"
  shows "goose_pdu_try_decode (ap @ post) = Some p"
proof -
  let ?f1 = "[(0, ber_encode_ascii (go_cb_ref p)),
        (1, ber_encode_unsigned_integer (ucast (time_allowed_to_live p))),
        (2, ber_encode_ascii (data_set_reference p)), (3, ber_encode_ascii (go_id p))]"
  let ?f2 = "\<lambda>ts. [(4, ts), (5, ber_encode_unsigned_integer (ucast (state_number p))),
        (6, ber_encode_unsigned_integer (ucast (sequence_number p))),
        (7, ber_encode_boolean (test_flag p)),
        (8, ber_encode_unsigned_integer (ucast (configuration_revision p))),
        (9, ber_encode_boolean (needs_commissioning p)),
        (10, ber_encode_unsigned_integer (of_nat (length (goose_values p))))]"
  obtain w1 ts w2 d enc where
    w1: "foldE write_context_primitive ?f1 [] = Inr w1" and
    ts: "utc_to_bytes (timestamp p) = Inr ts" and
    w2: "foldE write_context_primitive (?f2 ts) w1 = Inr w2" and
    d: "mms_encode_all (goose_values p) = Inr d" and
    enc: "ber_encode_tlv Context_specific True 11 d = Inr enc" and
    ap: "ber_encode_tlv Application True 1 (w2 @ enc) = Inr ap"
    using assms(1) unfolding goose_pdu_encode_def bindE_Inr_iff by blast
  let ?tlvs = "map prim_tlv ?f1 @ map prim_tlv (?f2 ts) @ [tlv_of Context_specific True 11 d]"
  have "w2 @ enc = concat (map tlv_encoding ?tlvs)" "list_all tlv_wf ?tlvs"
    using write_context_primitives [OF w1] write_context_primitives [OF w2]
      ber_encode_tlv_encoding [OF enc] tlv_wf_of_encode [OF enc] by simp_all
  then have kids: "ber_read_children (w2 @ enc) = Inr ?tlvs"
    using ber_read_children_concat [of ?tlvs] by simp
  have ts': "utc_from_bytes ts = Inr (timestamp p)" and
    d': "mms_decode_all d = Inr (goose_values p)" and len: "length (goose_values p) \<le> 0xFFFFFFFF"
    using assms(2) ts mms_decode_encode_all [OF d] by (auto simp: goose_pdu_ok_def)
  have "unat (of_nat (length (goose_values p)) :: u32) = length (goose_values p)"
    using len by (simp add: unat_of_nat)
  then show ?thesis
    using goose_decode_fields [OF ts' d' len] ber_read_back_encoded [OF ap]
    by (simp add: goose_pdu_try_decode_def kids)
qed

lemma write_context_primitives_total:
  "\<forall>(t, v) \<in> set fs. 0 \<le> t \<and> t \<le> 1000000 \<and> length v \<le> 0xFFFFFFFF \<Longrightarrow>
     \<exists>w'. foldE write_context_primitive fs w = Inr w' \<and>
       length w' \<le> length w + sum_list (map (\<lambda>(t, v). length v + 11) fs)"
proof (induction fs arbitrary: w)
  case (Cons f fs)
  obtain t v where f: "f = (t, v)" by fastforce
  obtain enc where enc: "ber_encode_tlv Context_specific False t v = Inr enc" "length enc \<le> length v + 11"
    using ber_encode_tlv_total [of t v Context_specific False] Cons.prems f by auto
  obtain w' where "foldE write_context_primitive fs (w @ enc) = Inr w'"
      "length w' \<le> length (w @ enc) + sum_list (map (\<lambda>(t, v). length v + 11) fs)"
    using Cons.IH [of "w @ enc"] Cons.prems by auto
  with enc f show ?case by (auto simp: write_context_primitive_def)
qed simp

definition goose_size_bound :: "goose_pdu \<Rightarrow> nat" where
  "goose_size_bound p = 193 + length (go_cb_ref p) + length (data_set_reference p) + length (go_id p) +
     sum_list (map mms_size_bound (goose_values p))"

lemma goose_pdu_encode_total:
  assumes "goose_pdu_ok p" "goose_size_bound p \<le> 0xFFFFFFFF"
  shows "\<exists>ap. goose_pdu_encode p = Inr ap \<and> length ap \<le> goose_size_bound p"
proof -
  note ui = length_ber_integers(1)
  have ui': "length (ber_encode_unsigned_integer u) \<le> 4294967295" for u using ui [of u] by linarith
  obtain ts where ts: "utc_to_bytes (timestamp p) = Inr ts" "length ts = 8"
    using assms(1) length_utc_to_bytes by (auto simp: goose_pdu_ok_def bindE_Inr_iff)
  let ?f1 = "[(0, ber_encode_ascii (go_cb_ref p)),
        (1, ber_encode_unsigned_integer (ucast (time_allowed_to_live p))),
        (2, ber_encode_ascii (data_set_reference p)), (3, ber_encode_ascii (go_id p))]"
  let ?f2 = "[(4, ts), (5, ber_encode_unsigned_integer (ucast (state_number p))),
        (6, ber_encode_unsigned_integer (ucast (sequence_number p))),
        (7, ber_encode_boolean (test_flag p)),
        (8, ber_encode_unsigned_integer (ucast (configuration_revision p))),
        (9, ber_encode_boolean (needs_commissioning p)),
        (10, ber_encode_unsigned_integer (of_nat (length (goose_values p))))]"
  let ?strs = "length (go_cb_ref p) + length (data_set_reference p) + length (go_id p)"
  obtain w1 where w1: "foldE write_context_primitive ?f1 [] = Inr w1" "length w1 \<le> ?strs + 52"
    using write_context_primitives_total [of ?f1 "[]"] assms(2) ui [of "ucast (time_allowed_to_live p)"]
    by (fastforce simp: goose_size_bound_def ber_encode_ascii_def ui')
  obtain w2 where w2: "foldE write_context_primitive ?f2 w1 = Inr w2" "length w2 \<le> length w1 + 119"
    using write_context_primitives_total [of ?f2 w1] ts(2) ui [of "ucast (state_number p)"]
      ui [of "ucast (sequence_number p)"] ui [of "ucast (configuration_revision p)"]
      ui [of "of_nat (length (goose_values p))"]
    by (fastforce simp: ber_encode_boolean_def ui')
  obtain bss where "mapE mms_encode (goose_values p) = Inr bss"
      "length (concat bss) \<le> sum_list (map mms_size_bound (goose_values p))"
    using mms_encode_list_total [OF mms_encode_total, of "goose_values p"] assms
    by (auto simp: goose_pdu_ok_def goose_size_bound_def)
  then obtain d where d: "mms_encode_all (goose_values p) = Inr d"
      "length d \<le> sum_list (map mms_size_bound (goose_values p))"
    by (simp add: mms_encode_all_def)
  obtain enc where enc: "ber_encode_tlv Context_specific True 11 d = Inr enc" "length enc \<le> length d + 11"
    using ber_encode_tlv_total [of 11 d Context_specific True] d(2) assms(2)
    by (auto simp: goose_size_bound_def)
  obtain ap where "ber_encode_tlv Application True 1 (w2 @ enc) = Inr ap" "length ap \<le> length (w2 @ enc) + 11"
    using ber_encode_tlv_total [of 1 "w2 @ enc" Application True] d(2) w1(2) w2(2) enc(2) assms(2)
    by (auto simp: goose_size_bound_def)
  with ts(1) w1 w2 d enc show ?thesis
    unfolding goose_pdu_encode_def goose_size_bound_def by simp
qed

lemma goose_frame_transfer:
  assumes "goose_pdu_ok (gf_pdu f)" "goose_size_bound (gf_pdu f) \<le> 0xFFFF - 8"
    "mac_ok (gf_destination f)" "mac_ok (gf_source f)"
    "\<forall>t. gf_vlan f = Some t \<longrightarrow> is_valid_vlan_priority (priority_code_point t) \<and> is_valid_vlan_id (vlan_id t)"
  shows "\<exists>bs. goose_frame_encode f = Inr bs \<and> (\<forall>padding. goose_frame_try_decode (bs @ padding) = Some f)"
proof -
  obtain ap where ap: "goose_pdu_encode (gf_pdu f) = Inr ap" "length ap \<le> 0xFFFF - 8"
    using goose_pdu_encode_total [OF assms(1)] assms(2) by fastforce
  obtain ef where ef: "pb_encode_ethernet_frame (gf_destination f) (gf_source f) 0x88B8 (gf_app_id f) ap
      (gf_vlan f) (gf_reserved1 f) (gf_reserved2 f) = Inr ef"
    using ap(2) by (simp add: pb_encode_ethernet_frame_def pb_encode_payload_def)
  obtain bs where bs: "ethernet_encode ef = Inr bs"
    using process_bus_transfer [OF assms(3,4) ether_types_differ(1) ap(2) assms(5), where
        appid = "gf_app_id f" and ?r1.0 = "gf_reserved1 f" and ?r2.0 = "gf_reserved2 f"] ef by auto
  have "goose_frame_try_decode (bs @ padding) = Some f" for padding
  proof -
    obtain ef' pb where "ethernet_try_decode (bs @ padding) = Some ef'"
        "pb_try_decode ef' = Some pb" "destination ef' = gf_destination f" "source ef' = gf_source f"
        "ether_type ef' = 0x88B8" "vlan ef' = gf_vlan f" "app_id pb = gf_app_id f"
        "reserved1 pb = gf_reserved1 f" "reserved2 pb = gf_reserved2 f" "apdu pb = ap"
      using process_bus_transfer [OF assms(3,4) ether_types_differ(1) ap(2) assms(5), where
          appid = "gf_app_id f" and ?r1.0 = "gf_reserved1 f" and ?r2.0 = "gf_reserved2 f" and padding = padding]
        ef bs by auto
    moreover have "goose_pdu_try_decode ap = Some (gf_pdu f)"
      using goose_pdu_read_back [OF ap(1) assms(1), of "[]"] by simp
    ultimately show ?thesis by (simp add: goose_frame_try_decode_def)
  qed
  with ap(1) ef bs show ?thesis by (simp add: goose_frame_encode_def)
qed

subsection \<open>Properties\<close>

text \<open>C29.  A GOOSE frame whose time stamp has 24-bit resolution and whose values the MMS codec
  represents is encoded, and the decoder recovers it unchanged, even when the medium pads the frame
  to the minimum length.\<close>

theorem goose_frame_round_trip:
  assumes "goose_pdu_ok (gf_pdu f)" "goose_size_bound (gf_pdu f) \<le> 0xFFFF - 8"
    "mac_ok (gf_destination f)" "mac_ok (gf_source f)"
    "\<forall>t. gf_vlan f = Some t \<longrightarrow> is_valid_vlan_priority (priority_code_point t) \<and> is_valid_vlan_id (vlan_id t)"
  shows "\<exists>bs. goose_frame_encode f = Inr bs \<and> goose_frame_try_decode (bs @ padding) = Some f"
  using goose_frame_transfer [OF assms] by blast

definition goose_sample :: goose_frame where
  "goose_sample = \<lparr>gf_destination = [1, 0x0C, 0xCD, 1, 0, 1], gf_source = [0, 1, 2, 3, 4, 5],
     gf_vlan = Some \<lparr>priority_code_point = 4, drop_eligible = False, vlan_id = 5\<rparr>, gf_app_id = 0x3001,
     gf_reserved1 = 0, gf_reserved2 = 0,
     gf_pdu = \<lparr>go_cb_ref = ''LD/LLN0$GO$g1'', time_allowed_to_live = 2000, data_set_reference = ''LD/LLN0$ds'',
       go_id = ''g1'', timestamp = \<lparr>utc_ns = 1700000000500000000, utc_quality = 0x0A\<rparr>, state_number = 7,
       sequence_number = 300, test_flag = False, configuration_revision = 1, needs_commissioning = True,
       goose_values = [Mms_boolean True, Mms_bit_string [3, 0x80]]\<rparr>\<rparr>"

lemma goose_sample_ok: "goose_pdu_ok (gf_pdu goose_sample)"
proof -
  have "utc_from_bytes [0x65, 0x53, 0xF1, 0x00, 0x80, 0, 0, 0x0A] =
      Inr \<lparr>utc_ns = 1700000000500000000, utc_quality = 0x0A\<rparr>"
    by (simp add: utc_from_bytes_def utc_try_from_bytes_def read_be_u32_def)
  from utc_decoded_exact [OF this] show ?thesis
    by (simp add: goose_pdu_ok_def goose_sample_def)
qed

theorem goose_frame_round_trip_witness:
  "\<exists>bs. goose_frame_encode goose_sample = Inr bs \<and>
     goose_frame_try_decode (bs @ replicate 4 0) = Some goose_sample"
  by (rule goose_frame_round_trip [OF goose_sample_ok])
    (simp_all add: goose_sample_def goose_size_bound_def mac_ok_def is_valid_vlan_priority_def is_valid_vlan_id_def)

end
