(* ===== verification/Goose_Publisher.thy ===== *)
theory Goose_Publisher
  imports Goose_Codec
begin

text \<open>
  The GOOSE publisher (\<open>src/goose/retransmission_schedule.cpp\<close>, \<open>src/goose/publisher_runtime.cpp\<close>):
  the retransmission schedule, the session that numbers states and retransmissions, and the runtime
  that combines both.  An operation that may throw returns the exception or the publication together
  with the object's state afterwards, because a failing encoder leaves the earlier assignments done.
\<close>

subsection \<open>Retransmission schedule\<close>

text \<open>The C++ members are \<open>int\<close>; the results below bound every value by \<open>INT_MAX\<close>, so the
  doubling never overflows.\<close>

record schedule =
  min_time :: int
  max_time :: int
  next_delay :: int

definition int_max :: int where
  "int_max = 2147483647"

definition normalize_min_time :: "u32 \<Rightarrow> int" where
  "normalize_min_time v = (if v = 0 then 4 else min (uint v) int_max)"

definition normalize_max_time :: "u32 \<Rightarrow> int \<Rightarrow> int" where
  "normalize_max_time v mn = max mn (if v = 0 then 1000 else min (uint v) int_max)"

definition schedule_reset :: "schedule \<Rightarrow> schedule" where
  "schedule_reset s = s\<lparr>next_delay := min_time s\<rparr>"

definition schedule_init :: "u32 \<Rightarrow> u32 \<Rightarrow> schedule" where
  "schedule_init mn mx = (let m = normalize_min_time mn in
     schedule_reset \<lparr>min_time = m, max_time = normalize_max_time mx m, next_delay = 0\<rparr>)"

definition schedule_next_delay :: "schedule \<Rightarrow> int \<times> schedule" where
  "schedule_next_delay s =
     (next_delay s,
      s\<lparr>next_delay := if next_delay s \<ge> max_time s div 2 then max_time s
                      else min (max_time s) (next_delay s * 2)\<rparr>)"

text \<open>The delays a schedule hands out, one after the other.\<close>

fun schedule_delays :: "nat \<Rightarrow> schedule \<Rightarrow> int list" where
  "schedule_delays 0 s = []"
| "schedule_delays (Suc n) s = (let (d, s') = schedule_next_delay s in d # schedule_delays n s')"

lemma schedule_delays_Suc [simp]:
  "schedule_delays (Suc n) s = next_delay s # schedule_delays n (snd (schedule_next_delay s))"
  by (simp add: schedule_next_delay_def)

declare schedule_delays.simps(2) [simp del]

definition schedule_ok :: "schedule \<Rightarrow> bool" where
  "schedule_ok s \<longleftrightarrow> 1 \<le> min_time s \<and> min_time s \<le> next_delay s \<and> next_delay s \<le> max_time s \<and>
     max_time s \<le> int_max"

lemma schedule_init_ok: "schedule_ok (schedule_init mn mx)"
proof -
  have "1 \<le> uint mn" if "mn \<noteq> 0"
  proof -
    have "uint mn \<noteq> 0" using that by (simp add: word_uint_eq_iff)
    then show ?thesis using uint_nonnegative [of mn] by linarith
  qed
  then show ?thesis
    by (auto simp: schedule_ok_def schedule_init_def schedule_reset_def normalize_min_time_def
        normalize_max_time_def int_max_def Let_def)
qed

lemma schedule_reset_ok: "schedule_ok s \<Longrightarrow> schedule_ok (schedule_reset s)"
  by (auto simp: schedule_ok_def schedule_reset_def)

lemma schedule_next_delay_ok:
  assumes "schedule_ok s"
  shows "schedule_ok (snd (schedule_next_delay s))" "fst (schedule_next_delay s) = next_delay s"
    "next_delay s \<le> next_delay (snd (schedule_next_delay s))"
    "next_delay (snd (schedule_next_delay s)) \<le> 2 * next_delay s + 1"
    "min (max_time s) (2 * next_delay s) \<le> next_delay (snd (schedule_next_delay s))"
    "max_time (snd (schedule_next_delay s)) = max_time s"
    "min_time (snd (schedule_next_delay s)) = min_time s"
  using assms by (auto simp: schedule_ok_def schedule_next_delay_def)

lemma schedule_delays_bounds:
  "schedule_ok s \<Longrightarrow> d \<in> set (schedule_delays n s) \<Longrightarrow> next_delay s \<le> d \<and> d \<le> max_time s"
proof (induction n arbitrary: s)
  case (Suc n)
  let ?s' = "snd (schedule_next_delay s)"
  have "next_delay s \<le> max_time s" using Suc.prems(1) by (simp add: schedule_ok_def)
  with Suc.IH [of ?s'] Suc.prems schedule_next_delay_ok [OF Suc.prems(1)] show ?case
    by auto
qed simp

lemma schedule_delays_sorted: "schedule_ok s \<Longrightarrow> sorted (schedule_delays n s)"
proof (induction n arbitrary: s)
  case (Suc n)
  let ?s' = "snd (schedule_next_delay s)"
  have "next_delay s \<le> d" if "d \<in> set (schedule_delays n ?s')" for d
    using schedule_delays_bounds [OF _ that] schedule_next_delay_ok [OF Suc.prems] by fastforce
  with Suc schedule_next_delay_ok [OF Suc.prems] show ?case
    by auto
qed simp

lemma length_schedule_delays [simp]: "length (schedule_delays n s) = n"
  by (induction n arbitrary: s) auto

lemma schedule_delays_doubling:
  "schedule_ok s \<Longrightarrow> k < n \<Longrightarrow> min (max_time s) (next_delay s * 2 ^ k) \<le> schedule_delays n s ! k"
proof (induction k arbitrary: s n)
  case 0
  then show ?case by (cases n) auto
next
  case (Suc k)
  let ?s' = "snd (schedule_next_delay s)"
  obtain m where n: "n = Suc m" using Suc.prems by (cases n) auto
  note ok = schedule_next_delay_ok [OF Suc.prems(1)]
  have ge: "1 \<le> next_delay s" using Suc.prems(1) by (simp add: schedule_ok_def)
  have "min (max_time s) (next_delay s * 2 ^ Suc k) \<le> min (max_time s) (next_delay ?s' * 2 ^ k)"
  proof (cases "2 * next_delay s \<le> next_delay ?s'")
    case True
    then have "next_delay s * 2 ^ Suc k \<le> next_delay ?s' * 2 ^ k"
      using mult_right_mono [OF True, of "2 ^ k"] by (simp add: algebra_simps)
    then show ?thesis by linarith
  next
    case False
    then have "max_time s \<le> next_delay ?s'" using ok(5) by linarith
    moreover from this ge have "next_delay ?s' \<le> next_delay ?s' * 2 ^ k"
      using Suc.prems(1) by (simp add: schedule_ok_def)
    ultimately show ?thesis by linarith
  qed
  also have "... \<le> schedule_delays m ?s' ! k"
    using Suc.IH [OF ok(1), of m] Suc.prems(2) n ok(6) by simp
  finally show ?case using n by simp
qed

lemma schedule_delays_reach_max:
  assumes "schedule_ok s" "31 \<le> k" "k < n"
  shows "schedule_delays n s ! k = max_time s"
proof -
  have "2 ^ 31 \<le> (2 :: int) ^ k" using assms(2) by (rule power_increasing) simp
  moreover have "1 \<le> next_delay s" "max_time s < 2 ^ 31"
    using assms(1) by (auto simp: schedule_ok_def int_max_def)
  ultimately have "max_time s \<le> next_delay s * 2 ^ k"
    using mult_mono [of 1 "next_delay s" "2 ^ 31" "2 ^ k"] by simp
  then have "max_time s \<le> schedule_delays n s ! k"
    using schedule_delays_doubling [OF assms(1,3)] by simp
  moreover have "schedule_delays n s ! k \<le> max_time s"
    using schedule_delays_bounds [OF assms(1), of _ n] assms(3) by (simp add: nth_mem)
  ultimately show ?thesis by simp
qed

subsection \<open>Publisher session\<close>

record publication =
  pub_frame :: goose_frame
  pub_bytes :: bytes

record session =
  frame_template :: goose_frame
  ses_values :: "mms_data list"
  state_timestamp :: utc_time
  ses_state_number :: u32
  ses_sequence_number :: u32
  ses_test :: bool
  ses_needs_commissioning :: bool
  has_state :: bool

definition session_init :: "goose_frame \<Rightarrow> u32 \<Rightarrow> u32 \<Rightarrow> session" where
  "session_init t st sq = \<lparr>frame_template = t, ses_values = [],
     state_timestamp = \<lparr>utc_ns = 0, utc_quality = 0\<rparr>,
     ses_state_number = (if st = 0 then 1 else st), ses_sequence_number = sq,
     ses_test = False, ses_needs_commissioning = False, has_state = False\<rparr>"

definition increment_state_number :: "u32 \<Rightarrow> u32" where
  "increment_state_number v = (if v = 0xFFFFFFFF then 1 else v + 1)"

definition increment_sequence_number :: "u32 \<Rightarrow> u32" where
  "increment_sequence_number v = (if v = 0xFFFFFFFF then 0 else v + 1)"

definition set_time_allowed_to_live :: "u32 \<Rightarrow> session \<Rightarrow> session" where
  "set_time_allowed_to_live ms s = s\<lparr>frame_template :=
     (frame_template s)\<lparr>gf_pdu := (gf_pdu (frame_template s))\<lparr>time_allowed_to_live := ms\<rparr>\<rparr>\<rparr>"

text \<open>The frame that the session emits in its present state.\<close>

definition session_frame :: "session \<Rightarrow> goose_frame" where
  "session_frame s = (frame_template s)\<lparr>gf_pdu := (gf_pdu (frame_template s))
     \<lparr>goose_values := ses_values s, timestamp := state_timestamp s,
      state_number := ses_state_number s, sequence_number := ses_sequence_number s,
      test_flag := ses_test s, needs_commissioning := ses_needs_commissioning s\<rparr>\<rparr>"

definition emit_publication :: "session \<Rightarrow> publication result \<times> session" where
  "emit_publication s =
     (let frame = session_frame s in
      case goose_frame_encode frame of
        Inl e \<Rightarrow> (Inl e, s)
      | Inr bs \<Rightarrow> (Inr \<lparr>pub_frame = frame, pub_bytes = bs\<rparr>,
          s\<lparr>ses_sequence_number := increment_sequence_number (ses_sequence_number s)\<rparr>))"

definition publish_initial :: "mms_data list \<Rightarrow> utc_time \<Rightarrow> bool \<Rightarrow> bool \<Rightarrow> session \<Rightarrow> publication result \<times> session" where
  "publish_initial vs ts test nds s =
     (if has_state s then (Inl (Logic_error ''GOOSE publisher session has already been started.''), s)
      else emit_publication (s\<lparr>ses_values := vs, state_timestamp := ts, ses_test := test,
             ses_needs_commissioning := nds, has_state := True\<rparr>))"

definition publish_state_change :: "mms_data list \<Rightarrow> utc_time \<Rightarrow> bool \<Rightarrow> bool \<Rightarrow> session \<Rightarrow> publication result \<times> session" where
  "publish_state_change vs ts test nds s =
     (if \<not> has_state s then publish_initial vs ts test nds s
      else emit_publication (s\<lparr>ses_state_number := increment_state_number (ses_state_number s),
             ses_sequence_number := 0, ses_values := vs, state_timestamp := ts, ses_test := test,
             ses_needs_commissioning := nds\<rparr>))"

definition publish_retransmission :: "session \<Rightarrow> publication result \<times> session" where
  "publish_retransmission s =
     (if \<not> has_state s
      then (Inl (Logic_error ''GOOSE publisher session must be started before retransmission.''), s)
      else emit_publication s)"

subsection \<open>Publisher runtime\<close>

text \<open>Times of the steady clock are nanoseconds.\<close>

record publisher =
  pub_session :: session
  pub_schedule :: schedule
  next_due :: "int option"
  running :: bool

definition publisher_init :: "session \<Rightarrow> u32 \<Rightarrow> u32 \<Rightarrow> publisher" where
  "publisher_init s mn mx = \<lparr>pub_session = s, pub_schedule = schedule_init mn mx, next_due = None, running = False\<rparr>"

definition prepare_next_delay :: "publisher \<Rightarrow> u32 \<times> publisher" where
  "prepare_next_delay r =
     (let (d, sch) = schedule_next_delay (pub_schedule r);
          delay = (word_of_int (max 1 d) :: u32);
          ttl = (if delay > 0xFFFFFFFF div 2 then 0xFFFFFFFF else delay * 2)
      in (delay, r\<lparr>pub_schedule := sch,
                   pub_session := set_time_allowed_to_live (max 1 ttl) (pub_session r)\<rparr>))"

definition schedule_next :: "int \<Rightarrow> u32 \<Rightarrow> publisher \<Rightarrow> publisher" where
  "schedule_next now delay r = r\<lparr>next_due := Some (now + uint delay * 1000000)\<rparr>"

definition publisher_reset_schedule :: "publisher \<Rightarrow> publisher" where
  "publisher_reset_schedule r = r\<lparr>pub_schedule := schedule_reset (pub_schedule r)\<rparr>"

definition publisher_start ::
  "mms_data list \<Rightarrow> utc_time \<Rightarrow> int \<Rightarrow> bool \<Rightarrow> bool \<Rightarrow> publisher \<Rightarrow> publication result \<times> publisher" where
  "publisher_start vs ts now test nds r =
     (if running r then (Inl (Logic_error ''GOOSE publisher runtime is already running.''), r)
      else let (delay, r) = prepare_next_delay (publisher_reset_schedule r);
               (res, s) = publish_initial vs ts test nds (pub_session r);
               r = r\<lparr>pub_session := s\<rparr>
        in case res of
             Inl e \<Rightarrow> (Inl e, r)
           | Inr p \<Rightarrow> (Inr p, schedule_next now delay (r\<lparr>running := True\<rparr>)))"

definition publisher_state_change ::
  "mms_data list \<Rightarrow> utc_time \<Rightarrow> int \<Rightarrow> bool \<Rightarrow> bool \<Rightarrow> publisher \<Rightarrow> publication result \<times> publisher" where
  "publisher_state_change vs ts now test nds r =
     (let (delay, r) = prepare_next_delay (publisher_reset_schedule r);
          (res, s) = publish_state_change vs ts test nds (pub_session r);
          r = r\<lparr>pub_session := s\<rparr>
      in case res of
           Inl e \<Rightarrow> (Inl e, r)
         | Inr p \<Rightarrow> (Inr p, schedule_next now delay (r\<lparr>running := True\<rparr>)))"

definition publisher_poll :: "int \<Rightarrow> publisher \<Rightarrow> publication option result \<times> publisher" where
  "publisher_poll now r =
     (if \<not> running r \<or> next_due r = None \<or> now < the (next_due r) then (Inr None, r)
      else let (delay, r) = prepare_next_delay r;
               (res, s) = publish_retransmission (pub_session r);
               r = r\<lparr>pub_session := s\<rparr>
        in case res of
             Inl e \<Rightarrow> (Inl e, r)
           | Inr p \<Rightarrow> (Inr (Some p), schedule_next now delay r))"

definition publisher_stop :: "publisher \<Rightarrow> publisher" where
  "publisher_stop r = r\<lparr>running := False, next_due := None\<rparr>"

subsection \<open>Session and runtime facts\<close>

lemma increment_sequence_number_eq [simp]: "increment_sequence_number v = v + 1"
  by (auto simp: increment_sequence_number_def)

lemma u32_Suc_nonzero: "v \<noteq> (0xFFFFFFFF :: u32) \<Longrightarrow> v + 1 \<noteq> 0"
proof
  assume "v + 1 = 0" and v: "v \<noteq> 0xFFFFFFFF"
  then have "v = - 1" by (simp only: add_eq_0_iff2)
  with v show False by simp
qed

lemma increment_state_number_positive: "increment_state_number v \<noteq> 0" "increment_state_number v \<noteq> v"
  using u32_Suc_nonzero [of v] by (cases "v = 0xFFFFFFFF"; simp add: increment_state_number_def)+

text \<open>What a frame needs to be encodable does not depend on the counters and flags.\<close>

definition encodable :: "goose_frame \<Rightarrow> mms_data list \<Rightarrow> utc_time \<Rightarrow> bool" where
  "encodable f vs ts \<longleftrightarrow>
     goose_pdu_ok ((gf_pdu f)\<lparr>goose_values := vs, timestamp := ts\<rparr>) \<and>
     goose_size_bound ((gf_pdu f)\<lparr>goose_values := vs, timestamp := ts\<rparr>) \<le> 0xFFFF - 8 \<and>
     mac_ok (gf_destination f) \<and> mac_ok (gf_source f) \<and>
     (case gf_vlan f of None \<Rightarrow> True
      | Some t \<Rightarrow> is_valid_vlan_priority (priority_code_point t) \<and> is_valid_vlan_id (vlan_id t))"

lemma encodable_session_frame:
  assumes "encodable (frame_template s) (ses_values s) (state_timestamp s)"
  obtains bs where "goose_frame_encode (session_frame s) = Inr bs"
    "\<forall>padding. goose_frame_try_decode (bs @ padding) = Some (session_frame s)"
proof -
  let ?f = "session_frame s"
  have "goose_pdu_ok (gf_pdu ?f)" "goose_size_bound (gf_pdu ?f) \<le> 0xFFFF - 8"
    "mac_ok (gf_destination ?f)" "mac_ok (gf_source ?f)"
    "\<forall>t. gf_vlan ?f = Some t \<longrightarrow> is_valid_vlan_priority (priority_code_point t) \<and> is_valid_vlan_id (vlan_id t)"
    using assms by (auto simp: encodable_def session_frame_def goose_pdu_ok_def goose_size_bound_def
        split: option.splits)
  from goose_frame_transfer [OF this] that show ?thesis by blast
qed

lemma encodable_ttl [simp]:
  "encodable (f\<lparr>gf_pdu := (gf_pdu f)\<lparr>time_allowed_to_live := t\<rparr>\<rparr>) vs ts = encodable f vs ts"
  by (simp add: encodable_def goose_pdu_ok_def goose_size_bound_def split: option.splits)

lemma uint_delay:
  assumes "schedule_ok s"
  shows "uint (word_of_int (max 1 (next_delay s)) :: u32) = next_delay s"
    "1 \<le> next_delay s" "next_delay s \<le> int_max"
  using assms by (auto simp: schedule_ok_def int_max_def unsigned_of_int take_bit_int_eq_self)

text \<open>The delay handed to the timer and the advertised validity: twice the delay, never saturated
  because a schedule stays within \<open>INT_MAX\<close>.\<close>

lemma prepare_next_delay_facts:
  assumes "schedule_ok (pub_schedule r)" "prepare_next_delay r = (delay, r')"
  shows "uint delay = next_delay (pub_schedule r)"
    "pub_schedule r' = snd (schedule_next_delay (pub_schedule r))"
    "\<exists>ttl. uint ttl = 2 * uint delay \<and> pub_session r' = set_time_allowed_to_live ttl (pub_session r)"
    "running r' = running r" "next_due r' = next_due r"
proof -
  let ?d = "word_of_int (max 1 (next_delay (pub_schedule r))) :: u32"
  note d = uint_delay [OF assms(1)]
  have delay: "delay = ?d" and r': "r' = r\<lparr>pub_schedule := snd (schedule_next_delay (pub_schedule r)),
      pub_session := set_time_allowed_to_live (max 1 (if ?d > 0xFFFFFFFF div 2 then 0xFFFFFFFF else ?d * 2)) (pub_session r)\<rparr>"
    using assms(2) by (auto simp: prepare_next_delay_def schedule_next_delay_def Let_def)
  show u: "uint delay = next_delay (pub_schedule r)" using d(1) delay by simp
  have "\<not> ?d > 0xFFFFFFFF div 2"
    using d by (simp add: word_less_alt uint_div_distrib int_max_def)
  moreover have dd: "uint (?d * 2) = 2 * uint ?d"
    using d by (simp add: uint_word_ariths int_max_def)
  moreover have "max 1 (?d * 2) = ?d * 2"
    using d dd by (simp add: max_def word_le_def)
  ultimately show "\<exists>ttl. uint ttl = 2 * uint delay \<and> pub_session r' = set_time_allowed_to_live ttl (pub_session r)"
    using delay r' by auto
  show "pub_schedule r' = snd (schedule_next_delay (pub_schedule r))" "running r' = running r"
    "next_due r' = next_due r" using r' by auto
qed

lemma emit_encodable:
  assumes "encodable (frame_template s) (ses_values s) (state_timestamp s)"
  obtains bs where
    "emit_publication s = (Inr \<lparr>pub_frame = session_frame s, pub_bytes = bs\<rparr>,
       s\<lparr>ses_sequence_number := ses_sequence_number s + 1\<rparr>)"
    "\<forall>padding. goose_frame_try_decode (bs @ padding) = Some (session_frame s)"
proof -
  obtain bs where "goose_frame_encode (session_frame s) = Inr bs"
    "\<forall>padding. goose_frame_try_decode (bs @ padding) = Some (session_frame s)"
    using encodable_session_frame [OF assms] .
  then show ?thesis by (intro that [of bs]) (simp_all add: emit_publication_def)
qed

lemma set_ttl_simps [simp]:
  "ses_values (set_time_allowed_to_live t s) = ses_values s"
  "state_timestamp (set_time_allowed_to_live t s) = state_timestamp s"
  "ses_state_number (set_time_allowed_to_live t s) = ses_state_number s"
  "ses_sequence_number (set_time_allowed_to_live t s) = ses_sequence_number s"
  "has_state (set_time_allowed_to_live t s) = has_state s"
  "encodable (frame_template (set_time_allowed_to_live t s)) vs ts = encodable (frame_template s) vs ts"
  "ses_test (set_time_allowed_to_live t s) = ses_test s"
  by (simp_all add: set_time_allowed_to_live_def)

text \<open>The state in which a publication is made: time to live \<open>ttl\<close>, next delay \<open>d\<close> milliseconds.\<close>

definition published :: "session \<Rightarrow> schedule \<Rightarrow> int \<Rightarrow> publication \<Rightarrow> publisher \<Rightarrow> bool" where
  "published s sch now p r' \<longleftrightarrow>
     (\<exists>ttl. uint ttl = 2 * next_delay sch \<and>
        pub_frame p = session_frame (set_time_allowed_to_live ttl s) \<and>
        pub_session r' = (set_time_allowed_to_live ttl s)
          \<lparr>ses_sequence_number := ses_sequence_number s + 1\<rparr>) \<and>
     (\<forall>padding. goose_frame_try_decode (pub_bytes p @ padding) = Some (pub_frame p)) \<and>
     pub_schedule r' = snd (schedule_next_delay sch) \<and> running r' \<and>
     next_due r' = Some (now + next_delay sch * 1000000)"

lemma publisher_poll_due:
  assumes "schedule_ok (pub_schedule r)" "running r" "next_due r = Some due" "due \<le> now"
    "has_state (pub_session r)"
    "encodable (frame_template (pub_session r)) (ses_values (pub_session r)) (state_timestamp (pub_session r))"
  shows "\<exists>p r'. publisher_poll now r = (Inr (Some p), r') \<and>
    published (pub_session r) (pub_schedule r) now p r'"
proof -
  obtain delay r1 where r1: "prepare_next_delay r = (delay, r1)" by fastforce
  note f = prepare_next_delay_facts [OF assms(1) r1]
  obtain ttl where ttl: "uint ttl = 2 * uint delay"
      "pub_session r1 = set_time_allowed_to_live ttl (pub_session r)"
    using f(3) by blast
  obtain bs where "emit_publication (pub_session r1) = (Inr \<lparr>pub_frame = session_frame (pub_session r1),
        pub_bytes = bs\<rparr>, (pub_session r1)\<lparr>ses_sequence_number := ses_sequence_number (pub_session r1) + 1\<rparr>)"
      "\<forall>padding. goose_frame_try_decode (bs @ padding) = Some (session_frame (pub_session r1))"
    using emit_encodable [of "pub_session r1"] assms(6) ttl(2) by auto
  with assms r1 f ttl show ?thesis
    by (auto simp: publisher_poll_def publish_retransmission_def schedule_next_def published_def)
qed

text \<open>The session that a state change prepares.\<close>

definition changed_session :: "mms_data list \<Rightarrow> utc_time \<Rightarrow> bool \<Rightarrow> bool \<Rightarrow> session \<Rightarrow> session" where
  "changed_session vs ts test nds s =
     s\<lparr>ses_state_number := (if has_state s then increment_state_number (ses_state_number s) else ses_state_number s),
       ses_sequence_number := (if has_state s then 0 else ses_sequence_number s),
       ses_values := vs, state_timestamp := ts, ses_test := test,
       ses_needs_commissioning := nds, has_state := True\<rparr>"

lemma changed_session_ttl [simp]:
  "changed_session vs ts test nds (set_time_allowed_to_live t s) =
     set_time_allowed_to_live t (changed_session vs ts test nds s)"
  by (simp add: changed_session_def set_time_allowed_to_live_def)

lemma publish_state_change_emit:
  "publish_state_change vs ts test nds s = emit_publication (changed_session vs ts test nds s)"
  by (cases s) (simp add: publish_state_change_def publish_initial_def changed_session_def)

lemma publish_initial_emit:
  "\<not> has_state s \<Longrightarrow> publish_initial vs ts test nds s = emit_publication (changed_session vs ts test nds s)"
  by (cases s) (simp add: publish_initial_def changed_session_def)

lemma publisher_state_change_published:
  assumes "schedule_ok (pub_schedule r)" "encodable (frame_template (pub_session r)) vs ts"
  shows "\<exists>p r'. publisher_state_change vs ts now test nds r = (Inr p, r') \<and>
    published (changed_session vs ts test nds (pub_session r)) (schedule_reset (pub_schedule r)) now p r'"
proof -
  let ?r = "publisher_reset_schedule r"
  have ok: "schedule_ok (pub_schedule ?r)"
    using schedule_reset_ok [OF assms(1)] by (simp add: publisher_reset_schedule_def)
  obtain delay r1 where r1: "prepare_next_delay ?r = (delay, r1)" by fastforce
  note f = prepare_next_delay_facts [OF ok r1]
  obtain ttl where ttl: "uint ttl = 2 * uint delay"
      "pub_session r1 = set_time_allowed_to_live ttl (pub_session r)"
    using f(3) by (auto simp: publisher_reset_schedule_def)
  let ?s = "changed_session vs ts test nds (pub_session r1)"
  have "encodable (frame_template ?s) (ses_values ?s) (state_timestamp ?s)"
    using assms(2) ttl(2) by (simp add: changed_session_def)
  then obtain bs where bs: "emit_publication ?s = (Inr \<lparr>pub_frame = session_frame ?s, pub_bytes = bs\<rparr>,
        ?s\<lparr>ses_sequence_number := ses_sequence_number ?s + 1\<rparr>)"
      "\<forall>padding. goose_frame_try_decode (bs @ padding) = Some (session_frame ?s)"
    using emit_encodable [of ?s] by blast
  then have "publisher_state_change vs ts now test nds r = (Inr \<lparr>pub_frame = session_frame ?s, pub_bytes = bs\<rparr>,
      schedule_next now delay (r1\<lparr>pub_session := ?s\<lparr>ses_sequence_number := ses_sequence_number ?s + 1\<rparr>,
        running := True\<rparr>))"
    by (simp add: publisher_state_change_def r1 publish_state_change_emit del: changed_session_ttl)
  moreover have "published (changed_session vs ts test nds (pub_session r)) (schedule_reset (pub_schedule r)) now
      \<lparr>pub_frame = session_frame ?s, pub_bytes = bs\<rparr>
      (schedule_next now delay (r1\<lparr>pub_session := ?s\<lparr>ses_sequence_number := ses_sequence_number ?s + 1\<rparr>,
        running := True\<rparr>))"
    unfolding published_def
    using f ttl bs(2) by (auto simp: schedule_next_def publisher_reset_schedule_def)
  ultimately show ?thesis by blast
qed

subsection \<open>Calls in any order\<close>

text \<open>The calls on a runtime; a state change before \<open>start\<close>, a failing call and a late poll are all possible.\<close>

datatype publisher_call =
  Start_call "mms_data list" utc_time int bool bool
| Change_call "mms_data list" utc_time int bool bool
| Poll_call int
| Stop_call

fun publisher_step :: "publisher_call \<Rightarrow> publisher \<Rightarrow> publication option result \<times> publisher" where
  "publisher_step (Start_call vs ts now test nds) r = map_prod (map_sum id Some) id (publisher_start vs ts now test nds r)"
| "publisher_step (Change_call vs ts now test nds) r = map_prod (map_sum id Some) id (publisher_state_change vs ts now test nds r)"
| "publisher_step (Poll_call now) r = publisher_poll now r"
| "publisher_step Stop_call r = (Inr None, publisher_stop r)"

fun call_now :: "publisher_call \<Rightarrow> int" where
  "call_now (Start_call _ _ now _ _) = now"
| "call_now (Change_call _ _ now _ _) = now"
| "call_now (Poll_call now) = now"
| "call_now Stop_call = 0"

definition publisher_run :: "publisher_call list \<Rightarrow> publisher \<Rightarrow> publisher" where
  "publisher_run calls r = fold (\<lambda>c r. snd (publisher_step c r)) calls r"

lemma emit_success:
  assumes "emit_publication s = (Inr p, s')"
  shows "pub_frame p = session_frame s" "goose_frame_encode (session_frame s) = Inr (pub_bytes p)" "has_state s' = has_state s"
  using assms by (auto simp: emit_publication_def Let_def split: sum.splits)

text \<open>A call publishes, if at all, by preparing a delay, emitting a session with the template so prepared,
  and setting the timer.\<close>

lemma publish_emits:
  assumes "publish_initial vs ts test nds s = (Inr p, s') \<or> publish_state_change vs ts test nds s = (Inr p, s') \<or>
    publish_retransmission s = (Inr p, s')"
  obtains s1 where "emit_publication s1 = (Inr p, s')" "frame_template s1 = frame_template s" "has_state s1"
proof -
  have "\<exists>s1. emit_publication s1 = (Inr p, s') \<and> frame_template s1 = frame_template s \<and> has_state s1"
    using assms
  proof (elim disjE)
    assume "publish_initial vs ts test nds s = (Inr p, s')"
    then show ?thesis
      by (intro exI [of _ "changed_session vs ts test nds s"]) (auto simp: changed_session_def publish_initial_def publish_initial_emit split: if_splits)
  next
    assume "publish_state_change vs ts test nds s = (Inr p, s')"
    then show ?thesis
      by (intro exI [of _ "changed_session vs ts test nds s"]) (simp add: changed_session_def [of _ _ _ _ s] publish_state_change_emit)
  next
    assume "publish_retransmission s = (Inr p, s')"
    then show ?thesis by (intro exI [of _ s]) (auto simp: publish_retransmission_def split: if_splits)
  qed
  then show ?thesis using that by blast
qed

lemma reset_schedule_ok: "schedule_ok (pub_schedule r) \<Longrightarrow> schedule_ok (pub_schedule (publisher_reset_schedule r))"
  by (simp add: publisher_reset_schedule_def schedule_reset_ok)

lemma publisher_step_published:
  assumes "schedule_ok (pub_schedule r)" "publisher_step c r = (Inr (Some p), r')"
  obtains r0 delay r1 s1 where "schedule_ok (pub_schedule r0)" "prepare_next_delay r0 = (delay, r1)"
    "emit_publication s1 = (Inr p, pub_session r')" "frame_template s1 = frame_template (pub_session r1)" "has_state s1"
    "pub_schedule r' = pub_schedule r1" "running r'" "next_due r' = Some (call_now c + uint delay * 1000000)"
proof (cases c)
  case (Start_call vs ts now test nds)
  obtain delay r1 where r1: "prepare_next_delay (publisher_reset_schedule r) = (delay, r1)" by fastforce
  obtain s' where s': "publish_initial vs ts test nds (pub_session r1) = (Inr p, s')" "r' = schedule_next now delay (r1\<lparr>pub_session := s', running := True\<rparr>)"
    using assms(2) Start_call by (auto simp: publisher_start_def r1 Let_def split: if_splits prod.splits sum.splits)
  obtain s1 where "emit_publication s1 = (Inr p, s')" "frame_template s1 = frame_template (pub_session r1)" "has_state s1"
    using publish_emits s'(1) by metis
  then show ?thesis using that [OF reset_schedule_ok [OF assms(1)] r1, of s1] s'(2) Start_call by (simp add: schedule_next_def)
next
  case (Change_call vs ts now test nds)
  obtain delay r1 where r1: "prepare_next_delay (publisher_reset_schedule r) = (delay, r1)" by fastforce
  obtain s' where s': "publish_state_change vs ts test nds (pub_session r1) = (Inr p, s')" "r' = schedule_next now delay (r1\<lparr>pub_session := s', running := True\<rparr>)"
    using assms(2) Change_call by (auto simp: publisher_state_change_def r1 Let_def split: prod.splits sum.splits)
  obtain s1 where "emit_publication s1 = (Inr p, s')" "frame_template s1 = frame_template (pub_session r1)" "has_state s1"
    using publish_emits s'(1) by metis
  then show ?thesis using that [OF reset_schedule_ok [OF assms(1)] r1, of s1] s'(2) Change_call by (simp add: schedule_next_def)
next
  case (Poll_call now)
  obtain delay r1 where r1: "prepare_next_delay r = (delay, r1)" by fastforce
  then have "running r1 = running r" using prepare_next_delay_facts(4) [OF assms(1)] by blast
  moreover obtain s' where s': "publish_retransmission (pub_session r1) = (Inr p, s')" "r' = schedule_next now delay (r1\<lparr>pub_session := s'\<rparr>)" "running r"
    using assms(2) Poll_call by (auto simp: publisher_poll_def r1 Let_def split: if_splits prod.splits sum.splits)
  moreover obtain s1 where "emit_publication s1 = (Inr p, s')" "frame_template s1 = frame_template (pub_session r1)" "has_state s1"
    using publish_emits s'(1) by metis
  ultimately show ?thesis using that [OF assms(1) r1, of s1] Poll_call by (simp add: schedule_next_def)
qed (use assms(2) in simp)

text \<open>Every call keeps the schedule within its bounds, whether it publishes, fails or does nothing.\<close>

lemma prepare_schedule_ok: "schedule_ok (pub_schedule r) \<Longrightarrow> schedule_ok (pub_schedule (snd (prepare_next_delay r)))"
  using prepare_next_delay_facts(2) [of r "fst (prepare_next_delay r)" "snd (prepare_next_delay r)"] schedule_next_delay_ok(1) by simp

lemma publisher_step_schedule_ok:
  assumes "schedule_ok (pub_schedule r)"
  shows "schedule_ok (pub_schedule (snd (publisher_step c r)))"
  using prepare_schedule_ok [OF reset_schedule_ok [OF assms]] prepare_schedule_ok [OF assms] assms
  by (cases c) (auto simp: publisher_start_def publisher_state_change_def publisher_poll_def publisher_stop_def schedule_next_def Let_def
      split: prod.splits sum.splits)

lemma publisher_run_schedule_ok: "schedule_ok (pub_schedule r) \<Longrightarrow> schedule_ok (pub_schedule (publisher_run calls r))"
  by (induction calls arbitrary: r) (simp_all add: publisher_run_def publisher_step_schedule_ok)

lemma goose_sample_encodable:
  "encodable goose_sample (goose_values (gf_pdu goose_sample)) (timestamp (gf_pdu goose_sample))"
  using goose_sample_ok
  by (simp add: encodable_def) (simp add: goose_sample_def goose_size_bound_def mac_ok_def
      is_valid_vlan_priority_def is_valid_vlan_id_def)

subsection \<open>Properties\<close>

text \<open>Back-off of the retransmission schedule, for every configuration: the delays never leave
  the normalised interval (at least 1 ms, at most \<open>INT_MAX\<close> ms), never decrease, start at the
  minimum, and from the thirty-second retransmission on equal the maximum.\<close>

theorem goose_schedule_backoff:
  "let s = schedule_init mn mx; ds = schedule_delays n s in
     set ds \<subseteq> {min_time s..max_time s} \<and> 1 \<le> min_time s \<and> max_time s \<le> 2147483647 \<and>
     sorted ds \<and> take 1 ds = take 1 (replicate n (min_time s)) \<and>
     drop 31 ds = replicate (n - 31) (max_time s)"
proof -
  define s where "s = schedule_init mn mx"
  have ok: "schedule_ok s" and first: "next_delay s = min_time s"
    unfolding s_def by (rule schedule_init_ok) (simp add: schedule_init_def Let_def schedule_reset_def)
  have "set (schedule_delays n s) \<subseteq> {min_time s..max_time s}"
    using schedule_delays_bounds [OF ok] first by auto
  moreover have "drop 31 (schedule_delays n s) = replicate (n - 31) (max_time s)"
    by (rule nth_equalityI) (auto simp: schedule_delays_reach_max [OF ok])
  moreover have "take 1 (schedule_delays n s) = take 1 (replicate n (min_time s))"
    using first by (cases n) auto
  ultimately show ?thesis
    using ok schedule_delays_sorted [OF ok] unfolding s_def [symmetric] Let_def
    by (auto simp: schedule_ok_def int_max_def)
qed

text \<open>C33.  Validity covers the next retransmission.  Whenever a call publishes (a start, a state change or a
  retransmission, the first or a later one, polled on time or late), after any calls on the runtime, failing
  ones included: the published octets are the encoding of the frame, the time to live it advertises is
  exactly twice the time from the call to the next due instant, which lies in the future, and is never
  saturated.  A poll before that instant does nothing; one at or after it never returns without an attempt
  to publish, and publishes if the frame is encodable.\<close>

theorem goose_ttl_covers_next_retransmission:
  assumes "publisher_step c (publisher_run calls (publisher_init s mn mx)) = (Inr (Some p), r')"
  shows "\<exists>due. next_due r' = Some due \<and> call_now c < due \<and>
    uint (time_allowed_to_live (gf_pdu (pub_frame p))) * 1000000 = 2 * (due - call_now c) \<and>
    goose_frame_encode (pub_frame p) = Inr (pub_bytes p) \<and>
    (\<forall>t < due. publisher_poll t r' = (Inr None, r')) \<and>
    (\<forall>t \<ge> due. fst (publisher_poll t r') \<noteq> Inr None \<and>
       (encodable (frame_template (pub_session r')) (ses_values (pub_session r')) (state_timestamp (pub_session r')) \<longrightarrow>
          (\<exists>p2 r2. publisher_poll t r' = (Inr (Some p2), r2))))"
proof -
  have ok: "schedule_ok (pub_schedule (publisher_run calls (publisher_init s mn mx)))"
    by (intro publisher_run_schedule_ok) (simp add: publisher_init_def schedule_init_ok)
  obtain r0 delay r1 s1 where r0: "schedule_ok (pub_schedule r0)" "prepare_next_delay r0 = (delay, r1)"
    and s1: "emit_publication s1 = (Inr p, pub_session r')" "frame_template s1 = frame_template (pub_session r1)" "has_state s1"
    and r': "running r'" "next_due r' = Some (call_now c + uint delay * 1000000)"
    using publisher_step_published [OF ok assms] by metis
  let ?due = "call_now c + uint delay * 1000000"
  note f = prepare_next_delay_facts [OF r0]
  have ok': "schedule_ok (pub_schedule r')" using publisher_step_schedule_ok [OF ok, of c] assms by simp
  have emitted: "pub_frame p = session_frame s1" "goose_frame_encode (pub_frame p) = Inr (pub_bytes p)" "has_state (pub_session r')"
    using emit_success [OF s1(1)] s1(3) by simp_all
  obtain ttl where ttl: "uint ttl = 2 * uint delay" "pub_session r1 = set_time_allowed_to_live ttl (pub_session r0)" using f(3) by blast
  have "time_allowed_to_live (gf_pdu (pub_frame p)) = ttl"
    using s1(2) ttl(2) by (simp add: emitted(1) session_frame_def set_time_allowed_to_live_def)
  with ttl(1) have "uint (time_allowed_to_live (gf_pdu (pub_frame p))) * 1000000 = 2 * (?due - call_now c)" by simp
  moreover have "call_now c < ?due" using f(1) uint_delay(2) [OF r0(1)] by simp
  moreover have "publisher_poll t r' = (Inr None, r')" if "t < ?due" for t using that r' by (simp add: publisher_poll_def)
  moreover have "fst (publisher_poll t r') \<noteq> Inr None" if "?due \<le> t" for t
    using that r' by (auto simp: publisher_poll_def Let_def split: prod.splits sum.splits)
  moreover have "\<exists>p2 r2. publisher_poll t r' = (Inr (Some p2), r2)" if "?due \<le> t"
    "encodable (frame_template (pub_session r')) (ses_values (pub_session r')) (state_timestamp (pub_session r'))" for t
    using publisher_poll_due [OF ok' r' that(1) emitted(3) that(2)] by blast
  ultimately show ?thesis using r'(2) emitted(2) by blast
qed

text \<open>A state change at 0 and a retransmission that is polled late, at 9 ms instead of 4 ms.\<close>

theorem goose_ttl_covers_next_retransmission_witness:
  "\<exists>p r'. publisher_step (Poll_call 9000000)
      (publisher_run [Change_call (goose_values (gf_pdu goose_sample)) (timestamp (gf_pdu goose_sample)) 0 False False]
        (publisher_init (session_init goose_sample 1 0) 4 1000)) = (Inr (Some p), r') \<and>
    next_due r' = Some 17000000 \<and> uint (time_allowed_to_live (gf_pdu (pub_frame p))) = 16"
proof -
  let ?vs = "goose_values (gf_pdu goose_sample)" and ?ts = "timestamp (gf_pdu goose_sample)"
  let ?r = "publisher_init (session_init goose_sample 1 0) 4 1000"
  have sched: "schedule_ok (pub_schedule ?r)" "schedule_reset (pub_schedule ?r) = \<lparr>min_time = 4, max_time = 1000, next_delay = 4\<rparr>"
    by (simp_all add: publisher_init_def schedule_init_ok)
      (simp add: schedule_init_def schedule_reset_def normalize_min_time_def normalize_max_time_def int_max_def)
  have enc: "encodable (frame_template (pub_session ?r)) ?vs ?ts"
    using goose_sample_encodable by (simp add: publisher_init_def session_init_def)
  obtain p1 r1 where r1: "publisher_state_change ?vs ?ts 0 False False ?r = (Inr p1, r1)"
    "published (changed_session ?vs ?ts False False (pub_session ?r)) (schedule_reset (pub_schedule ?r)) 0 p1 r1"
    using publisher_state_change_published [OF sched(1) enc] by blast
  then have next1: "pub_schedule r1 = \<lparr>min_time = 4, max_time = 1000, next_delay = 8\<rparr>" "running r1" "next_due r1 = Some 4000000"
    and ses: "has_state (pub_session r1)" "encodable (frame_template (pub_session r1)) (ses_values (pub_session r1)) (state_timestamp (pub_session r1))"
    using enc by (auto simp: published_def changed_session_def sched(2) schedule_next_delay_def)
  then have ok1: "schedule_ok (pub_schedule r1)" by (simp add: schedule_ok_def int_max_def)
  obtain p r' where p: "publisher_poll 9000000 r1 = (Inr (Some p), r')" "published (pub_session r1) (pub_schedule r1) 9000000 p r'"
    using publisher_poll_due [OF ok1 next1(2,3) _ ses, of 9000000] by auto
  have step: "publisher_step (Poll_call 9000000) (publisher_run [Change_call ?vs ?ts 0 False False] ?r) = (Inr (Some p), r')"
    using r1(1) p(1) by (simp add: publisher_run_def)
  have "next_due r' = Some 17000000" using p(2) next1(1) by (simp add: published_def)
  with goose_ttl_covers_next_retransmission [OF step] step show ?thesis by auto
qed

end
