(* ===== verification/Goose_Subscriber.thy ===== *)
theory Goose_Subscriber
  imports Goose_Codec
begin

text \<open>
  The GOOSE subscriber supervisor (\<open>src/goose/subscriber_supervisor.cpp\<close>): it classifies each
  received PDU against the last accepted one, keeps statistics and reports the expiry of
  \<open>timeAllowedToLive\<close> once per accepted PDU.  The 64-bit counters are words.
\<close>

datatype sequence_status = First | Retransmission | State_change | Duplicate | Sequence_gap
  | Sequence_regression | State_jump | State_regression | Identity_mismatch

record subscriber_options =
  expected_go_cb_ref :: "string option"
  expected_data_set_reference :: "string option"
  expected_configuration_revision :: "u32 option"

record supervision_result =
  status :: sequence_status
  accepted :: bool
  expired_before_arrival :: bool
  value_changed :: bool
  value_changed_without_state_increment :: bool
  state_change_sequence_not_zero :: bool
  configuration_revision_changed :: bool
  missed_sequence_count :: u32
  arrival_gap :: int  \<comment> \<open>milliseconds\<close>
  result_expires_at :: "int option"

record expiry_event =
  deadline :: int
  exp_state_number :: u32
  exp_sequence_number :: u32
  exp_time_allowed_to_live :: u32

record subscriber_statistics =
  accepted_count :: u64
  rejected_identity_count :: u64
  retransmission_count :: u64
  state_change_count :: u64
  duplicate_count :: u64
  sequence_gap_count :: u64
  sequence_regression_count :: u64
  state_jump_count :: u64
  state_regression_count :: u64
  expiration_count :: u64
  value_change_without_state_increment_count :: u64

record subscriber =
  options :: subscriber_options
  statistics :: subscriber_statistics
  last_arrival_time :: "int option"
  expires_at :: "int option"
  expiry_reported :: bool
  last_state_number :: "u32 option"
  last_sequence_number :: "u32 option"
  last_configuration_revision :: "u32 option"
  last_values_fingerprint :: bytes
  last_time_allowed_to_live :: u32

definition zero_statistics :: subscriber_statistics where
  "zero_statistics = \<lparr>accepted_count = 0, rejected_identity_count = 0, retransmission_count = 0,
     state_change_count = 0, duplicate_count = 0, sequence_gap_count = 0,
     sequence_regression_count = 0, state_jump_count = 0, state_regression_count = 0,
     expiration_count = 0, value_change_without_state_increment_count = 0\<rparr>"

definition subscriber_init :: "subscriber_options \<Rightarrow> subscriber" where
  "subscriber_init opts = \<lparr>options = opts, statistics = zero_statistics, last_arrival_time = None,
     expires_at = None, expiry_reported = False, last_state_number = None, last_sequence_number = None,
     last_configuration_revision = None, last_values_fingerprint = [], last_time_allowed_to_live = 0\<rparr>"

subsection \<open>Operations\<close>

definition next_state_number :: "u32 \<Rightarrow> u32" where
  "next_state_number v = (if v = 0xFFFFFFFF then 1 else v + 1)"

definition identity_matches :: "goose_pdu \<Rightarrow> subscriber \<Rightarrow> bool" where
  "identity_matches p s =
     (if expected_go_cb_ref (options s) \<noteq> None \<and> Some (go_cb_ref p) \<noteq> expected_go_cb_ref (options s) then False
      else if expected_data_set_reference (options s) \<noteq> None \<and>
              Some (data_set_reference p) \<noteq> expected_data_set_reference (options s) then False
      else expected_configuration_revision (options s) = None \<or>
           Some (configuration_revision p) = expected_configuration_revision (options s))"

definition classify :: "u32 \<Rightarrow> u32 \<Rightarrow> subscriber \<Rightarrow> sequence_status \<times> u32" where
  "classify st sq s =
     (case (last_state_number s, last_sequence_number s) of
        (Some previous_state, Some previous_sequence) \<Rightarrow>
          if st \<noteq> previous_state then
            (if st = next_state_number previous_state then (State_change, 0)
             else if (previous_state = 0xFFFFFFFF \<and> st > 1) \<or>
                     (previous_state \<noteq> 0xFFFFFFFF \<and> st > previous_state) then (State_jump, 0)
             else (State_regression, 0))
          else let delta = sq - previous_sequence in
            if delta = 0 then (Duplicate, 0)
            else if delta < 0x80000000 then
              (if delta = 1 then (Retransmission, 0) else (Sequence_gap, delta - 1))
            else (Sequence_regression, 0)
      | _ \<Rightarrow> (First, 0))"

definition record_expiry_if_due :: "int \<Rightarrow> subscriber \<Rightarrow> bool \<times> subscriber" where
  "record_expiry_if_due now s =
     (if expires_at s = None \<or> expiry_reported s \<or> now < the (expires_at s) then (False, s)
      else (True, s\<lparr>expiry_reported := True,
        statistics := (statistics s)\<lparr>expiration_count := expiration_count (statistics s) + 1\<rparr>\<rparr>))"

fun update_statistics :: "sequence_status \<Rightarrow> subscriber_statistics \<Rightarrow> subscriber_statistics" where
  "update_statistics Retransmission s = s\<lparr>retransmission_count := retransmission_count s + 1\<rparr>"
| "update_statistics State_change s = s\<lparr>state_change_count := state_change_count s + 1\<rparr>"
| "update_statistics Duplicate s = s\<lparr>duplicate_count := duplicate_count s + 1\<rparr>"
| "update_statistics Sequence_gap s = s\<lparr>sequence_gap_count := sequence_gap_count s + 1\<rparr>"
| "update_statistics Sequence_regression s = s\<lparr>sequence_regression_count := sequence_regression_count s + 1\<rparr>"
| "update_statistics State_jump s = s\<lparr>state_jump_count := state_jump_count s + 1\<rparr>"
| "update_statistics State_regression s = s\<lparr>state_regression_count := state_regression_count s + 1\<rparr>"
| "update_statistics _ s = s"

text \<open>A PDU that passes the clock and identity checks; the fingerprint is what \<open>encode_all\<close>
  returned for its values.\<close>

definition accept_pdu :: "goose_pdu \<Rightarrow> int \<Rightarrow> bytes \<Rightarrow> bool \<Rightarrow> int \<Rightarrow> subscriber \<Rightarrow> supervision_result \<times> subscriber" where
  "accept_pdu p arrival fp expired gap s =
     (let (st, missed) = classify (state_number p) (sequence_number p) s;
          changed = (last_state_number s \<noteq> None \<and> fp \<noteq> last_values_fingerprint s);
          changed_same_state = (changed \<and> last_state_number s = Some (state_number p));
          stats = statistics s;
          stats = (if changed_same_state
                   then stats\<lparr>value_change_without_state_increment_count :=
                          value_change_without_state_increment_count stats + 1\<rparr> else stats);
          stats = update_statistics st stats;
          stats = stats\<lparr>accepted_count := accepted_count stats + 1\<rparr>;
          expiry = (if time_allowed_to_live p = 0 then None
                    else Some (arrival + uint (time_allowed_to_live p) * 1000000))
      in (\<lparr>status = st, accepted = True, expired_before_arrival = expired, value_changed = changed,
           value_changed_without_state_increment = changed_same_state,
           state_change_sequence_not_zero =
             ((st = State_change \<or> st = State_jump) \<and> sequence_number p \<noteq> 0),
           configuration_revision_changed =
             (last_configuration_revision s \<noteq> None \<and>
              last_configuration_revision s \<noteq> Some (configuration_revision p)),
           missed_sequence_count = missed, arrival_gap = gap, result_expires_at = expiry\<rparr>,
          s\<lparr>statistics := stats, last_arrival_time := Some arrival,
            last_state_number := Some (state_number p), last_sequence_number := Some (sequence_number p),
            last_configuration_revision := Some (configuration_revision p), last_values_fingerprint := fp,
            last_time_allowed_to_live := time_allowed_to_live p, expiry_reported := False,
            expires_at := expiry\<rparr>))"

definition rejected_result :: supervision_result where
  "rejected_result = \<lparr>status = Identity_mismatch, accepted = False, expired_before_arrival = False,
     value_changed = False, value_changed_without_state_increment = False,
     state_change_sequence_not_zero = False, configuration_revision_changed = False,
     missed_sequence_count = 0, arrival_gap = 0, result_expires_at = None\<rparr>"

definition observe :: "goose_pdu \<Rightarrow> int \<Rightarrow> subscriber \<Rightarrow> supervision_result result \<times> subscriber" where
  "observe p arrival s =
     (if last_arrival_time s \<noteq> None \<and> arrival < the (last_arrival_time s)
      then (Inl (Invalid_argument ''GOOSE arrival time cannot move backwards.''), s)
      else if \<not> identity_matches p s
      then (Inr rejected_result, s\<lparr>statistics := (statistics s)
             \<lparr>rejected_identity_count := rejected_identity_count (statistics s) + 1\<rparr>\<rparr>)
      else let expired = (expires_at s \<noteq> None \<and> arrival \<ge> the (expires_at s));
               s = snd (record_expiry_if_due arrival s);
               gap = (case last_arrival_time s of None \<Rightarrow> 0 | Some t \<Rightarrow> (arrival - t) div 1000000)
        in case mms_encode_all (goose_values p) of
             Inl e \<Rightarrow> (Inl e, s)
           | Inr fp \<Rightarrow> (let (r, s') = accept_pdu p arrival fp expired gap s in (Inr r, s')))"

definition check_expiry :: "int \<Rightarrow> subscriber \<Rightarrow> expiry_event option \<times> subscriber" where
  "check_expiry now s =
     (let (due, s) = record_expiry_if_due now s in
      if \<not> due then (None, s)
      else (Some \<lparr>deadline = the (expires_at s), exp_state_number = value_or 0 (last_state_number s),
                   exp_sequence_number = value_or 0 (last_sequence_number s),
                   exp_time_allowed_to_live = last_time_allowed_to_live s\<rparr>, s))"

definition subscriber_reset :: "subscriber \<Rightarrow> subscriber" where
  "subscriber_reset s = s\<lparr>statistics := zero_statistics, last_arrival_time := None, expires_at := None,
     expiry_reported := False, last_state_number := None, last_sequence_number := None,
     last_configuration_revision := None, last_values_fingerprint := [], last_time_allowed_to_live := 0\<rparr>"

subsection \<open>Every sequence of calls\<close>

datatype subscriber_call = Observe goose_pdu int | Check_expiry int | Reset_subscriber

fun subscriber_step :: "subscriber_call \<Rightarrow> subscriber \<Rightarrow> subscriber" where
  "subscriber_step (Observe p t) s = snd (observe p t s)"
| "subscriber_step (Check_expiry t) s = snd (check_expiry t s)"
| "subscriber_step Reset_subscriber s = subscriber_reset s"

definition classified_count :: "subscriber_statistics \<Rightarrow> u64" where
  "classified_count s = retransmission_count s + state_change_count s + duplicate_count s +
     sequence_gap_count s + sequence_regression_count s + state_jump_count s + state_regression_count s"

definition deadline_of :: "int option \<Rightarrow> u32 \<Rightarrow> int option" where
  "deadline_of arrival ttl =
     (case arrival of None \<Rightarrow> None
      | Some t \<Rightarrow> if ttl = 0 then None else Some (t + uint ttl * 1000000))"

lemma deadline_of_simps [simp]:
  "deadline_of None ttl = None" "deadline_of (Some t) 0 = None"
  "ttl \<noteq> 0 \<Longrightarrow> deadline_of (Some t) ttl = Some (t + uint ttl * 1000000)"
  by (simp_all add: deadline_of_def)

definition subscriber_inv :: "subscriber \<Rightarrow> bool" where
  "subscriber_inv s \<longleftrightarrow>
     (last_sequence_number s = None) = (last_state_number s = None) \<and>
     (last_arrival_time s = None) = (last_state_number s = None) \<and>
     accepted_count (statistics s) =
       (if last_state_number s = None then 0 else 1) + classified_count (statistics s) \<and>
     expires_at s = deadline_of (last_arrival_time s) (last_time_allowed_to_live s)"

lemma classified_count_update:
  "classified_count (update_statistics st stats) =
     classified_count stats + (if st = First \<or> st = Identity_mismatch then 0 else 1)"
  "accepted_count (update_statistics st stats) = accepted_count stats"
  by (cases st; simp add: classified_count_def)+

lemma classify_first:
  "fst (classify st sq s) = First \<longleftrightarrow> last_state_number s = None \<or> last_sequence_number s = None"
  "fst (classify st sq s) \<noteq> Identity_mismatch"
  by (auto simp: classify_def Let_def split: option.splits)

lemma classified_count_simps [simp]:
  "classified_count (stats\<lparr>accepted_count := a\<rparr>) = classified_count stats"
  "classified_count (stats\<lparr>rejected_identity_count := a\<rparr>) = classified_count stats"
  "classified_count (stats\<lparr>expiration_count := a\<rparr>) = classified_count stats"
  "classified_count (stats\<lparr>value_change_without_state_increment_count := a\<rparr>) = classified_count stats"
  by (simp_all add: classified_count_def)

lemma record_expiry_inv: "subscriber_inv s \<Longrightarrow> subscriber_inv (snd (record_expiry_if_due t s))"
  by (auto simp: subscriber_inv_def record_expiry_if_due_def)

lemma accept_pdu_inv:
  assumes "subscriber_inv s"
  shows "subscriber_inv (snd (accept_pdu p arrival fp expired gap s))"
proof -
  have "(fst (classify (state_number p) (sequence_number p) s) = First) = (last_state_number s = None)"
    using assms by (auto simp: classify_first subscriber_inv_def)
  with assms classify_first(2) [of "state_number p" "sequence_number p" s] show ?thesis
    by (auto simp: subscriber_inv_def accept_pdu_def Let_def classified_count_update split: prod.splits)
qed

lemma observe_inv: "subscriber_inv s \<Longrightarrow> subscriber_inv (snd (observe p t s))"
proof -
  assume inv: "subscriber_inv s"
  then have rej: "subscriber_inv (s\<lparr>statistics := (statistics s)\<lparr>rejected_identity_count := n\<rparr>\<rparr>)" for n
    by (simp add: subscriber_inv_def)
  show ?thesis
    using inv rej record_expiry_inv [OF inv] accept_pdu_inv [OF record_expiry_inv [OF inv]]
    by (simp add: observe_def Let_def case_prod_beta split: sum.split)
qed

lemma check_expiry_inv: "subscriber_inv s \<Longrightarrow> subscriber_inv (snd (check_expiry t s))"
  using record_expiry_inv [of s t] by (auto simp: check_expiry_def Let_def split: prod.splits)

lemma subscriber_init_inv: "subscriber_inv (subscriber_init opts)"
  by (simp add: subscriber_inv_def subscriber_init_def zero_statistics_def classified_count_def)

lemma reset_inv: "subscriber_inv (subscriber_reset s)"
  by (simp add: subscriber_inv_def subscriber_reset_def zero_statistics_def classified_count_def)

interpretation supervised: machine subscriber_step "\<lambda>_ _. True" subscriber_inv
proof
  fix s e assume "subscriber_inv s"
  then show "subscriber_inv (subscriber_step e s)"
    by (cases e) (simp_all add: observe_inv check_expiry_inv reset_inv)
qed

text \<open>A run of expiry checks with no PDU in between.\<close>

fun check_all :: "int list \<Rightarrow> subscriber \<Rightarrow> expiry_event option list" where
  "check_all [] s = []"
| "check_all (t # ts) s = (let (r, s') = check_expiry t s in r # check_all ts s')"

lemma check_all_reported: "expiry_reported s \<Longrightarrow> check_all ts s = replicate (length ts) None"
  by (induction ts) (auto simp: check_expiry_def record_expiry_if_due_def)

lemma check_all_once: "length (filter (\<lambda>r. r \<noteq> None) (check_all ts s)) \<le> 1"
proof (induction ts arbitrary: s)
  case (Cons t ts)
  show ?case
  proof (cases "fst (record_expiry_if_due t s)")
    case True
    then have "expiry_reported (snd (record_expiry_if_due t s))"
      by (auto simp: record_expiry_if_due_def split: if_splits)
    then show ?thesis
      by (auto simp: check_expiry_def Let_def check_all_reported split: prod.splits)
  next
    case False
    then show ?thesis using Cons by (auto simp: check_expiry_def Let_def split: prod.splits)
  qed
qed simp

subsection \<open>Properties\<close>

text \<open>After any sequence of calls from construction, the supervisor's bookkeeping is
  consistent: every accepted PDU after the first is counted in exactly one of the seven sequence
  categories (modulo the 64-bit width), and the deadline is the last arrival plus the advertised
  time to live, absent only before the first PDU or when the time to live is zero.\<close>

theorem goose_supervisor_bookkeeping:
  "let s = fold subscriber_step calls (subscriber_init opts) in
     accepted_count (statistics s) =
       (if last_state_number s = None then 0 else 1) + classified_count (statistics s) \<and>
     expires_at s = deadline_of (last_arrival_time s) (last_time_allowed_to_live s)"
  using supervised.run_inv [OF run_ok_always subscriber_init_inv, of calls opts]
  unfolding Let_def subscriber_inv_def by blast

text \<open>An expiry is reported at most once: between two PDUs, any number of checks at any
  instants produces at most one event.\<close>

theorem goose_expiry_reported_once:
  "length (filter (\<lambda>r. r \<noteq> None) (check_all ts s)) \<le> 1"
  by (rule check_all_once)

text \<open>Loss accounting across the wrap of the 32-bit sequence number: a PDU of the same state
  whose sequence number is \<open>k\<close> after the last one (modulo \<open>2^32\<close>, \<open>k < 2^31\<close>) is a
  retransmission when \<open>k = 1\<close> and otherwise a gap with exactly \<open>k - 1\<close> missed PDUs.\<close>

theorem goose_missed_count:
  assumes "0 < k" "k < 2 ^ 31" "last_state_number s = Some st" "last_sequence_number s = Some sq"
  shows "classify st (sq + of_nat k) s = (if k = 1 then (Retransmission, 0) else (Sequence_gap, of_nat (k - 1)))"
proof -
  have u: "unat (of_nat k :: u32) = k" using assms(2) by (simp add: unat_of_nat)
  then have "(of_nat k :: u32) < 0x80000000" using assms(2) by (simp add: word_less_nat_alt)
  moreover have "(of_nat k :: u32) \<noteq> 0" using u assms(1) by auto
  moreover have "(of_nat k :: u32) = 1 \<longleftrightarrow> k = 1" using u by (auto simp: word_unat_eq_iff)
  ultimately show ?thesis using assms by (auto simp: classify_def Let_def of_nat_diff)
qed

theorem goose_missed_count_witness:
  "classify 7 (0xFFFFFFFE + of_nat 5) ((subscriber_init \<lparr>expected_go_cb_ref = None,
      expected_data_set_reference = None, expected_configuration_revision = None\<rparr>)
      \<lparr>last_state_number := Some 7, last_sequence_number := Some 0xFFFFFFFE\<rparr>) = (Sequence_gap, of_nat 4)"
  using goose_missed_count [of 5 "(subscriber_init \<lparr>expected_go_cb_ref = None,
      expected_data_set_reference = None, expected_configuration_revision = None\<rparr>)
      \<lparr>last_state_number := Some 7, last_sequence_number := Some 0xFFFFFFFE\<rparr>" 7 "0xFFFFFFFE"] by simp

end
