(* ===== verification/Goose_Link.thy ===== *)
theory Goose_Link
  imports Goose_Publisher Goose_Subscriber
begin

text \<open>
  Publisher and subscriber together: the publisher runtime emits frames, the medium delays and pads
  them, the frame codec decodes them and the supervisor judges them.  The result spans the whole
  GOOSE path of the library: on a link without loss whose delay variation and polling slack stay
  below the minimum time, the supervisor sees exactly the intended sequence and never an expiry.
\<close>

datatype link_event =
    Link_poll int int bytes  \<comment> \<open>publisher time, transit time, padding\<close>
  | Link_change "mms_data list" utc_time bool bool int int bytes
  | Link_start "mms_data list" utc_time bool bool int int bytes

fun event_now :: "link_event \<Rightarrow> int" where
  "event_now (Link_poll now _ _) = now"
| "event_now (Link_change _ _ _ _ now _ _) = now"
| "event_now (Link_start _ _ _ _ now _ _) = now"

fun event_transit :: "link_event \<Rightarrow> int" where
  "event_transit (Link_poll _ lat _) = lat"
| "event_transit (Link_change _ _ _ _ _ lat _) = lat"
| "event_transit (Link_start _ _ _ _ _ lat _) = lat"

record link =
  lk_pub :: publisher
  lk_sub :: subscriber
  lk_log :: "(link_event \<times> supervision_result option) list"
  lk_failed :: bool

definition deliver :: "link_event \<Rightarrow> bytes \<Rightarrow> bytes \<Rightarrow> link \<Rightarrow> link" where
  "deliver e octets padding l =
     (case goose_frame_try_decode (octets @ padding) of
        None \<Rightarrow> l\<lparr>lk_log := lk_log l @ [(e, None)], lk_failed := True\<rparr>
      | Some f \<Rightarrow>
          (let (res, s) = observe (gf_pdu f) (event_now e + event_transit e) (lk_sub l) in
           case res of
             Inl _ \<Rightarrow> l\<lparr>lk_sub := s, lk_log := lk_log l @ [(e, None)], lk_failed := True\<rparr>
           | Inr r \<Rightarrow> l\<lparr>lk_sub := s, lk_log := lk_log l @ [(e, Some r)]\<rparr>))"

fun link_step :: "link_event \<Rightarrow> link \<Rightarrow> link" where
  "link_step (Link_poll now lat pad) l =
     (let (res, r) = publisher_poll now (lk_pub l); l = l\<lparr>lk_pub := r\<rparr> in
      case res of
        Inl _ \<Rightarrow> l\<lparr>lk_log := lk_log l @ [(Link_poll now lat pad, None)], lk_failed := True\<rparr>
      | Inr None \<Rightarrow> l\<lparr>lk_log := lk_log l @ [(Link_poll now lat pad, None)]\<rparr>
      | Inr (Some p) \<Rightarrow> deliver (Link_poll now lat pad) (pub_bytes p) pad l)"
| "link_step (Link_change vs ts test nds now lat pad) l =
     (let (res, r) = publisher_state_change vs ts now test nds (lk_pub l); l = l\<lparr>lk_pub := r\<rparr> in
      case res of
        Inl _ \<Rightarrow> l\<lparr>lk_log := lk_log l @ [(Link_change vs ts test nds now lat pad, None)], lk_failed := True\<rparr>
      | Inr p \<Rightarrow> deliver (Link_change vs ts test nds now lat pad) (pub_bytes p) pad l)"
| "link_step (Link_start vs ts test nds now lat pad) l =
     (let (res, r) = publisher_start vs ts now test nds (lk_pub l); l = l\<lparr>lk_pub := r\<rparr> in
      case res of
        Inl _ \<Rightarrow> l\<lparr>lk_log := lk_log l @ [(Link_start vs ts test nds now lat pad, None)], lk_failed := True\<rparr>
      | Inr p \<Rightarrow> deliver (Link_start vs ts test nds now lat pad) (pub_bytes p) pad l)"

definition link_init :: "goose_frame \<Rightarrow> u32 \<Rightarrow> u32 \<Rightarrow> u32 \<Rightarrow> u32 \<Rightarrow> subscriber_options \<Rightarrow> link" where
  "link_init t st sq mn mx opts = \<lparr>lk_pub = publisher_init (session_init t st sq) mn mx,
     lk_sub = subscriber_init opts, lk_log = [], lk_failed = False\<rparr>"

text \<open>The environment's obligations: transit times between 0 and the bound \<open>jitter\<close>, delivery in
  order, the next call at most \<open>slack\<close> after the due instant, and encodable values.\<close>

definition link_allowed :: "int \<Rightarrow> int \<Rightarrow> link_event \<Rightarrow> link \<Rightarrow> bool" where
  "link_allowed jitter slack e l \<longleftrightarrow>
     0 \<le> event_transit e \<and> event_transit e \<le> jitter \<and>
     (case next_due (lk_pub l) of None \<Rightarrow> False | Some due \<Rightarrow> event_now e \<le> due + slack) \<and>
     (case last_arrival_time (lk_sub l) of None \<Rightarrow> True | Some t \<Rightarrow> t \<le> event_now e + event_transit e) \<and>
     (case e of Link_poll _ _ _ \<Rightarrow> True
      | Link_change vs ts _ _ _ _ _ \<Rightarrow> encodable (frame_template (pub_session (lk_pub l))) vs ts
      | Link_start _ _ _ _ _ _ _ \<Rightarrow> False)"

definition as_intended :: "link_event \<times> supervision_result option \<Rightarrow> bool" where
  "as_intended = (\<lambda>(e, o1). case o1 of
     None \<Rightarrow> (case e of Link_poll _ _ _ \<Rightarrow> True | _ \<Rightarrow> False)
   | Some r \<Rightarrow> accepted r \<and> \<not> expired_before_arrival r \<and> missed_sequence_count r = 0 \<and>
       \<not> value_changed_without_state_increment r \<and> \<not> state_change_sequence_not_zero r \<and>
       \<not> configuration_revision_changed r \<and>
       status r = (case e of Link_poll _ _ _ \<Rightarrow> Retransmission | Link_change _ _ _ _ _ _ _ \<Rightarrow> State_change
         | Link_start _ _ _ _ _ _ _ \<Rightarrow> First))"

text \<open>The subscriber has accepted the publisher's last frame, which arrived between \<open>sent\<close> and
  \<open>sent + jitter\<close> and announced twice the delay \<open>d\<close>.\<close>

definition synced :: "int \<Rightarrow> int \<Rightarrow> publisher \<Rightarrow> subscriber \<Rightarrow> bool" where
  "synced jitter mn r sub \<longleftrightarrow>
     schedule_ok (pub_schedule r) \<and> min_time (pub_schedule r) = mn \<and> running r \<and> has_state (pub_session r) \<and>
     encodable (frame_template (pub_session r)) (ses_values (pub_session r)) (state_timestamp (pub_session r)) \<and>
     last_state_number sub = Some (ses_state_number (pub_session r)) \<and>
     last_sequence_number sub = Some (ses_sequence_number (pub_session r) - 1) \<and>
     last_configuration_revision sub = Some (configuration_revision (gf_pdu (frame_template (pub_session r)))) \<and>
     mms_encode_all (ses_values (pub_session r)) = Inr (last_values_fingerprint sub) \<and>
     identity_matches (gf_pdu (frame_template (pub_session r))) sub \<and>
     (\<exists>sent arrival d. mn \<le> d \<and> sent \<le> arrival \<and> arrival \<le> sent + jitter \<and>
        next_due r = Some (sent + d * 1000000) \<and> last_arrival_time sub = Some arrival \<and>
        expires_at sub = Some (arrival + 2 * d * 1000000))"

definition link_inv :: "int \<Rightarrow> int \<Rightarrow> link \<Rightarrow> bool" where
  "link_inv jitter mn l \<longleftrightarrow> synced jitter mn (lk_pub l) (lk_sub l) \<and> \<not> lk_failed l \<and> list_all as_intended (lk_log l)"

subsection \<open>One accepted frame\<close>

lemma encodable_fingerprint:
  assumes "encodable f vs ts" shows "\<exists>fp. mms_encode_all vs = Inr fp"
proof -
  have "list_all wf_mms_data vs" "sum_list (map mms_size_bound vs) \<le> 0xFFFFFFFF"
    using assms by (auto simp: encodable_def goose_pdu_ok_def goose_size_bound_def)
  then show ?thesis
    using mms_encode_list_total [OF mms_encode_total] by (fastforce simp: mms_encode_all_def)
qed

lemma identity_matches_same:
  "identity_matches p s \<Longrightarrow> go_cb_ref q = go_cb_ref p \<Longrightarrow> data_set_reference q = data_set_reference p \<Longrightarrow>
     configuration_revision q = configuration_revision p \<Longrightarrow> options s' = options s \<Longrightarrow> identity_matches q s'"
  by (simp only: identity_matches_def)

text \<open>Observing a frame published at \<open>now\<close>, in time.\<close>

lemma observe_published:
  assumes pub: "published s sch now p r'" and ok: "schedule_ok sch" "min_time sch = mn"
    and enc: "encodable (frame_template s) (ses_values s) (state_timestamp s)" "has_state s"
    and id: "identity_matches (gf_pdu (frame_template s)) sub"
    and t: "now \<le> arrival" "arrival \<le> now + jitter"
      "\<forall>t0. last_arrival_time sub = Some t0 \<longrightarrow> t0 \<le> arrival"
      "\<forall>t0. expires_at sub = Some t0 \<longrightarrow> arrival < t0"
  shows "\<exists>res sub' fp gap. observe (gf_pdu (pub_frame p)) arrival sub = (Inr res, sub') \<and>
    mms_encode_all (ses_values s) = Inr fp \<and>
    (res, sub') = accept_pdu (gf_pdu (pub_frame p)) arrival fp False gap sub \<and> synced jitter mn r' sub'"
proof -
  obtain ttl where ttl: "uint ttl = 2 * next_delay sch"
      "pub_frame p = session_frame (set_time_allowed_to_live ttl s)"
      "pub_session r' = (set_time_allowed_to_live ttl s)\<lparr>ses_sequence_number := ses_sequence_number s + 1\<rparr>"
    using pub unfolding published_def by blast
  let ?q = "gf_pdu (pub_frame p)"
  have q: "state_number ?q = ses_state_number s" "sequence_number ?q = ses_sequence_number s"
    "time_allowed_to_live ?q = ttl" "goose_values ?q = ses_values s"
    "go_cb_ref ?q = go_cb_ref (gf_pdu (frame_template s))"
    "data_set_reference ?q = data_set_reference (gf_pdu (frame_template s))"
    "configuration_revision ?q = configuration_revision (gf_pdu (frame_template s))"
    by (simp_all add: ttl(2) session_frame_def set_time_allowed_to_live_def)
  obtain fp where fp: "mms_encode_all (ses_values s) = Inr fp"
    using encodable_fingerprint [OF enc(1)] by blast
  have due: "snd (record_expiry_if_due arrival sub) = sub"
    using t(4) by (auto simp: record_expiry_if_due_def)
  have idq: "identity_matches ?q sub" by (rule identity_matches_same [OF id]) (simp_all add: q)
  define gap where "gap = (case last_arrival_time sub of None \<Rightarrow> 0 | Some t \<Rightarrow> (arrival - t) div 1000000)"
  obtain res sub' where acc: "accept_pdu ?q arrival fp False gap sub = (res, sub')" by fastforce
  have fresh: "(expires_at sub \<noteq> None \<and> arrival \<ge> the (expires_at sub)) = False"
    "\<not> (last_arrival_time sub \<noteq> None \<and> arrival < the (last_arrival_time sub))"
    using t(3,4) by force+
  have obs: "observe ?q arrival sub = (Inr res, sub')"
    unfolding observe_def if_not_P [OF fresh(2)] Let_def due fresh(1)
    using idq q(4) fp acc by (simp add: gap_def)
  have "ttl \<noteq> 0" using ttl(1) uint_delay(2) [OF ok(1)] by auto
  then have sub': "last_state_number sub' = Some (ses_state_number s)"
      "last_sequence_number sub' = Some (ses_sequence_number s)"
      "last_configuration_revision sub' = Some (configuration_revision (gf_pdu (frame_template s)))"
      "last_values_fingerprint sub' = fp" "options sub' = options sub" "last_arrival_time sub' = Some arrival"
      "expires_at sub' = Some (arrival + 2 * next_delay sch * 1000000)"
    using acc ttl(1) by (auto simp: accept_pdu_def Let_def q split: prod.splits)
  have r': "next_due r' = Some (now + next_delay sch * 1000000)" "running r'"
      "pub_schedule r' = snd (schedule_next_delay sch)"
    using pub by (simp_all add: published_def)
  have tmpl: "frame_template (pub_session r') = (frame_template s)\<lparr>gf_pdu :=
      (gf_pdu (frame_template s))\<lparr>time_allowed_to_live := ttl\<rparr>\<rparr>"
    by (simp add: ttl(3) set_time_allowed_to_live_def)
  have id': "identity_matches (gf_pdu (frame_template (pub_session r'))) sub'"
    by (rule identity_matches_same [OF id]) (simp_all add: tmpl sub'(5))
  have ses: "ses_values (pub_session r') = ses_values s" "has_state (pub_session r')"
      "ses_state_number (pub_session r') = ses_state_number s"
      "ses_sequence_number (pub_session r') = ses_sequence_number s + 1"
      "state_timestamp (pub_session r') = state_timestamp s"
    using enc(2) by (simp_all add: ttl(3))
  have "mn \<le> next_delay sch" using ok by (simp add: schedule_ok_def)
  then have "synced jitter mn r' sub'"
    unfolding synced_def
    using sub' r' id' ses enc(1) fp t(1,2) schedule_next_delay_ok [OF ok(1)] ok(2)
    by (auto simp: tmpl)
  with obs fp acc show ?thesis by metis
qed

lemma accept_retransmission:
  assumes "last_state_number sub = Some (state_number q)"
    "last_sequence_number sub = Some (sequence_number q - 1)" "fp = last_values_fingerprint sub"
    "last_configuration_revision sub = Some (configuration_revision q)"
    "accept_pdu q arrival fp False gap sub = (res, sub')"
  shows "as_intended (Link_poll now lat pad, Some res)"
  using assms by (auto simp: accept_pdu_def classify_def Let_def as_intended_def)

lemma accept_state_change:
  assumes "last_state_number sub = Some st" "state_number q = increment_state_number st"
    "last_sequence_number sub = Some sq" "sequence_number q = 0"
    "last_configuration_revision sub = Some (configuration_revision q)"
    "accept_pdu q arrival fp False gap sub = (res, sub')"
  shows "as_intended (Link_change vs ts test nds now lat pad, Some res)"
proof -
  have "classify (state_number q) (sequence_number q) sub = (State_change, 0)"
    using assms(1-4) increment_state_number_positive(2) [of st]
    by (simp add: classify_def increment_state_number_def next_state_number_def)
  with assms(1,2,4-6) increment_state_number_positive(2) [of st] show ?thesis
    by (auto simp: accept_pdu_def Let_def as_intended_def)
qed

lemma deliver_observed:
  assumes "goose_frame_try_decode (octets @ pad) = Some f"
    "observe (gf_pdu f) (event_now e + event_transit e) (lk_sub l) = (Inr res, sub')"
  shows "deliver e octets pad l = l\<lparr>lk_sub := sub', lk_log := lk_log l @ [(e, Some res)]\<rparr>"
  using assms by (simp add: deliver_def)

text \<open>In the synchronised state an allowed event arrives before the deadline.\<close>

lemma allowed_in_time:
  assumes "synced jitter mn (lk_pub l) (lk_sub l)" "link_allowed jitter slack e l"
    "jitter + slack < mn * 1000000" "expires_at (lk_sub l) = Some t0"
  shows "event_now e + event_transit e < t0"
proof -
  obtain sent arrival d where d: "mn \<le> d" "sent \<le> arrival" "next_due (lk_pub l) = Some (sent + d * 1000000)"
      "expires_at (lk_sub l) = Some (arrival + 2 * d * 1000000)"
    using assms(1) by (auto simp: synced_def)
  have e: "event_now e \<le> sent + d * 1000000 + slack" "event_transit e \<le> jitter"
    using assms(2) d(3) by (auto simp: link_allowed_def)
  have "event_now e + event_transit e \<le> sent + d * 1000000 + (jitter + slack)" using e by linarith
  also have "... < sent + d * 1000000 + mn * 1000000" using assms(3) by linarith
  also have "... \<le> arrival + 2 * d * 1000000" using d(1,2) by linarith
  finally show ?thesis using d(4) assms(4) by simp
qed

lemma allowed_arrival:
  assumes "link_allowed jitter slack e l"
  shows "event_now e \<le> event_now e + event_transit e" "event_now e + event_transit e \<le> event_now e + jitter"
    "\<forall>t0. last_arrival_time (lk_sub l) = Some t0 \<longrightarrow> t0 \<le> event_now e + event_transit e"
  using assms by (auto simp: link_allowed_def)

lemma published_numbers:
  assumes "published s sch now p r'"
  shows "state_number (gf_pdu (pub_frame p)) = ses_state_number s"
    "sequence_number (gf_pdu (pub_frame p)) = ses_sequence_number s"
    "configuration_revision (gf_pdu (pub_frame p)) = configuration_revision (gf_pdu (frame_template s))"
    "\<forall>padding. goose_frame_try_decode (pub_bytes p @ padding) = Some (pub_frame p)"
  using assms by (auto simp: published_def session_frame_def set_time_allowed_to_live_def)

lemma link_poll_inv:
  assumes inv: "link_inv jitter mn l" and al: "link_allowed jitter slack (Link_poll now lat pad) l"
    and js: "jitter + slack < mn * 1000000"
  shows "link_inv jitter mn (link_step (Link_poll now lat pad) l)"
proof -
  let ?r = "lk_pub l" and ?sub = "lk_sub l" and ?e = "Link_poll now lat pad"
  have sy: "synced jitter mn ?r ?sub" and log: "list_all as_intended (lk_log l)" "\<not> lk_failed l"
    using inv by (simp_all add: link_inv_def)
  then obtain due where due: "next_due ?r = Some due" by (auto simp: synced_def)
  show ?thesis
  proof (cases "now < due")
    case True
    then have "publisher_poll now ?r = (Inr None, ?r)" using due by (simp add: publisher_poll_def)
    with sy log show ?thesis by (simp add: link_inv_def as_intended_def)
  next
    case False
    have c: "schedule_ok (pub_schedule ?r)" "min_time (pub_schedule ?r) = mn" "running ?r"
        "has_state (pub_session ?r)" "encodable (frame_template (pub_session ?r))
          (ses_values (pub_session ?r)) (state_timestamp (pub_session ?r))"
        "identity_matches (gf_pdu (frame_template (pub_session ?r))) ?sub"
        "last_state_number ?sub = Some (ses_state_number (pub_session ?r))"
        "last_sequence_number ?sub = Some (ses_sequence_number (pub_session ?r) - 1)"
        "last_configuration_revision ?sub = Some (configuration_revision (gf_pdu (frame_template (pub_session ?r))))"
        "mms_encode_all (ses_values (pub_session ?r)) = Inr (last_values_fingerprint ?sub)"
      using sy by (auto simp: synced_def)
    obtain p r' where p: "publisher_poll now ?r = (Inr (Some p), r')"
        and pub: "published (pub_session ?r) (pub_schedule ?r) now p r'"
      using publisher_poll_due [OF c(1,3) due _ c(4,5), of now] False by auto
    have t4: "\<forall>t0. expires_at ?sub = Some t0 \<longrightarrow> event_now ?e + event_transit ?e < t0"
      using allowed_in_time [OF sy al js] by blast
    obtain res sub' fp gap where ob: "observe (gf_pdu (pub_frame p)) (event_now ?e + event_transit ?e) ?sub = (Inr res, sub')"
        "mms_encode_all (ses_values (pub_session ?r)) = Inr fp"
        "(res, sub') = accept_pdu (gf_pdu (pub_frame p)) (event_now ?e + event_transit ?e) fp False gap ?sub"
        "synced jitter mn r' sub'"
      using observe_published [OF pub c(1,2,5,4,6), of "event_now ?e + event_transit ?e" jitter]
        allowed_arrival [OF al] t4 by auto
    have "as_intended (?e, Some res)"
      by (rule accept_retransmission [OF _ _ _ _ ob(3) [symmetric]])
        (use c published_numbers [OF pub] ob(2) in simp_all)
    moreover have "link_step ?e l = l\<lparr>lk_pub := r', lk_sub := sub', lk_log := lk_log l @ [(?e, Some res)]\<rparr>"
      using deliver_observed [of "pub_bytes p" pad "pub_frame p" ?e "l\<lparr>lk_pub := r'\<rparr>" res sub']
        published_numbers(4) [OF pub] ob(1) p by simp
    ultimately show ?thesis using ob(4) log by (simp add: link_inv_def)
  qed
qed

lemma link_change_inv:
  assumes inv: "link_inv jitter mn l" and al: "link_allowed jitter slack (Link_change vs ts test nds now lat pad) l"
    and js: "jitter + slack < mn * 1000000"
  shows "link_inv jitter mn (link_step (Link_change vs ts test nds now lat pad) l)"
proof -
  let ?r = "lk_pub l" and ?sub = "lk_sub l" and ?e = "Link_change vs ts test nds now lat pad"
  let ?s = "changed_session vs ts test nds (pub_session ?r)"
  have sy: "synced jitter mn ?r ?sub" and log: "list_all as_intended (lk_log l)" "\<not> lk_failed l"
    using inv by (simp_all add: link_inv_def)
  have c: "schedule_ok (pub_schedule ?r)" "min_time (pub_schedule ?r) = mn" "has_state (pub_session ?r)"
      "identity_matches (gf_pdu (frame_template (pub_session ?r))) ?sub"
      "last_state_number ?sub = Some (ses_state_number (pub_session ?r))"
      "last_sequence_number ?sub = Some (ses_sequence_number (pub_session ?r) - 1)"
      "last_configuration_revision ?sub = Some (configuration_revision (gf_pdu (frame_template (pub_session ?r))))"
    using sy by (auto simp: synced_def)
  have enc: "encodable (frame_template (pub_session ?r)) vs ts" using al by (simp add: link_allowed_def)
  obtain p r' where p: "publisher_state_change vs ts now test nds ?r = (Inr p, r')"
      and pub: "published ?s (schedule_reset (pub_schedule ?r)) now p r'"
    using publisher_state_change_published [OF c(1) enc] by blast
  have cs: "schedule_ok (schedule_reset (pub_schedule ?r))" "min_time (schedule_reset (pub_schedule ?r)) = mn"
      "encodable (frame_template ?s) (ses_values ?s) (state_timestamp ?s)" "has_state ?s"
      "identity_matches (gf_pdu (frame_template ?s)) ?sub"
    using schedule_reset_ok [OF c(1)] c enc by (simp_all add: schedule_reset_def changed_session_def)
  have t4: "\<forall>t0. expires_at ?sub = Some t0 \<longrightarrow> event_now ?e + event_transit ?e < t0"
    using allowed_in_time [OF sy al js] by blast
  obtain res sub' fp gap where ob: "observe (gf_pdu (pub_frame p)) (event_now ?e + event_transit ?e) ?sub = (Inr res, sub')"
      "(res, sub') = accept_pdu (gf_pdu (pub_frame p)) (event_now ?e + event_transit ?e) fp False gap ?sub"
      "synced jitter mn r' sub'"
    using observe_published [OF pub cs, of "event_now ?e + event_transit ?e" jitter]
      allowed_arrival [OF al] t4 by auto
  have "as_intended (?e, Some res)"
    by (rule accept_state_change [OF c(5) _ c(6) _ _ ob(2) [symmetric]])
      (use c(3,7) published_numbers [OF pub] in \<open>simp_all add: changed_session_def\<close>)
  moreover have "link_step ?e l = l\<lparr>lk_pub := r', lk_sub := sub', lk_log := lk_log l @ [(?e, Some res)]\<rparr>"
    using deliver_observed [of "pub_bytes p" pad "pub_frame p" ?e "l\<lparr>lk_pub := r'\<rparr>" res sub']
      published_numbers(4) [OF pub] ob(1) p by simp
  ultimately show ?thesis using ob(3) log by (simp add: link_inv_def)
qed

interpretation lossless: machine link_step
  "\<lambda>e l. link_allowed jitter slack e l \<and> jitter + slack < mn * 1000000" "link_inv jitter mn" for jitter slack mn
proof
  fix l e assume "link_inv jitter mn l" and al: "link_allowed jitter slack e l \<and> jitter + slack < mn * 1000000"
  then show "link_inv jitter mn (link_step e l)"
  proof (cases e)
    case Link_start
    then show ?thesis using al by (simp add: link_allowed_def)
  qed (use link_poll_inv link_change_inv in blast)+
qed

subsection \<open>The first frame\<close>

lemma publisher_start_published:
  assumes "schedule_ok (pub_schedule r)" "encodable (frame_template (pub_session r)) vs ts"
    "\<not> running r" "\<not> has_state (pub_session r)"
  shows "\<exists>p r'. publisher_start vs ts now test nds r = (Inr p, r') \<and>
    published (changed_session vs ts test nds (pub_session r)) (schedule_reset (pub_schedule r)) now p r'"
proof -
  have "publish_state_change vs ts test nds s = publish_initial vs ts test nds s" if "\<not> has_state s" for s
    using that by (simp add: publish_state_change_def)
  moreover have "has_state (pub_session (snd (prepare_next_delay (publisher_reset_schedule r)))) = has_state (pub_session r)"
    by (simp add: prepare_next_delay_def publisher_reset_schedule_def Let_def case_prod_beta)
  ultimately have "publisher_start vs ts now test nds r = publisher_state_change vs ts now test nds r"
    using assms(3,4) by (simp add: publisher_start_def publisher_state_change_def Let_def case_prod_beta split: sum.split)
  then show ?thesis using publisher_state_change_published [OF assms(1,2)] by simp
qed

lemma accept_first:
  assumes "last_state_number sub = None" "last_configuration_revision sub = None"
    "accept_pdu q arrival fp False gap sub = (res, sub')"
  shows "as_intended (Link_start vs ts test nds now lat pad, Some res)"
  using assms by (auto simp: accept_pdu_def classify_def Let_def as_intended_def)

lemma link_start_effect:
  assumes enc: "encodable t vs ts" and id: "identity_matches (gf_pdu t) (subscriber_init opts)"
    and lat: "0 \<le> lat" "lat \<le> jitter"
  shows "\<exists>l. link_step (Link_start vs ts test nds now lat pad) (link_init t st sq mn mx opts) = l \<and>
    link_inv jitter (normalize_min_time mn) l \<and>
    next_due (lk_pub l) = Some (now + normalize_min_time mn * 1000000) \<and>
    last_arrival_time (lk_sub l) = Some (now + lat)"
proof -
  let ?l = "link_init t st sq mn mx opts" and ?e = "Link_start vs ts test nds now lat pad"
  let ?r = "lk_pub ?l" and ?sub = "lk_sub ?l"
  let ?s = "changed_session vs ts test nds (pub_session ?r)" and ?sch = "schedule_reset (pub_schedule ?r)"
  have ok: "schedule_ok (pub_schedule ?r)"
    by (simp add: link_init_def publisher_init_def schedule_init_ok)
  have fresh: "frame_template (pub_session ?r) = t" "\<not> running ?r" "\<not> has_state (pub_session ?r)"
    by (simp_all add: link_init_def publisher_init_def session_init_def)
  obtain p r' where p: "publisher_start vs ts now test nds ?r = (Inr p, r')" and pub: "published ?s ?sch now p r'"
    using publisher_start_published [OF ok, of vs ts now test nds] enc fresh by auto
  have c: "schedule_ok ?sch" "min_time ?sch = normalize_min_time mn"
      "encodable (frame_template ?s) (ses_values ?s) (state_timestamp ?s)" "has_state ?s"
      "identity_matches (gf_pdu (frame_template ?s)) ?sub"
    using schedule_reset_ok [OF ok] enc id
    by (simp_all add: link_init_def publisher_init_def schedule_init_def schedule_reset_def Let_def
        changed_session_def session_init_def)
  obtain res sub' fp gap where ob: "observe (gf_pdu (pub_frame p)) (now + lat) ?sub = (Inr res, sub')"
      "(res, sub') = accept_pdu (gf_pdu (pub_frame p)) (now + lat) fp False gap ?sub"
      "synced jitter (normalize_min_time mn) r' sub'"
    using observe_published [OF pub c, of "now + lat" jitter] lat
    by (auto simp: link_init_def subscriber_init_def)
  have "as_intended (?e, Some res)"
    by (rule accept_first [OF _ _ ob(2) [symmetric]]) (simp_all add: link_init_def subscriber_init_def)
  moreover have "link_step ?e ?l = ?l\<lparr>lk_pub := r', lk_sub := sub', lk_log := [(?e, Some res)]\<rparr>"
    using deliver_observed [of "pub_bytes p" pad "pub_frame p" ?e "?l\<lparr>lk_pub := r'\<rparr>" res sub']
      published_numbers(4) [OF pub] ob(1) p by (simp add: link_init_def)
  moreover have "next_due r' = Some (now + normalize_min_time mn * 1000000)"
    using pub c(2) by (simp add: published_def schedule_reset_def)
  moreover have "last_arrival_time sub' = Some (now + lat)"
    using ob(2) by (auto simp: accept_pdu_def Let_def case_prod_beta)
  ultimately show ?thesis using ob(3) by (simp add: link_inv_def link_init_def)
qed


lemma link_log_events:
  "map fst (lk_log (fold link_step es l)) = map fst (lk_log l) @ es"
proof (induction es arbitrary: l)
  case (Cons e es)
  have "map fst (lk_log (link_step e l)) = map fst (lk_log l) @ [e]"
    by (cases e) (auto simp: deliver_def Let_def split: sum.split option.split prod.split)
  with Cons show ?case by simp
qed simp

subsection \<open>Properties\<close>

text \<open>C25.  End-to-end supervision.  A publisher is started and then driven by any sequence of state
  changes and polls; every frame is delayed by at most \<open>jitter\<close>, padded, decoded and given to a
  subscriber that expects its identity.  If jitter and polling slack together stay below the minimum
  time, no operation of either side fails, no PDU is ever found expired, lost or out of order, and
  the subscriber classifies each one as what it was sent as: first, state change or retransmission.
  This covers the wrap of both 32-bit counters.\<close>

theorem goose_link_supervision:
  assumes "encodable t vs ts" "identity_matches (gf_pdu t) (subscriber_init opts)"
    "0 \<le> lat" "lat \<le> jitter" "jitter + slack < normalize_min_time mn * 1000000"
    "run_ok (link_allowed jitter slack) link_step es
       (link_step (Link_start vs ts test nds now lat pad) (link_init t st sq mn mx opts))"
  shows "let l = fold link_step (Link_start vs ts test nds now lat pad # es) (link_init t st sq mn mx opts) in
    \<not> lk_failed l \<and> map fst (lk_log l) = Link_start vs ts test nds now lat pad # es \<and>
    list_all as_intended (lk_log l)"
proof -
  let ?e = "Link_start vs ts test nds now lat pad" and ?l = "link_init t st sq mn mx opts"
  have al: "run_ok (\<lambda>e l. link_allowed jitter slack e l \<and> jitter + slack < normalize_min_time mn * 1000000)
      link_step es' l" if "run_ok (link_allowed jitter slack) link_step es' l" for es' l
    using that assms(5) by (induction es' arbitrary: l) auto
  have "link_inv jitter (normalize_min_time mn) (link_step ?e ?l)"
    using link_start_effect [OF assms(1-4), of test nds now pad st sq mn mx] by blast
  then have "link_inv jitter (normalize_min_time mn) (fold link_step es (link_step ?e ?l))"
    by (rule lossless.run_inv [OF al [OF assms(6)]])
  moreover have "map fst (lk_log (fold link_step (?e # es) ?l)) = ?e # es"
    by (subst link_log_events) (simp add: link_init_def)
  ultimately show ?thesis by (simp add: link_inv_def Let_def del: link_step.simps)
qed

theorem goose_link_supervision_witness:
  "let vs = goose_values (gf_pdu goose_sample); ts = timestamp (gf_pdu goose_sample);
       opts = \<lparr>expected_go_cb_ref = Some ''LD/LLN0$GO$g1'', expected_data_set_reference = None,
         expected_configuration_revision = Some 1\<rparr>;
       l = fold link_step [Link_start vs ts False False 0 10 [], Link_poll 4000000 20 [0]]
         (link_init goose_sample 0 0xFFFFFFFF 4 1000 opts) in
     \<not> lk_failed l \<and> map fst (lk_log l) = [Link_start vs ts False False 0 10 [], Link_poll 4000000 20 [0]] \<and>
     list_all as_intended (lk_log l)"
proof -
  let ?vs = "goose_values (gf_pdu goose_sample)" and ?ts = "timestamp (gf_pdu goose_sample)"
  let ?opts = "\<lparr>expected_go_cb_ref = Some ''LD/LLN0$GO$g1'', expected_data_set_reference = None,
         expected_configuration_revision = Some 1\<rparr>"
  have id: "identity_matches (gf_pdu goose_sample) (subscriber_init ?opts)"
    by (simp add: identity_matches_def subscriber_init_def goose_sample_def)
  let ?l = "link_step (Link_start ?vs ?ts False False 0 10 []) (link_init goose_sample 0 0xFFFFFFFF 4 1000 ?opts)"
  have "next_due (lk_pub ?l) = Some (0 + normalize_min_time 4 * 1000000)" "last_arrival_time (lk_sub ?l) = Some 10"
    using link_start_effect [OF goose_sample_encodable id, of 10 20 False False 0 "[]" 0 "0xFFFFFFFF" 4 1000] by (auto simp del: link_step.simps)
  then have "run_ok (link_allowed 20 1000) link_step [Link_poll 4000000 20 [0]] ?l"
    by (simp add: link_allowed_def normalize_min_time_def int_max_def del: link_step.simps)
  from goose_link_supervision [OF goose_sample_encodable id _ _ _ this] show ?thesis
    by (simp add: normalize_min_time_def int_max_def Let_def del: link_step.simps)
qed

end
