(* ===== verification/Cotp.thy ===== *)
theory Cotp
  imports Prelude
begin

text \<open>
  ISO 8073 class 0 transport (\<open>src/osi/cotp.cpp\<close>, \<open>include/ariec61850/osi/cotp.hpp\<close>): the TPDU
  codec with its parameter lists, connection negotiation, segmentation of user data and the bounded
  reassembler.  The parameter loop is the second instance of the offset codec interface.
\<close>

datatype cotp_kind = Ck_unknown | Ck_connection_request | Ck_connection_confirm | Ck_data
  | Ck_disconnect_request | Ck_error

record cotp_parameter =
  cp_code :: u8
  cp_value :: bytes

record cotp_tpdu =
  ct_kind :: cotp_kind
  ct_code :: u8
  ct_length_indicator :: u8
  ct_destination_reference :: u16
  ct_source_reference :: u16
  ct_class_or_reason :: u8
  ct_end_of_transmission :: bool
  ct_tpdu_number :: u8
  ct_parameters :: "cotp_parameter list"
  ct_user_data :: bytes

definition cotp_kind_from_code :: "u8 \<Rightarrow> cotp_kind" where
  "cotp_kind_from_code c =
     (if c = 0xE0 then Ck_connection_request else if c = 0xD0 then Ck_connection_confirm
      else if c = 0xF0 then Ck_data else if c = 0x80 then Ck_disconnect_request
      else if c = 0x70 then Ck_error else Ck_unknown)"

text \<open>\<open>CotpTpdu::parameter\<close>: the first parameter with the given code.\<close>

fun cotp_find_parameter :: "u8 \<Rightarrow> cotp_parameter list \<Rightarrow> bytes option" where
  "cotp_find_parameter c [] = None"
| "cotp_find_parameter c (p # ps) = (if cp_code p = c then Some (cp_value p) else cotp_find_parameter c ps)"

subsection \<open>Parameters\<close>

function cotp_parse_parameters :: "bytes \<Rightarrow> nat \<Rightarrow> nat \<Rightarrow> cotp_parameter list result" where
  "cotp_parse_parameters bs e off =
     (if off < e then
        if e - off < 2 then Inl (Cotp_format_error ''COTP parameter header is truncated.'')
        else let code = bs ! off; len = unat (bs ! (off + 1)); off = off + 2 in
          if len > e - off
          then Inl (Cotp_format_error ''COTP parameter value exceeds the variable header.'')
          else bindE (cotp_parse_parameters bs e (off + len)) (\<lambda>ps.
                 Inr (\<lparr>cp_code = code, cp_value = take len (drop off bs)\<rparr> # ps))
      else Inr [])"
  by pat_completeness auto
termination
  by (relation "measure (\<lambda>(bs, e, off). e - off)") auto

declare cotp_parse_parameters.simps [simp del]

definition cotp_add_parameter_size :: "cotp_parameter \<Rightarrow> nat \<Rightarrow> nat result" where
  "cotp_add_parameter_size p n =
     (if length (cp_value p) > 248
      then Inl (Length_error ''COTP parameter value exceeds the variable-header capacity.'')
      else let encoded_size = 2 + length (cp_value p) in
        if encoded_size > 248 - n
        then Inl (Length_error ''COTP variable header exceeds the length-indicator capacity.'')
        else Inr (n + encoded_size))"

definition cotp_encoded_parameters_size :: "cotp_parameter list \<Rightarrow> nat result" where
  "cotp_encoded_parameters_size ps = foldE cotp_add_parameter_size ps 0"

definition cotp_encode_parameter :: "cotp_parameter \<Rightarrow> bytes" where
  "cotp_encode_parameter p = [cp_code p, of_nat (length (cp_value p))] @ cp_value p"

definition cotp_append_parameters :: "cotp_parameter list \<Rightarrow> bytes" where
  "cotp_append_parameters ps = concat (map cotp_encode_parameter ps)"

subsection \<open>Encoding\<close>

definition cotp_encode_reference_tpdu ::
  "u8 \<Rightarrow> u16 \<Rightarrow> u16 \<Rightarrow> u8 \<Rightarrow> cotp_parameter list \<Rightarrow> bytes result" where
  "cotp_encode_reference_tpdu code dst src cls ps =
     bindE (cotp_encoded_parameters_size ps) (\<lambda>n.
     let li = 6 + n in
     if li > 255 then Inl (Length_error ''COTP header exceeds the one-byte length indicator.'')
     else Inr ([of_nat li, code] @ write_be_u16 dst @ write_be_u16 src @ [cls] @ cotp_append_parameters ps))"

definition cotp_tpdu_size_bytes :: "u8 \<Rightarrow> nat result" where
  "cotp_tpdu_size_bytes c =
     (if c < 0x07 \<or> c > 0x0F
      then Inl (Invalid_argument ''COTP TPDU size code must be in the range 0x07..0x0F.'')
      else Inr (2 ^ unat c))"

definition cotp_encode_connection_request :: "u16 \<Rightarrow> cotp_parameter list \<Rightarrow> u16 \<Rightarrow> u8 \<Rightarrow> bytes result" where
  "cotp_encode_connection_request src ps dst cls = cotp_encode_reference_tpdu 0xE0 dst src cls ps"

definition cotp_encode_default_connection_request :: "bytes result" where
  "cotp_encode_default_connection_request =
     cotp_encode_connection_request 1
       [\<lparr>cp_code = 0xC0, cp_value = [0x0A]\<rparr>, \<lparr>cp_code = 0xC1, cp_value = [0, 1]\<rparr>,
        \<lparr>cp_code = 0xC2, cp_value = [0, 1]\<rparr>] 0 0"

definition cotp_encode_connection_confirm :: "u16 \<Rightarrow> u16 \<Rightarrow> u8 \<Rightarrow> bytes result" where
  "cotp_encode_connection_confirm dst src max_code =
     bindE (cotp_tpdu_size_bytes max_code) (\<lambda>_.
       cotp_encode_reference_tpdu 0xD0 dst src 0 [\<lparr>cp_code = 0xC0, cp_value = [max_code]\<rparr>])"

definition cotp_selected_tpdu_size :: "cotp_tpdu \<Rightarrow> u8 \<Rightarrow> u8 result" where
  "cotp_selected_tpdu_size request max_code =
     bindE (cotp_tpdu_size_bytes max_code) (\<lambda>_.
     case cotp_find_parameter 0xC0 (ct_parameters request) of
       Some [v] \<Rightarrow> bindE (cotp_tpdu_size_bytes v) (\<lambda>_. Inr (min v max_code))
     | _ \<Rightarrow> Inr max_code)"

text \<open>The confirm mirrors the TSAP selectors: source becomes destination and conversely.\<close>

fun cotp_mirror :: "cotp_parameter \<Rightarrow> cotp_parameter list" where
  "cotp_mirror p =
     (if cp_code p = 0xC1 \<and> cp_value p \<noteq> [] then [\<lparr>cp_code = 0xC2, cp_value = cp_value p\<rparr>]
      else if cp_code p = 0xC2 \<and> cp_value p \<noteq> [] then [\<lparr>cp_code = 0xC1, cp_value = cp_value p\<rparr>]
      else [])"

definition cotp_connection_confirm_parameters :: "cotp_tpdu \<Rightarrow> u8 \<Rightarrow> cotp_parameter list result" where
  "cotp_connection_confirm_parameters request max_code =
     bindE (cotp_selected_tpdu_size request max_code) (\<lambda>sel.
       Inr (\<lparr>cp_code = 0xC0, cp_value = [sel]\<rparr> # concat (map cotp_mirror (ct_parameters request))))"

definition cotp_encode_connection_confirm_for :: "cotp_tpdu \<Rightarrow> u16 \<Rightarrow> u8 \<Rightarrow> bytes result" where
  "cotp_encode_connection_confirm_for request src max_code =
     (if ct_kind request \<noteq> Ck_connection_request
      then Inl (Invalid_argument ''COTP connection confirm requires a decoded connection request.'')
      else bindE (cotp_connection_confirm_parameters request max_code) (\<lambda>ps.
        cotp_encode_reference_tpdu 0xD0 (ct_source_reference request) src 0 ps))"

definition cotp_encode_disconnect_request :: "u16 \<Rightarrow> u16 \<Rightarrow> u8 \<Rightarrow> cotp_parameter list \<Rightarrow> bytes result" where
  "cotp_encode_disconnect_request dst src reason ps = cotp_encode_reference_tpdu 0x80 dst src reason ps"

definition cotp_encode_data :: "bytes \<Rightarrow> bool \<Rightarrow> u8 \<Rightarrow> bytes result" where
  "cotp_encode_data user eot number =
     (if number > 0x7F then Inl (Invalid_argument ''COTP TPDU number must fit in seven bits.'')
      else Inr ([0x02, 0xF0, (if eot then 0x80 else 0x00) OR number] @ user))"

text \<open>The segmentation loop, with \<open>cap\<close> the positive room for user data per TPDU.\<close>

function cotp_segment_loop :: "nat \<Rightarrow> bytes \<Rightarrow> nat \<Rightarrow> u8 \<Rightarrow> bytes list result" where
  "cotp_segment_loop cap user off number =
     (if off < length user \<and> 0 < cap then
        let len = min cap (length user - off); final = (off + len = length user) in
        bindE (cotp_encode_data (take len (drop off user)) final number) (\<lambda>seg.
        bindE (cotp_segment_loop cap user (off + len) ((number + 1) AND 0x7F)) (\<lambda>segs. Inr (seg # segs)))
      else Inr [])"
  by pat_completeness auto
termination
  by (relation "measure (\<lambda>(cap, user, off, number). length user - off)") auto

declare cotp_segment_loop.simps [simp del]

definition cotp_encode_data_segments :: "bytes \<Rightarrow> u8 \<Rightarrow> bytes list result" where
  "cotp_encode_data_segments user size_code =
     bindE (cotp_tpdu_size_bytes size_code) (\<lambda>capacity.
     if capacity \<le> 3 then Inl (Invalid_argument ''COTP TPDU capacity cannot hold a Data header.'')
     else if user = [] then bindE (cotp_encode_data [] True 0) (\<lambda>seg. Inr [seg])
     else cotp_segment_loop (capacity - 3) user 0 0)"

subsection \<open>Decoding\<close>

definition cotp_empty_tpdu :: cotp_tpdu where
  "cotp_empty_tpdu = \<lparr>ct_kind = Ck_unknown, ct_code = 0, ct_length_indicator = 0,
     ct_destination_reference = 0, ct_source_reference = 0, ct_class_or_reason = 0,
     ct_end_of_transmission = False, ct_tpdu_number = 0, ct_parameters = [], ct_user_data = []\<rparr>"

definition cotp_decode :: "bytes \<Rightarrow> cotp_tpdu result" where
  "cotp_decode bs =
     (if length bs < 2 then Inl (Cotp_format_error ''COTP TPDU is shorter than LI and code octets.'')
      else let li = unat (bs ! 0); header_end = li + 1 in
        if li < 2 \<or> header_end > length bs
        then Inl (Cotp_format_error ''COTP length indicator is invalid for the supplied TPDU.'')
        else let kind = cotp_kind_from_code (bs ! 1);
                 t = cotp_empty_tpdu\<lparr>ct_length_indicator := bs ! 0, ct_code := bs ! 1, ct_kind := kind\<rparr> in
          if kind = Ck_unknown then Inl (Cotp_format_error ''Unknown COTP TPDU code.'')
          else if kind = Ck_data then
            (if li \<noteq> 2 \<or> header_end \<noteq> 3
             then Inl (Cotp_format_error ''COTP Data TPDU must use a two-octet length indicator.'')
             else Inr (t\<lparr>ct_end_of_transmission := bs ! 2 AND 0x80 \<noteq> 0,
                         ct_tpdu_number := bs ! 2 AND 0x7F, ct_user_data := drop 3 bs\<rparr>))
          else if li < 6 \<or> length bs < 7
          then Inl (Cotp_format_error ''COTP reference TPDU is shorter than the fixed header.'')
          else bindE (cotp_parse_parameters bs header_end 7) (\<lambda>ps.
            let user = drop header_end bs in
            if (kind = Ck_connection_request \<or> kind = Ck_connection_confirm) \<and> user \<noteq> []
            then Inl (Cotp_format_error ''COTP CR/CC contains unsupported trailing user data.'')
            else Inr (t\<lparr>ct_destination_reference := read_be_u16 bs 2, ct_source_reference := read_be_u16 bs 4,
                        ct_class_or_reason := bs ! 6, ct_end_of_transmission := True,
                        ct_parameters := ps, ct_user_data := user\<rparr>)))"

subsection \<open>Reassembly\<close>

record cotp_reassembler =
  cr_maximum_bytes :: nat
  cr_maximum_fragments :: nat
  cr_maximum_empty :: nat
  cr_fragment_count :: nat
  cr_empty_nonfinal :: nat
  cr_complete :: bool
  cr_buffer :: bytes

definition cotp_reassembler_init :: "nat \<Rightarrow> nat \<Rightarrow> nat \<Rightarrow> cotp_reassembler result" where
  "cotp_reassembler_init mb mf me =
     (if mb = 0 \<or> mb > 512 * 1024 * 1024
      then Inl (Invalid_argument ''COTP reassembly byte limit is outside the supported range.'')
      else if mf = 0 \<or> mf > 16 * 1024 * 1024
      then Inl (Invalid_argument ''COTP reassembly fragment limit is outside the supported range.'')
      else if me = 0 \<or> me > mf then Inl (Invalid_argument ''COTP empty-fragment limit is invalid.'')
      else Inr \<lparr>cr_maximum_bytes = mb, cr_maximum_fragments = mf, cr_maximum_empty = me,
                cr_fragment_count = 0, cr_empty_nonfinal = 0, cr_complete = False, cr_buffer = []\<rparr>)"

text \<open>Checks and updates in the source order: a fragment refused for its size has been counted.\<close>

definition cotp_reassembler_append :: "cotp_tpdu \<Rightarrow> cotp_reassembler \<Rightarrow> unit result \<times> cotp_reassembler" where
  "cotp_reassembler_append t r =
     (if cr_complete r then (Inl (Cotp_format_error ''COTP Data sequence is already complete.''), r)
      else if ct_kind t \<noteq> Ck_data
      then (Inl (Cotp_format_error ''COTP reassembler accepts only Data TPDUs.''), r)
      else if cr_fragment_count r \<ge> cr_maximum_fragments r
      then (Inl (Cotp_format_error ''COTP Data sequence exceeded the fragment-count limit.''), r)
      else let r = r\<lparr>cr_fragment_count := cr_fragment_count r + 1\<rparr>;
               empty = (ct_user_data t = [] \<and> \<not> ct_end_of_transmission t) in
        if empty \<and> cr_empty_nonfinal r \<ge> cr_maximum_empty r
        then (Inl (Cotp_format_error ''COTP Data sequence exceeded the empty non-final fragment limit.''), r)
        else let r = (if empty then r\<lparr>cr_empty_nonfinal := cr_empty_nonfinal r + 1\<rparr> else r) in
          if length (ct_user_data t) > cr_maximum_bytes r - length (cr_buffer r)
          then (Inl (Cotp_format_error ''COTP Data sequence exceeded the bounded reassembly size.''), r)
          else (Inr (), r\<lparr>cr_buffer := cr_buffer r @ ct_user_data t, cr_complete := ct_end_of_transmission t\<rparr>))"

definition cotp_reassembler_append_encoded :: "bytes \<Rightarrow> cotp_reassembler \<Rightarrow> unit result \<times> cotp_reassembler" where
  "cotp_reassembler_append_encoded bs r =
     (case cotp_decode bs of Inl e \<Rightarrow> (Inl e, r) | Inr t \<Rightarrow> cotp_reassembler_append t r)"

definition cotp_reassembler_result :: "cotp_reassembler \<Rightarrow> bytes result" where
  "cotp_reassembler_result r =
     (if cr_complete r then Inr (cr_buffer r) else Inl (Cotp_format_error ''COTP Data sequence ended before EOT.''))"

definition cotp_reassembler_reset :: "cotp_reassembler \<Rightarrow> cotp_reassembler" where
  "cotp_reassembler_reset r = r\<lparr>cr_fragment_count := 0, cr_empty_nonfinal := 0, cr_complete := False, cr_buffer := []\<rparr>"

subsection \<open>Parameter lists read back\<close>

definition cotp_parameter_at :: "bytes \<Rightarrow> nat \<Rightarrow> nat \<Rightarrow> (nat \<times> cotp_parameter) option" where
  "cotp_parameter_at bs e off =
     (if e - off < 2 then None
      else let len = unat (bs ! (off + 1)) in
        if len > e - (off + 2) then None
        else Some (off + 2 + len, \<lparr>cp_code = bs ! off, cp_value = take len (drop (off + 2) bs)\<rparr>))"

definition cotp_parameter_ok :: "cotp_parameter \<Rightarrow> bool" where
  "cotp_parameter_ok p \<longleftrightarrow> length (cp_value p) \<le> 255"

lemma length_cotp_encode_parameter [simp]: "length (cotp_encode_parameter p) = 2 + length (cp_value p)"
  by (simp add: cotp_encode_parameter_def)

interpretation parameters: offset_codec cotp_encode_parameter cotp_parameter_at
  cotp_parse_parameters cotp_parameter_ok
proof
  fix x :: cotp_parameter and pre post :: bytes and e
  assume "cotp_parameter_ok x" "length pre + length (cotp_encode_parameter x) \<le> e"
    "e \<le> length (pre @ cotp_encode_parameter x @ post)"
  moreover from this have "unat (of_nat (length (cp_value x)) :: u8) = length (cp_value x)"
    by (simp add: cotp_parameter_ok_def unat_of_nat)
  ultimately show "cotp_parameter_at (pre @ cotp_encode_parameter x @ post) e (length pre) =
      Some (length pre + length (cotp_encode_parameter x), x)"
    by (cases x) (simp add: cotp_parameter_at_def cotp_encode_parameter_def nth_append Let_def, linarith)
next
  fix x :: cotp_parameter
  show "cotp_encode_parameter x \<noteq> []" by (simp add: cotp_encode_parameter_def)
next
  fix bs :: bytes and e i j x xs
  assume "i < e" "cotp_parameter_at bs e i = Some (j, x)" "cotp_parse_parameters bs e j = Inr xs"
  then show "cotp_parse_parameters bs e i = Inr (x # xs)"
    by (subst cotp_parse_parameters.simps) (auto simp: cotp_parameter_at_def Let_def split: if_splits)
next
  fix bs :: bytes and e
  show "cotp_parse_parameters bs e e = Inr []" by (subst cotp_parse_parameters.simps) simp
qed

lemma cotp_parameters_size:
  "foldE cotp_add_parameter_size ps n = Inr m \<Longrightarrow> n \<le> 248 \<Longrightarrow>
     m = n + length (cotp_append_parameters ps) \<and> m \<le> 248 \<and> list_all cotp_parameter_ok ps"
proof (induction ps arbitrary: n)
  case (Cons p ps)
  then obtain k where "cotp_add_parameter_size p n = Inr k" "foldE cotp_add_parameter_size ps k = Inr m"
    by (auto simp: bindE_Inr_iff)
  moreover from this(1) have "k = n + (2 + length (cp_value p))" "k \<le> 248" "length (cp_value p) \<le> 248"
    using Cons.prems(2) by (auto simp: cotp_add_parameter_size_def Let_def split: if_splits)
  ultimately show ?case
    using Cons.IH [of k] by (auto simp: cotp_append_parameters_def cotp_parameter_ok_def)
qed (simp add: cotp_append_parameters_def)

subsection \<open>Reference TPDUs\<close>

definition cotp_reference_tpdu :: "u8 \<Rightarrow> u16 \<Rightarrow> u16 \<Rightarrow> u8 \<Rightarrow> cotp_parameter list \<Rightarrow> cotp_tpdu" where
  "cotp_reference_tpdu code dst src cls ps =
     \<lparr>ct_kind = cotp_kind_from_code code, ct_code = code,
      ct_length_indicator = of_nat (6 + length (cotp_append_parameters ps)),
      ct_destination_reference = dst, ct_source_reference = src, ct_class_or_reason = cls,
      ct_end_of_transmission = True, ct_tpdu_number = 0, ct_parameters = ps, ct_user_data = []\<rparr>"

lemma cotp_reference_round_trip:
  assumes "cotp_encode_reference_tpdu code dst src cls ps = Inr enc"
    "cotp_kind_from_code code \<notin> {Ck_unknown, Ck_data}"
  shows "cotp_decode enc = Inr (cotp_reference_tpdu code dst src cls ps)"
proof -
  let ?a = "cotp_append_parameters ps"
  obtain n where n: "cotp_encoded_parameters_size ps = Inr n"
    and enc: "enc = [of_nat (6 + n), code] @ write_be_u16 dst @ write_be_u16 src @ [cls] @ ?a"
    using assms(1) by (auto simp: cotp_encode_reference_tpdu_def bindE_Inr_iff Let_def split: if_splits)
  have size: "n = length ?a" "n \<le> 248" "list_all cotp_parameter_ok ps"
    using cotp_parameters_size [of ps 0 n] n by (auto simp: cotp_encoded_parameters_size_def)
  have li: "unat (of_nat (6 + n) :: u8) = 6 + n" using size(2) by (simp add: unat_of_nat del: of_nat_add)
  have "length enc = 7 + n" "enc ! 0 = of_nat (6 + n)" "enc ! 1 = code" by (simp_all add: enc size(1))
  moreover have "enc ! 6 = cls" by (simp add: enc nth_append nth_Cons' write_be_u16_def)
  moreover have "read_be_u16 enc 2 = dst"
    unfolding enc using read_be_u16_append [of 2 "[of_nat (6 + n), code]" dst] by simp
  moreover have "read_be_u16 enc 4 = src"
    unfolding enc using read_be_u16_append [of 4 "[of_nat (6 + n), code] @ write_be_u16 dst" src] by simp
  moreover have "cotp_parse_parameters enc (7 + n) 7 = Inr ps"
    using parameters.dec_all_concat [OF size(3), of "7 + n"
        "[of_nat (6 + n), code] @ write_be_u16 dst @ write_be_u16 src @ [cls]" "[]"] size(1)
    by (simp add: enc cotp_append_parameters_def)
  ultimately show ?thesis
    using assms(2) li size(1)
    by (simp add: cotp_decode_def Let_def cotp_reference_tpdu_def cotp_empty_tpdu_def)
qed

subsection \<open>Data TPDUs and segmentation\<close>

definition cotp_data_tpdu :: "bytes \<Rightarrow> bool \<Rightarrow> u8 \<Rightarrow> cotp_tpdu" where
  "cotp_data_tpdu user eot number =
     cotp_empty_tpdu\<lparr>ct_kind := Ck_data, ct_code := 0xF0, ct_length_indicator := 2,
       ct_end_of_transmission := eot, ct_tpdu_number := number, ct_user_data := user\<rparr>"

lemma seven_bit_number:
  assumes "number \<le> (0x7F :: u8)"
  shows "((if eot then 0x80 else 0x00) OR number) AND 0x80 \<noteq> 0 \<longleftrightarrow> eot"
    "((if eot then 0x80 else 0x00) OR number) AND 0x7F = number"
proof -
  have b7: "(w :: u8) AND 0x80 \<noteq> 0 \<longleftrightarrow> bit w 7" for w
    using and_exp_eq_0_iff_not_bit [of w 7] by simp
  have m: "(w :: u8) AND 0x7F = take_bit 7 w" for w by (simp add: take_bit_eq_mask mask_eq_exp_minus_1)
  have t: "take_bit 7 number = number"
    using assms by (simp add: word_unat_eq_iff unsigned_take_bit_eq take_bit_nat_eq_self word_le_nat_alt)
  have bit80: "bit (0x80 :: u8) k \<longleftrightarrow> k = 7" for k
    using bit_exp_iff [of 7 k, where 'a = u8] by auto
  have n7: "\<not> bit number 7" by (subst t [symmetric]) (simp add: bit_take_bit_iff)
  show "((if eot then 0x80 else 0x00) OR number) AND 0x80 \<noteq> 0 \<longleftrightarrow> eot"
    unfolding b7 using n7 by (simp add: bit_or_iff bit80)
  have "take_bit 7 (0x80 OR number) = number"
    by (rule bit_word_eqI) (metis (no_types, lifting) bit80 bit_or_iff bit_take_bit_iff nat_neq_iff t)
  then show "((if eot then 0x80 else 0x00) OR number) AND 0x7F = number"
    unfolding m using t by simp
qed

lemma cotp_data_round_trip:
  assumes "number \<le> 0x7F"
  shows "\<exists>enc. cotp_encode_data user eot number = Inr enc \<and> length enc = length user + 3 \<and>
    cotp_decode enc = Inr (cotp_data_tpdu user eot number)"
  using assms seven_bit_number [OF assms, of eot]
  by (simp add: cotp_encode_data_def cotp_decode_def Let_def cotp_kind_from_code_def
      cotp_data_tpdu_def cotp_empty_tpdu_def not_less)

text \<open>Feeding encoded TPDUs until the first error.\<close>

fun cotp_feed :: "bytes list \<Rightarrow> cotp_reassembler \<Rightarrow> unit result \<times> cotp_reassembler" where
  "cotp_feed [] r = (Inr (), r)"
| "cotp_feed (s # ss) r = (case cotp_reassembler_append_encoded s r of
     (Inl e, r) \<Rightarrow> (Inl e, r)
   | (Inr _, r) \<Rightarrow> cotp_feed ss r)"

lemma reassemble_data:
  assumes "number \<le> 0x7F" "\<not> cr_complete r" "cr_fragment_count r < cr_maximum_fragments r"
    "user \<noteq> [] \<or> eot" "length (cr_buffer r) + length user \<le> cr_maximum_bytes r"
    "cotp_encode_data user eot number = Inr enc"
  shows "cotp_reassembler_append_encoded enc r =
    (Inr (), r\<lparr>cr_fragment_count := cr_fragment_count r + 1, cr_buffer := cr_buffer r @ user, cr_complete := eot\<rparr>)"
proof -
  have "cotp_decode enc = Inr (cotp_data_tpdu user eot number)"
    using cotp_data_round_trip [OF assms(1), of user eot] assms(6) by auto
  with assms(2-5) show ?thesis
    by (auto simp: cotp_reassembler_append_encoded_def cotp_reassembler_append_def cotp_data_tpdu_def
        cotp_empty_tpdu_def Let_def)
qed

lemma seven_bit_next: "((number :: u8) + 1) AND 0x7F \<le> 0x7F"
  by (rule word_and_le1)

lemma cotp_segments_reassemble:
  assumes "0 < cap" "off < length user" "number \<le> 0x7F"
  shows "\<exists>segs. cotp_segment_loop cap user off number = Inr segs \<and>
    length segs = (length user - off + cap - 1) div cap \<and> (\<forall>s \<in> set segs. length s \<le> cap + 3) \<and>
    (\<forall>r. \<not> cr_complete r \<longrightarrow> cr_fragment_count r + length segs \<le> cr_maximum_fragments r \<longrightarrow>
      length (cr_buffer r) + (length user - off) \<le> cr_maximum_bytes r \<longrightarrow>
      (\<exists>r'. cotp_feed segs r = (Inr (), r') \<and> cr_complete r' \<and> cr_buffer r' = cr_buffer r @ drop off user \<and>
        cr_fragment_count r' = cr_fragment_count r + length segs))"
  using assms
proof (induction cap user off number rule: cotp_segment_loop.induct)
  case (1 cap user off number)
  define len where "len = min cap (length user - off)"
  define eot where "eot = (off + len = length user)"
  have len: "0 < len" "len \<le> cap" "off + len \<le> length user" using "1.prems" by (auto simp: len_def)
  let ?chunk = "take len (drop off user)"
  have chunk: "?chunk \<noteq> []" "length ?chunk = len" using len by auto
  obtain seg where seg: "cotp_encode_data ?chunk eot number = Inr seg" "length seg = len + 3"
    using cotp_data_round_trip [OF "1.prems"(3), of ?chunk eot] chunk(2) by auto
  have unfold: "cotp_segment_loop cap user off number =
      bindE (cotp_segment_loop cap user (off + len) ((number + 1) AND 0x7F)) (\<lambda>segs. Inr (seg # segs))"
    using "1.prems" seg(1) by (subst cotp_segment_loop.simps) (simp add: Let_def len_def [symmetric] eot_def)
  show ?case
  proof (cases eot)
    case True
    have "cotp_segment_loop cap user (off + len) ((number + 1) AND 0x7F) = Inr []"
      using True by (subst cotp_segment_loop.simps) (simp add: eot_def)
    then have segs: "cotp_segment_loop cap user off number = Inr [seg]" by (simp add: unfold)
    have rem: "length user - off = len" "drop off user = ?chunk" using True by (auto simp: eot_def)
    have "(len + cap - 1) div cap = 1"
      using len "1.prems"(1) by (intro div_nat_eqI) auto
    with segs seg len rem show ?thesis
      by (auto simp: reassemble_data [OF "1.prems"(3) _ _ _ _ seg(1)] True simp del: drop_eq_Nil)
  next
    case False
    then have full: "len = cap" "off + len < length user" using len by (auto simp: eot_def len_def)
    obtain segs where segs: "cotp_segment_loop cap user (off + len) ((number + 1) AND 0x7F) = Inr segs"
        "length segs = (length user - (off + len) + cap - 1) div cap" "\<forall>s \<in> set segs. length s \<le> cap + 3"
        and feed: "\<And>r. \<not> cr_complete r \<Longrightarrow> cr_fragment_count r + length segs \<le> cr_maximum_fragments r \<Longrightarrow>
          length (cr_buffer r) + (length user - (off + len)) \<le> cr_maximum_bytes r \<Longrightarrow>
          \<exists>r'. cotp_feed segs r = (Inr (), r') \<and> cr_complete r' \<and> cr_buffer r' = cr_buffer r @ drop (off + len) user \<and>
            cr_fragment_count r' = cr_fragment_count r + length segs"
      using "1.IH" [OF _ len_def eot_def "1.prems"(1) full(2) seven_bit_next] "1.prems"(1,2) by blast
    have split: "drop off user = ?chunk @ drop (off + len) user"
      by (metis append_take_drop_id drop_drop add.commute)
    have count: "length (seg # segs) = (length user - off + cap - 1) div cap"
    proof -
      have "length user - off + cap - 1 = (length user - (off + len) + cap - 1) + cap"
        using full "1.prems"(1) by linarith
      moreover have "(k + cap) div cap = k div cap + 1" for k using "1.prems"(1) by (simp add: div_add_self2)
      ultimately show ?thesis using segs(2) by (simp only: list.size(4))
    qed
    have "\<exists>r'. cotp_feed (seg # segs) r = (Inr (), r') \<and> cr_complete r' \<and> cr_buffer r' = cr_buffer r @ drop off user \<and>
        cr_fragment_count r' = cr_fragment_count r + length (seg # segs)"
      if r: "\<not> cr_complete r" "cr_fragment_count r + length (seg # segs) \<le> cr_maximum_fragments r"
        "length (cr_buffer r) + (length user - off) \<le> cr_maximum_bytes r" for r
    proof -
      let ?r = "r\<lparr>cr_fragment_count := cr_fragment_count r + 1, cr_buffer := cr_buffer r @ ?chunk, cr_complete := eot\<rparr>"
      have "cotp_reassembler_append_encoded seg r = (Inr (), ?r)"
        using r chunk len by (intro reassemble_data [OF "1.prems"(3) _ _ _ _ seg(1)]) auto
      moreover obtain r' where "cotp_feed segs ?r = (Inr (), r')" "cr_complete r'"
          "cr_buffer r' = cr_buffer ?r @ drop (off + len) user"
          "cr_fragment_count r' = cr_fragment_count ?r + length segs"
        using feed [of ?r] r False len by auto
      ultimately show ?thesis using split by simp
    qed
    with segs count seg(2) full(1) unfold show ?thesis by auto
  qed
qed

lemma cotp_tpdu_size_cases:
  assumes "0x07 \<le> c" "c \<le> (0x0F :: u8)"
  shows "cotp_tpdu_size_bytes c = Inr (2 ^ unat c)" "128 \<le> (2 :: nat) ^ unat c"
proof -
  have "7 \<le> unat c" using assms(1) by (simp add: word_le_nat_alt)
  then have "(2 :: nat) ^ 7 \<le> 2 ^ unat c" by (rule power_increasing) simp
  then show "128 \<le> (2 :: nat) ^ unat c" by simp
  show "cotp_tpdu_size_bytes c = Inr (2 ^ unat c)" using assms by (simp add: cotp_tpdu_size_bytes_def not_less)
qed

lemma cotp_parameters_size_total:
  "n + length (cotp_append_parameters ps) \<le> 248 \<Longrightarrow>
     foldE cotp_add_parameter_size ps n = Inr (n + length (cotp_append_parameters ps))"
proof (induction ps arbitrary: n)
  case (Cons p ps)
  then have "cotp_add_parameter_size p n = Inr (n + (2 + length (cp_value p)))"
    by (auto simp: cotp_add_parameter_size_def cotp_append_parameters_def)
  moreover have "foldE cotp_add_parameter_size ps (n + (2 + length (cp_value p))) =
      Inr (n + (2 + length (cp_value p)) + length (cotp_append_parameters ps))"
    using Cons.prems by (intro Cons.IH) (simp add: cotp_append_parameters_def)
  ultimately show ?case by (simp add: cotp_append_parameters_def add.assoc)
qed (simp add: cotp_append_parameters_def)

lemma cotp_encode_reference_total:
  assumes "length (cotp_append_parameters ps) \<le> 248"
  shows "\<exists>enc. cotp_encode_reference_tpdu code dst src cls ps = Inr enc"
  using cotp_parameters_size_total [of 0 ps] assms
  by (simp add: cotp_encode_reference_tpdu_def cotp_encoded_parameters_size_def)

subsection \<open>The reassembler stays within its limits\<close>

datatype reassembly_call = Reassemble cotp_tpdu | Reset_reassembly

fun reassembly_step :: "reassembly_call \<Rightarrow> cotp_reassembler \<Rightarrow> cotp_reassembler" where
  "reassembly_step (Reassemble t) r = snd (cotp_reassembler_append t r)"
| "reassembly_step Reset_reassembly r = cotp_reassembler_reset r"

definition reassembly_inv :: "nat \<Rightarrow> nat \<Rightarrow> nat \<Rightarrow> cotp_reassembler \<Rightarrow> bool" where
  "reassembly_inv mb mf me r \<longleftrightarrow>
     cr_maximum_bytes r = mb \<and> cr_maximum_fragments r = mf \<and> cr_maximum_empty r = me \<and>
     length (cr_buffer r) \<le> mb \<and> cr_fragment_count r \<le> mf \<and> cr_empty_nonfinal r \<le> me \<and>
     cr_empty_nonfinal r \<le> cr_fragment_count r"

interpretation reassembly: machine reassembly_step "\<lambda>_ _. True" "reassembly_inv mb mf me" for mb mf me
proof
  fix r c assume "reassembly_inv mb mf me r"
  then show "reassembly_inv mb mf me (reassembly_step c r)"
    by (cases c) (auto simp: reassembly_inv_def cotp_reassembler_append_def cotp_reassembler_reset_def Let_def)
qed

subsection \<open>Properties\<close>

text \<open>Segmentation and reassembly: user data of any length, empty included, is cut into Data
  TPDUs that never exceed the negotiated size; the reassembler, given those TPDUs in order and limits
  that admit them, completes with exactly the original octets.\<close>

theorem cotp_segmentation_round_trip:
  assumes "0x07 \<le> code" "code \<le> 0x0F" "cotp_reassembler_init mb mf me = Inr r"
    "length user \<le> mb" "(length user + (2 ^ unat code - 3) - 1) div (2 ^ unat code - 3) \<le> mf"
  shows "\<exists>segs r'. cotp_encode_data_segments user code = Inr segs \<and>
    (\<forall>s \<in> set segs. length s \<le> 2 ^ unat code) \<and>
    cotp_feed segs r = (Inr (), r') \<and> cotp_reassembler_result r' = Inr user"
proof -
  note size = cotp_tpdu_size_cases [OF assms(1,2)]
  define cap where "cap = (2 :: nat) ^ unat code - 3"
  have cap: "0 < cap" "cap + 3 = 2 ^ unat code" using size(2) by (simp_all add: cap_def)
  have r: "\<not> cr_complete r" "cr_fragment_count r = 0" "cr_buffer r = []" "cr_maximum_bytes r = mb"
      "cr_maximum_fragments r = mf" "0 < mf"
    using assms(3) by (auto simp: cotp_reassembler_init_def split: if_splits)
  show ?thesis
  proof (cases "user = []")
    case True
    have le: "(0 :: u8) \<le> 0x7F" by simp
    obtain seg where seg: "cotp_encode_data [] True 0 = Inr seg" "length seg = 3"
      using cotp_data_round_trip [OF le, of "[]" True] by auto
    have "cotp_feed [seg] r = (Inr (), r\<lparr>cr_fragment_count := 1, cr_buffer := [], cr_complete := True\<rparr>)"
      using reassemble_data [OF le _ _ _ _ seg(1), of r] r by simp
    with True seg size show ?thesis
      by (simp add: cotp_encode_data_segments_def cotp_reassembler_result_def)
  next
    case False
    then obtain segs where segs: "cotp_segment_loop cap user 0 0 = Inr segs"
        "length segs = (length user + cap - 1) div cap" "\<forall>s \<in> set segs. length s \<le> cap + 3"
        "\<exists>r'. cotp_feed segs r = (Inr (), r') \<and> cr_complete r' \<and> cr_buffer r' = cr_buffer r @ drop 0 user"
      using cotp_segments_reassemble [OF cap(1), of 0 user 0] r assms(4,5) by (auto simp: cap_def)
    moreover have "cotp_encode_data_segments user code = Inr segs"
      using False size segs(1) by (simp add: cotp_encode_data_segments_def cap_def)
    ultimately show ?thesis using r(3) cap(2) by (auto simp: cotp_reassembler_result_def)
  qed
qed

theorem cotp_segmentation_round_trip_witness:
  "\<exists>segs r'. cotp_encode_data_segments (replicate 300 7) 0x07 = Inr segs \<and>
    (\<forall>s \<in> set segs. length s \<le> 2 ^ unat (0x07 :: u8)) \<and>
    cotp_feed segs \<lparr>cr_maximum_bytes = 1000, cr_maximum_fragments = 3, cr_maximum_empty = 1,
      cr_fragment_count = 0, cr_empty_nonfinal = 0, cr_complete = False, cr_buffer = []\<rparr> = (Inr (), r') \<and>
    cotp_reassembler_result r' = Inr (replicate 300 7)"
  by (rule cotp_segmentation_round_trip [of _ 1000 3 1]) (simp_all add: cotp_reassembler_init_def)

text \<open>Reference TPDUs: a connection request, connection confirm, disconnect request or error
  TPDU whose parameters fit the length indicator encodes and decodes to the same references, class
  and parameter list.\<close>

theorem cotp_reference_tpdu_round_trip:
  assumes "code \<in> {0xE0, 0xD0, 0x80, 0x70}" "length (cotp_append_parameters ps) \<le> 248"
  shows "\<exists>enc t. cotp_encode_reference_tpdu code dst src cls ps = Inr enc \<and> cotp_decode enc = Inr t \<and>
    ct_kind t = cotp_kind_from_code code \<and> ct_destination_reference t = dst \<and> ct_source_reference t = src \<and>
    ct_class_or_reason t = cls \<and> ct_parameters t = ps \<and> ct_user_data t = []"
proof -
  obtain enc where enc: "cotp_encode_reference_tpdu code dst src cls ps = Inr enc"
    using cotp_encode_reference_total [OF assms(2)] by blast
  have "cotp_kind_from_code code \<notin> {Ck_unknown, Ck_data}"
    using assms(1) by (auto simp: cotp_kind_from_code_def)
  from cotp_reference_round_trip [OF enc this] enc show ?thesis by (simp add: cotp_reference_tpdu_def)
qed

theorem cotp_reference_tpdu_round_trip_witness:
  "\<exists>enc t. cotp_encode_reference_tpdu 0xE0 0 1 0 [\<lparr>cp_code = 0xC1, cp_value = [0, 1]\<rparr>] = Inr enc \<and>
    cotp_decode enc = Inr t \<and> ct_kind t = cotp_kind_from_code 0xE0 \<and> ct_destination_reference t = 0 \<and>
    ct_source_reference t = 1 \<and> ct_class_or_reason t = 0 \<and>
    ct_parameters t = [\<lparr>cp_code = 0xC1, cp_value = [0, 1]\<rparr>] \<and> ct_user_data t = []"
  by (rule cotp_reference_tpdu_round_trip) (simp_all add: cotp_append_parameters_def)

text \<open>Negotiation: the confirm for a request that offers a TPDU size decodes to a connection
  confirm addressed to the requester, whose size parameter is the smaller of the offered and the
  local maximum, and whose TSAP selectors are the request's, source and destination exchanged.\<close>

theorem cotp_confirm_negotiates:
  assumes "ct_kind request = Ck_connection_request" "cotp_find_parameter 0xC0 (ct_parameters request) = Some [offered]"
    "0x07 \<le> offered" "offered \<le> 0x0F" "0x07 \<le> limit" "limit \<le> 0x0F"
    "length (cotp_append_parameters (concat (map cotp_mirror (ct_parameters request)))) \<le> 245"
  shows "\<exists>enc t. cotp_encode_connection_confirm_for request src limit = Inr enc \<and> cotp_decode enc = Inr t \<and>
    ct_kind t = Ck_connection_confirm \<and> ct_destination_reference t = ct_source_reference request \<and>
    ct_source_reference t = src \<and>
    cotp_find_parameter 0xC0 (ct_parameters t) = Some [min offered limit] \<and>
    tl (ct_parameters t) = concat (map cotp_mirror (ct_parameters request))"
proof -
  let ?ps = "\<lparr>cp_code = 0xC0, cp_value = [min offered limit]\<rparr> # concat (map cotp_mirror (ct_parameters request))"
  have ps: "cotp_connection_confirm_parameters request limit = Inr ?ps"
    using assms(2) cotp_tpdu_size_cases(1) [OF assms(3,4)] cotp_tpdu_size_cases(1) [OF assms(5,6)]
    by (simp add: cotp_connection_confirm_parameters_def cotp_selected_tpdu_size_def)
  have "length (cotp_append_parameters ?ps) \<le> 248"
    using assms(7) by (simp add: cotp_append_parameters_def)
  then obtain enc where enc: "cotp_encode_reference_tpdu 0xD0 (ct_source_reference request) src 0 ?ps = Inr enc"
    using cotp_encode_reference_total by blast
  have "cotp_decode enc = Inr (cotp_reference_tpdu 0xD0 (ct_source_reference request) src 0 ?ps)"
    by (rule cotp_reference_round_trip [OF enc]) (simp add: cotp_kind_from_code_def)
  with enc ps assms(1) show ?thesis
    by (simp add: cotp_encode_connection_confirm_for_def cotp_reference_tpdu_def cotp_kind_from_code_def)
qed

theorem cotp_confirm_negotiates_witness:
  "\<exists>enc t. cotp_encode_connection_confirm_for (cotp_reference_tpdu 0xE0 0 9 0
      [\<lparr>cp_code = 0xC1, cp_value = [0, 1]\<rparr>, \<lparr>cp_code = 0xC0, cp_value = [0x0D]\<rparr>]) 4 0x0A = Inr enc \<and>
    cotp_decode enc = Inr t \<and> ct_kind t = Ck_connection_confirm \<and> ct_destination_reference t = 9 \<and>
    ct_source_reference t = 4 \<and> cotp_find_parameter 0xC0 (ct_parameters t) = Some [0x0A] \<and>
    tl (ct_parameters t) = [\<lparr>cp_code = 0xC2, cp_value = [0, 1]\<rparr>]"
  using cotp_confirm_negotiates [of "cotp_reference_tpdu 0xE0 0 9 0
      [\<lparr>cp_code = 0xC1, cp_value = [0, 1]\<rparr>, \<lparr>cp_code = 0xC0, cp_value = [0x0D]\<rparr>]" "0x0D" "0x0A" 4]
  by (simp add: cotp_reference_tpdu_def cotp_kind_from_code_def cotp_append_parameters_def min_def)

text \<open>Bounded reassembly: whatever TPDUs arrive, in any order, with resets in between, the
  reassembler never holds more octets, fragments or empty fragments than it was configured for.\<close>

theorem cotp_reassembly_bounded:
  "case cotp_reassembler_init mb mf me of Inl _ \<Rightarrow> True
   | Inr r \<Rightarrow> (let r' = fold reassembly_step calls r in
       length (cr_buffer r') \<le> mb \<and> cr_fragment_count r' \<le> mf \<and> cr_empty_nonfinal r' \<le> me)"
proof (cases "cotp_reassembler_init mb mf me")
  case (Inr r)
  then have "reassembly_inv mb mf me r"
    by (auto simp: cotp_reassembler_init_def reassembly_inv_def split: if_splits)
  from reassembly.run_inv [OF run_ok_always this, of calls] Inr show ?thesis
    by (simp add: reassembly_inv_def Let_def)
qed simp

end
