(* ===== verification/Tpkt.thy ===== *)
theory Tpkt
  imports Prelude
begin

text \<open>
  RFC 1006 framing (\<open>src/osi/tpkt.cpp\<close>, \<open>src/osi/tpkt_span.cpp\<close>): the frame codec, the
  incremental stream decoder with its lazily compacted buffer, and the allocation-free codec.  Main
  result: however the TCP stream is cut into chunks, the decoder delivers exactly the frames that
  were sent.
\<close>

record tpkt_frame =
  tp_version :: u8
  tp_declared_length :: u16
  tp_payload :: bytes

subsection \<open>Frame codec\<close>

definition tpkt_encode :: "bytes \<Rightarrow> bytes result" where
  "tpkt_encode p =
     (if length p > 65531 then Inl (Length_error ''TPKT payload exceeds the 65,531-byte protocol limit.'')
      else let declared = (of_nat (length p + 4) :: u16) in
        Inr ([0x03, 0x00, ucast (drop_bit 8 declared), ucast (declared AND 0xFF)] @ p))"

definition tpkt_try_decode :: "bytes \<Rightarrow> string + tpkt_frame" where
  "tpkt_try_decode bs =
     (if length bs < 4 then Inl ''TPKT frame is shorter than the four-byte header.''
      else if bs ! 0 \<noteq> 0x03 then Inl ''Unsupported TPKT version.''
      else if bs ! 1 \<noteq> 0x00 then Inl ''TPKT reserved octet must be zero.''
      else let declared = read_be_u16 bs 2 in
        if unat declared < 4 then Inl ''TPKT declared length is smaller than the header.''
        else if unat declared \<noteq> length bs
        then Inl ''TPKT declared length does not match the supplied frame length.''
        else Inr \<lparr>tp_version = bs ! 0, tp_declared_length = declared, tp_payload = drop 4 bs\<rparr>)"

definition tpkt_decode :: "bytes \<Rightarrow> tpkt_frame result" where
  "tpkt_decode bs = (case tpkt_try_decode bs of Inl e \<Rightarrow> Inl (Tpkt_format_error e) | Inr f \<Rightarrow> Inr f)"

subsection \<open>Stream decoder\<close>

record tpkt_decoder =
  tp_buffer :: bytes
  tp_offset :: nat
  tp_maximum :: nat
  tp_decoded :: nat

definition tpkt_decoder_init :: "nat \<Rightarrow> tpkt_decoder result" where
  "tpkt_decoder_init m =
     (if m < 4 \<or> m > 64 * 1024 * 1024
      then Inl (Invalid_argument ''TPKT stream buffer limit is outside the supported range.'')
      else Inr \<lparr>tp_buffer = [], tp_offset = 0, tp_maximum = m, tp_decoded = 0\<rparr>)"

definition tpkt_buffered_bytes :: "tpkt_decoder \<Rightarrow> nat" where
  "tpkt_buffered_bytes d = length (tp_buffer d) - tp_offset d"

definition tpkt_compact :: "tpkt_decoder \<Rightarrow> tpkt_decoder" where
  "tpkt_compact d =
     (if tp_offset d = 0 then d
      else if tp_offset d = length (tp_buffer d) then d\<lparr>tp_buffer := [], tp_offset := 0\<rparr>
      else if tp_offset d \<ge> length (tp_buffer d) div 2 \<or> tp_offset d \<ge> 65535
      then d\<lparr>tp_buffer := drop (tp_offset d) (tp_buffer d), tp_offset := 0\<rparr>
      else d)"

definition tpkt_append :: "bytes \<Rightarrow> tpkt_decoder \<Rightarrow> unit result \<times> tpkt_decoder" where
  "tpkt_append bs d =
     (if bs = [] then (Inr (), d)
      else let d = tpkt_compact d in
        if length bs > tp_maximum d - length (tp_buffer d)
        then (Inl (Tpkt_format_error ''TPKT stream exceeded the bounded buffer limit.''), d)
        else (Inr (), d\<lparr>tp_buffer := tp_buffer d @ bs\<rparr>))"

definition tpkt_unread :: "tpkt_decoder \<Rightarrow> bytes" where
  "tpkt_unread d = drop (tp_offset d) (tp_buffer d)"

definition tpkt_try_pop :: "tpkt_decoder \<Rightarrow> tpkt_frame option result \<times> tpkt_decoder" where
  "tpkt_try_pop d =
     (let available = tpkt_buffered_bytes d; unread = tpkt_unread d in
      if available < 4 then (Inr None, d)
      else if unread ! 0 \<noteq> 0x03 then (Inl (Tpkt_format_error ''Unsupported TPKT version in stream.''), d)
      else if unread ! 1 \<noteq> 0x00
      then (Inl (Tpkt_format_error ''TPKT reserved octet in stream must be zero.''), d)
      else let declared = unat (read_be_u16 unread 2) in
        if declared < 4
        then (Inl (Tpkt_format_error ''TPKT stream declared an invalid frame length.''), d)
        else if declared > tp_maximum d
        then (Inl (Tpkt_format_error ''TPKT frame exceeds the configured stream buffer limit.''), d)
        else if available < declared then (Inr None, d)
        else (case tpkt_decode (take declared unread) of
            Inl e \<Rightarrow> (Inl e, d)
          | Inr f \<Rightarrow> (Inr (Some f), tpkt_compact (d\<lparr>tp_offset := tp_offset d + declared,
                                                        tp_decoded := tp_decoded d + 1\<rparr>))))"

definition tpkt_reset :: "tpkt_decoder \<Rightarrow> tpkt_decoder" where
  "tpkt_reset d = d\<lparr>tp_buffer := [], tp_offset := 0, tp_decoded := 0\<rparr>"

subsection \<open>Allocation-free codec\<close>

datatype tpkt_peek = Need_more nat | Ready nat | Invalid

definition tpkt_encode_into :: "bytes \<Rightarrow> bytes \<Rightarrow> encode_result \<times> bytes" where
  "tpkt_encode_into p dest =
     (if length p > 65531 then ((Value_out_of_range, 0, 0), dest)
      else let required = length p + 4 in
        if length dest < required then ((Buffer_too_small, 0, required), dest)
        else ((Encode_ok, required, required),
              [0x03, 0x00] @ write_be_u16 (of_nat required) @ p @ drop required dest))"

definition tpkt_peek_frame :: "bytes \<Rightarrow> tpkt_peek" where
  "tpkt_peek_frame bs =
     (if length bs < 4 then Need_more 0
      else if bs ! 0 \<noteq> 0x03 \<or> bs ! 1 \<noteq> 0x00 then Invalid
      else let declared = unat (read_be_u16 bs 2) in
        if declared < 4 then Invalid
        else if length bs < declared then Need_more declared
        else Ready declared)"

definition tpkt_try_decode_view :: "bytes \<Rightarrow> tpkt_frame option" where
  "tpkt_try_decode_view bs =
     (case tpkt_peek_frame bs of
        Ready n \<Rightarrow> if n \<noteq> length bs then None
          else Some \<lparr>tp_version = bs ! 0, tp_declared_length = of_nat n, tp_payload = drop 4 bs\<rparr>
      | _ \<Rightarrow> None)"

subsection \<open>Codec facts\<close>

definition tpkt_octets :: "bytes \<Rightarrow> bytes" where
  "tpkt_octets p = [0x03, 0x00] @ write_be_u16 (of_nat (length p + 4)) @ p"

definition tpkt_frame_of :: "bytes \<Rightarrow> tpkt_frame" where
  "tpkt_frame_of p = \<lparr>tp_version = 0x03, tp_declared_length = of_nat (length p + 4), tp_payload = p\<rparr>"

lemma length_tpkt_octets [simp]: "length (tpkt_octets p) = length p + 4"
  by (simp add: tpkt_octets_def)

lemma tpkt_encode_octets: "length p \<le> 65531 \<Longrightarrow> tpkt_encode p = Inr (tpkt_octets p)"
proof -
  have "ucast (drop_bit 8 (w :: u16)) = (ucast (drop_bit 8 w AND 0xFF) :: u8)" for w
    by (rule bit_word_eqI) (auto simp: bit_simps low_octet_mask)
  then show "length p \<le> 65531 \<Longrightarrow> ?thesis"
    by (simp add: tpkt_encode_def tpkt_octets_def write_be_u16_def Let_def)
qed

lemma tpkt_header:
  assumes "length p \<le> 65531" "4 \<le> n" "n \<le> length p + 4"
  shows "take n (tpkt_octets p) ! 0 = 0x03" "take n (tpkt_octets p) ! 1 = 0x00"
    "unat (read_be_u16 (take n (tpkt_octets p) @ rest) 2) = length p + 4"
proof -
  have u: "unat (of_nat (length p + 4) :: u16) = length p + 4"
    using assms(1) by (simp add: unat_of_nat del: of_nat_add)
  have "take n (tpkt_octets p) = [0x03, 0x00] @ write_be_u16 (of_nat (length p + 4)) @ take (n - 4) p"
    using assms(2) by (simp add: tpkt_octets_def take_Cons' write_be_u16_def eval_nat_numeral)
  then show "take n (tpkt_octets p) ! 0 = 0x03" "take n (tpkt_octets p) ! 1 = 0x00"
    "unat (read_be_u16 (take n (tpkt_octets p) @ rest) 2) = length p + 4"
    using read_be_u16_append [of 2 "[0x03, 0x00]" "of_nat (length p + 4)" "take (n - 4) p @ rest"] u
    by simp_all
qed

lemma tpkt_decode_octets:
  assumes "length p \<le> 65531" shows "tpkt_decode (tpkt_octets p) = Inr (tpkt_frame_of p)"
proof -
  have r: "read_be_u16 (tpkt_octets p) 2 = of_nat (length p + 4)"
    using read_be_u16_append [of 2 "[0x03, 0x00]" "of_nat (length p + 4)" p] by (simp add: tpkt_octets_def)
  have "unat (of_nat (length p + 4) :: u16) = length p + 4"
    using assms(1) by (simp add: unat_of_nat del: of_nat_add)
  then show ?thesis unfolding tpkt_decode_def tpkt_try_decode_def r Let_def
    by (simp add: tpkt_frame_of_def del: of_nat_add) (simp add: tpkt_octets_def write_be_u16_def)
qed

subsection \<open>The stream decoder refines the unread octets\<close>

text \<open>Compaction is lazy, but never keeps more consumed than unread octets.\<close>

definition tpkt_ok :: "tpkt_decoder \<Rightarrow> bool" where
  "tpkt_ok d \<longleftrightarrow> tp_offset d \<le> length (tp_buffer d) \<and> length (tp_buffer d) \<le> tp_maximum d \<and>
     (tp_offset d = 0 \<or> 2 * tp_offset d < length (tp_buffer d))"

lemma tpkt_buffered_unread [simp]: "tpkt_buffered_bytes d = length (tpkt_unread d)"
  by (simp add: tpkt_buffered_bytes_def tpkt_unread_def)

lemma tpkt_compact_refines:
  assumes "tp_offset d \<le> length (tp_buffer d)" "length (tp_buffer d) \<le> tp_maximum d"
  shows "tpkt_ok (tpkt_compact d)" "tpkt_unread (tpkt_compact d) = tpkt_unread d"
    "tp_maximum (tpkt_compact d) = tp_maximum d" "tp_decoded (tpkt_compact d) = tp_decoded d"
  using assms by (auto simp: tpkt_compact_def tpkt_ok_def tpkt_unread_def)

lemma tpkt_buffer_bound: "tpkt_ok d \<Longrightarrow> length (tp_buffer d) \<le> 2 * length (tpkt_unread d)"
  by (auto simp: tpkt_ok_def tpkt_unread_def)

lemma tpkt_append_refines:
  assumes "tpkt_ok d" "2 * length (tpkt_unread d) + length bs \<le> tp_maximum d"
  obtains d' where "tpkt_append bs d = (Inr (), d')" "tpkt_ok d'" "tpkt_unread d' = tpkt_unread d @ bs"
    "tp_maximum d' = tp_maximum d" "tp_decoded d' = tp_decoded d"
proof (cases "bs = []")
  case True
  then show ?thesis using that [of d] assms(1) by (simp add: tpkt_append_def)
next
  case False
  let ?c = "tpkt_compact d"
  have c: "tpkt_ok ?c" "tpkt_unread ?c = tpkt_unread d" "tp_maximum ?c = tp_maximum d" "tp_decoded ?c = tp_decoded d"
    using tpkt_compact_refines [of d] assms(1) by (auto simp: tpkt_ok_def)
  have "length (tp_buffer ?c) + length bs \<le> tp_maximum ?c"
    using tpkt_buffer_bound [OF c(1)] c(2,3) assms(2) by simp
  with False c show ?thesis
    by (intro that [of "?c\<lparr>tp_buffer := tp_buffer ?c @ bs\<rparr>"])
      (auto simp: tpkt_append_def Let_def tpkt_ok_def tpkt_unread_def)
qed

lemma tpkt_pop_frame:
  assumes "tpkt_ok d" "length p \<le> 65531" "length p + 4 \<le> tp_maximum d" "tpkt_unread d = tpkt_octets p @ u"
  obtains d' where "tpkt_try_pop d = (Inr (Some (tpkt_frame_of p)), d')" "tpkt_ok d'" "tpkt_unread d' = u"
    "tp_maximum d' = tp_maximum d" "tp_decoded d' = tp_decoded d + 1"
proof -
  let ?d = "d\<lparr>tp_offset := tp_offset d + (length p + 4), tp_decoded := tp_decoded d + 1\<rparr>"
  have h: "tpkt_octets p ! 0 = 0x03" "tpkt_octets p ! 1 = 0x00"
      "unat (read_be_u16 (tpkt_octets p @ u) 2) = length p + 4"
    using tpkt_header(1,2) [OF assms(2), of "length p + 4"] tpkt_header(3) [OF assms(2), of "length p + 4" u]
    by simp_all
  have "length (tpkt_unread d) = length p + 4 + length u" by (simp add: assms(4))
  then have off: "tp_offset ?d \<le> length (tp_buffer ?d)" "length (tp_buffer ?d) \<le> tp_maximum ?d"
    using assms(1) by (auto simp: tpkt_ok_def tpkt_unread_def)
  have "tpkt_unread ?d = drop (length p + 4) (tpkt_unread d)"
    by (simp add: tpkt_unread_def add.commute)
  then have u: "tpkt_unread ?d = u" by (simp add: assms(4))
  have pop: "tpkt_try_pop d = (Inr (Some (tpkt_frame_of p)), tpkt_compact ?d)"
    using h assms(3) tpkt_decode_octets [OF assms(2)]
    by (simp add: tpkt_try_pop_def assms(4) Let_def nth_append)
  show ?thesis
    using tpkt_compact_refines [OF off] u by (intro that [OF pop]) simp_all
qed

lemma tpkt_pop_incomplete:
  assumes "length p \<le> 65531" "length p + 4 \<le> tp_maximum d" "n < length p + 4"
    "tpkt_unread d = take n (tpkt_octets p)"
  shows "tpkt_try_pop d = (Inr None, d)"
proof (cases "n < 4")
  case True
  then show ?thesis using assms(4) by (simp add: tpkt_try_pop_def)
next
  case False
  have "unat (read_be_u16 (take n (tpkt_octets p)) 2) = length p + 4"
    using tpkt_header(3) [OF assms(1), of n "[]"] False assms(3) by simp
  with False tpkt_header(1,2) [OF assms(1), of n] assms show ?thesis
    by (simp add: tpkt_try_pop_def Let_def)
qed

lemma tpkt_pop_shrinks:
  assumes p: "tpkt_try_pop d = (Inr (Some f), d')"
  shows "length (tpkt_unread d') < length (tpkt_unread d)"
proof -
  let ?n = "unat (read_be_u16 (tpkt_unread d) 2)"
  let ?d = "d\<lparr>tp_offset := tp_offset d + ?n, tp_decoded := tp_decoded d + 1\<rparr>"
  have n: "4 \<le> ?n" "?n \<le> length (tpkt_unread d)" and d': "d' = tpkt_compact ?d"
    using p by (auto simp: tpkt_try_pop_def Let_def split: if_splits sum.splits)
  have "length (tpkt_unread d') \<le> length (tpkt_unread ?d)"
    unfolding d' by (auto simp: tpkt_compact_def tpkt_unread_def)
  also have "... < length (tpkt_unread d)" using n by (auto simp: tpkt_unread_def)
  finally show ?thesis .
qed

text \<open>The receive loop: pop until no complete frame is left.\<close>

function tpkt_drain :: "tpkt_decoder \<Rightarrow> exn option \<times> tpkt_frame list \<times> tpkt_decoder" where
  "tpkt_drain d = (case tpkt_try_pop d of
     (Inl e, d') \<Rightarrow> (Some e, [], d')
   | (Inr None, d') \<Rightarrow> (None, [], d')
   | (Inr (Some f), d') \<Rightarrow> (let (e, fs, d'') = tpkt_drain d' in (e, f # fs, d'')))"
  by pat_completeness auto
termination
  by (relation "measure (\<lambda>d. length (tpkt_unread d))") (auto dest: sym [THEN tpkt_pop_shrinks] tpkt_pop_shrinks)

declare tpkt_drain.simps [simp del]

lemma tpkt_drain_frames:
  assumes "tpkt_ok d" "tpkt_unread d @ rest = concat (map tpkt_octets ps)"
    "\<forall>p \<in> set ps. length p \<le> 65531" "65535 \<le> tp_maximum d"
  shows "\<exists>k d'. k \<le> length ps \<and> tpkt_drain d = (None, map tpkt_frame_of (take k ps), d') \<and> tpkt_ok d' \<and>
    tpkt_unread d' @ rest = concat (map tpkt_octets (drop k ps)) \<and> length (tpkt_unread d') < 65535 \<and>
    (rest = [] \<longrightarrow> k = length ps) \<and>
    tp_maximum d' = tp_maximum d \<and> tp_decoded d' = tp_decoded d + k"
  using assms
proof (induction ps arbitrary: d)
  case Nil
  then have "tpkt_drain d = (None, [], d)"
    by (subst tpkt_drain.simps) (simp add: tpkt_try_pop_def)
  with Nil show ?case by simp
next
  case (Cons p ps)
  have len: "length p \<le> 65531" "length p + 4 \<le> tp_maximum d" using Cons.prems by auto
  show ?case
  proof (cases "length p + 4 \<le> length (tpkt_unread d)")
    case True
    have "take (length p + 4) (tpkt_unread d @ rest) = tpkt_octets p"
      "drop (length p + 4) (tpkt_unread d @ rest) = concat (map tpkt_octets ps)"
      unfolding Cons.prems(2) by simp_all
    then have "tpkt_unread d = tpkt_octets p @ drop (length p + 4) (tpkt_unread d)"
        "drop (length p + 4) (tpkt_unread d) @ rest = concat (map tpkt_octets ps)"
      using True append_take_drop_id [of "length p + 4" "tpkt_unread d"] by simp_all
    then obtain u where u: "tpkt_unread d = tpkt_octets p @ u" "u @ rest = concat (map tpkt_octets ps)"
      by blast
    obtain d1 where d1: "tpkt_try_pop d = (Inr (Some (tpkt_frame_of p)), d1)" "tpkt_ok d1" "tpkt_unread d1 = u"
        "tp_maximum d1 = tp_maximum d" "tp_decoded d1 = tp_decoded d + 1"
      using tpkt_pop_frame [OF Cons.prems(1) len u(1)] .
    obtain k d' where "k \<le> length ps" "tpkt_drain d1 = (None, map tpkt_frame_of (take k ps), d')" "tpkt_ok d'"
        "tpkt_unread d' @ rest = concat (map tpkt_octets (drop k ps))" "length (tpkt_unread d') < 65535"
        "rest = [] \<longrightarrow> k = length ps" "tp_maximum d' = tp_maximum d1" "tp_decoded d' = tp_decoded d1 + k"
      using Cons.IH [OF d1(2)] u(2) d1(3,4) Cons.prems(3,4) by auto
    with d1 show ?thesis
      by (intro exI [of _ "Suc k"] exI [of _ d']) (simp add: tpkt_drain.simps [of d])
  next
    case False
    let ?n = "length (tpkt_unread d)"
    have pre: "tpkt_unread d = take ?n (tpkt_octets p)"
    proof -
      have "take ?n (tpkt_unread d @ rest) = take ?n (tpkt_octets p @ concat (map tpkt_octets ps))"
        using Cons.prems(2) by simp
      then show ?thesis using False by simp
    qed
    have "length (tpkt_unread d @ rest) \<ge> length p + 4"
      unfolding Cons.prems(2) by simp
    then have "rest \<noteq> []" using False by auto
    moreover have "tpkt_drain d = (None, [], d)"
      using tpkt_pop_incomplete [OF len _ pre] False by (simp add: tpkt_drain.simps)
    ultimately show ?thesis
      using Cons.prems False len by (intro exI [of _ 0] exI [of _ d]) auto
  qed
qed

text \<open>Feeding chunks: append each and drain.\<close>

fun tpkt_feed :: "bytes list \<Rightarrow> tpkt_decoder \<Rightarrow> exn option \<times> tpkt_frame list \<times> tpkt_decoder" where
  "tpkt_feed [] d = (None, [], d)"
| "tpkt_feed (c # cs) d = (case tpkt_append c d of
     (Inl e, d) \<Rightarrow> (Some e, [], d)
   | (Inr _, d) \<Rightarrow> (case tpkt_drain d of
       (Some e, fs, d) \<Rightarrow> (Some e, fs, d)
     | (None, fs, d) \<Rightarrow> (let (e, gs, d) = tpkt_feed cs d in (e, fs @ gs, d))))"

lemma tpkt_feed_frames:
  assumes "tpkt_ok d" "tpkt_unread d @ concat cs = concat (map tpkt_octets ps)"
    "\<forall>p \<in> set ps. length p \<le> 65531" "\<forall>c \<in> set cs. length c + 131070 \<le> tp_maximum d" "cs \<noteq> []"
    "length (tpkt_unread d) < 65535"
  shows "\<exists>d'. tpkt_feed cs d = (None, map tpkt_frame_of ps, d') \<and> tpkt_unread d' = [] \<and>
    tp_decoded d' = tp_decoded d + length ps"
  using assms
proof (induction cs arbitrary: d ps)
  case (Cons c cs)
  obtain d1 where d1: "tpkt_append c d = (Inr (), d1)" "tpkt_ok d1" "tpkt_unread d1 = tpkt_unread d @ c"
      "tp_maximum d1 = tp_maximum d" "tp_decoded d1 = tp_decoded d"
    using tpkt_append_refines [OF Cons.prems(1), of c] Cons.prems(4,6) by auto
  obtain k d2 where k: "k \<le> length ps" "tpkt_drain d1 = (None, map tpkt_frame_of (take k ps), d2)" "tpkt_ok d2"
      "tpkt_unread d2 @ concat cs = concat (map tpkt_octets (drop k ps))" "length (tpkt_unread d2) < 65535"
      "concat cs = [] \<longrightarrow> k = length ps" "tp_maximum d2 = tp_maximum d" "tp_decoded d2 = tp_decoded d + k"
    using tpkt_drain_frames [OF d1(2), of "concat cs" ps] d1 Cons.prems(2-4) by auto
  show ?case
  proof (cases "cs = []")
    case True
    then show ?thesis using k d1(1) by simp
  next
    case False
    have "\<forall>p \<in> set (drop k ps). length p \<le> 65531" using Cons.prems(3) set_drop_subset [of k ps] by blast
    then obtain d' where "tpkt_feed cs d2 = (None, map tpkt_frame_of (drop k ps), d')" "tpkt_unread d' = []"
        "tp_decoded d' = tp_decoded d2 + length (drop k ps)"
      using Cons.IH [OF k(3,4) _ _ False k(5)] Cons.prems(4) k(7) by auto
    then show ?thesis using k d1(1) by (simp flip: map_append)
  qed
qed simp

lemma tpkt_view_eq:
  "tpkt_try_decode_view bs = (case tpkt_try_decode bs of Inl _ \<Rightarrow> None | Inr f \<Rightarrow> Some f)"
  by (auto simp: tpkt_try_decode_view_def tpkt_try_decode_def tpkt_peek_frame_def Let_def)
    (metis of_nat_unat ucast_id)

subsection \<open>Properties\<close>

text \<open>C28.  Stream independence: the frames of any list of payloads, concatenated and cut into
  chunks at arbitrary places, are delivered by the incremental decoder exactly once each, in order
  and unchanged, with nothing left over and no error, for every chunk size that leaves room for two
  maximal frames in the configured buffer.\<close>

theorem tpkt_stream_chunking:
  assumes "\<forall>p \<in> set ps. length p \<le> 65531" "mapE tpkt_encode ps = Inr encs" "concat cs = concat encs"
    "cs \<noteq> []" "\<forall>c \<in> set cs. length c + 131070 \<le> m" "tpkt_decoder_init m = Inr d"
  shows "\<exists>fs d'. tpkt_feed cs d = (None, fs, d') \<and> map tp_payload fs = ps \<and>
    tpkt_buffered_bytes d' = 0 \<and> tp_decoded d' = length ps"
proof -
  have "mapE tpkt_encode ps = Inr (map tpkt_octets ps)"
    using assms(1) by (induction ps) (simp_all add: tpkt_encode_octets)
  then have encs: "encs = map tpkt_octets ps" using assms(2) by simp
  have d: "d = \<lparr>tp_buffer = [], tp_offset = 0, tp_maximum = m, tp_decoded = 0\<rparr>"
    using assms(6) by (simp add: tpkt_decoder_init_def split: if_splits)
  have "tpkt_ok d" "tpkt_unread d = []" "tp_maximum d = m" "tp_decoded d = 0"
    by (simp_all add: d tpkt_ok_def tpkt_unread_def)
  then obtain d' where "tpkt_feed cs d = (None, map tpkt_frame_of ps, d')" "tpkt_unread d' = []"
      "tp_decoded d' = length ps"
    using tpkt_feed_frames [of d cs ps] assms encs by auto
  then show ?thesis by (simp add: comp_def tpkt_frame_of_def)
qed

theorem tpkt_stream_chunking_witness:
  "\<exists>fs d'. tpkt_feed [[3], [0, 0, 6, 0xAA], [], [0xBB, 3, 0, 0], [4]]
      \<lparr>tp_buffer = [], tp_offset = 0, tp_maximum = 262140, tp_decoded = 0\<rparr> = (None, fs, d') \<and>
    map tp_payload fs = [[0xAA, 0xBB], []] \<and> tpkt_buffered_bytes d' = 0 \<and> tp_decoded d' = length [[0xAA, 0xBB :: u8], []]"
  by (rule tpkt_stream_chunking [of _ "[[3, 0, 0, 6, 0xAA, 0xBB], [3, 0, 0, 4]]" _ 262140])
    (simp_all add: tpkt_encode_def tpkt_decoder_init_def)

text \<open>The allocation-free codec agrees with the owning one: it encodes the same octets in place
  and leaves the rest of the destination alone, reports the required size when the destination is
  too small, and decodes exactly the frames the owning decoder accepts.\<close>

theorem tpkt_span_codec_agrees:
  "tpkt_try_decode_view bs = (case tpkt_try_decode bs of Inl _ \<Rightarrow> None | Inr f \<Rightarrow> Some f) \<and>
   (case tpkt_encode p of
      Inl _ \<Rightarrow> tpkt_encode_into p dest = ((Value_out_of_range, 0, 0), dest)
    | Inr enc \<Rightarrow>
        if length enc \<le> length dest
        then tpkt_encode_into p dest = ((Encode_ok, length enc, length enc), enc @ drop (length enc) dest)
        else tpkt_encode_into p dest = ((Buffer_too_small, 0, length enc), dest))"
proof (cases "length p \<le> 65531")
  case True
  then show ?thesis using tpkt_encode_octets [OF True]
    by (auto simp: tpkt_view_eq tpkt_encode_into_def Let_def) (simp add: tpkt_octets_def)
next
  case False
  then show ?thesis by (simp add: tpkt_view_eq tpkt_encode_def tpkt_encode_into_def)
qed

text \<open>The buffer limit counts octets that were already consumed: there is a decoder state,
  reached by an accepted chunk and one delivered frame, in which the unread octets and a new chunk
  together fit the configured limit and the chunk is nevertheless refused.\<close>

theorem tpkt_limit_counts_consumed:
  "\<exists>d d' f e. tpkt_append (tpkt_octets [] @ replicate 12 0) \<lparr>tp_buffer = [], tp_offset = 0, tp_maximum = 16, tp_decoded = 0\<rparr> =
     (Inr (), d) \<and> tpkt_try_pop d = (Inr (Some f), d') \<and>
     tpkt_buffered_bytes d' + 4 \<le> tp_maximum d' \<and> fst (tpkt_append [0, 0, 0, 0] d') = Inl e"
proof -
  let ?z = "[0, 0, 0, 0, 0, 0, 0, 0, 0, 0, 0, 0] :: bytes"
  let ?d = "\<lparr>tp_buffer = [3, 0, 0, 4] @ ?z, tp_offset = 0, tp_maximum = 16, tp_decoded = 0\<rparr>"
  let ?d' = "?d\<lparr>tp_offset := 4, tp_decoded := 1\<rparr>"
  have "tpkt_append (tpkt_octets [] @ replicate 12 0) \<lparr>tp_buffer = [], tp_offset = 0, tp_maximum = 16, tp_decoded = 0\<rparr> =
      (Inr (), ?d)" by code_simp
  moreover have "tpkt_try_pop ?d = (Inr (Some (tpkt_frame_of [])), ?d')"
  proof -
    have "tpkt_decode [3, 0, 0, 4] = Inr (tpkt_frame_of [])" by code_simp
    moreover have "tpkt_compact ?d' = ?d'" by (simp add: tpkt_compact_def)
    moreover have "unat (read_be_u16 ([3, 0, 0, 4] @ ?z) 2) = 4" by code_simp
    ultimately show ?thesis
      by (simp add: tpkt_try_pop_def tpkt_unread_def Let_def)
  qed
  moreover have "tpkt_buffered_bytes ?d' + 4 \<le> tp_maximum ?d'" by code_simp
  moreover have "fst (tpkt_append [0, 0, 0, 0] ?d') =
      Inl (Tpkt_format_error ''TPKT stream exceeded the bounded buffer limit.'')"
  proof -
    have "tpkt_compact ?d' = ?d'" by (simp add: tpkt_compact_def)
    then show ?thesis by (simp add: tpkt_append_def)
  qed
  ultimately show ?thesis by blast
qed

end
