(* ===== verification/Cotp_Span.thy ===== *)
theory Cotp_Span
  imports Cotp Tpkt
begin

text \<open>
  The allocation-free transport codec (\<open>src/osi/cotp_span.cpp\<close>) and the combined COTP/TPKT stream
  encoder (\<open>include/ariec61850/osi/cotp_tpkt_stream.hpp\<close>).  A view keeps the raw parameter octets;
  the results show that it stands for the same TPDU as the owning codec's, and that both sides of the
  library write the same octets.
\<close>

record cotp_view =
  cv_kind :: cotp_kind
  cv_code :: u8
  cv_length_indicator :: u8
  cv_destination_reference :: u16
  cv_source_reference :: u16
  cv_class_or_reason :: u8
  cv_end_of_transmission :: bool
  cv_tpdu_number :: u8
  cv_parameter_bytes :: bytes
  cv_user_data :: bytes

subsection \<open>Loops over raw parameters\<close>

text \<open>The loops over \<open>parameter_bytes\<close> share their header checks and differ in what they do with
  one parameter; \<open>None\<close> is an early failure.\<close>

function cotp_fold_parameters :: "(u8 \<Rightarrow> bytes \<Rightarrow> 's \<Rightarrow> 's option) \<Rightarrow> bytes \<Rightarrow> nat \<Rightarrow> 's \<Rightarrow> 's option" where
  "cotp_fold_parameters step bs off s =
     (if off < length bs then
        if length bs - off < 2 then None
        else let len = unat (bs ! (off + 1)) in
          if len > length bs - (off + 2) then None
          else case step (bs ! off) (take len (drop (off + 2) bs)) s of
              None \<Rightarrow> None
            | Some s' \<Rightarrow> cotp_fold_parameters step bs (off + 2 + len) s'
      else Some s)"
  by pat_completeness auto
termination
  by (relation "measure (\<lambda>(step, bs, off, s). length bs - off)") auto

declare cotp_fold_parameters.simps [simp del]

definition cotp_validate_parameter_bytes :: "bytes \<Rightarrow> bool" where
  "cotp_validate_parameter_bytes bs = (cotp_fold_parameters (\<lambda>_ _. Some) bs 0 () \<noteq> None)"

function cotp_try_parameter_from :: "u8 \<Rightarrow> bytes \<Rightarrow> nat \<Rightarrow> bytes option" where
  "cotp_try_parameter_from c bs off =
     (if off < length bs then
        if length bs - off < 2 then None
        else let len = unat (bs ! (off + 1)) in
          if len > length bs - (off + 2) then None
          else if bs ! off = c then Some (take len (drop (off + 2) bs))
          else cotp_try_parameter_from c bs (off + 2 + len)
      else None)"
  by pat_completeness auto
termination
  by (relation "measure (\<lambda>(c, bs, off). length bs - off)") auto

declare cotp_try_parameter_from.simps [simp del]

definition cotp_try_parameter :: "u8 \<Rightarrow> cotp_view \<Rightarrow> bytes option" where
  "cotp_try_parameter c v = cotp_try_parameter_from c (cv_parameter_bytes v) 0"

definition cotp_mirrored_size_step :: "u8 \<Rightarrow> bytes \<Rightarrow> nat \<Rightarrow> nat option" where
  "cotp_mirrored_size_step code v n =
     (if (code = 0xC1 \<or> code = 0xC2) \<and> length v \<noteq> 0 then
        (if length v > 248 \<or> length v + 2 > 248 - n then None else Some (n + (length v + 2)))
      else Some n)"

definition cotp_mirrored_parameter_size :: "cotp_view \<Rightarrow> nat option" where
  "cotp_mirrored_parameter_size v = cotp_fold_parameters cotp_mirrored_size_step (cv_parameter_bytes v) 0 3"

subsection \<open>Decoding\<close>

definition cotp_empty_view :: cotp_view where
  "cotp_empty_view = \<lparr>cv_kind = Ck_unknown, cv_code = 0, cv_length_indicator = 0,
     cv_destination_reference = 0, cv_source_reference = 0, cv_class_or_reason = 0,
     cv_end_of_transmission = False, cv_tpdu_number = 0, cv_parameter_bytes = [], cv_user_data = []\<rparr>"

definition cotp_try_decode_view :: "bytes \<Rightarrow> cotp_view option" where
  "cotp_try_decode_view bs =
     (if length bs < 2 then None
      else let li = unat (bs ! 0); header_end = li + 1 in
        if li < 2 \<or> header_end > length bs then None
        else let kind = cotp_kind_from_code (bs ! 1);
                 t = cotp_empty_view\<lparr>cv_code := bs ! 1, cv_kind := kind, cv_length_indicator := bs ! 0\<rparr> in
          if kind = Ck_unknown then None
          else if kind = Ck_data then
            (if li \<noteq> 2 \<or> header_end \<noteq> 3 then None
             else Some (t\<lparr>cv_end_of_transmission := bs ! 2 AND 0x80 \<noteq> 0,
                          cv_tpdu_number := bs ! 2 AND 0x7F, cv_user_data := drop 3 bs\<rparr>))
          else if li < 6 \<or> length bs < 7 then None
          else let ps = take (header_end - 7) (drop 7 bs); user = drop header_end bs in
            if \<not> cotp_validate_parameter_bytes ps \<or>
               ((kind = Ck_connection_request \<or> kind = Ck_connection_confirm) \<and> user \<noteq> []) then None
            else Some (t\<lparr>cv_destination_reference := read_be_u16 bs 2, cv_source_reference := read_be_u16 bs 4,
                         cv_class_or_reason := bs ! 6, cv_end_of_transmission := True,
                         cv_parameter_bytes := ps, cv_user_data := user\<rparr>))"

subsection \<open>Encoding\<close>

definition cotp_span_add_size :: "cotp_parameter \<Rightarrow> nat \<Rightarrow> nat option" where
  "cotp_span_add_size p n =
     (if length (cp_value p) > 248 then None
      else let encoded = 2 + length (cp_value p) in
        if encoded > 248 - n then None else Some (n + encoded))"

fun cotp_span_parameters_size :: "cotp_parameter list \<Rightarrow> nat \<Rightarrow> nat option" where
  "cotp_span_parameters_size [] n = Some n"
| "cotp_span_parameters_size (p # ps) n = (case cotp_span_add_size p n of
     None \<Rightarrow> None | Some k \<Rightarrow> cotp_span_parameters_size ps k)"

definition cotp_write_parameter :: "u8 \<Rightarrow> bytes \<Rightarrow> nat \<times> bytes \<Rightarrow> (nat \<times> bytes) option" where
  "cotp_write_parameter code v = (\<lambda>(off, dest).
     if length v > 248 \<or> length dest - off < length v + 2 then None
     else Some (off + 2 + length v, put_at off ([code, of_nat (length v)] @ v) dest))"

fun cotp_write_parameters :: "cotp_parameter list \<Rightarrow> nat \<times> bytes \<Rightarrow> (nat \<times> bytes) option" where
  "cotp_write_parameters [] w = Some w"
| "cotp_write_parameters (p # ps) w = (case cotp_write_parameter (cp_code p) (cp_value p) w of
     None \<Rightarrow> None | Some w' \<Rightarrow> cotp_write_parameters ps w')"

definition cotp_put_fixed :: "nat \<Rightarrow> u8 \<Rightarrow> u16 \<Rightarrow> u16 \<Rightarrow> u8 \<Rightarrow> bytes \<Rightarrow> bytes" where
  "cotp_put_fixed li code dst src cls dest =
     put_at 0 ([of_nat li, code] @ write_be_u16 dst @ write_be_u16 src @ [cls]) dest"

definition cotp_encode_reference_into ::
  "u8 \<Rightarrow> u16 \<Rightarrow> u16 \<Rightarrow> u8 \<Rightarrow> cotp_parameter list \<Rightarrow> bytes \<Rightarrow> encode_result \<times> bytes" where
  "cotp_encode_reference_into code dst src cls ps dest =
     (case cotp_span_parameters_size ps 0 of
        None \<Rightarrow> ((Value_out_of_range, 0, 0), dest)
      | Some n \<Rightarrow> let li = 6 + n; required = li + 1 in
          if length dest < required then ((Buffer_too_small, 0, required), dest)
          else let dest = cotp_put_fixed li code dst src cls dest in
            case cotp_write_parameters ps (7, dest) of
              None \<Rightarrow> ((Value_out_of_range, 0, required), dest)
            | Some (off, dest) \<Rightarrow>
                if off \<noteq> required then ((Value_out_of_range, 0, required), dest)
                else ((Encode_ok, required, required), dest))"

definition cotp_try_tpdu_size_bytes :: "u8 \<Rightarrow> nat option" where
  "cotp_try_tpdu_size_bytes c = (if c < 0x07 \<or> c > 0x0F then None else Some (2 ^ unat c))"

definition cotp_span_selected_tpdu_size :: "cotp_view \<Rightarrow> u8 \<Rightarrow> u8 option" where
  "cotp_span_selected_tpdu_size v max_code =
     (if cotp_try_tpdu_size_bytes max_code = None then None
      else case cotp_try_parameter 0xC0 v of
          Some [offered] \<Rightarrow> if cotp_try_tpdu_size_bytes offered = None then None else Some (min offered max_code)
        | _ \<Rightarrow> Some max_code)"

definition cotp_encode_data_into :: "bytes \<Rightarrow> bytes \<Rightarrow> bool \<Rightarrow> u8 \<Rightarrow> encode_result \<times> bytes" where
  "cotp_encode_data_into user dest eot number =
     (if number > 0x7F then ((Value_out_of_range, 0, 0), dest)
      else let required = length user + 3 in
        if length dest < required then ((Buffer_too_small, 0, required), dest)
        else ((Encode_ok, required, required),
              put_at 0 ([0x02, 0xF0, (if eot then 0x80 else 0x00) OR number] @ user) dest))"

definition cotp_encode_connection_request_into ::
  "u16 \<Rightarrow> cotp_parameter list \<Rightarrow> bytes \<Rightarrow> u16 \<Rightarrow> u8 \<Rightarrow> encode_result \<times> bytes" where
  "cotp_encode_connection_request_into src ps dest dst cls = cotp_encode_reference_into 0xE0 dst src cls ps dest"

definition cotp_encode_connection_confirm_into :: "u16 \<Rightarrow> u16 \<Rightarrow> bytes \<Rightarrow> u8 \<Rightarrow> encode_result \<times> bytes" where
  "cotp_encode_connection_confirm_into dst src dest max_code =
     (if cotp_try_tpdu_size_bytes max_code = None then ((Value_out_of_range, 0, 0), dest)
      else cotp_encode_reference_into 0xD0 dst src 0 [\<lparr>cp_code = 0xC0, cp_value = [max_code]\<rparr>] dest)"

definition cotp_mirror_step :: "u8 \<Rightarrow> bytes \<Rightarrow> nat \<times> bytes \<Rightarrow> (nat \<times> bytes) option" where
  "cotp_mirror_step code v w =
     (if code = 0xC1 \<and> v \<noteq> [] then cotp_write_parameter 0xC2 v w
      else if code = 0xC2 \<and> v \<noteq> [] then cotp_write_parameter 0xC1 v w
      else Some w)"

text \<open>After the sizes were computed no write can fail (see the agreement result below), so the
  contents of the destination on those paths are immaterial.\<close>

definition cotp_encode_connection_confirm_from_request_into ::
  "cotp_view \<Rightarrow> u16 \<Rightarrow> bytes \<Rightarrow> u8 \<Rightarrow> encode_result \<times> bytes" where
  "cotp_encode_connection_confirm_from_request_into v src dest max_code =
     (if cv_kind v \<noteq> Ck_connection_request \<or> cv_user_data v \<noteq> [] then ((Value_out_of_range, 0, 0), dest)
      else case (cotp_span_selected_tpdu_size v max_code, cotp_mirrored_parameter_size v) of
          (Some selected, Some n) \<Rightarrow>
            let li = 6 + n; required = li + 1 in
            if length dest < required then ((Buffer_too_small, 0, required), dest)
            else let dest = cotp_put_fixed li 0xD0 (cv_source_reference v) src 0 dest in
              (case cotp_write_parameter 0xC0 [selected] (7, dest) of
                 None \<Rightarrow> ((Value_out_of_range, 0, required), dest)
               | Some w \<Rightarrow> (case cotp_fold_parameters cotp_mirror_step (cv_parameter_bytes v) 0 w of
                     None \<Rightarrow> ((Value_out_of_range, 0, required), snd w)
                   | Some (off, dest) \<Rightarrow>
                       if off \<noteq> required then ((Value_out_of_range, 0, required), dest)
                       else ((Encode_ok, required, required), dest)))
        | _ \<Rightarrow> ((Value_out_of_range, 0, 0), dest))"

subsection \<open>One transport message as a stream of TPKT frames\<close>

text \<open>\<open>CotpTpktDataStreamSpanCodec\<close>.  \<open>size_max\<close> is the platform's
  \<open>numeric_limits<size_t>::max()\<close>.\<close>

record stream_plan =
  sp_maximum_user_data :: nat
  sp_segment_count :: nat
  sp_required_bytes :: nat

definition cotp_tpkt_try_plan :: "nat \<Rightarrow> nat \<Rightarrow> nat \<Rightarrow> stream_plan option" where
  "cotp_tpkt_try_plan size_max user_bytes tpdu_size =
     (if tpdu_size \<le> 3 \<or> tpdu_size > 65531 then None
      else let maximum = tpdu_size - 3;
               count = (if user_bytes = 0 then 1 else 1 + (user_bytes - 1) div maximum) in
        if count > (size_max - user_bytes) div (4 + 3) then None
        else Some \<lparr>sp_maximum_user_data = maximum, sp_segment_count = count,
                   sp_required_bytes = user_bytes + count * (4 + 3)\<rparr>)"

text \<open>The loop over segments; the first argument counts the segments that are left.  \<open>Inl\<close> is an
  early return.\<close>

primrec cotp_tpkt_segments ::
  "nat \<Rightarrow> bytes \<Rightarrow> stream_plan \<Rightarrow> nat \<Rightarrow> nat \<Rightarrow> bytes \<Rightarrow> (encode_result + nat \<times> nat) \<times> bytes" where
  "cotp_tpkt_segments 0 user plan i out dest = (Inr (i, out), dest)"
| "cotp_tpkt_segments (Suc left) user plan i out dest =
     (let chunk = min (length user - i) (sp_maximum_user_data plan);
          frame_bytes = 4 + 3 + chunk in
      if frame_bytes > 65535 then (Inl (Value_out_of_range, 0, sp_required_bytes plan), dest)
      else let frame = take frame_bytes (drop out dest);
               (cotp, body) = cotp_encode_data_into (take chunk (drop i user)) (drop 4 frame) (left = 0) 0 in
        if fst cotp \<noteq> Encode_ok \<or> fst (snd cotp) \<noteq> chunk + 3
        then (Inl (Value_out_of_range, 0, sp_required_bytes plan), put_at (out + 4) body dest)
        else cotp_tpkt_segments left user plan (i + chunk) (out + frame_bytes)
               (put_at out ([0x03, 0x00] @ write_be_u16 (of_nat frame_bytes) @ body) dest))"

definition cotp_tpkt_encode_into :: "nat \<Rightarrow> bytes \<Rightarrow> nat \<Rightarrow> bytes \<Rightarrow> encode_result \<times> bytes" where
  "cotp_tpkt_encode_into size_max user tpdu_size dest =
     (case cotp_tpkt_try_plan size_max (length user) tpdu_size of
        None \<Rightarrow> ((Value_out_of_range, 0, 0), dest)
      | Some plan \<Rightarrow>
          if length dest < sp_required_bytes plan then ((Buffer_too_small, 0, sp_required_bytes plan), dest)
          else (case cotp_tpkt_segments (sp_segment_count plan) user plan 0 0 dest of
              (Inl res, dest) \<Rightarrow> (res, dest)
            | (Inr (i, out), dest) \<Rightarrow>
                if i \<noteq> length user \<or> out \<noteq> sp_required_bytes plan
                then ((Value_out_of_range, 0, sp_required_bytes plan), dest)
                else ((Encode_ok, sp_required_bytes plan, sp_required_bytes plan), dest)))"

subsection \<open>Raw parameters stand for the parsed list\<close>

lemma cotp_parse_shift:
  "cotp_parse_parameters (pre @ sub @ post) (length pre + length sub) (length pre + i) =
     cotp_parse_parameters sub (length sub) i"
proof (induction sub "length sub" i rule: cotp_parse_parameters.induct)
  case (1 sub i)
  have nth: "(pre @ sub @ post) ! (length pre + j) = sub ! j" if "j < length sub" for j
    using that by (simp add: nth_append)
  show ?case
  proof (cases "i < length sub \<and> \<not> length sub - i < 2 \<and> \<not> unat (sub ! (i + 1)) > length sub - (i + 2)")
    case True
    then have "Suc i < length sub" by linarith
    with True have n: "(pre @ sub @ post) ! (length pre + i) = sub ! i"
        "(pre @ sub @ post) ! Suc (length pre + i) = sub ! Suc i"
      using nth [of i] nth [of "Suc i"] by simp_all
    have t: "take (unat (sub ! Suc i)) (drop (Suc (Suc (length pre + i))) (pre @ sub @ post)) =
        take (unat (sub ! Suc i)) (drop (Suc (Suc i)) sub)"
      using True by simp
    from True n t "1.hyps" [OF _ _ refl refl refl] show ?thesis
      by (subst (1 2) cotp_parse_parameters.simps) (simp add: Let_def add.assoc)
  next
    case False
    then consider "\<not> i < length sub" | "i < length sub" "length sub - i < 2"
      | "Suc i < length sub" "unat (sub ! Suc i) > length sub - (i + 2)" by force
    then show ?thesis
    proof cases
      case 3
      then show ?thesis using nth [of "Suc i"]
        by (subst (1 2) cotp_parse_parameters.simps) (simp add: Let_def)
    qed (subst (1 2) cotp_parse_parameters.simps, simp)+
  qed
qed

fun cotp_steps :: "(u8 \<Rightarrow> bytes \<Rightarrow> 's \<Rightarrow> 's option) \<Rightarrow> cotp_parameter list \<Rightarrow> 's \<Rightarrow> 's option" where
  "cotp_steps step [] s = Some s"
| "cotp_steps step (p # ps) s = (case step (cp_code p) (cp_value p) s of
     None \<Rightarrow> None | Some s' \<Rightarrow> cotp_steps step ps s')"

lemma cotp_fold_parse:
  "cotp_fold_parameters step bs i s = (case cotp_parse_parameters bs (length bs) i of
     Inl _ \<Rightarrow> None | Inr ps \<Rightarrow> cotp_steps step ps s)"
proof (induction step bs i s rule: cotp_fold_parameters.induct)
  case (1 step bs i s)
  show ?case
  proof (cases "i < length bs \<and> \<not> length bs - i < 2 \<and> \<not> unat (bs ! (i + 1)) > length bs - (i + 2)")
    case True
    with 1 show ?thesis
      by (subst cotp_fold_parameters.simps, subst cotp_parse_parameters.simps)
        (auto simp: Let_def bindE_def split: option.split sum.split)
  next
    case False
    then show ?thesis
      by (subst cotp_fold_parameters.simps, subst cotp_parse_parameters.simps) (auto simp: Let_def)
  qed
qed

lemma cotp_try_parameter_parse:
  "cotp_parse_parameters bs (length bs) i = Inr ps \<Longrightarrow>
     cotp_try_parameter_from c bs i = cotp_find_parameter c ps"
proof (induction c bs i arbitrary: ps rule: cotp_try_parameter_from.induct)
  case (1 c bs i)
  from "1.prems" show ?case
    by (subst (asm) cotp_parse_parameters.simps, subst cotp_try_parameter_from.simps)
      (auto simp: Let_def bindE_Inr_iff "1.IH" [OF _ _ refl, simplified] split: if_splits)
qed

lemma cotp_steps_total: "cotp_steps (\<lambda>_ _. Some) ps s = Some s"
  by (induction ps) auto

lemma cotp_validate_parse:
  "cotp_validate_parameter_bytes bs \<longleftrightarrow> (\<exists>ps. cotp_parse_parameters bs (length bs) 0 = Inr ps)"
  by (auto simp: cotp_validate_parameter_bytes_def cotp_fold_parse cotp_steps_total split: sum.splits)

definition cotp_view_parameters :: "cotp_view \<Rightarrow> cotp_parameter list" where
  "cotp_view_parameters v = projr (cotp_parse_parameters (cv_parameter_bytes v) (length (cv_parameter_bytes v)) 0)"

definition cotp_view_tpdu :: "cotp_view \<Rightarrow> cotp_tpdu" where
  "cotp_view_tpdu v = \<lparr>ct_kind = cv_kind v, ct_code = cv_code v, ct_length_indicator = cv_length_indicator v,
     ct_destination_reference = cv_destination_reference v, ct_source_reference = cv_source_reference v,
     ct_class_or_reason = cv_class_or_reason v, ct_end_of_transmission = cv_end_of_transmission v,
     ct_tpdu_number = cv_tpdu_number v, ct_parameters = cotp_view_parameters v, ct_user_data = cv_user_data v\<rparr>"

lemma cotp_parse_header:
  assumes "7 \<le> e" "e \<le> length bs"
  shows "cotp_parse_parameters bs e 7 =
    cotp_parse_parameters (take (e - 7) (drop 7 bs)) (length (take (e - 7) (drop 7 bs))) 0"
proof -
  have "bs = take 7 bs @ take (e - 7) (drop 7 bs) @ drop e bs"
    using assms by (metis append_take_drop_id drop_drop le_add_diff_inverse2)
  with cotp_parse_shift [of "take 7 bs" "take (e - 7) (drop 7 bs)" "drop e bs" 0] assms show ?thesis by simp
qed

lemma cotp_decode_view_agrees:
  "map_option cotp_view_tpdu (cotp_try_decode_view bs) =
     (case cotp_decode bs of Inl _ \<Rightarrow> None | Inr t \<Rightarrow> Some t)"
proof -
  let ?e = "unat (bs ! 0) + 1"
  let ?ps = "take (?e - 7) (drop 7 bs)"
  have parse: "cotp_parse_parameters bs ?e 7 = cotp_parse_parameters ?ps (length ?ps) 0"
    if "\<not> unat (bs ! 0) < 6" "\<not> length bs < ?e"
    using that by (intro cotp_parse_header) auto
  show ?thesis
    using parse cotp_validate_parse [of ?ps]
    by (auto simp: cotp_try_decode_view_def cotp_decode_def Let_def cotp_view_tpdu_def cotp_view_parameters_def
        cotp_empty_view_def cotp_empty_tpdu_def bindE_def cotp_parse_parameters.simps [of "[]"]
        split: sum.splits if_splits)
qed

subsection \<open>The span encoders write the owning encoders' octets\<close>

text \<open>What an \<open>encode_into\<close> promises with respect to an owning encoder: its octets at the front of
  the destination and nothing else touched, or the required size, or a refusal.\<close>

definition into_agrees :: "bytes result \<Rightarrow> bytes \<Rightarrow> encode_result \<times> bytes \<Rightarrow> bool" where
  "into_agrees owning dest res = (case owning of
     Inl _ \<Rightarrow> res = ((Value_out_of_range, 0, 0), dest)
   | Inr enc \<Rightarrow> res = (if length enc \<le> length dest then ((Encode_ok, length enc, length enc), put_at 0 enc dest)
                       else ((Buffer_too_small, 0, length enc), dest)))"

lemma cotp_span_add_size_agrees:
  "cotp_span_add_size p n = (case cotp_add_parameter_size p n of Inl _ \<Rightarrow> None | Inr m \<Rightarrow> Some m)"
  by (simp add: cotp_span_add_size_def cotp_add_parameter_size_def Let_def)

lemma cotp_span_parameters_size_agrees:
  "cotp_span_parameters_size ps n = (case foldE cotp_add_parameter_size ps n of Inl _ \<Rightarrow> None | Inr m \<Rightarrow> Some m)"
  by (induction ps arbitrary: n) (simp_all add: cotp_span_add_size_agrees bindE_def split: sum.split)

lemma cotp_write_parameters_fit:
  "foldE cotp_add_parameter_size ps n = Inr m \<Longrightarrow> n \<le> 248 \<Longrightarrow> off + (m - n) \<le> length dest \<Longrightarrow>
     cotp_write_parameters ps (off, dest) = Some (off + (m - n), put_at off (cotp_append_parameters ps) dest)"
proof (induction ps arbitrary: n off dest)
  case (Cons p ps)
  then obtain k where k: "cotp_add_parameter_size p n = Inr k" "foldE cotp_add_parameter_size ps k = Inr m"
    by (auto simp: bindE_Inr_iff)
  then have p: "k = n + (2 + length (cp_value p))" "k \<le> 248" "length (cp_value p) \<le> 248"
    using Cons.prems(2) by (auto simp: cotp_add_parameter_size_def Let_def split: if_splits)
  have m: "m = k + length (cotp_append_parameters ps)" using cotp_parameters_size [OF k(2) p(2)] by simp
  let ?dest = "put_at off (cotp_encode_parameter p) dest"
  have fit: "off + length (cotp_encode_parameter p) + length (cotp_append_parameters ps) \<le> length dest"
    using Cons.prems(3) m p(1) by simp
  have "cotp_write_parameter (cp_code p) (cp_value p) (off, dest) = Some (off + (k - n), ?dest)"
    using fit p by (simp add: cotp_write_parameter_def cotp_encode_parameter_def)
  moreover have "cotp_write_parameters ps (off + (k - n), ?dest) =
      Some (off + (k - n) + (m - k), put_at (off + (k - n)) (cotp_append_parameters ps) ?dest)"
    using fit m p(1) by (intro Cons.IH [OF k(2) p(2)]) simp
  moreover have "put_at (off + (k - n)) (cotp_append_parameters ps) ?dest =
      put_at off (cotp_append_parameters (p # ps)) dest"
    using put_at_append [OF fit, of "off + (k - n)"] p(1) by (simp add: cotp_append_parameters_def)
  ultimately show ?case using m p(1) by simp
qed (simp add: cotp_append_parameters_def)

text \<open>The common tail: fixed header, then the parameters after it.\<close>

lemma cotp_put_header_parameters:
  assumes "foldE cotp_add_parameter_size ps 0 = Inr n" "n + 7 \<le> length dest"
  shows "cotp_write_parameters ps (7, cotp_put_fixed (6 + n) code dst src cls dest) =
    Some (n + 7, put_at 0 ([of_nat (6 + n), code] @ write_be_u16 dst @ write_be_u16 src @ [cls] @
      cotp_append_parameters ps) dest)"
proof -
  let ?h = "[of_nat (6 + n), code] @ write_be_u16 dst @ write_be_u16 src @ [cls]"
  have n: "n = length (cotp_append_parameters ps)" using cotp_parameters_size [OF assms(1)] by simp
  have "put_at 7 (cotp_append_parameters ps) (put_at 0 ?h dest) =
      put_at 0 (?h @ cotp_append_parameters ps) dest"
    using assms(2) n by (intro put_at_append) simp_all
  then show ?thesis
    using cotp_write_parameters_fit [OF assms(1), of 7 "put_at 0 ?h dest"] assms(2)
    by (simp add: cotp_put_fixed_def del: put_at_zero)
qed

lemma cotp_reference_tpdu_cases:
  "cotp_encode_reference_tpdu code dst src cls ps = (case foldE cotp_add_parameter_size ps 0 of
     Inl e \<Rightarrow> Inl e
   | Inr n \<Rightarrow> Inr ([of_nat (6 + n), code] @ write_be_u16 dst @ write_be_u16 src @ [cls] @ cotp_append_parameters ps))"
  using cotp_parameters_size [of ps 0]
  by (auto simp: cotp_encode_reference_tpdu_def cotp_encoded_parameters_size_def Let_def split: sum.split)

lemma cotp_reference_into_agrees:
  "into_agrees (cotp_encode_reference_tpdu code dst src cls ps) dest
     (cotp_encode_reference_into code dst src cls ps dest)"
proof (cases "foldE cotp_add_parameter_size ps 0")
  case (Inl e)
  then show ?thesis
    by (simp add: into_agrees_def cotp_reference_tpdu_cases cotp_encode_reference_into_def
        cotp_span_parameters_size_agrees)
next
  case (Inr n)
  then have "n = length (cotp_append_parameters ps)" using cotp_parameters_size [OF Inr] by simp
  then show ?thesis
    using Inr cotp_put_header_parameters [OF Inr, of dest code dst src cls]
    by (simp add: into_agrees_def cotp_reference_tpdu_cases cotp_encode_reference_into_def
        cotp_span_parameters_size_agrees Let_def del: put_at_zero)
qed

text \<open>Mirroring while walking the raw parameters is mirroring the parsed list.\<close>

lemma cotp_mirrored_size_steps:
  "cotp_steps cotp_mirrored_size_step ps n = cotp_span_parameters_size (concat (map cotp_mirror ps)) n"
  by (induction ps arbitrary: n)
    (auto simp: cotp_mirrored_size_step_def cotp_span_add_size_def Let_def split: option.split)

lemma cotp_mirror_steps:
  "cotp_steps cotp_mirror_step ps w = cotp_write_parameters (concat (map cotp_mirror ps)) w"
  by (induction ps arbitrary: w) (auto simp: cotp_mirror_step_def split: option.split)

lemma cotp_try_size_agrees:
  "cotp_try_tpdu_size_bytes c = (case cotp_tpdu_size_bytes c of Inl _ \<Rightarrow> None | Inr n \<Rightarrow> Some n)"
  by (simp add: cotp_try_tpdu_size_bytes_def cotp_tpdu_size_bytes_def)

lemma cotp_span_selected_agrees:
  assumes "cotp_parse_parameters (cv_parameter_bytes v) (length (cv_parameter_bytes v)) 0 = Inr ps"
  shows "cotp_span_selected_tpdu_size v limit =
    (case cotp_selected_tpdu_size (cotp_view_tpdu v) limit of Inl _ \<Rightarrow> None | Inr c \<Rightarrow> Some c)"
  using cotp_try_parameter_parse [OF assms, of "0xC0"] assms
  by (auto simp: cotp_span_selected_tpdu_size_def cotp_selected_tpdu_size_def cotp_try_parameter_def
      cotp_view_tpdu_def cotp_view_parameters_def cotp_try_size_agrees bindE_def
      split: sum.splits option.splits list.splits)

lemma cotp_confirm_into_agrees:
  assumes "cotp_parse_parameters (cv_parameter_bytes v) (length (cv_parameter_bytes v)) 0 = Inr ps"
    "cv_user_data v = []"
  shows "into_agrees (cotp_encode_connection_confirm_for (cotp_view_tpdu v) src limit) dest
    (cotp_encode_connection_confirm_from_request_into v src dest limit)"
proof (cases "cv_kind v = Ck_connection_request \<and> (\<exists>sel. cotp_selected_tpdu_size (cotp_view_tpdu v) limit = Inr sel)")
  case False
  then show ?thesis
    using cotp_span_selected_agrees [OF assms(1), of limit]
    by (auto simp: into_agrees_def cotp_encode_connection_confirm_from_request_into_def cotp_view_tpdu_def
        cotp_encode_connection_confirm_for_def cotp_connection_confirm_parameters_def bindE_def split: sum.splits)
next
  case True
  then obtain sel where kind: "cv_kind v = Ck_connection_request"
    and sel: "cotp_selected_tpdu_size (cotp_view_tpdu v) limit = Inr sel" by blast
  let ?mirror = "concat (map cotp_mirror ps)"
  let ?ps = "\<lparr>cp_code = 0xC0, cp_value = [sel]\<rparr> # ?mirror"
  have owning: "cotp_encode_connection_confirm_for (cotp_view_tpdu v) src limit =
      cotp_encode_reference_tpdu 0xD0 (cv_source_reference v) src 0 ?ps"
    using kind sel assms(1)
    by (simp add: cotp_encode_connection_confirm_for_def cotp_connection_confirm_parameters_def
        cotp_view_tpdu_def cotp_view_parameters_def)
  have "foldE cotp_add_parameter_size ?ps 0 = foldE cotp_add_parameter_size ?mirror 3"
    by (simp add: cotp_add_parameter_size_def Let_def)
  then have size: "cotp_mirrored_parameter_size v = cotp_span_parameters_size ?ps 0"
    by (simp add: cotp_mirrored_parameter_size_def cotp_fold_parse assms(1) cotp_mirrored_size_steps
        cotp_span_parameters_size_agrees)
  have writes: "(case cotp_write_parameter 0xC0 [sel] w of None \<Rightarrow> None
      | Some w \<Rightarrow> cotp_fold_parameters cotp_mirror_step (cv_parameter_bytes v) 0 w) = cotp_write_parameters ?ps w" for w
    by (simp add: cotp_fold_parse assms(1) cotp_mirror_steps split: option.split)
  show ?thesis
  proof (cases "foldE cotp_add_parameter_size ?ps 0")
    case (Inl e)
    then show ?thesis
      using size cotp_span_selected_agrees [OF assms(1), of limit] sel
      by (simp add: into_agrees_def owning cotp_reference_tpdu_cases cotp_span_parameters_size_agrees
          cotp_encode_connection_confirm_from_request_into_def)
  next
    case (Inr n)
    then have n: "n = length (cotp_append_parameters ?ps)" using cotp_parameters_size [OF Inr] by simp
    define enc where "enc = [of_nat (6 + n), 0xD0] @ write_be_u16 (cv_source_reference v) @ write_be_u16 src @
      [0] @ cotp_append_parameters ?ps"
    have enc: "cotp_encode_connection_confirm_for (cotp_view_tpdu v) src limit = Inr enc" "length enc = n + 7"
      using Inr n by (simp_all only: owning cotp_reference_tpdu_cases enc_def) simp_all
    have sizes: "cotp_mirrored_parameter_size v = Some n" "cotp_span_selected_tpdu_size v limit = Some sel"
      using Inr size sel cotp_span_selected_agrees [OF assms(1), of limit]
      by (simp_all add: cotp_span_parameters_size_agrees)
    show ?thesis
    proof (cases "length dest < n + 7")
      case True
      then show ?thesis
        using enc kind assms(2) sizes
        by (simp add: into_agrees_def Let_def cotp_encode_connection_confirm_from_request_into_def)
    next
      case False
      define fixed where "fixed = cotp_put_fixed (6 + n) 0xD0 (cv_source_reference v) src 0 dest"
      have "cotp_write_parameters ?ps (7, fixed) = Some (n + 7, put_at 0 enc dest)"
        using cotp_put_header_parameters [OF Inr, of dest "0xD0" "cv_source_reference v" src 0] False
        by (simp add: fixed_def enc_def del: put_at_zero cotp_write_parameters.simps)
      with writes [of "(7, fixed)"] obtain w where "cotp_write_parameter 0xC0 [sel] (7, fixed) = Some w"
          "cotp_fold_parameters cotp_mirror_step (cv_parameter_bytes v) 0 w = Some (n + 7, put_at 0 enc dest)"
        by (auto simp del: put_at_zero split: option.splits)
      with False enc kind assms(2) sizes show ?thesis
        by (simp add: into_agrees_def Let_def fixed_def [symmetric]
            cotp_encode_connection_confirm_from_request_into_def del: put_at_zero)
    qed
  qed
qed

lemma cotp_data_into_agrees:
  "into_agrees (cotp_encode_data user eot number) dest (cotp_encode_data_into user dest eot number)"
  by (simp add: into_agrees_def cotp_encode_data_def cotp_encode_data_into_def Let_def)

lemma cotp_view_accepts:
  assumes "cotp_try_decode_view bs = Some v"
  shows "cotp_decode bs = Inr (cotp_view_tpdu v)"
    and "\<exists>ps. cotp_parse_parameters (cv_parameter_bytes v) (length (cv_parameter_bytes v)) 0 = Inr ps"
    and "cv_kind v = Ck_connection_request \<Longrightarrow> cv_user_data v = []"
proof -
  show "cotp_decode bs = Inr (cotp_view_tpdu v)"
    using cotp_decode_view_agrees [of bs] assms by (auto split: sum.splits)
  show "\<exists>ps. cotp_parse_parameters (cv_parameter_bytes v) (length (cv_parameter_bytes v)) 0 = Inr ps"
    using assms
    by (auto simp: cotp_try_decode_view_def Let_def cotp_validate_parse cotp_empty_view_def
        cotp_parse_parameters.simps [of "[]"] split: if_splits)
  show "cv_kind v = Ck_connection_request \<Longrightarrow> cv_user_data v = []"
    using assms by (auto simp: cotp_try_decode_view_def Let_def cotp_empty_view_def split: if_splits)
qed

subsection \<open>The frames of one transport message\<close>

text \<open>The TPDUs the stream encoder is meant to send: full ones with EOT clear, then the rest.\<close>

fun stream_tpdus :: "nat \<Rightarrow> nat \<Rightarrow> bytes \<Rightarrow> bytes list" where
  "stream_tpdus cap 0 user = []"
| "stream_tpdus cap (Suc left) user =
     ([0x02, 0xF0, if left = 0 then 0x80 else 0x00] @ take cap user) # stream_tpdus cap left (drop cap user)"

lemma length_stream_octets:
  "length user \<le> k * cap \<Longrightarrow> length (concat (map tpkt_octets (stream_tpdus cap k user))) = length user + k * 7"
proof (induction k arbitrary: user)
  case (Suc k)
  then have "length (drop cap user) \<le> k * cap" by simp
  from Suc.IH [OF this] show ?case by (simp add: min_def)
qed simp

lemma stream_segments_write:
  assumes "sp_maximum_user_data plan \<le> 65528" "length user - i \<le> k * sp_maximum_user_data plan" "i \<le> length user"
    "out + (length user - i) + k * 7 \<le> length dest"
  shows "cotp_tpkt_segments k user plan i out dest =
    (Inr (length user, out + (length user - i) + k * 7),
     put_at out (concat (map tpkt_octets (stream_tpdus (sp_maximum_user_data plan) k (drop i user)))) dest)"
  using assms
proof (induction k arbitrary: i out dest)
  case (Suc k)
  let ?cap = "sp_maximum_user_data plan"
  define chunk where "chunk = min (length user - i) ?cap"
  define tpdu where "tpdu = [0x02, 0xF0, if k = 0 then 0x80 else 0x00] @ take ?cap (drop i user)"
  have chunk: "take chunk (drop i user) = take ?cap (drop i user)" by (auto simp: chunk_def min_def)
  have len: "length tpdu = chunk + 3" "chunk \<le> 65528" "i + chunk \<le> length user"
    "drop (i + chunk) user = drop ?cap (drop i user)"
    using Suc.prems(1,3) by (auto simp: tpdu_def chunk_def min_def add.commute)
  have fit: "out + (chunk + 7) + (length user - (i + chunk) + k * 7) \<le> length dest"
    using Suc.prems(4) len(3) by simp
  have rest: "length user - (i + chunk) \<le> k * ?cap" using Suc.prems(2) by (auto simp: chunk_def min_def)
  have kept: "length (put_at out (tpkt_octets tpdu) dest) = length dest" using fit len(1) by simp
  have data: "cotp_encode_data_into (take chunk (drop i user)) (drop 4 (take (4 + 3 + chunk) (drop out dest))) (k = 0) 0 =
      ((Encode_ok, chunk + 3, chunk + 3), tpdu)"
    using fit len by (simp add: cotp_encode_data_into_def chunk tpdu_def Let_def drop_take)
  have octets: "[0x03, 0x00] @ write_be_u16 (of_nat (4 + 3 + chunk)) @ tpdu = tpkt_octets tpdu"
    using len(1) by (simp add: tpkt_octets_def add.commute)
  have "cotp_tpkt_segments (Suc k) user plan i out dest =
      cotp_tpkt_segments k user plan (i + chunk) (out + (4 + 3 + chunk)) (put_at out (tpkt_octets tpdu) dest)"
    unfolding octets [symmetric] using data len(2) by (simp add: Let_def chunk_def [symmetric])
  also have "... = (Inr (length user, out + (4 + 3 + chunk) + (length user - (i + chunk)) + k * 7),
      put_at (out + (4 + 3 + chunk)) (concat (map tpkt_octets (stream_tpdus ?cap k (drop (i + chunk) user))))
        (put_at out (tpkt_octets tpdu) dest))"
    using fit by (intro Suc.IH [OF Suc.prems(1) rest len(3)]) (simp add: kept)
  also have "put_at (out + (4 + 3 + chunk)) (concat (map tpkt_octets (stream_tpdus ?cap k (drop (i + chunk) user))))
        (put_at out (tpkt_octets tpdu) dest) =
      put_at out (tpkt_octets tpdu @ concat (map tpkt_octets (stream_tpdus ?cap k (drop (i + chunk) user)))) dest"
    using fit len(1) rest by (intro put_at_append) (simp_all add: length_stream_octets)
  finally show ?case using len(3,4) by (simp add: tpdu_def)
qed simp


lemma stream_tpdus_reassemble:
  assumes "0 < cap" "length user \<le> Suc k * cap" "k * cap < length user \<or> k = 0"
    "\<not> cr_complete r" "cr_fragment_count r + Suc k \<le> cr_maximum_fragments r"
    "length (cr_buffer r) + length user \<le> cr_maximum_bytes r"
  shows "\<exists>r'. cotp_feed (stream_tpdus cap (Suc k) user) r = (Inr (), r') \<and> cr_complete r' \<and>
    cr_buffer r' = cr_buffer r @ user"
  using assms
proof (induction k arbitrary: user r)
  case 0
  have "cotp_encode_data user True 0 = Inr ([0x02, 0xF0, 0x80] @ user)" by (simp add: cotp_encode_data_def)
  with 0 show ?case by (simp add: reassemble_data [of 0 r user True])
next
  case (Suc k)
  let ?r = "r\<lparr>cr_fragment_count := cr_fragment_count r + 1, cr_buffer := cr_buffer r @ take cap user, cr_complete := False\<rparr>"
  have "take cap user \<noteq> []" using Suc.prems(1,3) by auto
  moreover have "cotp_encode_data (take cap user) False 0 = Inr ([0x02, 0xF0, 0x00] @ take cap user)"
    by (simp add: cotp_encode_data_def)
  ultimately have "cotp_reassembler_append_encoded ([0x02, 0xF0, 0x00] @ take cap user) r = (Inr (), ?r)"
    using Suc.prems by (intro reassemble_data [of 0]) auto
  moreover have "\<exists>r'. cotp_feed (stream_tpdus cap (Suc k) (drop cap user)) ?r = (Inr (), r') \<and> cr_complete r' \<and>
      cr_buffer r' = cr_buffer ?r @ drop cap user"
    using Suc.prems by (intro Suc.IH) auto
  ultimately show ?case by (auto simp del: stream_tpdus.simps(2) simp add: stream_tpdus.simps(2) [of cap "Suc k"])
qed

lemma stream_tpdus_length: "\<forall>t \<in> set (stream_tpdus cap k user). length t \<le> cap + 3"
  by (induction k arbitrary: user) auto

lemma length_stream_tpdus: "length (stream_tpdus cap k user) = k"
  by (induction k arbitrary: user) auto

lemma stream_plan_fits:
  assumes "cotp_tpkt_try_plan size_max n tpdu_size = Some plan"
  shows "sp_maximum_user_data plan = tpdu_size - 3" "3 < tpdu_size" "tpdu_size \<le> 65531"
    "\<exists>k. sp_segment_count plan = Suc k \<and> n \<le> Suc k * (tpdu_size - 3) \<and> (k * (tpdu_size - 3) < n \<or> k = 0)"
    "sp_required_bytes plan = n + sp_segment_count plan * 7"
proof -
  let ?m = "tpdu_size - 3" and ?k = "(n - 1) div (tpdu_size - 3)"
  let ?c = "if n = 0 then 1 else 1 + ?k"
  have plan: "3 < tpdu_size" "tpdu_size \<le> 65531" "?c \<le> (size_max - n) div 7"
      "plan = \<lparr>sp_maximum_user_data = ?m, sp_segment_count = ?c, sp_required_bytes = n + ?c * 7\<rparr>"
    using assms by (auto simp: cotp_tpkt_try_plan_def Let_def split: if_splits)
  show "sp_maximum_user_data plan = tpdu_size - 3" "3 < tpdu_size" "tpdu_size \<le> 65531"
    "sp_required_bytes plan = n + sp_segment_count plan * 7" using plan by simp_all
  have "?k * ?m \<le> n - 1" "n - 1 < Suc ?k * ?m"
    using plan(1) dividend_less_div_times [of ?m "n - 1"] by (simp_all add: add.commute)
  then have "?k * ?m < n" "n \<le> Suc ?k * ?m" if "0 < n" using that by linarith+
  then show "\<exists>k. sp_segment_count plan = Suc k \<and> n \<le> Suc k * (tpdu_size - 3) \<and> (k * (tpdu_size - 3) < n \<or> k = 0)"
    unfolding plan(4) using plan(1) by (cases "n = 0") auto
qed

lemma stream_encode_octets:
  assumes "cotp_tpkt_try_plan size_max (length user) tpdu_size = Some plan" "sp_required_bytes plan \<le> length dest"
  shows "cotp_tpkt_encode_into size_max user tpdu_size dest =
    ((Encode_ok, sp_required_bytes plan, sp_required_bytes plan),
     concat (map tpkt_octets (stream_tpdus (tpdu_size - 3) (sp_segment_count plan) user)) @
       drop (sp_required_bytes plan) dest)"
proof -
  note fits = stream_plan_fits [OF assms(1)]
  have cap: "length user \<le> sp_segment_count plan * (tpdu_size - 3)" using fits(4) by auto
  have "cotp_tpkt_segments (sp_segment_count plan) user plan 0 0 dest =
      (Inr (length user, sp_required_bytes plan),
       put_at 0 (concat (map tpkt_octets (stream_tpdus (tpdu_size - 3) (sp_segment_count plan) user))) dest)"
    using stream_segments_write [of plan user 0 "sp_segment_count plan" 0 dest] cap assms(2) fits(1-3,5) by simp
  with assms show ?thesis
    using length_stream_octets [OF cap] fits(5) by (simp add: cotp_tpkt_encode_into_def)
qed

subsection \<open>Properties\<close>

text \<open>C27.  A transport message survives the wire: the frames the combined encoder writes for a message
  occupy exactly the planned octets, none of their TPDUs exceeds the negotiated size, and the stream
  decoder, given those octets in chunks cut anywhere, followed by the reassembler, gives the message back, provided that each chunk fits the capacity of the stream
  decoder and the message and its segments the limits of the reassembler.\<close>

theorem cotp_tpkt_stream_round_trip:
  assumes plan: "cotp_tpkt_try_plan size_max (length user) tpdu_size = Some plan"
    and room: "sp_required_bytes plan \<le> length dest"
    and enc: "cotp_tpkt_encode_into size_max user tpdu_size dest = (res, dest')"
    and cut: "concat cs = take (sp_required_bytes plan) dest'" "\<forall>c \<in> set cs. length c + 131070 \<le> m"
    and init: "tpkt_decoder_init m = Inr d" "cotp_reassembler_init mb mf me = Inr r"
    and limits: "length user \<le> mb" "sp_segment_count plan \<le> mf"
  shows "res = (Encode_ok, sp_required_bytes plan, sp_required_bytes plan) \<and>
    drop (sp_required_bytes plan) dest' = drop (sp_required_bytes plan) dest \<and>
    (\<exists>fs d' r'. tpkt_feed cs d = (None, fs, d') \<and> tpkt_buffered_bytes d' = 0 \<and>
      length fs = sp_segment_count plan \<and> (\<forall>f \<in> set fs. length (tp_payload f) \<le> tpdu_size) \<and>
      cotp_feed (map tp_payload fs) r = (Inr (), r') \<and> cotp_reassembler_result r' = Inr user)"
proof -
  let ?tpdus = "stream_tpdus (tpdu_size - 3) (sp_segment_count plan) user"
  note fits = stream_plan_fits [OF plan]
  have len: "length (concat (map tpkt_octets ?tpdus)) = sp_required_bytes plan"
    using length_stream_octets [of user "sp_segment_count plan" "tpdu_size - 3"] fits(4,5) by auto
  have out: "res = (Encode_ok, sp_required_bytes plan, sp_required_bytes plan)"
      "dest' = concat (map tpkt_octets ?tpdus) @ drop (sp_required_bytes plan) dest"
    using stream_encode_octets [OF plan room] enc by simp_all
  have small: "\<forall>t \<in> set ?tpdus. length t \<le> tpdu_size"
    using stream_tpdus_length [of "tpdu_size - 3"] fits(2) by (metis le_add_diff_inverse2 less_imp_le)
  have "0 < sp_required_bytes plan" using fits(4,5) by auto
  with len have "concat (map tpkt_octets ?tpdus) \<noteq> []" by (metis less_irrefl list.size(3))
  moreover have "concat cs = concat (map tpkt_octets ?tpdus)" using cut(1) len out(2) by simp
  ultimately have cs: "concat cs = concat (map tpkt_octets ?tpdus)" "cs \<noteq> []" by auto
  have d: "tpkt_ok d" "tpkt_unread d = []" "tp_maximum d = m"
    using init(1) by (auto simp: tpkt_decoder_init_def tpkt_ok_def tpkt_unread_def split: if_splits)
  obtain d' where feed: "tpkt_feed cs d = (None, map tpkt_frame_of ?tpdus, d')" "tpkt_unread d' = []"
    using tpkt_feed_frames [of d cs ?tpdus] d cs cut(2) small fits(3) by fastforce
  have r: "\<not> cr_complete r" "cr_fragment_count r = 0" "cr_buffer r = []" "cr_maximum_bytes r = mb"
      "cr_maximum_fragments r = mf"
    using init(2) by (auto simp: cotp_reassembler_init_def split: if_splits)
  obtain r' where "cotp_feed ?tpdus r = (Inr (), r')" "cr_complete r'" "cr_buffer r' = user"
    using stream_tpdus_reassemble [of "tpdu_size - 3" user _ r] fits(2,4) r limits by force
  moreover have "length ?tpdus = sp_segment_count plan" by (simp add: length_stream_tpdus)
  ultimately show ?thesis
    using out len feed small
    by (intro conjI exI [of _ "map tpkt_frame_of ?tpdus"] exI [of _ d'] exI [of _ r'])
      (simp_all add: comp_def tpkt_frame_of_def cotp_reassembler_result_def)
qed

lemma stream_witness_octets:
  "cotp_tpkt_encode_into 1000 [1, 2, 3, 4, 5] 7 (replicate 20 9) =
     ((Encode_ok, 19, 19), [3, 0, 0, 11, 2, 0xF0, 0, 1, 2, 3, 4, 3, 0, 0, 8, 2, 0xF0, 0x80, 5, 9])"
proof -
  have "stream_tpdus 4 2 [1, 2, 3, 4, 5] = [[2, 0xF0, 0, 1, 2, 3, 4], [2, 0xF0, 0x80, 5]]"
    by (simp add: numeral_2_eq_2)
  then show ?thesis
    by (subst stream_encode_octets [where plan = "\<lparr>sp_maximum_user_data = 4, sp_segment_count = 2, sp_required_bytes = 19\<rparr>"])
      (simp_all add: cotp_tpkt_try_plan_def tpkt_octets_def write_be_u16_def)
qed

theorem cotp_tpkt_stream_round_trip_witness:
  "(Encode_ok, 19 :: nat, 19 :: nat) = (Encode_ok, 19, 19) \<and>
    drop 19 ([3, 0, 0, 11, 2, 0xF0, 0, 1, 2, 3, 4, 3, 0, 0, 8, 2, 0xF0, 0x80, 5, 9] :: bytes) = drop 19 (replicate 20 9) \<and>
    (\<exists>fs d' r'. tpkt_feed [[3, 0, 0, 11, 2], [0xF0, 0, 1, 2, 3, 4, 3, 0], [0, 8, 2, 0xF0, 0x80, 5]]
        \<lparr>tp_buffer = [], tp_offset = 0, tp_maximum = 262140, tp_decoded = 0\<rparr> = (None, fs, d') \<and>
      tpkt_buffered_bytes d' = 0 \<and> length fs = 2 \<and> (\<forall>f \<in> set fs. length (tp_payload f) \<le> 7) \<and>
      cotp_feed (map tp_payload fs) \<lparr>cr_maximum_bytes = 8, cr_maximum_fragments = 4, cr_maximum_empty = 1,
        cr_fragment_count = 0, cr_empty_nonfinal = 0, cr_complete = False, cr_buffer = []\<rparr> = (Inr (), r') \<and>
      cotp_reassembler_result r' = Inr [1, 2, 3, 4, 5])"
  using cotp_tpkt_stream_round_trip [of 1000 "[1, 2, 3, 4, 5]" 7
      "\<lparr>sp_maximum_user_data = 4, sp_segment_count = 2, sp_required_bytes = 19\<rparr>" "replicate 20 9"
      "(Encode_ok, 19, 19)" "[3, 0, 0, 11, 2, 0xF0, 0, 1, 2, 3, 4, 3, 0, 0, 8, 2, 0xF0, 0x80, 5, 9]"
      "[[3, 0, 0, 11, 2], [0xF0, 0, 1, 2, 3, 4, 3, 0], [0, 8, 2, 0xF0, 0x80, 5]]" 262140
      "\<lparr>tp_buffer = [], tp_offset = 0, tp_maximum = 262140, tp_decoded = 0\<rparr>" 8 4 1
      "\<lparr>cr_maximum_bytes = 8, cr_maximum_fragments = 4, cr_maximum_empty = 1,
        cr_fragment_count = 0, cr_empty_nonfinal = 0, cr_complete = False, cr_buffer = []\<rparr>"]
    stream_witness_octets
  by (simp add: cotp_tpkt_try_plan_def tpkt_decoder_init_def cotp_reassembler_init_def)

text \<open>The allocation-free transport codec has the wire behaviour of the owning one: it decodes the
  same TPDUs, its data and reference encoders write the same octets, and the confirm it derives from
  the raw octets of a request is the one the owning codec derives from the decoded request.\<close>

theorem cotp_span_codec_agrees:
  "map_option cotp_view_tpdu (cotp_try_decode_view bs) = (case cotp_decode bs of Inl _ \<Rightarrow> None | Inr t \<Rightarrow> Some t) \<and>
   into_agrees (cotp_encode_data user eot number) dest (cotp_encode_data_into user dest eot number) \<and>
   into_agrees (cotp_encode_connection_request src ps dst cls) dest
     (cotp_encode_connection_request_into src ps dest dst cls) \<and>
   into_agrees (cotp_encode_connection_confirm dst src limit) dest
     (cotp_encode_connection_confirm_into dst src dest limit) \<and>
   (case cotp_try_decode_view bs of None \<Rightarrow> True | Some v \<Rightarrow>
      into_agrees (bindE (cotp_decode bs) (\<lambda>t. cotp_encode_connection_confirm_for t src limit)) dest
        (cotp_encode_connection_confirm_from_request_into v src dest limit))"
proof -
  have "into_agrees (cotp_encode_connection_confirm dst src limit) dest
     (cotp_encode_connection_confirm_into dst src dest limit)"
  proof (cases "cotp_tpdu_size_bytes limit")
    case (Inl e)
    then show ?thesis by (simp add: cotp_encode_connection_confirm_def cotp_encode_connection_confirm_into_def
          cotp_try_size_agrees into_agrees_def)
  next
    case (Inr n)
    then show ?thesis by (simp add: cotp_encode_connection_confirm_def cotp_encode_connection_confirm_into_def
          cotp_try_size_agrees cotp_reference_into_agrees)
  qed
  moreover have "into_agrees (bindE (cotp_decode bs) (\<lambda>t. cotp_encode_connection_confirm_for t src limit)) dest
      (cotp_encode_connection_confirm_from_request_into v src dest limit)" if v: "cotp_try_decode_view bs = Some v" for v
  proof (cases "cv_kind v = Ck_connection_request")
    case True
    then show ?thesis using cotp_view_accepts [OF v] cotp_confirm_into_agrees by auto
  next
    case False
    then show ?thesis using cotp_view_accepts(1) [OF v]
      by (simp add: into_agrees_def cotp_encode_connection_confirm_for_def cotp_view_tpdu_def
          cotp_encode_connection_confirm_from_request_into_def)
  qed
  ultimately show ?thesis
    using cotp_decode_view_agrees [of bs] cotp_data_into_agrees cotp_reference_into_agrees
    by (auto simp: cotp_encode_connection_request_def cotp_encode_connection_request_into_def split: option.split)
qed

end
