(* ===== verification/Ber_Span.thy ===== *)
theory Ber_Span
  imports Ber
begin

text \<open>
  The allocation-free BER reader and writer of the embedded profile
  (\<open>src/asn1/ber_span_reader.cpp\<close>, \<open>include/ariec61850/asn1/ber_span_writer.hpp\<close>).
  The reader is shown to agree with the owning reader of \<open>Ber\<close> on every input; the writer to
  produce exactly the owning writer's octets when the destination is large enough and to fail,
  without writing past the destination, when it is not.
\<close>

subsection \<open>Span reader\<close>

record ber_tlv_view =
  view_encoded_tag :: u8
  view_tag_class :: ber_class
  view_constructed :: bool
  view_tag_number :: int
  view_header_bytes :: nat
  view_encoded_bytes :: nat
  view_value :: bytes

definition ber_span_read_length :: "bytes \<Rightarrow> nat \<Rightarrow> (nat \<times> nat) option" where
  "ber_span_read_length src cur =
     (let lb = src ! cur; cur1 = Suc cur in
      if lb AND 0x80 = 0 then Some (cur1, unat lb)
      else let n = unat (lb AND 0x7F) in
        if n = 0 \<or> n > 4 \<or> n > length src - cur1 then None
        else Some (cur1 + n, unat (be_value (take n (drop cur1 src)) :: u64)))"

text \<open>\<open>None\<close>: the read failed and the caller's offset is unchanged.\<close>

definition ber_span_try_read_tlv :: "bytes \<Rightarrow> nat \<Rightarrow> (nat \<times> ber_tlv_view) option" where
  "ber_span_try_read_tlv src off =
     (if off \<ge> length src then None
      else let et = src ! off in
        (case ber_read_tag src off of
           Inl _ \<Rightarrow> None
         | Inr (cur1, t) \<Rightarrow>
             if cur1 \<ge> length src then None
             else (case ber_span_read_length src cur1 of
                None \<Rightarrow> None
              | Some (cur2, len) \<Rightarrow>
                  if len > length src - cur2 then None
                  else Some (cur2 + len,
                    \<lparr>view_encoded_tag = et,
                     view_tag_class = ber_class_of (drop_bit 6 et AND 0x03),
                     view_constructed = (et AND 0x20 \<noteq> 0), view_tag_number = t,
                     view_header_bytes = cur2 - off, view_encoded_bytes = cur2 - off + len,
                     view_value = take len (drop cur2 src)\<rparr>))))"

definition ber_span_try_read_exact :: "bytes \<Rightarrow> ber_tlv_view option" where
  "ber_span_try_read_exact src =
     (case ber_span_try_read_tlv src 0 of
        Some (off, v) \<Rightarrow> if off = length src then Some v else None
      | None \<Rightarrow> None)"

definition ber_span_read_unsigned_integer :: "ber_tlv_view \<Rightarrow> u64 option" where
  "ber_span_read_unsigned_integer v =
     (if length (view_value v) > 8 then None else Some (be_value (view_value v)))"

definition ber_span_read_signed_integer :: "ber_tlv_view \<Rightarrow> u64 option" where
  "ber_span_read_signed_integer v =
     (let bs = view_value v in
      if bs = [] then Some 0
      else if length bs > 8 then None
      else let raw = be_value bs in
        if hd bs AND 0x80 \<noteq> 0 \<and> length bs < 8
        then Some (raw OR push_bit (length bs * 8) (NOT 0))
        else Some raw)"

definition ber_span_read_uint32 :: "ber_tlv_view \<Rightarrow> u32 option" where
  "ber_span_read_uint32 v = (case ber_span_read_unsigned_integer v of None \<Rightarrow> None
     | Some w \<Rightarrow> if w > 0xFFFFFFFF then None else Some (ucast w))"

definition view_tlv :: "ber_tlv_view \<Rightarrow> ber_tlv" where
  "view_tlv v = \<lparr>encoded_tag = view_encoded_tag v, tag_class = view_tag_class v,
     constructed = view_constructed v, tag_number = view_tag_number v, tlv_value = view_value v\<rparr>"

lemma ber_span_read_length_eq:
  "cur < length src \<Longrightarrow>
     ber_span_read_length src cur = (case ber_read_length src cur of Inl _ \<Rightarrow> None | Inr r \<Rightarrow> Some r)"
  by (auto simp: ber_span_read_length_def ber_read_length_def Let_def)

lemma ber_span_try_read_tlv_eq:
  "map_option (\<lambda>(off', v). (off', view_tlv v)) (ber_span_try_read_tlv src off) =
     (case ber_try_read_tlv src off of Inl _ \<Rightarrow> None | Inr r \<Rightarrow> Some r)"
  by (auto simp: ber_span_try_read_tlv_def ber_try_read_tlv_def Let_def view_tlv_def
      ber_span_read_length_eq bindE_def split: sum.splits prod.splits)

lemma ber_span_try_read_tlv_extent:
  assumes "ber_span_try_read_tlv src off = Some (off', v)"
  shows "off' = off + view_encoded_bytes v"
    "view_encoded_bytes v = view_header_bytes v + length (view_value v)"
    "2 \<le> view_header_bytes v" "off' \<le> length src"
    "view_value v = take (length (view_value v)) (drop (off + view_header_bytes v) src)"
proof -
  obtain cur1 t cur2 len where
      tag: "ber_read_tag src off = Inr (cur1, t)" "off < length src" "cur1 < length src" and
      len: "ber_read_length src cur1 = Inr (cur2, len)" "len \<le> length src - cur2" and
      v: "off' = cur2 + len" "view_header_bytes v = cur2 - off"
        "view_encoded_bytes v = cur2 - off + len" "view_value v = take len (drop cur2 src)"
    using assms
    by (auto simp: ber_span_try_read_tlv_def Let_def ber_span_read_length_eq
        split: if_splits sum.splits option.splits)
  have "off < cur1" "cur1 < cur2" "cur2 \<le> length src"
    using ber_read_tag_progress [OF tag(1,2)] ber_read_length_progress [OF len(1) tag(3)] by auto
  then show "off' = off + view_encoded_bytes v"
    "view_encoded_bytes v = view_header_bytes v + length (view_value v)"
    "2 \<le> view_header_bytes v" "off' \<le> length src"
    "view_value v = take (length (view_value v)) (drop (off + view_header_bytes v) src)"
    using v len(2) by auto
qed

subsection \<open>Span writer\<close>

record span_writer =
  sw_dest :: bytes
  sw_offset :: nat
  sw_failed :: bool

definition span_writer_init :: "bytes \<Rightarrow> span_writer" where
  "span_writer_init d = \<lparr>sw_dest = d, sw_offset = 0, sw_failed = False\<rparr>"

definition sw_remaining :: "span_writer \<Rightarrow> nat" where
  "sw_remaining w =
     (if sw_offset w \<le> length (sw_dest w) then length (sw_dest w) - sw_offset w else 0)"

definition sw_write_byte :: "u8 \<Rightarrow> span_writer \<Rightarrow> bool \<times> span_writer" where
  "sw_write_byte b w =
     (if sw_failed w \<or> sw_offset w \<ge> length (sw_dest w) then (False, w\<lparr>sw_failed := True\<rparr>)
      else (True, w\<lparr>sw_dest := (sw_dest w)[sw_offset w := b], sw_offset := Suc (sw_offset w)\<rparr>))"

definition sw_write_bytes :: "bytes \<Rightarrow> span_writer \<Rightarrow> bool \<times> span_writer" where
  "sw_write_bytes v w =
     (if sw_failed w \<or> length v > sw_remaining w then (False, w\<lparr>sw_failed := True\<rparr>)
      else (True, w\<lparr>sw_dest := take (sw_offset w) (sw_dest w) @ v @ drop (sw_offset w + length v) (sw_dest w),
                   sw_offset := sw_offset w + length v\<rparr>))"

text \<open>\<open>a && b\<close> on writer operations: the second runs only when the first succeeded.\<close>

definition sw_then :: "(span_writer \<Rightarrow> bool \<times> span_writer) \<Rightarrow> (span_writer \<Rightarrow> bool \<times> span_writer) \<Rightarrow>
    span_writer \<Rightarrow> bool \<times> span_writer" where
  "sw_then f g w = (case f w of (ok, w') \<Rightarrow> if ok then g w' else (False, w'))"

fun sw_write_loop :: "bytes \<Rightarrow> span_writer \<Rightarrow> bool \<times> span_writer" where
  "sw_write_loop [] w = (True, w)"
| "sw_write_loop (b # bs) w = sw_then (sw_write_byte b) (sw_write_loop bs) w"

definition sw_write_identifier :: "ber_class \<Rightarrow> bool \<Rightarrow> int \<Rightarrow> span_writer \<Rightarrow> bool \<times> span_writer" where
  "sw_write_identifier cls c t w =
     (if t < 0 then (False, w\<lparr>sw_failed := True\<rparr>)
      else if t \<le> 30 then sw_write_byte (ber_identifier_octet cls c (word_of_int t)) w
      else sw_then (sw_write_byte (ber_identifier_octet cls c 0x1F))
        (\<lambda>w1. case ber_tag_groups 0 (word_of_int t) of
           Inl _ \<Rightarrow> (False, w1\<lparr>sw_failed := True\<rparr>)
         | Inr gs \<Rightarrow> sw_write_loop (ber_emit_groups gs) w1) w)"

function ber_length_octet_list :: "u32 \<Rightarrow> bytes" where
  "ber_length_octet_list v =
     (if v \<noteq> 0 then ber_length_octet_list (drop_bit 8 v) @ [ucast (v AND 0xFF)] else [])"
  by pat_completeness auto
termination
proof (relation "measure unat")
  fix v :: u32 assume "v \<noteq> 0"
  then have "unat v div 256 < unat v" by (simp add: unat_gt_0)
  then show "(drop_bit 8 v, v) \<in> measure unat" by (simp add: drop_bit_eq_div unat_div_distrib)
qed simp

declare ber_length_octet_list.simps [simp del]

definition sw_write_length :: "nat \<Rightarrow> span_writer \<Rightarrow> bool \<times> span_writer" where
  "sw_write_length n w =
     (if n < 0x80 then sw_write_byte (of_nat n) w
      else if n > 0xFFFFFFFF then (False, w\<lparr>sw_failed := True\<rparr>)
      else let bs = ber_length_octet_list (of_nat n)
           in sw_then (sw_write_byte (0x80 OR of_nat (length bs))) (sw_write_bytes bs) w)"

definition sw_write_tlv_header :: "ber_class \<Rightarrow> bool \<Rightarrow> int \<Rightarrow> nat \<Rightarrow> span_writer \<Rightarrow> bool \<times> span_writer" where
  "sw_write_tlv_header cls c t n = sw_then (sw_write_identifier cls c t) (sw_write_length n)"

definition sw_write_tlv :: "ber_class \<Rightarrow> bool \<Rightarrow> int \<Rightarrow> bytes \<Rightarrow> span_writer \<Rightarrow> bool \<times> span_writer" where
  "sw_write_tlv cls c t v = sw_then (sw_write_tlv_header cls c t (length v)) (sw_write_bytes v)"

text \<open>The static size functions.\<close>

function ber_group_count :: "u32 \<Rightarrow> nat" where
  "ber_group_count r = (if drop_bit 7 r \<noteq> 0 then Suc (ber_group_count (drop_bit 7 r)) else 1)"
  by pat_completeness auto
termination
proof (relation "measure unat")
  fix r :: u32 assume "drop_bit 7 r \<noteq> 0"
  then have "r \<noteq> 0" by auto
  then have "unat r div 128 < unat r" by (simp add: unat_gt_0)
  then show "(drop_bit 7 r, r) \<in> measure unat" by (simp add: drop_bit_eq_div unat_div_distrib)
qed simp

declare ber_group_count.simps [simp del]

definition ber_identifier_octets :: "int \<Rightarrow> nat option" where
  "ber_identifier_octets t =
     (if t < 0 then None else if t \<le> 30 then Some 1
      else Some (1 + ber_group_count (word_of_int t)))"

definition ber_length_octets :: "nat \<Rightarrow> nat option" where
  "ber_length_octets n =
     (if n < 0x80 then Some 1 else if n > 0xFFFFFFFF then None
      else Some (1 + length (ber_length_octet_list (of_nat n))))"

definition ber_tlv_size :: "int \<Rightarrow> nat \<Rightarrow> nat option" where
  "ber_tlv_size t n =
     (case (ber_identifier_octets t, ber_length_octets n) of
        (Some i, Some l) \<Rightarrow>
          if l > 2 ^ 64 - 1 - i then None
          else if n > 2 ^ 64 - 1 - (i + l) then None else Some (i + l + n)
      | _ \<Rightarrow> None)"

subsection \<open>The span writer refines the owning writer\<close>

text \<open>\<open>sw_emits f bs\<close>: on a good writer \<open>f\<close> writes \<open>bs\<close> at the offset when they fit and
  otherwise fails, never changing the extent of the destination nor what precedes the offset.\<close>

definition sw_put :: "bytes \<Rightarrow> span_writer \<Rightarrow> span_writer" where
  "sw_put bs w = w\<lparr>sw_dest := take (sw_offset w) (sw_dest w) @ bs @ drop (sw_offset w + length bs) (sw_dest w),
     sw_offset := sw_offset w + length bs\<rparr>"

definition sw_ok :: "span_writer \<Rightarrow> bool" where
  "sw_ok w \<longleftrightarrow> \<not> sw_failed w \<and> sw_offset w \<le> length (sw_dest w)"

definition sw_emits :: "(span_writer \<Rightarrow> bool \<times> span_writer) \<Rightarrow> bytes \<Rightarrow> bool" where
  "sw_emits f bs \<longleftrightarrow> (\<forall>w. sw_ok w \<longrightarrow>
     (if sw_offset w + length bs \<le> length (sw_dest w) then f w = (True, sw_put bs w)
      else \<not> fst (f w) \<and> sw_failed (snd (f w)) \<and> length (sw_dest (snd (f w))) = length (sw_dest w) \<and>
        take (sw_offset w) (sw_dest (snd (f w))) = take (sw_offset w) (sw_dest w)))"

lemma sw_put_Nil [simp]: "sw_put [] w = w"
  by (simp add: sw_put_def)

lemma sw_put_append:
  "sw_offset w + length xs + length ys \<le> length (sw_dest w) \<Longrightarrow>
     sw_put ys (sw_put xs w) = sw_put (xs @ ys) w"
  by (simp add: sw_put_def ac_simps)

lemma sw_put_ok:
  "sw_ok w \<Longrightarrow> sw_offset w + length bs \<le> length (sw_dest w) \<Longrightarrow>
     sw_ok (sw_put bs w) \<and> length (sw_dest (sw_put bs w)) = length (sw_dest w) \<and>
     sw_offset (sw_put bs w) = sw_offset w + length bs \<and>
     take (sw_offset w) (sw_dest (sw_put bs w)) = take (sw_offset w) (sw_dest w)"
  by (simp add: sw_put_def sw_ok_def)

lemma sw_emits_then:
  assumes "sw_emits f xs" "sw_emits g ys"
  shows "sw_emits (sw_then f g) (xs @ ys)"
  unfolding sw_emits_def
proof (intro allI impI)
  fix w assume ok: "sw_ok w"
  show "if sw_offset w + length (xs @ ys) \<le> length (sw_dest w) then sw_then f g w = (True, sw_put (xs @ ys) w)
    else \<not> fst (sw_then f g w) \<and> sw_failed (snd (sw_then f g w)) \<and>
      length (sw_dest (snd (sw_then f g w))) = length (sw_dest w) \<and>
      take (sw_offset w) (sw_dest (snd (sw_then f g w))) = take (sw_offset w) (sw_dest w)"
  proof (cases "sw_offset w + length xs \<le> length (sw_dest w)")
    case True
    then have "f w = (True, sw_put xs w)" using assms(1) ok by (simp add: sw_emits_def)
    moreover note put = sw_put_ok [OF ok True]
    moreover have "take (sw_offset w) d = take (sw_offset w) (take (sw_offset w + length xs) d)" for d :: bytes
      by simp
    ultimately show ?thesis
      using assms(2) [unfolded sw_emits_def, rule_format, of "sw_put xs w"] sw_put_append [of w xs ys] True
      by (auto simp: sw_then_def add.assoc split: if_splits) (metis take_take min.absorb1 le_add1)+
  next
    case False
    then show ?thesis
      using assms(1) [unfolded sw_emits_def, rule_format, OF ok] by (auto simp: sw_then_def split: prod.splits)
  qed
qed

lemma sw_emits_byte: "sw_emits (sw_write_byte b) [b]"
  by (auto simp: sw_emits_def sw_write_byte_def sw_put_def sw_ok_def upd_conv_take_nth_drop)

lemma sw_emits_bytes: "sw_emits (sw_write_bytes bs) bs"
  by (auto simp: sw_emits_def sw_write_bytes_def sw_put_def sw_ok_def sw_remaining_def)

lemma sw_emits_loop: "sw_emits (sw_write_loop bs) bs"
proof (induction bs)
  case Nil
  then show ?case by (simp add: sw_emits_def sw_ok_def)
next
  case (Cons b bs)
  have "sw_write_loop (b # bs) = sw_then (sw_write_byte b) (sw_write_loop bs)" by (rule ext) simp
  with sw_emits_then [OF sw_emits_byte Cons.IH, of b] show ?case by simp
qed

text \<open>The two ways of computing the length octets agree.\<close>

lemma be_bytes_Suc_snoc:
  "be_bytes (Suc n) v = be_bytes n (drop_bit 8 v) @ [ucast (v AND 0xFF)]"
proof (induction n arbitrary: v)
  case 0
  then show ?case by (simp add: be_bytes_def)
next
  case (Suc n)
  have "be_bytes (Suc (Suc n)) v = ucast (drop_bit (8 * Suc n) v AND 0xFF) # be_bytes (Suc n) v"
    by (rule be_bytes_Suc)
  also have "drop_bit (8 * Suc n) v = drop_bit (8 * n) (drop_bit 8 v)"
    by (simp add: drop_bit_drop_bit add.commute)
  finally show ?case
    by (simp only: Suc.IH [of v] be_bytes_Suc [of n "drop_bit 8 v"] append_Cons)
qed

lemma be_bytes_zero [simp]: "be_bytes n 0 = replicate n 0"
  by (induction n) (simp_all add: be_bytes_Suc, simp add: be_bytes_def)

lemma ber_strip_zeros_snoc: "be_value xs \<noteq> (0 :: u32) \<Longrightarrow> ber_strip_zeros (xs @ [b]) = ber_strip_zeros xs @ [b]"
  by (induction xs rule: ber_strip_zeros.induct) (auto simp: be_value_def split: if_splits)

lemma ber_strip_zeros_replicate: "ber_strip_zeros (replicate n 0 @ [b]) = [b]"
proof (induction n)
  case (Suc n)
  then show ?case by (cases n) auto
qed simp

lemma ber_length_octet_list_strip:
  "v \<noteq> 0 \<Longrightarrow> drop_bit (8 * n) v = 0 \<Longrightarrow> ber_strip_zeros (be_bytes n v) = ber_length_octet_list v"
proof (induction n arbitrary: v)
  case 0
  then show ?case by simp
next
  case (Suc n)
  show ?case
  proof (cases "drop_bit 8 v = 0")
    case True
    with Suc.prems(1) show ?thesis
      by (simp add: be_bytes_Suc_snoc ber_strip_zeros_replicate ber_length_octet_list.simps [of v]
          ber_length_octet_list.simps [of 0])
  next
    case False
    have z: "drop_bit (8 * n) (drop_bit 8 v) = 0"
      using Suc.prems(2) by (simp add: drop_bit_drop_bit add.commute)
    have "be_value (be_bytes n (drop_bit 8 v)) = drop_bit 8 v"
    proof (rule bit_word_eqI)
      fix k assume "k < LENGTH(32)"
      have "\<not> bit (drop_bit 8 v) k" if "8 * n \<le> k"
        using arg_cong [OF z, of "\<lambda>x. bit x (k - 8 * n)"] that by (simp add: bit_drop_bit_eq)
      then show "bit (be_value (be_bytes n (drop_bit 8 v)) :: u32) k = bit (drop_bit 8 v) k"
        using \<open>k < LENGTH(32)\<close> by (cases "k < 8 * n") (auto simp: be_value_be_bytes_bit)
    qed
    with False have "(be_value (be_bytes n (drop_bit 8 v)) :: u32) \<noteq> 0" by simp
    then show ?thesis
      using Suc.IH [OF False z] Suc.prems(1)
      by (simp add: be_bytes_Suc_snoc ber_strip_zeros_snoc ber_length_octet_list.simps [of v])
  qed
qed

lemma ber_length_octet_list_eq:
  "v \<noteq> 0 \<Longrightarrow> ber_length_octet_list v = ber_strip_zeros (be_bytes 4 v)"
proof -
  have "drop_bit (8 * 4) v = 0" for v :: u32
    by (rule bit_word_eqI) (auto simp: bit_drop_bit_eq dest: bit_imp_le_length)
  then show "v \<noteq> 0 \<Longrightarrow> ber_length_octet_list v = ber_strip_zeros (be_bytes 4 v)"
    by (intro ber_length_octet_list_strip [symmetric])
qed

lemma sw_emits_identifier:
  "ber_write_identifier cls c t = Inr ident \<Longrightarrow> sw_emits (sw_write_identifier cls c t) ident"
proof (cases "t \<le> 30")
  case True
  assume "ber_write_identifier cls c t = Inr ident"
  with True have "0 \<le> t" "ident = [ber_identifier_octet cls c (word_of_int t)]"
    by (auto simp: ber_write_identifier_def ber_encode_identifier_def split: if_splits)
  moreover from this True have "sw_write_identifier cls c t = sw_write_byte (ber_identifier_octet cls c (word_of_int t))"
    by (auto simp: sw_write_identifier_def)
  ultimately show ?thesis by (simp only: sw_emits_byte)
next
  case False
  assume "ber_write_identifier cls c t = Inr ident"
  with False obtain gs where gs: "ber_tag_groups 0 (word_of_int t) = Inr gs" "0 \<le> t"
      "ident = [ber_identifier_octet cls c 0x1F] @ ber_emit_groups gs"
    by (auto simp: ber_write_identifier_def bindE_Inr_iff split: if_splits)
  then have "sw_write_identifier cls c t =
      sw_then (sw_write_byte (ber_identifier_octet cls c 0x1F)) (sw_write_loop (ber_emit_groups gs))"
    using False by (auto simp: sw_write_identifier_def)
  with gs(3) show ?thesis by (simp only: sw_emits_then [OF sw_emits_byte sw_emits_loop])
qed

lemma sw_emits_length:
  "ber_write_length n = Inr lbs \<Longrightarrow> sw_emits (sw_write_length n) lbs"
proof (cases "n < 0x80")
  case True
  assume "ber_write_length n = Inr lbs"
  with True show ?thesis
    using sw_emits_byte [of "of_nat n"] by (auto simp: ber_write_length_def sw_write_length_def sw_emits_def)
next
  case False
  assume w: "ber_write_length n = Inr lbs"
  with False have n: "n \<le> 0xFFFFFFFF" by (auto simp: ber_write_length_def split: if_splits)
  then have "(of_nat n :: u32) \<noteq> 0" using False by (auto simp: word_of_nat_eq_0_iff dest: dvd_imp_le)
  note eq = ber_length_octet_list_eq [OF this]
  let ?bs = "ber_length_octet_list (of_nat n)"
  have "sw_write_length n = sw_then (sw_write_byte (0x80 OR of_nat (length ?bs))) (sw_write_bytes ?bs)"
    using False n by (intro ext) (auto simp: sw_write_length_def Let_def)
  moreover have "lbs = [0x80 OR of_nat (length ?bs)] @ ?bs"
    using w False n eq by (simp add: ber_write_length_def Let_def)
  ultimately show ?thesis by (simp only: sw_emits_then [OF sw_emits_byte sw_emits_bytes])
qed

lemma sw_emits_tlv:
  assumes "ber_encode_tlv cls c t v = Inr enc"
  shows "sw_emits (sw_write_tlv cls c t v) enc"
proof -
  obtain ident lbs where "ber_write_identifier cls c t = Inr ident"
      "ber_write_length (length v) = Inr lbs" "enc = (ident @ lbs) @ v"
    using assms by (auto simp: ber_encode_tlv_def bindE_Inr_iff)
  then show ?thesis
    unfolding sw_write_tlv_def sw_write_tlv_header_def
    by (metis sw_emits_then sw_emits_identifier sw_emits_length sw_emits_bytes)
qed

lemma ber_group_count_eq: "ber_tag_groups count r = Inr gs \<Longrightarrow> ber_group_count r = length gs"
proof (induction count r arbitrary: gs rule: ber_tag_groups.induct)
  case (1 count r)
  show ?case
    using "1.prems" "1.IH" [of "ucast (r AND 0x7F)" "drop_bit 7 r"]
    by (subst ber_group_count.simps, subst (asm) ber_tag_groups.simps)
      (auto simp: Let_def bindE_Inr_iff word_gt_0 split: if_splits)
qed

lemma length_emit_groups: "length (ber_emit_groups gs) = length gs"
  by (cases gs) auto

lemma ber_tlv_size_eq:
  assumes "ber_encode_tlv cls c t v = Inr enc" "length enc < 2 ^ 64"
  shows "ber_tlv_size t (length v) = Some (length enc)"
proof -
  obtain ident lbs where w: "ber_write_identifier cls c t = Inr ident"
      "ber_write_length (length v) = Inr lbs" "enc = ident @ lbs @ v"
    using assms by (auto simp: ber_encode_tlv_def bindE_Inr_iff)
  have "ber_identifier_octets t = Some (length ident)"
    using w(1) by (auto simp: ber_identifier_octets_def ber_write_identifier_def bindE_Inr_iff
        ber_encode_identifier_def ber_group_count_eq length_emit_groups split: if_splits)
  moreover have "ber_length_octets (length v) = Some (length lbs)"
  proof (cases "length v < 0x80 \<or> length v > 0xFFFFFFFF")
    case True
    then show ?thesis using w(2) by (auto simp: ber_length_octets_def ber_write_length_def)
  next
    case False
    then have "(of_nat (length v) :: u32) \<noteq> 0" by (auto simp: word_of_nat_eq_0_iff dest: dvd_imp_le)
    with False w(2) show ?thesis
      by (auto simp: ber_length_octets_def ber_write_length_def Let_def ber_length_octet_list_eq)
  qed
  ultimately show ?thesis using assms(2) w(3) by (auto simp: ber_tlv_size_def)
qed

subsection \<open>Properties\<close>

text \<open>The allocation-free reader accepts exactly the elements the owning reader accepts, with
  the same fields, and its view stays inside the buffer: header and contents together are the
  octets between the old and the new offset.\<close>

theorem ber_span_reader_agrees:
  "map_option (\<lambda>(off', v). (off', view_tlv v)) (ber_span_try_read_tlv src off) =
     (case ber_try_read_tlv src off of Inl _ \<Rightarrow> None | Inr r \<Rightarrow> Some r) \<and>
   (case ber_span_try_read_tlv src off of None \<Rightarrow> True
    | Some (off', v) \<Rightarrow> off' \<le> length src \<and> off' = off + view_header_bytes v + length (view_value v) \<and>
        view_value v = take (length (view_value v)) (drop (off + view_header_bytes v) src))"
  using ber_span_try_read_tlv_eq [of src off] ber_span_try_read_tlv_extent [of src off]
  by (fastforce split: option.splits)

text \<open>C31.  The allocation-free writer refines the owning writer.  From a good state with room for
  the element it writes exactly the owning writer's octets at its offset, nothing before or after
  them, and advances by the announced size; without room it fails, latches the failure and keeps
  everything it had written.\<close>

theorem ber_span_writer_refines:
  assumes "ber_encode_tlv cls c t v = Inr enc" "\<not> sw_failed w" "sw_offset w \<le> length (sw_dest w)"
    "length enc < 2 ^ 64"
  shows "ber_tlv_size t (length v) = Some (length enc) \<and>
    (if sw_offset w + length enc \<le> length (sw_dest w)
     then \<exists>w'. sw_write_tlv cls c t v w = (True, w') \<and> \<not> sw_failed w' \<and>
       sw_offset w' = sw_offset w + length enc \<and>
       sw_dest w' = take (sw_offset w) (sw_dest w) @ enc @ drop (sw_offset w + length enc) (sw_dest w)
     else \<exists>w'. sw_write_tlv cls c t v w = (False, w') \<and> sw_failed w' \<and>
       length (sw_dest w') = length (sw_dest w) \<and>
       take (sw_offset w) (sw_dest w') = take (sw_offset w) (sw_dest w))"
proof -
  have "sw_ok w" using assms(2,3) by (simp add: sw_ok_def)
  with sw_emits_tlv [OF assms(1)] ber_tlv_size_eq [OF assms(1,4)] assms(2) show ?thesis
    by (cases "sw_write_tlv cls c t v w") (auto simp: sw_emits_def sw_put_def)
qed

theorem ber_span_writer_refines_witness:
  "ber_tlv_size 5 (length [1 :: u8, 2]) = Some (length [0x85 :: u8, 2, 1, 2]) \<and>
   (\<exists>w'. sw_write_tlv Context_specific False 5 [1, 2] (span_writer_init ([0, 0, 0, 0, 0, 0])) = (True, w') \<and>
      \<not> sw_failed w' \<and> sw_offset w' = Suc (Suc (Suc (Suc 0))) \<and> sw_dest w' = [0x85, 2, 1, 2, 0, 0])"
proof -
  have "ber_encode_tlv Context_specific False 5 [1, 2] = Inr [0x85, 2, 1, 2]" by code_simp
  from ber_span_writer_refines [OF this, of "span_writer_init ([0, 0, 0, 0, 0, 0])"]
  show ?thesis by (simp add: span_writer_init_def)
qed

end
