(* ===== verification/Report.thy ===== *)
theory Report
  imports Ber_Span
begin

text \<open>
  The selective InformationReport encoder for buffered reports
  (\<open>src/mms/buffered_selective_information_report_span.cpp\<close> and
  \<open>include/ariec61850/mms/buffered_selective_report_detail.hpp\<close>).  The encoder first computes the
  exact size of the PDU, field by field, and then writes the fields through the span writer; the
  results show that the two passes agree, so the encoder succeeds exactly when the report is valid
  and the destination is large enough.
\<close>

record access_result =
  ra_success :: bool
  ra_encoded_data :: bytes
  ra_failure_code :: u32

type_synonym reference = "string \<times> string"

record report_snapshot =
  rs_report_id :: string
  rs_optional_fields :: bytes
  rs_sequence_number :: u32
  rs_report_time :: bytes
  rs_data_set_reference :: reference
  rs_buffer_overflow :: bool
  rs_entry_id :: bytes
  rs_conf_revision :: u32
  rs_member_count :: nat
  rs_included_indices :: "nat list"
  rs_included_references :: "reference list"
  rs_included_results :: "access_result list"
  rs_included_reasons :: bytes

definition opt_selected :: "report_snapshot \<Rightarrow> nat \<Rightarrow> u8 \<Rightarrow> bool" where
  "opt_selected r i bits \<longleftrightarrow> length (rs_optional_fields r) > i \<and> rs_optional_fields r ! i AND bits \<noteq> 0"

definition visible_ascii :: "string \<Rightarrow> nat \<Rightarrow> bool" where
  "visible_ascii t m \<longleftrightarrow> t \<noteq> [] \<and> length t \<le> m \<and> list_all (\<lambda>c. of_char c \<noteq> (0 :: u8) \<and> of_char c \<le> (0x7F :: u8)) t"

function minimal_unsigned_size :: "u32 \<Rightarrow> nat" where
  "minimal_unsigned_size v = (if v > 0xFF then Suc (minimal_unsigned_size (drop_bit 8 v)) else 1)"
  by pat_completeness auto
termination
proof (relation "measure unat")
  fix v :: u32 assume "0xFF < v"
  then have "0 < unat v" by (simp add: word_less_nat_alt)
  then have "unat v div 256 < unat v" by simp
  then show "(drop_bit 8 v, v) \<in> measure unat" by (simp add: drop_bit_eq_div unat_div_distrib)
qed simp

declare minimal_unsigned_size.simps [simp del]

definition needs_positive_prefix :: "u32 \<Rightarrow> nat \<Rightarrow> bool" where
  "needs_positive_prefix v n \<longleftrightarrow> drop_bit ((n - 1) * 8) v AND 0x80 \<noteq> 0"

definition positive_integer_size :: "u32 \<Rightarrow> nat" where
  "positive_integer_size v =
     (let n = minimal_unsigned_size v in n + (if needs_positive_prefix v n then 1 else 0))"

definition sw_write_unsigned_content :: "u32 \<Rightarrow> span_writer \<Rightarrow> bool \<times> span_writer" where
  "sw_write_unsigned_content v = sw_write_loop (be_bytes (minimal_unsigned_size v) v)"

definition sw_write_positive_content :: "u32 \<Rightarrow> span_writer \<Rightarrow> bool \<times> span_writer" where
  "sw_write_positive_content v =
     (if needs_positive_prefix v (minimal_unsigned_size v)
      then sw_then (sw_write_byte 0x00) (sw_write_unsigned_content v)
      else sw_write_unsigned_content v)"

definition valid_mms_data :: "bytes \<Rightarrow> bool" where
  "valid_mms_data bs = (case ber_span_try_read_exact bs of
     None \<Rightarrow> False
   | Some v \<Rightarrow> view_tag_class v = Context_specific \<and>
       (if view_tag_number v = 1 \<or> view_tag_number v = 2 then view_constructed v
        else 3 \<le> view_tag_number v \<and> view_tag_number v \<le> 17 \<and> \<not> view_constructed v))"

definition access_result_size :: "access_result \<Rightarrow> nat option" where
  "access_result_size a =
     (if ra_success a
      then (if valid_mms_data (ra_encoded_data a) then Some (length (ra_encoded_data a)) else None)
      else ber_tlv_size 0 (positive_integer_size (ra_failure_code a)))"

definition sw_write_access_result :: "access_result \<Rightarrow> span_writer \<Rightarrow> bool \<times> span_writer" where
  "sw_write_access_result a =
     (if ra_success a then sw_write_bytes (ra_encoded_data a)
      else sw_then (sw_write_tlv_header Context_specific False 0 (positive_integer_size (ra_failure_code a)))
             (sw_write_positive_content (ra_failure_code a)))"

fun reference_content_size :: "reference \<Rightarrow> nat option" where
  "reference_content_size (d, i) =
     (if \<not> visible_ascii d 1024 \<or> \<not> visible_ascii i 1024 then None
      else if length i > 129 - 1 \<or> length d > 129 - 1 - length i then None
      else Some (length d + 1 + length i))"

fun sw_write_reference :: "reference \<Rightarrow> span_writer \<Rightarrow> bool \<times> span_writer" where
  "sw_write_reference (d, i) = (case reference_content_size (d, i) of
     None \<Rightarrow> (\<lambda>w. (False, w))
   | Some n \<Rightarrow> sw_then (sw_write_tlv_header Context_specific False 10 n)
       (sw_then (sw_write_bytes (ber_encode_ascii d))
         (sw_then (sw_write_byte 0x2F) (sw_write_bytes (ber_encode_ascii i)))))"

definition sw_write_visible :: "string \<Rightarrow> span_writer \<Rightarrow> bool \<times> span_writer" where
  "sw_write_visible t =
     sw_then (sw_write_tlv_header Context_specific False 10 (length t)) (sw_write_bytes (ber_encode_ascii t))"

definition sw_write_bit_string :: "u8 \<Rightarrow> bytes \<Rightarrow> span_writer \<Rightarrow> bool \<times> span_writer" where
  "sw_write_bit_string unused bs =
     (if unused \<le> 7
      then sw_then (sw_write_tlv_header Context_specific False 4 (1 + length bs))
             (sw_then (sw_write_byte unused) (sw_write_bytes bs))
      else (\<lambda>w. (False, w)))"

definition sw_write_unsigned :: "u32 \<Rightarrow> span_writer \<Rightarrow> bool \<times> span_writer" where
  "sw_write_unsigned v =
     sw_then (sw_write_tlv_header Context_specific False 6 (minimal_unsigned_size v)) (sw_write_unsigned_content v)"

definition sw_write_boolean :: "bool \<Rightarrow> span_writer \<Rightarrow> bool \<times> span_writer" where
  "sw_write_boolean b =
     sw_then (sw_write_tlv_header Context_specific False 3 1) (sw_write_byte (if b then 0x01 else 0x00))"

text \<open>\<open>add_to\<close> over a sequence of sizes.\<close>

fun add_sizes :: "nat option list \<Rightarrow> nat \<Rightarrow> nat option" where
  "add_sizes [] n0 = Some n0"
| "add_sizes (None # xs) n0 = None"
| "add_sizes (Some n # xs) n0 = (if n > 2 ^ 64 - 1 - n0 then None else add_sizes xs (n0 + n))"

text \<open>Writer operations one after the other, until the first failure.\<close>

fun sw_seq :: "(span_writer \<Rightarrow> bool \<times> span_writer) list \<Rightarrow> span_writer \<Rightarrow> bool \<times> span_writer" where
  "sw_seq [] w = (True, w)"
| "sw_seq (f # fs) w = sw_then f (sw_seq fs) w"

subsection \<open>Validation and size pass\<close>

text \<open>The loop over the member indices; \<open>prev\<close> is the previous index once there is one.\<close>

fun report_indices_ok :: "nat \<Rightarrow> nat option \<Rightarrow> nat list \<Rightarrow> bool" where
  "report_indices_ok n prev [] = True"
| "report_indices_ok n prev (i # is) =
     (if i \<ge> n \<or> (case prev of None \<Rightarrow> False | Some p \<Rightarrow> i \<le> p) then False
      else report_indices_ok n (Some i) is)"

definition report_valid :: "report_snapshot \<Rightarrow> bool" where
  "report_valid r \<longleftrightarrow>
     visible_ascii (rs_report_id r) 129 \<and> length (rs_optional_fields r) = 2 \<and>
     rs_optional_fields r ! 0 AND 0x80 = 0 \<and> rs_optional_fields r ! 1 AND 0x7F = 0 \<and>
     rs_member_count r \<noteq> 0 \<and> rs_member_count r \<le> 128 \<and> rs_included_indices r \<noteq> [] \<and>
     length (rs_included_indices r) \<le> rs_member_count r \<and>
     length (rs_included_references r) = length (rs_included_indices r) \<and>
     length (rs_included_results r) = length (rs_included_indices r) \<and>
     reference_content_size (rs_data_set_reference r) \<noteq> None \<and>
     (if opt_selected r 0 0x20 then length (rs_report_time r) = 6 else True) \<and>
     (if opt_selected r 0 0x01 then length (rs_entry_id r) = 8 else rs_entry_id r = []) \<and>
     (if opt_selected r 0 0x10
      then length (rs_included_reasons r) = length (rs_included_indices r) \<and>
           list_all (\<lambda>x. x \<noteq> 0 \<and> x AND 0x03 = 0) (rs_included_reasons r)
      else rs_included_reasons r = []) \<and>
     report_indices_ok (rs_member_count r) None (rs_included_indices r) \<and>
     list_all (\<lambda>p. reference_content_size p \<noteq> None) (rs_included_references r) \<and>
     list_all (\<lambda>a. access_result_size a \<noteq> None) (rs_included_results r)"

definition reference_tlv_size :: "reference \<Rightarrow> nat option" where
  "reference_tlv_size p = (case reference_content_size p of None \<Rightarrow> None | Some n \<Rightarrow> ber_tlv_size 10 n)"

definition report_field_sizes :: "report_snapshot \<Rightarrow> nat option list" where
  "report_field_sizes r =
     [ber_tlv_size 10 (length (rs_report_id r)), ber_tlv_size 4 (1 + length (rs_optional_fields r))] @
     (if opt_selected r 0 0x40 then [ber_tlv_size 6 (minimal_unsigned_size (rs_sequence_number r))] else []) @
     (if opt_selected r 0 0x20 then [ber_tlv_size 12 (length (rs_report_time r))] else []) @
     (if opt_selected r 0 0x08 then [reference_tlv_size (rs_data_set_reference r)] else []) @
     (if opt_selected r 0 0x02 then [ber_tlv_size 3 1] else []) @
     (if opt_selected r 0 0x01 then [ber_tlv_size 9 (length (rs_entry_id r))] else []) @
     (if opt_selected r 1 0x80 then [ber_tlv_size 6 (minimal_unsigned_size (rs_conf_revision r))] else []) @
     [ber_tlv_size 4 (1 + (rs_member_count r + 7) div 8)] @
     (if opt_selected r 0 0x04 then map reference_tlv_size (rs_included_references r) else []) @
     map access_result_size (rs_included_results r) @
     (if opt_selected r 0 0x10 then map (\<lambda>_. ber_tlv_size 4 2) (rs_included_indices r) else [])"

definition access_content_size :: "report_snapshot \<Rightarrow> nat option" where
  "access_content_size r = add_sizes (report_field_sizes r) 0"

subsection \<open>Writing pass\<close>

text \<open>One octet of the inclusion bit string: the included indices are consumed while they fall into it.\<close>

fun inclusion_octet :: "nat \<Rightarrow> nat list \<Rightarrow> u8 \<Rightarrow> u8 \<times> nat list" where
  "inclusion_octet k [] v = (v, [])"
| "inclusion_octet k (i # is) v =
     (if i div 8 = k then inclusion_octet k is (v OR drop_bit (i mod 8) 0x80) else (v, i # is))"

primrec inclusion_octets :: "nat \<Rightarrow> nat \<Rightarrow> nat list \<Rightarrow> bytes \<times> nat list" where
  "inclusion_octets 0 k included = ([], included)"
| "inclusion_octets (Suc n) k included =
     (let (v, rest) = inclusion_octet k included 0; (vs, rest) = inclusion_octets n (Suc k) rest
      in (v # vs, rest))"

definition sw_write_inclusion :: "nat \<Rightarrow> nat list \<Rightarrow> span_writer \<Rightarrow> bool \<times> span_writer" where
  "sw_write_inclusion member_count included =
     (let byte_count = (member_count + 7) div 8; (octets, rest) = inclusion_octets byte_count 0 included in
      sw_then (sw_write_tlv_header Context_specific False 4 (1 + byte_count))
        (sw_then (sw_write_byte (of_nat (byte_count * 8 - member_count)))
          (sw_then (sw_write_loop octets) (\<lambda>w. (rest = [], w)))))"

definition report_field_writes :: "report_snapshot \<Rightarrow> (span_writer \<Rightarrow> bool \<times> span_writer) list" where
  "report_field_writes r =
     [sw_write_visible (rs_report_id r), sw_write_bit_string 6 (rs_optional_fields r)] @
     (if opt_selected r 0 0x40 then [sw_write_unsigned (rs_sequence_number r)] else []) @
     (if opt_selected r 0 0x20 then [sw_then (sw_write_tlv_header Context_specific False 12 (length (rs_report_time r)))
        (sw_write_bytes (rs_report_time r))] else []) @
     (if opt_selected r 0 0x08 then [sw_write_reference (rs_data_set_reference r)] else []) @
     (if opt_selected r 0 0x02 then [sw_write_boolean (rs_buffer_overflow r)] else []) @
     (if opt_selected r 0 0x01 then [sw_then (sw_write_tlv_header Context_specific False 9 (length (rs_entry_id r)))
        (sw_write_bytes (rs_entry_id r))] else []) @
     (if opt_selected r 1 0x80 then [sw_write_unsigned (rs_conf_revision r)] else []) @
     [sw_write_inclusion (rs_member_count r) (rs_included_indices r)] @
     (if opt_selected r 0 0x04 then map sw_write_reference (rs_included_references r) else []) @
     map sw_write_access_result (rs_included_results r) @
     (if opt_selected r 0 0x10 then map (\<lambda>x. sw_write_bit_string 2 [x]) (rs_included_reasons r) else [])"

definition report_encode_into :: "report_snapshot \<Rightarrow> bytes \<Rightarrow> encode_result \<times> bytes" where
  "report_encode_into r dest =
     (if \<not> report_valid r then ((Value_out_of_range, 0, 0), dest)
      else let access_content = access_content_size r;
               access_tlv = Option.bind access_content (ber_tlv_size 0);
               vmd_name = ber_tlv_size 0 3;
               variable_access = Option.bind vmd_name (ber_tlv_size 1);
               information = (case (access_tlv, variable_access) of
                   (Some a, Some v) \<Rightarrow> if a \<le> 2 ^ 64 - 1 - v then Some (v + a) else None
                 | _ \<Rightarrow> None);
               service = Option.bind information (ber_tlv_size 0);
               required = Option.bind service (ber_tlv_size 3) in
        (case (access_content, vmd_name, information, service, required) of
           (Some content, Some vmd, Some info, Some serv, Some req) \<Rightarrow>
             if req > 1024 * 1024 then ((Value_out_of_range, 0, 0), dest)
             else if length dest < req then ((Buffer_too_small, 0, req), dest)
             else (case sw_seq
                 ([sw_write_tlv_header Context_specific True 3 serv,
                   sw_write_tlv_header Context_specific True 0 info,
                   sw_write_tlv_header Context_specific True 1 vmd,
                   sw_write_tlv_header Context_specific False 0 3,
                   sw_write_bytes (ber_encode_ascii ''RPT''),
                   sw_write_tlv_header Context_specific True 0 content] @ report_field_writes r)
                 (span_writer_init (take req dest)) of
               (ok, w) \<Rightarrow>
                 if \<not> ok \<or> sw_offset w \<noteq> req
                 then ((Value_out_of_range, 0, req), sw_dest w @ drop req dest)
                 else ((Encode_ok, req, req), sw_dest w @ drop req dest))
         | _ \<Rightarrow> ((Value_out_of_range, 0, 0), dest)))"

subsection \<open>Context-specific elements\<close>

definition ctx_header :: "bool \<Rightarrow> int \<Rightarrow> nat \<Rightarrow> bytes" where
  "ctx_header c t n = projr (ber_write_identifier Context_specific c t) @ projr (ber_write_length n)"

definition ctx_tlv :: "bool \<Rightarrow> int \<Rightarrow> bytes \<Rightarrow> bytes" where
  "ctx_tlv c t v = ctx_header c t (length v) @ v"

lemma ctx_tlv_encode:
  assumes "0 \<le> t" "t \<le> 30" "length v \<le> 0xFFFFFFFF"
  shows "ber_encode_tlv Context_specific c t v = Inr (ctx_tlv c t v)" "length (ctx_tlv c t v) \<le> length v + 11"
proof -
  obtain enc where enc: "ber_encode_tlv Context_specific c t v = Inr enc" "length enc \<le> length v + 11"
    using ber_encode_tlv_total [of t v Context_specific c] assms by auto
  then have "enc = ctx_tlv c t v"
    by (auto simp: ber_encode_tlv_def bindE_Inr_iff ctx_tlv_def ctx_header_def)
  with enc show "ber_encode_tlv Context_specific c t v = Inr (ctx_tlv c t v)" "length (ctx_tlv c t v) \<le> length v + 11"
    by simp_all
qed

lemma ctx_tlv_size:
  assumes "0 \<le> t" "t \<le> 30" "n \<le> 0xFFFFFFFF" "length v = n"
  shows "ber_tlv_size t n = Some (length (ctx_tlv c t v))"
  using ber_tlv_size_eq [of Context_specific c t v "ctx_tlv c t v"] ctx_tlv_encode [of t v c] assms by auto

lemma sw_emits_header:
  assumes "0 \<le> t" "t \<le> 30" "n \<le> 0xFFFFFFFF"
  shows "sw_emits (sw_write_tlv_header Context_specific c t n) (ctx_header c t n)"
proof -
  obtain ident lbs where "ber_write_identifier Context_specific c t = Inr ident" "ber_write_length n = Inr lbs"
    using ctx_tlv_encode(1) [of t "replicate n 0" c] assms by (auto simp: ber_encode_tlv_def bindE_Inr_iff)
  then show ?thesis
    by (simp add: sw_write_tlv_header_def ctx_header_def sw_emits_then sw_emits_identifier sw_emits_length)
qed

lemma sw_emits_ctx:
  assumes "0 \<le> t" "t \<le> 30" "n \<le> 0xFFFFFFFF" "length v = n" "sw_emits f v"
  shows "sw_emits (sw_then (sw_write_tlv_header Context_specific c t n) f) (ctx_tlv c t v)"
  unfolding ctx_tlv_def assms(4) by (rule sw_emits_then [OF sw_emits_header [OF assms(1-3)] assms(5)])

lemma sw_emits_seq: "list_all2 sw_emits fs bss \<Longrightarrow> sw_emits (sw_seq fs) (concat bss)"
proof (induction rule: list_all2_induct)
  case Nil
  then show ?case by (simp add: sw_emits_def sw_ok_def)
next
  case (Cons f fs bs bss)
  have "sw_seq (f # fs) = sw_then f (sw_seq fs)" by (rule ext) simp
  with Cons sw_emits_then show ?case by simp
qed

lemma add_sizes_lengths:
  "n + length (concat bss) < 2 ^ 64 \<Longrightarrow> add_sizes (map (\<lambda>bs. Some (length bs)) bss) n = Some (n + length (concat bss))"
  by (induction bss arbitrary: n) (auto simp: add.assoc)

subsection \<open>Field contents\<close>

lemma minimal_unsigned_size_bound: "unat v < 256 ^ k \<Longrightarrow> 0 < k \<Longrightarrow> minimal_unsigned_size v \<le> k"
proof (induction k arbitrary: v)
  case (Suc k)
  show ?case
  proof (cases "v > 0xFF")
    case True
    then have "256 \<le> unat v" by (simp add: word_less_nat_alt)
    with Suc.prems have "0 < k" by (cases k) auto
    moreover have "unat (drop_bit 8 v) < 256 ^ k"
      using Suc.prems(1) by (simp add: drop_bit_eq_div unat_div_distrib less_mult_imp_div_less mult.commute)
    ultimately show ?thesis
      using True Suc.IH [of "drop_bit 8 v"] by (simp add: minimal_unsigned_size.simps [of v])
  qed (simp add: minimal_unsigned_size.simps [of v])
qed simp

lemma minimal_unsigned_size_le: "minimal_unsigned_size v \<le> 4"
  using minimal_unsigned_size_bound [of v 4] unat_less_exp [of v] by simp

definition positive_content :: "u32 \<Rightarrow> bytes" where
  "positive_content v = (if needs_positive_prefix v (minimal_unsigned_size v) then [0] else []) @
     be_bytes (minimal_unsigned_size v) v"

lemma length_positive_content: "length (positive_content v) = positive_integer_size v" "positive_integer_size v \<le> 5"
  using minimal_unsigned_size_le [of v] by (simp_all add: positive_content_def positive_integer_size_def Let_def)

lemma sw_emits_positive: "sw_emits (sw_write_positive_content v) (positive_content v)"
  using sw_emits_then [OF sw_emits_byte [of 0] sw_emits_loop] sw_emits_loop
  by (simp add: sw_write_positive_content_def positive_content_def sw_write_unsigned_content_def)

lemma length_ber_encode_ascii [simp]: "length (ber_encode_ascii s) = length s"
  by (simp add: ber_encode_ascii_def)

text \<open>The octets of each field.\<close>

fun reference_octets :: "reference \<Rightarrow> bytes" where
  "reference_octets (d, i) = ber_encode_ascii d @ [0x2F] @ ber_encode_ascii i"

definition access_octets :: "access_result \<Rightarrow> bytes" where
  "access_octets a = (if ra_success a then ra_encoded_data a
     else ctx_tlv False 0 (positive_content (ra_failure_code a)))"

definition inclusion_content :: "nat \<Rightarrow> nat list \<Rightarrow> bytes" where
  "inclusion_content n included =
     of_nat ((n + 7) div 8 * 8 - n) # fst (inclusion_octets ((n + 7) div 8) 0 included)"

definition report_fields :: "report_snapshot \<Rightarrow> bytes list" where
  "report_fields r =
     [ctx_tlv False 10 (ber_encode_ascii (rs_report_id r)), ctx_tlv False 4 (6 # rs_optional_fields r)] @
     (if opt_selected r 0 0x40 then [ctx_tlv False 6 (be_bytes (minimal_unsigned_size (rs_sequence_number r)) (rs_sequence_number r))] else []) @
     (if opt_selected r 0 0x20 then [ctx_tlv False 12 (rs_report_time r)] else []) @
     (if opt_selected r 0 0x08 then [ctx_tlv False 10 (reference_octets (rs_data_set_reference r))] else []) @
     (if opt_selected r 0 0x02 then [ctx_tlv False 3 [if rs_buffer_overflow r then 1 else 0]] else []) @
     (if opt_selected r 0 0x01 then [ctx_tlv False 9 (rs_entry_id r)] else []) @
     (if opt_selected r 1 0x80 then [ctx_tlv False 6 (be_bytes (minimal_unsigned_size (rs_conf_revision r)) (rs_conf_revision r))] else []) @
     [ctx_tlv False 4 (inclusion_content (rs_member_count r) (rs_included_indices r))] @
     (if opt_selected r 0 0x04 then map (\<lambda>p. ctx_tlv False 10 (reference_octets p)) (rs_included_references r) else []) @
     map access_octets (rs_included_results r) @
     (if opt_selected r 0 0x10 then map (\<lambda>x. ctx_tlv False 4 [2, x]) (rs_included_reasons r) else [])"

lemma reference_field:
  assumes "reference_content_size p \<noteq> None"
  shows "reference_tlv_size p = Some (length (ctx_tlv False 10 (reference_octets p)))"
    "sw_emits (sw_write_reference p) (ctx_tlv False 10 (reference_octets p))"
proof -
  obtain d i where p: "p = (d, i)" by fastforce
  have n: "reference_content_size p = Some (length (reference_octets p))" "length (reference_octets p) \<le> 129"
    using assms by (auto simp: p split: if_splits)
  then show "reference_tlv_size p = Some (length (ctx_tlv False 10 (reference_octets p)))"
    by (simp add: reference_tlv_size_def ctx_tlv_size)
  have "sw_emits (sw_then (sw_write_bytes (ber_encode_ascii d)) (sw_then (sw_write_byte 0x2F) (sw_write_bytes (ber_encode_ascii i))))
      (reference_octets p)"
    unfolding p reference_octets.simps by (intro sw_emits_then sw_emits_bytes sw_emits_byte)
  then have "sw_emits (sw_then (sw_write_tlv_header Context_specific False 10 (length (reference_octets p)))
      (sw_then (sw_write_bytes (ber_encode_ascii d)) (sw_then (sw_write_byte 0x2F) (sw_write_bytes (ber_encode_ascii i)))))
      (ctx_tlv False 10 (reference_octets p))"
    using n(2) by (intro sw_emits_ctx) simp_all
  then show "sw_emits (sw_write_reference p) (ctx_tlv False 10 (reference_octets p))"
    using n(1) by (simp add: p)
qed

lemma access_field:
  assumes "access_result_size a \<noteq> None"
  shows "access_result_size a = Some (length (access_octets a))"
    "sw_emits (sw_write_access_result a) (access_octets a)"
proof -
  show "access_result_size a = Some (length (access_octets a))"
    using assms length_positive_content [of "ra_failure_code a"]
    by (auto simp: access_result_size_def access_octets_def ctx_tlv_size split: if_splits)
  show "sw_emits (sw_write_access_result a) (access_octets a)"
    using length_positive_content [of "ra_failure_code a"]
    by (simp add: sw_write_access_result_def access_octets_def sw_emits_bytes sw_emits_ctx sw_emits_positive)
qed

lemma unsigned_field:
  "ber_tlv_size 6 (minimal_unsigned_size v) = Some (length (ctx_tlv False 6 (be_bytes (minimal_unsigned_size v) v)))"
  "sw_emits (sw_write_unsigned v) (ctx_tlv False 6 (be_bytes (minimal_unsigned_size v) v))"
  using minimal_unsigned_size_le [of v]
  by (simp_all add: ctx_tlv_size sw_write_unsigned_def sw_write_unsigned_content_def sw_emits_ctx sw_emits_loop)

lemma octets_field:
  assumes "0 \<le> t" "t \<le> 30" "length v \<le> 0xFFFFFFFF"
  shows "sw_emits (sw_then (sw_write_tlv_header Context_specific False t (length v)) (sw_write_bytes v)) (ctx_tlv False t v)"
  using assms by (intro sw_emits_ctx sw_emits_bytes) simp_all

lemma bit_string_field:
  assumes "unused \<le> 7" "length bs \<le> 129"
  shows "sw_emits (sw_write_bit_string unused bs) (ctx_tlv False 4 (unused # bs))"
  using assms sw_emits_then [OF sw_emits_byte sw_emits_bytes, of unused bs]
  by (simp add: sw_write_bit_string_def) (intro sw_emits_ctx, simp_all)

subsection \<open>The inclusion bit string\<close>

lemma report_indices_ok_iff:
  "report_indices_ok n prev is \<longleftrightarrow> sorted_wrt (<) is \<and> (\<forall>i \<in> set is. i < n) \<and>
     (case prev of None \<Rightarrow> True | Some p \<Rightarrow> \<forall>i \<in> set is. p < i)"
proof (induction n prev "is" rule: report_indices_ok.induct)
  case (2 n prev i "is")
  show ?case
  proof (cases "i \<ge> n \<or> (case prev of None \<Rightarrow> False | Some p \<Rightarrow> i \<le> p)")
    case True
    then show ?thesis by (auto split: option.splits)
  next
    case False
    show ?thesis
    proof (cases prev)
      case None
      with "2.IH" [OF False] False show ?thesis by auto
    next
      case (Some p)
      with False have "p < i" by simp
      then have "\<forall>x \<in> set is. i < x \<Longrightarrow> \<forall>x \<in> set is. p < x" by (meson less_trans)
      with "2.IH" [OF False] False Some show ?thesis by auto
    qed
  qed
qed (simp split: option.split)

lemma bit_shifted_msb: "bit (drop_bit m (0x80 :: u8)) j \<longleftrightarrow> m \<le> 7 \<and> j = 7 - m"
proof -
  have msb: "bit (0x80 :: u8) k \<longleftrightarrow> k = 7" for k
    using bit_exp_iff [of 7 k, where 'a = u8] by auto
  show ?thesis unfolding bit_drop_bit_eq comp_def msb by linarith
qed

lemma inclusion_octet_spec:
  assumes "sorted_wrt (<) is" "\<forall>i \<in> set is. k \<le> i div 8"
  shows "snd (inclusion_octet k is v) = filter (\<lambda>i. k < i div 8) is"
    "bit (fst (inclusion_octet k is v)) j \<longleftrightarrow> bit v j \<or> (j < 8 \<and> 8 * k + (7 - j) \<in> set is)"
proof -
  have "snd (inclusion_octet k is v) = filter (\<lambda>i. k < i div 8) is \<and>
    (bit (fst (inclusion_octet k is v)) j \<longleftrightarrow> bit v j \<or> (j < 8 \<and> 8 * k + (7 - j) \<in> set is))"
    using assms
  proof (induction k "is" v rule: inclusion_octet.induct)
    case (2 k i "is" v)
    show ?case
    proof (cases "i div 8 = k")
      case True
      have "bit (drop_bit (i mod 8) (0x80 :: u8)) j \<longleftrightarrow> j < 8 \<and> 8 * k + (7 - j) = i"
      proof -
        have "i = 8 * k + i mod 8" "i mod 8 < 8" using True by (metis mult_div_mod_eq, simp)
        then show ?thesis by (auto simp: bit_shifted_msb)
      qed
      with True 2 show ?thesis by (auto simp: bit_or_iff)
    next
      case False
      then have far: "k < i div 8" "\<forall>x \<in> set is. k < x div 8"
        using "2.prems" by (auto dest: div_le_mono [where k = 8] order.strict_implies_order)
      have "8 * k + (7 - j) \<notin> set (i # is)" if "j < 8"
      proof
        assume "8 * k + (7 - j) \<in> set (i # is)"
        with far have "k < (8 * k + (7 - j)) div 8" by auto
        then show False by simp
      qed
      with False far show ?thesis by auto
    qed
  qed simp
  then show "snd (inclusion_octet k is v) = filter (\<lambda>i. k < i div 8) is"
    "bit (fst (inclusion_octet k is v)) j \<longleftrightarrow> bit v j \<or> (j < 8 \<and> 8 * k + (7 - j) \<in> set is)" by auto
qed

lemma inclusion_octets_spec:
  assumes "sorted_wrt (<) is" "\<forall>i \<in> set is. k \<le> i div 8"
  shows "length (fst (inclusion_octets n k is)) = n \<and> snd (inclusion_octets n k is) = filter (\<lambda>i. k + n \<le> i div 8) is \<and>
    (\<forall>b < n. \<forall>j < 8. bit (fst (inclusion_octets n k is) ! b) j \<longleftrightarrow> 8 * (k + b) + (7 - j) \<in> set is)"
  using assms
proof (induction n arbitrary: k "is")
  case 0
  then show ?case by (simp add: filter_id_conv)
next
  case (Suc n)
  let ?rest = "filter (\<lambda>i. k < i div 8) is"
  note head = inclusion_octet_spec [OF Suc.prems]
  have tail: "length (fst (inclusion_octets n (Suc k) ?rest)) = n \<and>
      snd (inclusion_octets n (Suc k) ?rest) = filter (\<lambda>i. Suc k + n \<le> i div 8) ?rest \<and>
      (\<forall>b < n. \<forall>j < 8. bit (fst (inclusion_octets n (Suc k) ?rest) ! b) j \<longleftrightarrow> 8 * (Suc k + b) + (7 - j) \<in> set ?rest)"
    using Suc.prems by (intro Suc.IH) (auto simp: sorted_wrt_filter Suc_le_eq)
  have parts: "inclusion_octets (Suc n) k is =
      (fst (inclusion_octet k is 0) # fst (inclusion_octets n (Suc k) ?rest), snd (inclusion_octets n (Suc k) ?rest))"
    using head(1) [of 0] by (simp add: case_prod_unfold Let_def)
  have "bit (fst (inclusion_octets (Suc n) k is) ! b) j \<longleftrightarrow> 8 * (k + b) + (7 - j) \<in> set is"
    if "b < Suc n" "j < 8" for b j
  proof (cases b)
    case 0
    then show ?thesis using head(2) [of 0 j] that by (simp add: parts del: inclusion_octets.simps)
  next
    case (Suc b')
    have "(8 * (k + b) + (7 - j)) div 8 = k + b" by simp
    moreover have "k < k + b" using Suc by simp
    ultimately have "8 * (k + b) + (7 - j) \<in> set ?rest \<longleftrightarrow> 8 * (k + b) + (7 - j) \<in> set is"
      by (simp only: set_filter mem_Collect_eq simp_thms)
    with Suc tail that show ?thesis by (simp add: parts del: inclusion_octets.simps)
  qed
  then show ?case using tail by (auto simp: parts Suc_le_eq simp del: inclusion_octets.simps intro!: filter_cong)
qed

lemma inclusion_field:
  assumes "report_indices_ok n None is" "0 < n" "n \<le> 128"
  shows "ber_tlv_size 4 (1 + (n + 7) div 8) = Some (length (ctx_tlv False 4 (inclusion_content n is)))"
    "sw_emits (sw_write_inclusion n is) (ctx_tlv False 4 (inclusion_content n is))"
proof -
  let ?k = "(n + 7) div 8"
  have ok: "sorted_wrt (<) is" "\<forall>i \<in> set is. i < n" using assms(1) by (auto simp: report_indices_ok_iff)
  note spec = inclusion_octets_spec [OF ok(1), of 0 ?k]
  have "i div 8 < ?k" if "i \<in> set is" for i
  proof -
    have "(i + 8) div 8 \<le> (n + 7) div 8" using ok(2) that by (intro div_le_mono) auto
    then show ?thesis by simp
  qed
  then have rest: "snd (inclusion_octets ?k 0 is) = []"
    using spec by (auto simp: filter_empty_conv not_le)
  have len: "length (inclusion_content n is) = 1 + ?k" using spec by (simp add: inclusion_content_def)
  show "ber_tlv_size 4 (1 + ?k) = Some (length (ctx_tlv False 4 (inclusion_content n is)))"
    using assms(3) by (intro ctx_tlv_size len) simp_all
  obtain octets where octets: "inclusion_octets ?k 0 is = (octets, [])" using rest by (metis prod.collapse)
  have id: "sw_emits (\<lambda>w. (True, w)) []" by (simp add: sw_emits_def sw_ok_def)
  have "sw_emits (sw_then (sw_write_byte (of_nat (?k * 8 - n))) (sw_then (sw_write_loop octets) (\<lambda>w. (True, w))))
      ([of_nat (?k * 8 - n)] @ octets @ [])"
    by (intro sw_emits_then sw_emits_byte sw_emits_loop id)
  then have "sw_emits (sw_then (sw_write_tlv_header Context_specific False 4 (1 + ?k))
      (sw_then (sw_write_byte (of_nat (?k * 8 - n))) (sw_then (sw_write_loop octets) (\<lambda>w. (True, w)))))
      (ctx_tlv False 4 (inclusion_content n is))"
    using assms(3) by (intro sw_emits_ctx len) (simp_all add: inclusion_content_def octets)
  then show "sw_emits (sw_write_inclusion n is) (ctx_tlv False 4 (inclusion_content n is))"
    by (simp add: sw_write_inclusion_def octets Let_def)
qed

subsection \<open>The two passes agree\<close>

lemma report_valid_facts:
  assumes "report_valid r"
  shows "length (rs_report_id r) \<le> 129" "length (rs_optional_fields r) = 2" "0 < rs_member_count r"
    "rs_member_count r \<le> 128" "report_indices_ok (rs_member_count r) None (rs_included_indices r)"
    "reference_content_size (rs_data_set_reference r) \<noteq> None"
    "\<And>p. p \<in> set (rs_included_references r) \<Longrightarrow> reference_content_size p \<noteq> None"
    "\<And>a. a \<in> set (rs_included_results r) \<Longrightarrow> access_result_size a \<noteq> None"
    "opt_selected r 0 0x20 \<Longrightarrow> length (rs_report_time r) = 6" "opt_selected r 0 0x01 \<Longrightarrow> length (rs_entry_id r) = 8"
    "opt_selected r 0 0x10 \<Longrightarrow> length (rs_included_reasons r) = length (rs_included_indices r)"
  using assms by (auto simp: report_valid_def visible_ascii_def list_all_iff)

lemma report_sizes_of_fields:
  assumes "report_valid r"
  shows "report_field_sizes r = map (\<lambda>bs. Some (length bs)) (report_fields r)"
proof -
  note v = report_valid_facts [OF assms]
  have reasons: "map (\<lambda>_. ber_tlv_size 4 2) (rs_included_indices r) =
      map (\<lambda>x. Some (length (ctx_tlv False 4 [2, x]))) (rs_included_reasons r)" if "opt_selected r 0 0x10"
  proof -
    have "ber_tlv_size 4 2 = Some (length (ctx_tlv False 4 [2, x]))" for x :: u8 by (rule ctx_tlv_size) simp_all
    then show ?thesis using v(11) [OF that] by (auto intro: nth_equalityI)
  qed
  show ?thesis
    unfolding report_field_sizes_def report_fields_def
    using v reasons reference_field(1) access_field(1) inclusion_field(1) [OF v(5,3,4)] unsigned_field(1)
    by (simp add: ctx_tlv_size)
qed

lemma report_writes_of_fields:
  assumes "report_valid r"
  shows "list_all2 sw_emits (report_field_writes r) (report_fields r)"
proof -
  note v = report_valid_facts [OF assms]
  have "list_all2 sw_emits (map f xs) (map g xs)" if "\<And>x. x \<in> set xs \<Longrightarrow> sw_emits (f x) (g x)" for f g and xs :: "'b list"
    using that by (induction xs) auto
  note maps = this
  have "sw_emits (sw_write_visible (rs_report_id r)) (ctx_tlv False 10 (ber_encode_ascii (rs_report_id r)))"
    using v(1) octets_field [of 10 "ber_encode_ascii (rs_report_id r)"] by (simp add: sw_write_visible_def)
  moreover have "sw_emits (sw_write_boolean b) (ctx_tlv False 3 [if b then 1 else 0])" for b
    by (simp add: sw_write_boolean_def sw_emits_ctx sw_emits_byte)
  moreover have "opt_selected r 0 0x20 \<Longrightarrow> sw_emits (sw_then (sw_write_tlv_header Context_specific False 12 6)
      (sw_write_bytes (rs_report_time r))) (ctx_tlv False 12 (rs_report_time r))"
    using octets_field [of 12 "rs_report_time r"] v(9) by simp
  moreover have "opt_selected r 0 0x01 \<Longrightarrow> sw_emits (sw_then (sw_write_tlv_header Context_specific False 9 8)
      (sw_write_bytes (rs_entry_id r))) (ctx_tlv False 9 (rs_entry_id r))"
    using octets_field [of 9 "rs_entry_id r"] v(10) by simp
  ultimately show ?thesis
    unfolding report_field_writes_def report_fields_def
    using v
    by (intro list_all2_appendI)
      (auto intro!: maps reference_field(2) access_field(2) unsigned_field(2) octets_field bit_string_field inclusion_field(2))
qed

definition report_pdu :: "report_snapshot \<Rightarrow> bytes" where
  "report_pdu r = ctx_tlv True 3 (ctx_tlv True 0
     (ctx_tlv True 1 (ctx_tlv False 0 (ber_encode_ascii ''RPT'')) @ ctx_tlv True 0 (concat (report_fields r))))"

lemma report_pass_two:
  assumes "report_valid r" "length (concat (report_fields r)) \<le> 1024 * 1024"
  defines "vmd \<equiv> ctx_tlv False 0 (ber_encode_ascii ''RPT'')" and "content \<equiv> concat (report_fields r)"
  defines "info \<equiv> ctx_tlv True 1 vmd @ ctx_tlv True 0 content"
  shows "sw_emits (sw_seq ([sw_write_tlv_header Context_specific True 3 (length (ctx_tlv True 0 info)),
      sw_write_tlv_header Context_specific True 0 (length info),
      sw_write_tlv_header Context_specific True 1 (length vmd),
      sw_write_tlv_header Context_specific False 0 3,
      sw_write_bytes (ber_encode_ascii ''RPT''),
      sw_write_tlv_header Context_specific True 0 (length content)] @ report_field_writes r)) (report_pdu r)"
    "length info \<le> 1024 * 1024 + 100" "length (ctx_tlv True 0 info) \<le> 1024 * 1024 + 200"
    "ber_tlv_size 0 3 = Some (length vmd)" "ber_tlv_size 1 (length vmd) = Some (length (ctx_tlv True 1 vmd))"
    "ber_tlv_size 0 (length content) = Some (length (ctx_tlv True 0 content))"
    "ber_tlv_size 0 (length info) = Some (length (ctx_tlv True 0 info))"
    "ber_tlv_size 3 (length (ctx_tlv True 0 info)) = Some (length (report_pdu r))"
proof -
  have vmd: "length vmd \<le> 14" unfolding vmd_def using ctx_tlv_encode(2) [of 0 "ber_encode_ascii ''RPT''" False] by simp
  have "length (ctx_tlv True 1 vmd) \<le> length vmd + 11" "length (ctx_tlv True 0 content) \<le> length content + 11"
    using vmd assms(2) by (auto simp: content_def intro!: ctx_tlv_encode(2))
  then show info: "length info \<le> 1024 * 1024 + 100" using vmd assms(2) by (simp add: info_def content_def)
  then show serv: "length (ctx_tlv True 0 info) \<le> 1024 * 1024 + 200"
    using ctx_tlv_encode(2) [of 0 info True] by simp
  show "ber_tlv_size 0 3 = Some (length vmd)" unfolding vmd_def by (rule ctx_tlv_size) simp_all
  show "ber_tlv_size 1 (length vmd) = Some (length (ctx_tlv True 1 vmd))" using vmd by (intro ctx_tlv_size) simp_all
  show "ber_tlv_size 0 (length content) = Some (length (ctx_tlv True 0 content))"
    using assms(2) by (intro ctx_tlv_size) (simp_all add: content_def)
  show "ber_tlv_size 0 (length info) = Some (length (ctx_tlv True 0 info))" using info by (intro ctx_tlv_size) simp_all
  show "ber_tlv_size 3 (length (ctx_tlv True 0 info)) = Some (length (report_pdu r))"
    unfolding report_pdu_def content_def [symmetric] vmd_def [symmetric] info_def [symmetric]
    using serv by (intro ctx_tlv_size) simp_all
  have "vmd = ctx_header False 0 3 @ ber_encode_ascii ''RPT''" by (simp add: vmd_def ctx_tlv_def numeral_3_eq_3)
  then have "info = ctx_header True 1 (length vmd) @ ctx_header False 0 3 @ ber_encode_ascii ''RPT'' @
      ctx_header True 0 (length content) @ content"
    by (simp only: info_def ctx_tlv_def append_assoc)
  moreover have "report_pdu r = ctx_header True 3 (length (ctx_tlv True 0 info)) @ ctx_header True 0 (length info) @ info"
    by (simp only: report_pdu_def info_def vmd_def content_def ctx_tlv_def append_assoc)
  ultimately have pdu: "report_pdu r = ctx_header True 3 (length (ctx_tlv True 0 info)) @
      ctx_header True 0 (length info) @ ctx_header True 1 (length vmd) @ ctx_header False 0 3 @
      ber_encode_ascii ''RPT'' @ ctx_header True 0 (length content) @ content"
    by simp
  have "list_all2 sw_emits ([sw_write_tlv_header Context_specific True 3 (length (ctx_tlv True 0 info)),
      sw_write_tlv_header Context_specific True 0 (length info),
      sw_write_tlv_header Context_specific True 1 (length vmd),
      sw_write_tlv_header Context_specific False 0 3,
      sw_write_bytes (ber_encode_ascii ''RPT''),
      sw_write_tlv_header Context_specific True 0 (length content)] @ report_field_writes r)
     ([ctx_header True 3 (length (ctx_tlv True 0 info)), ctx_header True 0 (length info),
       ctx_header True 1 (length vmd), ctx_header False 0 3, ber_encode_ascii ''RPT'',
       ctx_header True 0 (length content)] @ report_fields r)"
    using info serv vmd assms(2) report_writes_of_fields [OF assms(1)]
    by (intro list_all2_appendI) (auto intro!: sw_emits_header sw_emits_bytes simp: content_def)
  from sw_emits_seq [OF this] show "sw_emits (sw_seq ([sw_write_tlv_header Context_specific True 3 (length (ctx_tlv True 0 info)),
      sw_write_tlv_header Context_specific True 0 (length info),
      sw_write_tlv_header Context_specific True 1 (length vmd),
      sw_write_tlv_header Context_specific False 0 3,
      sw_write_bytes (ber_encode_ascii ''RPT''),
      sw_write_tlv_header Context_specific True 0 (length content)] @ report_field_writes r)) (report_pdu r)"
    by (simp only: pdu concat_append concat.simps append_assoc append_Nil append_Nil2 content_def)
qed

lemma report_encode_octets:
  assumes "report_valid r" "length (concat (report_fields r)) \<le> 1024 * 1024"
  shows "report_encode_into r dest =
    (if length (report_pdu r) > 1024 * 1024 then ((Value_out_of_range, 0, 0), dest)
     else if length dest < length (report_pdu r) then ((Buffer_too_small, 0, length (report_pdu r)), dest)
     else ((Encode_ok, length (report_pdu r), length (report_pdu r)), report_pdu r @ drop (length (report_pdu r)) dest))"
proof -
  note pass = report_pass_two [OF assms]
  have "access_content_size r = Some (length (concat (report_fields r)))"
    using assms(2) add_sizes_lengths [of 0 "report_fields r"]
    by (simp add: access_content_size_def report_sizes_of_fields [OF assms(1)])
  moreover have "\<lbrakk>length (report_pdu r) \<le> length dest; w = span_writer_init (take (length (report_pdu r)) dest)\<rbrakk> \<Longrightarrow>
      sw_ok w \<and> sw_put (report_pdu r) w = w\<lparr>sw_dest := report_pdu r, sw_offset := length (report_pdu r)\<rparr>" for w
    by (simp add: span_writer_init_def sw_ok_def sw_put_def)
  ultimately show ?thesis
    using pass(2-8) pass(1) [unfolded sw_emits_def, rule_format, of "span_writer_init (take (length (report_pdu r)) dest)"]
      assms(1)
    by (auto simp: report_encode_into_def Let_def span_writer_init_def sw_ok_def sw_put_def not_less)
qed

lemma add_sizes_Some: "add_sizes (map (\<lambda>bs. Some (length bs)) bss) n = Some m \<Longrightarrow> m = n + length (concat bss)"
  by (induction bss arbitrary: n) (fastforce simp: add.assoc split: if_splits)+

lemma ber_tlv_size_grows: "ber_tlv_size t n = Some k \<Longrightarrow> n < k"
  by (auto simp: ber_tlv_size_def ber_identifier_octets_def split: option.splits if_splits)

text \<open>A reported success always means the whole PDU was written.\<close>

lemma report_encode_success:
  assumes "report_encode_into r dest = ((Encode_ok, written, required), buffer)"
  shows "report_valid r" "written = length (report_pdu r)" "required = written" "written \<le> length dest"
    "buffer = report_pdu r @ drop written dest" "0 < written"
proof -
  show valid: "report_valid r" using assms by (auto simp: report_encode_into_def split: if_splits)
  obtain content info serv req a v where
      sizes: "access_content_size r = Some content" "ber_tlv_size 0 content = Some a" "info = v + a"
        "ber_tlv_size 0 info = Some serv" "ber_tlv_size 3 serv = Some req" "req \<le> 1024 * 1024"
    using assms valid
    by (auto simp: report_encode_into_def Let_def bind_eq_Some_conv split: if_splits option.splits prod.splits)
  have "content = length (concat (report_fields r))"
    using sizes(1) add_sizes_Some [of "report_fields r" 0]
    by (simp add: access_content_size_def report_sizes_of_fields [OF valid])
  moreover have "content < a" "info < serv" "serv < req" using sizes(2,4,5) by (auto dest: ber_tlv_size_grows)
  ultimately have "length (concat (report_fields r)) \<le> 1024 * 1024" using sizes(3,6) by linarith
  note enc = report_encode_octets [OF valid this, of dest]
  then show "written = length (report_pdu r)" "required = written" "written \<le> length dest"
    "buffer = report_pdu r @ drop written dest"
    using assms by (auto split: if_splits)
  have "ber_write_identifier Context_specific True 3 = Inr [0xA3]" by code_simp
  then have "report_pdu r \<noteq> []" by (simp add: report_pdu_def ctx_tlv_def ctx_header_def)
  then show "0 < written" using \<open>written = length (report_pdu r)\<close> by simp
qed

subsection \<open>Properties\<close>

text \<open>C36.  Reports encode exactly: a valid report, whose fields together stay below the PDU limit, is
  written whole, its size is the announced one and nothing else of the destination changes; a smaller
  destination is refused with the required size, and the internal consistency checks of the encoder
  never fail.  An invalid report is refused and nothing is written.\<close>

theorem report_encode_exact:
  assumes "length (concat (report_fields r)) \<le> 1024 * 1024"
  shows "report_encode_into r dest =
    (if \<not> report_valid r \<or> length (report_pdu r) > 1024 * 1024 then ((Value_out_of_range, 0, 0), dest)
     else if length dest < length (report_pdu r) then ((Buffer_too_small, 0, length (report_pdu r)), dest)
     else ((Encode_ok, length (report_pdu r), length (report_pdu r)), report_pdu r @ drop (length (report_pdu r)) dest))"
proof (cases "report_valid r")
  case True
  then show ?thesis using report_encode_octets [OF True assms] by simp
next
  case False
  then show ?thesis by (simp add: report_encode_into_def)
qed

definition sample_report :: report_snapshot where
  "sample_report = \<lparr>rs_report_id = ''R1'', rs_optional_fields = [0x11, 0x00], rs_sequence_number = 7,
     rs_report_time = [], rs_data_set_reference = (''LD'', ''DS''), rs_buffer_overflow = False,
     rs_entry_id = [0, 0, 0, 0, 0, 0, 0, 9], rs_conf_revision = 1, rs_member_count = 10,
     rs_included_indices = [1, 8], rs_included_references = [(''LD'', ''A''), (''LD'', ''B'')],
     rs_included_results = [\<lparr>ra_success = True, ra_encoded_data = [0x83, 1, 1], ra_failure_code = 0\<rparr>,
       \<lparr>ra_success = True, ra_encoded_data = [0x86, 1, 10], ra_failure_code = 0\<rparr>],
     rs_included_reasons = [0x40, 0x04]\<rparr>"

lemma sample_report_valid: "report_valid sample_report"
  by code_simp

lemma sample_report_pdu:
  "report_pdu sample_report = [0xA3, 49, 0xA0, 47, 0xA1, 5, 0x80, 3, 82, 80, 84, 0xA0, 38, 0x8A, 2, 82, 49, 0x84, 3, 6, 0x11, 0,
     0x89, 8, 0, 0, 0, 0, 0, 0, 0, 9, 0x84, 3, 6, 0x40, 0x80, 0x83, 1, 1, 0x86, 1, 10, 0x84, 2, 2, 0x40, 0x84, 2, 2, 4]"
  by code_simp

theorem report_encode_exact_witness:
  "report_encode_into sample_report (replicate 52 0xEE) = ((Encode_ok, 51, 51), report_pdu sample_report @ [0xEE])"
proof -
  have "length (concat (report_fields sample_report)) = 38" by code_simp
  then show ?thesis
    using report_encode_exact [of sample_report "replicate 52 0xEE"] sample_report_valid
    by (simp add: sample_report_pdu)
qed

text \<open>The inclusion bit string of a valid report has one bit per data set member, most significant
  bit first, set exactly for the included members.\<close>

theorem report_inclusion_exact:
  assumes "report_valid r" "k < rs_member_count r"
  shows "bit (inclusion_content (rs_member_count r) (rs_included_indices r) ! (1 + k div 8)) (7 - k mod 8) \<longleftrightarrow>
    k \<in> set (rs_included_indices r)"
proof -
  note v = report_valid_facts [OF assms(1)]
  have ok: "sorted_wrt (<) (rs_included_indices r)" "\<forall>i \<in> set (rs_included_indices r). 0 \<le> i div 8"
    using v(5) by (auto simp: report_indices_ok_iff)
  have "k div 8 < (rs_member_count r + 7) div 8"
  proof -
    have "(k + 8) div 8 \<le> (rs_member_count r + 7) div 8" using assms(2) by (intro div_le_mono) auto
    then show ?thesis by simp
  qed
  moreover have "8 * (k div 8) + (7 - (7 - k mod 8)) = k"
  proof -
    have "k mod 8 \<le> 7" using mod_less_divisor [of 8 k] by linarith
    then show ?thesis by simp
  qed
  ultimately show ?thesis
    using inclusion_octets_spec [OF ok, of "(rs_member_count r + 7) div 8"] by (simp add: inclusion_content_def)
qed

theorem report_inclusion_exact_witness:
  "bit (inclusion_content (rs_member_count sample_report) (rs_included_indices sample_report) ! (1 + 8 div 8)) (7 - 8 mod 8) \<longleftrightarrow>
    8 \<in> set (rs_included_indices sample_report)"
  by (rule report_inclusion_exact [OF sample_report_valid]) (simp add: sample_report_def)

end
