(* ===== verification/Mms_Tables.thy ===== *)
theory Mms_Tables
  imports Report
begin

text \<open>
  The static object and data set tables of the server (\<open>src/mms/static_object_table.cpp\<close>,
  \<open>src/mms/static_data_set_table.cpp\<close>).  A read callback is application code: it is a field of
  the object, a function from the free workspace to an encode result and the workspace it wrote.
\<close>

datatype object_name =
    Vmd_specific string
  | Domain_specific string string
  | Aa_specific string

type_synonym read_callback = "bytes \<Rightarrow> encode_result \<times> bytes"

record object_entry =
  oe_domain :: string
  oe_item :: string
  oe_type_specification :: bytes
  oe_read :: "read_callback option"

record data_set_entry =
  de_domain :: string
  de_item :: string
  de_members :: "(string \<times> string) list"

text \<open>\<open>visible_ascii\<close> of the object table and \<open>valid_name\<close> of the data set table.\<close>

definition valid_name :: "string \<Rightarrow> bool" where
  "valid_name t = visible_ascii t 1024"

definition valid_type_specification :: "bytes \<Rightarrow> bool" where
  "valid_type_specification bs \<longleftrightarrow> bs \<noteq> [] \<and>
     (case ber_span_try_read_exact bs of None \<Rightarrow> False | Some v \<Rightarrow> view_tag_class v = Context_specific)"

fun objects_valid_from :: "object_entry list \<Rightarrow> bool" where
  "objects_valid_from [] = True"
| "objects_valid_from (x # xs) =
     (valid_name (oe_domain x) \<and> valid_name (oe_item x) \<and>
      valid_type_specification (oe_type_specification x) \<and> oe_read x \<noteq> None \<and>
      list_all (\<lambda>y. \<not> (oe_domain y = oe_domain x \<and> oe_item y = oe_item x)) xs \<and> objects_valid_from xs)"

definition objects_valid :: "object_entry list \<Rightarrow> bool" where
  "objects_valid xs \<longleftrightarrow> xs \<noteq> [] \<and> length xs \<le> 8192 \<and> objects_valid_from xs"

fun objects_find :: "object_entry list \<Rightarrow> object_name \<Rightarrow> object_entry option" where
  "objects_find xs (Domain_specific d i) =
     (if d = [] \<or> i = [] then None else find (\<lambda>x. d = oe_domain x \<and> i = oe_item x) xs)"
| "objects_find xs _ = None"

text \<open>Each data set is checked against the earlier ones, each member against the earlier members.\<close>

fun members_valid_from :: "(string \<times> string) list \<Rightarrow> (string \<times> string) list \<Rightarrow> bool" where
  "members_valid_from earlier [] = True"
| "members_valid_from earlier (m # ms) =
     (valid_name (fst m) \<and> valid_name (snd m) \<and> m \<notin> set earlier \<and> members_valid_from (earlier @ [m]) ms)"

fun data_sets_valid_from :: "data_set_entry list \<Rightarrow> data_set_entry list \<Rightarrow> bool" where
  "data_sets_valid_from earlier [] = True"
| "data_sets_valid_from earlier (x # xs) =
     (valid_name (de_domain x) \<and> valid_name (de_item x) \<and> de_members x \<noteq> [] \<and> length (de_members x) \<le> 128 \<and>
      list_all (\<lambda>y. \<not> (de_domain y = de_domain x \<and> de_item y = de_item x)) earlier \<and>
      members_valid_from [] (de_members x) \<and> data_sets_valid_from (earlier @ [x]) xs)"

definition data_sets_valid :: "data_set_entry list \<Rightarrow> bool" where
  "data_sets_valid xs \<longleftrightarrow> length xs \<le> 64 \<and> data_sets_valid_from [] xs"

definition data_sets_valid_against :: "data_set_entry list \<Rightarrow> object_entry list \<Rightarrow> bool" where
  "data_sets_valid_against ds objs \<longleftrightarrow> data_sets_valid ds \<and> objects_valid objs \<and>
     list_all (\<lambda>x. list_all (\<lambda>(d, i). objects_find objs (Domain_specific d i) \<noteq> None) (de_members x)) ds"

text \<open>A name without domain resolves only when its item is unique among all data sets.\<close>

fun find_unique :: "string \<Rightarrow> data_set_entry list \<Rightarrow> data_set_entry option \<Rightarrow> data_set_entry option" where
  "find_unique item [] m = m"
| "find_unique item (x # xs) m =
     (if item \<noteq> de_item x then find_unique item xs m
      else if m \<noteq> None then None else find_unique item xs (Some x))"

fun data_sets_find :: "data_set_entry list \<Rightarrow> object_name \<Rightarrow> data_set_entry option" where
  "data_sets_find ds (Domain_specific d i) = find (\<lambda>x. d = de_domain x \<and> i = de_item x) ds"
| "data_sets_find ds (Vmd_specific i) = (if i = [] then None else find_unique i ds None)"
| "data_sets_find ds (Aa_specific i) = (if i = [] then None else find_unique i ds None)"

subsection \<open>Lookups\<close>

lemma find_unique_spec:
  "find_unique item ds m = (case (m, filter (\<lambda>x. de_item x = item) ds) of
     (None, []) \<Rightarrow> None | (None, [x]) \<Rightarrow> Some x | (Some x, []) \<Rightarrow> Some x | _ \<Rightarrow> None)"
  by (induction ds arbitrary: m) (auto split: option.splits list.splits)

lemma members_valid_distinct: "members_valid_from earlier ms \<Longrightarrow> distinct ms \<and> set ms \<inter> set earlier = {}"
  by (induction earlier ms rule: members_valid_from.induct) auto

lemma data_sets_valid_split:
  "data_sets_valid_from earlier (xs @ y # ys) \<Longrightarrow>
     de_members y \<noteq> [] \<and> length (de_members y) \<le> 128 \<and> distinct (de_members y) \<and>
     (\<forall>x \<in> set earlier \<union> set xs. \<not> (de_domain x = de_domain y \<and> de_item x = de_item y))"
proof (induction xs arbitrary: earlier)
  case Nil
  then show ?case using members_valid_distinct [of "[]" "de_members y"] by (auto simp: list_all_iff)
next
  case (Cons x xs)
  then show ?case by fastforce
qed

lemma data_sets_find_member:
  assumes "data_sets_valid_from [] ds" "y \<in> set ds"
  shows "data_sets_find ds (Domain_specific (de_domain y) (de_item y)) = Some y"
proof -
  obtain xs ys where ds: "ds = xs @ y # ys" using assms(2) by (meson split_list)
  have "\<forall>x \<in> set xs. \<not> (de_domain x = de_domain y \<and> de_item x = de_item y)"
    using data_sets_valid_split [of "[]" xs y ys] assms(1) ds by simp
  then have "find (\<lambda>x. de_domain y = de_domain x \<and> de_item y = de_item x) (xs @ y # ys) = Some y"
    by (induction xs) auto
  then show ?thesis by (simp add: ds)
qed

subsection \<open>Properties\<close>

text \<open>Data set lookup: in a valid table every data set is found under its own full name and has
  between 1 and 128 distinct members; a name without a domain resolves exactly when one data set has
  that item, whatever its domain.\<close>

theorem data_set_lookup:
  assumes "data_sets_valid ds"
  shows "(\<forall>y \<in> set ds. data_sets_find ds (Domain_specific (de_domain y) (de_item y)) = Some y \<and>
      de_members y \<noteq> [] \<and> length (de_members y) \<le> 128 \<and> distinct (de_members y)) \<and>
    (item \<noteq> [] \<longrightarrow> data_sets_find ds (Vmd_specific item) =
      (case filter (\<lambda>x. de_item x = item) ds of [x] \<Rightarrow> Some x | _ \<Rightarrow> None)) \<and>
    data_sets_find ds (Aa_specific item) = data_sets_find ds (Vmd_specific item)"
proof -
  have valid: "data_sets_valid_from [] ds" using assms by (simp add: data_sets_valid_def)
  have "de_members y \<noteq> [] \<and> length (de_members y) \<le> 128 \<and> distinct (de_members y)" if "y \<in> set ds" for y
    using data_sets_valid_split [of "[]" _ y] valid that by (metis split_list)
  with data_sets_find_member [OF valid] show ?thesis
    by (auto simp: find_unique_spec split: list.splits)
qed

theorem data_set_lookup_witness:
  "let a = \<lparr>de_domain = ''LD1'', de_item = ''DS'', de_members = [(''LD1'', ''X'')]\<rparr>;
       b = \<lparr>de_domain = ''LD2'', de_item = ''DS'', de_members = [(''LD2'', ''X'')]\<rparr>;
       c = \<lparr>de_domain = ''LD2'', de_item = ''EV'', de_members = [(''LD2'', ''X'')]\<rparr> in
   data_sets_find [a, b, c] (Domain_specific ''LD2'' ''DS'') = Some b \<and>
   data_sets_find [a, b, c] (Vmd_specific ''DS'') = None \<and> data_sets_find [a, b, c] (Vmd_specific ''EV'') = Some c"
proof -
  let ?a = "\<lparr>de_domain = ''LD1'', de_item = ''DS'', de_members = [(''LD1'', ''X'')]\<rparr>"
  let ?b = "\<lparr>de_domain = ''LD2'', de_item = ''DS'', de_members = [(''LD2'', ''X'')]\<rparr>"
  let ?c = "\<lparr>de_domain = ''LD2'', de_item = ''EV'', de_members = [(''LD2'', ''X'')]\<rparr>"
  have "data_sets_valid [?a, ?b, ?c]" by code_simp
  from data_set_lookup [OF this, of "''DS''"] data_set_lookup [OF this, of "''EV''"] show ?thesis
    by (simp add: Let_def)
qed

end
