(* ===== verification/Brcb.thy ===== *)
theory Brcb
  imports Mms_Tables
begin

text \<open>
  The buffered report control block runtime (\<open>src/mms/static_brcb_runtime.cpp\<close>): pending events and
  their buffer time, general interrogation and integrity scheduling, two-phase capture of a report
  into a ring of retained entries, and delivery with replay.

  The pointers the constructor takes from references are never null, so the null checks of the source
  have no branch here.  The tables are arguments of the operations: what their callbacks return may
  change between calls.  The slots' storage spans keep their extent for ever.
\<close>

datatype brcb_status = Brcb_ok | Invalid_runtime | Invalid_definition | Member_out_of_range
  | Trigger_not_selected | Temporarily_unavailable | No_report_due | Stale_plan | Data_set_not_found
  | Object_not_found | Workspace_too_small | Response_buffer_too_small | Slot_too_small
  | Backend_failure | Report_encode_failed | Entry_not_found

datatype event_reason = Data_change | Quality_change | Data_update

datatype capture_reason = Capture_none | Capture_event | Capture_interrogation | Capture_integrity

record brcb_definition =
  bd_domain :: string
  bd_item :: string
  bd_report_id :: string
  bd_data_set_domain :: string
  bd_data_set_item :: string
  bd_conf_revision :: u32
  bd_optional_fields :: bytes
  bd_buffer_time_ms :: u32
  bd_trigger_options :: u8
  bd_integrity_period_ms :: u32

record brcb_slot =
  sl_storage :: bytes
  sl_entry_id :: bytes
  sl_time_of_entry :: bytes
  sl_bytes :: nat
  sl_sequence_number :: u8
  sl_buffer_overflow :: bool
  sl_occupied :: bool

record pending_state =
  pe_masks :: bytes
  pe_due_ms :: u64
  pe_revision :: u32
  pe_member_count :: nat
  pe_pending :: bool

record capture_plan =
  pl_pending_revision :: u32
  pl_schedule_revision :: u32
  pl_queue_revision :: u32
  pl_entry_number :: u64
  pl_observed_now_ms :: u64
  pl_sequence_number :: u8
  pl_reason :: capture_reason
  pl_buffer_overflow :: bool

record capture_result =
  cres_status :: brcb_status
  cres_bytes_written :: nat
  cres_required_bytes :: nat
  cres_included :: nat
  cres_entry_id :: bytes

record brcb =
  br_definition :: brcb_definition
  br_pending :: pending_state
  br_slots :: "brcb_slot list"
  br_head :: nat
  br_count :: nat
  br_delivery_offset :: nat
  br_next_entry_number :: u64
  br_dropped_reports :: u64
  br_next_integrity_due_ms :: u64
  br_queue_revision :: u32
  br_schedule_revision :: u32
  br_sequence_number :: u8
  br_optional_fields :: bytes
  br_trigger_options :: u8
  br_integrity_period_ms :: u32
  br_replay_gap :: bool
  br_interrogation_pending :: bool
  br_integrity_armed :: bool
  br_enabled :: bool
  br_initialized :: bool

subsection \<open>Helpers\<close>

definition saturating_add :: "u64 \<Rightarrow> u64 \<Rightarrow> u64" where
  "saturating_add base delta = (if delta > - 1 - base then - 1 else base + delta)"

definition bump_revision :: "u32 \<Rightarrow> u32" where
  "bump_revision r = (if r = - 1 then 1 else r + 1)"

definition next_sequence_number :: "u8 \<Rightarrow> u8" where
  "next_sequence_number s = ucast ((ucast s + 1 :: u32) AND 0xFF)"

definition next_entry_number :: "u64 \<Rightarrow> u64" where
  "next_entry_number n = (if n = - 1 then 1 else n + 1)"

definition effective_integrity_period :: "u32 \<Rightarrow> u32" where
  "effective_integrity_period ms = (if ms = 0 then 0 else if ms < 100 then 100 else ms)"

definition valid_reference :: "string \<Rightarrow> string \<Rightarrow> bool" where
  "valid_reference d i \<longleftrightarrow> visible_ascii d 129 \<and> visible_ascii i 129 \<and> length d + 1 + length i \<le> 129"

definition clear_pending :: "pending_state \<Rightarrow> pending_state" where
  "clear_pending p = p\<lparr>pe_masks := replicate (length (pe_masks p)) 0, pe_due_ms := 0, pe_member_count := 0,
     pe_pending := False\<rparr>"

text \<open>\<open>event_mapping\<close>: the trigger mask and the reason code are the same bit.\<close>

fun event_mapping :: "event_reason \<Rightarrow> u8 \<times> u8" where
  "event_mapping Data_change = (0x40, 0x40)"
| "event_mapping Quality_change = (0x20, 0x20)"
| "event_mapping Data_update = (0x10, 0x10)"

fun scheduled_reason_mask :: "capture_reason \<Rightarrow> u8" where
  "scheduled_reason_mask Capture_integrity = 0x08"
| "scheduled_reason_mask Capture_interrogation = 0x04"
| "scheduled_reason_mask _ = 0"

definition encode_entry_id :: "u64 \<Rightarrow> bytes" where
  "encode_entry_id n = be_bytes 8 n"

definition entry_id_equal :: "bytes \<Rightarrow> bytes \<Rightarrow> bool" where
  "entry_id_equal l r \<longleftrightarrow> length l = length r \<and> l = r"

definition clear_slot :: "brcb_slot \<Rightarrow> brcb_slot" where
  "clear_slot s = \<lparr>sl_storage = sl_storage s, sl_entry_id = replicate 8 0, sl_time_of_entry = replicate 6 0,
     sl_bytes = 0, sl_sequence_number = 0, sl_buffer_overflow = False, sl_occupied = False\<rparr>"

subsection \<open>Configuration\<close>

definition brcb_data_set :: "data_set_entry list \<Rightarrow> brcb \<Rightarrow> data_set_entry option" where
  "brcb_data_set ds b = data_sets_find ds (Domain_specific (bd_data_set_domain (br_definition b))
     (bd_data_set_item (br_definition b)))"

definition brcb_initialize :: "object_entry list \<Rightarrow> data_set_entry list \<Rightarrow> brcb \<Rightarrow> bool \<times> brcb" where
  "brcb_initialize objs ds b =
     (let b = b\<lparr>br_initialized := False\<rparr>; d = br_definition b in
      if \<not> objects_valid objs \<or> \<not> data_sets_valid ds \<or> \<not> data_sets_valid_against ds objs \<or> br_slots b = []
      then (False, b)
      else if \<not> valid_reference (bd_domain d) (bd_item d) \<or> \<not> visible_ascii (bd_report_id d) 129 \<or>
        \<not> valid_reference (bd_data_set_domain d) (bd_data_set_item d) \<or>
        bd_optional_fields d ! 0 AND NOT 0x7F \<noteq> 0 \<or> bd_optional_fields d ! 1 AND NOT 0x80 \<noteq> 0 \<or>
        bd_optional_fields d ! 0 AND 0x01 = 0 \<or> bd_trigger_options d = 0 \<or>
        bd_trigger_options d AND NOT 0xFC \<noteq> 0
      then (False, b)
      else (case brcb_data_set ds b of
          None \<Rightarrow> (False, b)
        | Some x \<Rightarrow>
            if de_members x = [] \<or> length (de_members x) > 128 then (False, b)
            else if list_ex (\<lambda>s. sl_storage s = []) (br_slots b) then (False, b)
            else (True, b\<lparr>br_pending := \<lparr>pe_masks = replicate 128 0, pe_due_ms = 0, pe_revision = 1,
                             pe_member_count = 0, pe_pending = False\<rparr>,
                          br_slots := map clear_slot (br_slots b), br_head := 0, br_count := 0,
                          br_delivery_offset := 0, br_next_entry_number := 1, br_dropped_reports := 0,
                          br_next_integrity_due_ms := 0, br_queue_revision := 1, br_schedule_revision := 1,
                          br_sequence_number := 0, br_optional_fields := bd_optional_fields d,
                          br_trigger_options := bd_trigger_options d,
                          br_integrity_period_ms := bd_integrity_period_ms d, br_replay_gap := False,
                          br_interrogation_pending := False, br_integrity_armed := False,
                          br_enabled := False, br_initialized := True\<rparr>)))"

text \<open>The tail the configuration setters share: forget what is pending, disarm, bump revisions.\<close>

definition brcb_reschedule :: "bool \<Rightarrow> brcb \<Rightarrow> brcb" where
  "brcb_reschedule armed b =
     b\<lparr>br_pending := (clear_pending (br_pending b))\<lparr>pe_revision := bump_revision (pe_revision (br_pending b))\<rparr>,
       br_interrogation_pending := False, br_next_integrity_due_ms := 0, br_integrity_armed := armed,
       br_schedule_revision := bump_revision (br_schedule_revision b)\<rparr>"

definition brcb_set_enabled :: "bool \<Rightarrow> brcb \<Rightarrow> brcb_status \<times> brcb" where
  "brcb_set_enabled on b =
     (if \<not> br_initialized b then (Invalid_runtime, b)
      else if br_enabled b = on then (Brcb_ok, b)
      else (Brcb_ok, brcb_reschedule
        (on \<and> effective_integrity_period (br_integrity_period_ms b) \<noteq> 0 \<and> br_trigger_options b AND 0x08 \<noteq> 0)
        (b\<lparr>br_enabled := on\<rparr>)))"

definition brcb_set_optional_fields :: "bytes \<Rightarrow> brcb \<Rightarrow> brcb_status \<times> brcb" where
  "brcb_set_optional_fields opts b =
     (if \<not> br_initialized b then (Invalid_runtime, b)
      else if length opts \<noteq> length (br_optional_fields b) \<or> opts ! 0 AND NOT 0x7F \<noteq> 0 \<or> opts ! 1 AND NOT 0x80 \<noteq> 0
      then (Invalid_definition, b)
      else if br_enabled b then (Temporarily_unavailable, b)
      else if opts = br_optional_fields b then (Brcb_ok, b)
      else (Brcb_ok, brcb_reschedule False (b\<lparr>br_optional_fields := opts\<rparr>)))"

definition brcb_set_trigger_options :: "u8 \<Rightarrow> brcb \<Rightarrow> brcb_status \<times> brcb" where
  "brcb_set_trigger_options t b =
     (if \<not> br_initialized b then (Invalid_runtime, b)
      else if t AND NOT 0xFC \<noteq> 0 then (Invalid_definition, b)
      else if br_enabled b then (Temporarily_unavailable, b)
      else if br_trigger_options b = t then (Brcb_ok, b)
      else (Brcb_ok, brcb_reschedule False (b\<lparr>br_trigger_options := t\<rparr>)))"

definition brcb_set_integrity_period :: "u32 \<Rightarrow> brcb \<Rightarrow> brcb_status \<times> brcb" where
  "brcb_set_integrity_period ms b =
     (if \<not> br_initialized b then (Invalid_runtime, b)
      else if br_enabled b then (Temporarily_unavailable, b)
      else if br_integrity_period_ms b = ms then (Brcb_ok, b)
      else (Brcb_ok, brcb_reschedule False (b\<lparr>br_integrity_period_ms := ms\<rparr>)))"

subsection \<open>Events and scheduling\<close>

definition brcb_notify :: "data_set_entry list \<Rightarrow> nat \<Rightarrow> event_reason \<Rightarrow> u64 \<Rightarrow> brcb \<Rightarrow> brcb_status \<times> brcb" where
  "brcb_notify ds i reason now b =
     (if \<not> br_initialized b then (Invalid_runtime, b)
      else if \<not> br_enabled b then (Temporarily_unavailable, b)
      else let (trigger, code) = event_mapping reason in
        if br_trigger_options b AND trigger = 0 then (Trigger_not_selected, b)
        else (case brcb_data_set ds b of
            None \<Rightarrow> (Data_set_not_found, b)
          | Some x \<Rightarrow>
              if i \<ge> length (de_members x) \<or> i \<ge> 128 then (Member_out_of_range, b)
              else let p = br_pending b;
                       p = (if \<not> pe_pending p
                            then p\<lparr>pe_pending := True,
                                   pe_due_ms := saturating_add now (ucast (bd_buffer_time_ms (br_definition b)))\<rparr>
                            else p);
                       p = (if pe_masks p ! i = 0 then p\<lparr>pe_member_count := pe_member_count p + 1\<rparr> else p)
                in (Brcb_ok, b\<lparr>br_pending := p\<lparr>pe_masks := (pe_masks p)[i := pe_masks p ! i OR code],
                                                pe_revision := bump_revision (pe_revision p)\<rparr>\<rparr>)))"

definition brcb_request_interrogation :: "brcb \<Rightarrow> brcb_status \<times> brcb" where
  "brcb_request_interrogation b =
     (if \<not> br_initialized b then (Invalid_runtime, b)
      else if \<not> br_enabled b then (Temporarily_unavailable, b)
      else if br_trigger_options b AND 0x04 = 0 then (Trigger_not_selected, b)
      else if br_interrogation_pending b then (Brcb_ok, b)
      else (Brcb_ok, b\<lparr>br_interrogation_pending := True,
                       br_schedule_revision := bump_revision (br_schedule_revision b)\<rparr>))"

definition brcb_arm_integrity :: "u64 \<Rightarrow> brcb \<Rightarrow> brcb" where
  "brcb_arm_integrity now b =
     (if br_integrity_armed b \<and> br_next_integrity_due_ms b = 0
      then let period = effective_integrity_period (br_integrity_period_ms b) in
        b\<lparr>br_next_integrity_due_ms := (if period = 0 then 0 else saturating_add now (ucast period)),
          br_schedule_revision := bump_revision (br_schedule_revision b)\<rparr>
      else b)"

definition brcb_due_reason :: "u64 \<Rightarrow> brcb \<Rightarrow> capture_reason" where
  "brcb_due_reason now b =
     (if br_interrogation_pending b then Capture_interrogation
      else if pe_pending (br_pending b) \<and> pe_member_count (br_pending b) \<noteq> 0 \<and> now \<ge> pe_due_ms (br_pending b)
      then Capture_event
      else if br_integrity_armed b \<and> br_next_integrity_due_ms b \<noteq> 0 \<and> now \<ge> br_next_integrity_due_ms b
      then Capture_integrity
      else Capture_none)"

definition brcb_next_due :: "u64 \<Rightarrow> brcb \<Rightarrow> capture_plan option \<times> brcb" where
  "brcb_next_due now b =
     (if \<not> br_initialized b \<or> \<not> br_enabled b \<or> br_slots b = [] then (None, b)
      else let b = brcb_arm_integrity now b; reason = brcb_due_reason now b in
        if reason = Capture_none then (None, b)
        else (Some \<lparr>pl_pending_revision = pe_revision (br_pending b), pl_schedule_revision = br_schedule_revision b,
                    pl_queue_revision = br_queue_revision b, pl_entry_number = br_next_entry_number b,
                    pl_observed_now_ms = now, pl_sequence_number = next_sequence_number (br_sequence_number b),
                    pl_reason = reason,
                    pl_buffer_overflow = (br_count b = length (br_slots b) \<and> br_delivery_offset b = 0)\<rparr>, b))"

subsection \<open>Capture\<close>

definition brcb_plan_stale :: "capture_plan \<Rightarrow> brcb \<Rightarrow> bool" where
  "brcb_plan_stale pl b \<longleftrightarrow>
     (let p = br_pending b; event = (pl_reason pl = Capture_event); integrity = (pl_reason pl = Capture_integrity);
          gi = (pl_reason pl = Capture_interrogation); scheduled = (integrity \<or> gi) in
      \<not> br_enabled b \<or> (\<not> event \<and> \<not> scheduled) \<or> pl_queue_revision pl \<noteq> br_queue_revision b \<or>
      pl_entry_number pl \<noteq> br_next_entry_number b \<or>
      pl_sequence_number pl \<noteq> next_sequence_number (br_sequence_number b) \<or>
      pl_buffer_overflow pl \<noteq> (br_count b = length (br_slots b) \<and> br_delivery_offset b = 0) \<or>
      (event \<and> (\<not> pe_pending p \<or> pe_member_count p = 0 \<or> pl_pending_revision pl \<noteq> pe_revision p)) \<or>
      (scheduled \<and> pl_schedule_revision pl \<noteq> br_schedule_revision b) \<or>
      (gi \<and> \<not> br_interrogation_pending b) \<or>
      (integrity \<and> (\<not> br_integrity_armed b \<or> br_next_integrity_due_ms b = 0 \<or>
        pl_observed_now_ms pl < br_next_integrity_due_ms b)))"

text \<open>The member loop: the members with a reason are read into consecutive parts of the workspace.
  The failure carries status, required octets and the number of members read so far.\<close>

record included_member =
  im_index :: nat
  im_reference :: reference
  im_data :: bytes
  im_reason :: u8

fun brcb_collect :: "object_entry list \<Rightarrow> (nat \<Rightarrow> u8) \<Rightarrow> (string \<times> string) list \<Rightarrow> nat \<Rightarrow> bytes \<Rightarrow> nat \<Rightarrow>
    included_member list \<Rightarrow> (brcb_status \<times> nat \<times> nat) + included_member list" where
  "brcb_collect objs reason [] i remaining used acc = Inr acc"
| "brcb_collect objs reason ((d, item) # ms) i remaining used acc =
     (if reason i = 0 then brcb_collect objs reason ms (Suc i) remaining used acc
      else case objects_find objs (Domain_specific d item) of
          None \<Rightarrow> Inl (Object_not_found, 0, length acc)
        | Some x \<Rightarrow>
            (case the (oe_read x) remaining of ((status, written, required), content) \<Rightarrow>
               if status = Buffer_too_small
               then Inl (Workspace_too_small, (if required \<le> 2 ^ 64 - 1 - used then used + required else 0), length acc)
               else if status \<noteq> Encode_ok \<or> written > length remaining \<or> \<not> valid_mms_data (take written content)
               then Inl (Backend_failure, 0, length acc)
               else brcb_collect objs reason ms (Suc i) (drop written content) (used + written)
                      (acc @ [\<lparr>im_index = i, im_reference = (d, item), im_data = take written content,
                               im_reason = reason i\<rparr>])))"

definition brcb_snapshot :: "brcb \<Rightarrow> capture_plan \<Rightarrow> bytes \<Rightarrow> nat \<Rightarrow> included_member list \<Rightarrow> report_snapshot" where
  "brcb_snapshot b pl report_time n ms =
     (let d = br_definition b in
      \<lparr>rs_report_id = bd_report_id d, rs_optional_fields = br_optional_fields b,
       rs_sequence_number = ucast (pl_sequence_number pl), rs_report_time = report_time,
       rs_data_set_reference = (bd_data_set_domain d, bd_data_set_item d),
       rs_buffer_overflow = pl_buffer_overflow pl, rs_entry_id = encode_entry_id (pl_entry_number pl),
       rs_conf_revision = bd_conf_revision d, rs_member_count = n,
       rs_included_indices = map im_index ms, rs_included_references = map im_reference ms,
       rs_included_results = map (\<lambda>m. \<lparr>ra_success = True, ra_encoded_data = im_data m, ra_failure_code = 0\<rparr>) ms,
       rs_included_reasons = (if br_optional_fields b ! 0 AND 0x10 \<noteq> 0 then map im_reason ms else [])\<rparr>)"

definition brcb_store :: "capture_plan \<Rightarrow> bytes \<Rightarrow> bytes \<Rightarrow> brcb_slot \<Rightarrow> brcb_slot" where
  "brcb_store pl report_time octets s =
     \<lparr>sl_storage = octets @ drop (length octets) (sl_storage s), sl_entry_id = encode_entry_id (pl_entry_number pl),
      sl_time_of_entry = (if length report_time = 6 then report_time else replicate 6 0), sl_bytes = length octets,
      sl_sequence_number = pl_sequence_number pl, sl_buffer_overflow = pl_buffer_overflow pl, sl_occupied = True\<rparr>"

text \<open>What a successful capture does to the queue, then to the cause of the report.\<close>

definition brcb_enqueue :: "capture_plan \<Rightarrow> bytes \<Rightarrow> bytes \<Rightarrow> brcb \<Rightarrow> brcb" where
  "brcb_enqueue pl report_time octets b =
     (let n = length (br_slots b); full = (br_count b = n);
          target = (if full then br_head b else (br_head b + br_count b) mod n);
          b' = b\<lparr>br_slots := (br_slots b)[target := brcb_store pl report_time octets (br_slots b ! target)]\<rparr>;
          b' = (if full then
                  (if br_delivery_offset b = 0
                   then b'\<lparr>br_dropped_reports := br_dropped_reports b + 1, br_replay_gap := True\<rparr>
                   else b'\<lparr>br_delivery_offset := br_delivery_offset b - 1\<rparr>)\<lparr>br_head := (br_head b + 1) mod n\<rparr>
                else b'\<lparr>br_count := br_count b + 1\<rparr>)
      in b'\<lparr>br_sequence_number := pl_sequence_number pl, br_next_entry_number := next_entry_number (pl_entry_number pl)\<rparr>)"

definition brcb_retire_cause :: "capture_plan \<Rightarrow> brcb \<Rightarrow> brcb" where
  "brcb_retire_cause pl b =
     (let b' = (case pl_reason pl of
          Capture_event \<Rightarrow> b\<lparr>br_pending := (clear_pending (br_pending b))\<lparr>pe_revision := bump_revision (pe_revision (br_pending b))\<rparr>\<rparr>
        | Capture_interrogation \<Rightarrow> b\<lparr>br_interrogation_pending := False,
            br_schedule_revision := bump_revision (br_schedule_revision b)\<rparr>
        | Capture_integrity \<Rightarrow>
            (let period = effective_integrity_period (br_integrity_period_ms b) in
             b\<lparr>br_next_integrity_due_ms := (if period = 0 then 0 else saturating_add (pl_observed_now_ms pl) (ucast period)),
               br_integrity_armed := (period \<noteq> 0 \<and> br_enabled b \<and> br_trigger_options b AND 0x08 \<noteq> 0),
               br_schedule_revision := bump_revision (br_schedule_revision b)\<rparr>)
        | Capture_none \<Rightarrow> b)
      in b'\<lparr>br_queue_revision := bump_revision (br_queue_revision b')\<rparr>)"

definition capture_failure :: "brcb_status \<Rightarrow> nat \<Rightarrow> nat \<Rightarrow> bytes \<Rightarrow> capture_result" where
  "capture_failure s required included entry_id = \<lparr>cres_status = s, cres_bytes_written = 0,
     cres_required_bytes = required, cres_included = included, cres_entry_id = entry_id\<rparr>"

text \<open>\<open>capture\<close> up to the point where it starts to change the block: a failure, or the result and the
  octets of the report.\<close>

definition brcb_prepare :: "object_entry list \<Rightarrow> data_set_entry list \<Rightarrow> capture_plan \<Rightarrow> bytes \<Rightarrow> bytes \<Rightarrow> bytes \<Rightarrow>
    brcb \<Rightarrow> capture_result + capture_result \<times> bytes" where
  "brcb_prepare objs ds pl report_time encode_buffer workspace b =
     (let no_entry = replicate 8 0; fail = (\<lambda>s. capture_failure s 0 0 no_entry) in
      if \<not> br_initialized b \<or> br_slots b = [] \<or> br_delivery_offset b > br_count b then Inl (fail Invalid_runtime)
      else if brcb_plan_stale pl b then Inl (fail Stale_plan)
      else (case brcb_data_set ds b of
          None \<Rightarrow> Inl (fail Data_set_not_found)
        | Some x \<Rightarrow>
            let scheduled = (pl_reason pl = Capture_integrity \<or> pl_reason pl = Capture_interrogation);
                reason = (\<lambda>i. if scheduled then scheduled_reason_mask (pl_reason pl) else pe_masks (br_pending b) ! i) in
            (case brcb_collect objs reason (de_members x) 0 workspace 0 [] of
               Inl (s, required, included) \<Rightarrow> Inl (capture_failure s required included no_entry)
             | Inr ms \<Rightarrow>
                 let included = length ms;
                     expected = (if scheduled then length (de_members x) else pe_member_count (br_pending b));
                     entry_id = encode_entry_id (pl_entry_number pl) in
                 if included = 0 \<or> included \<noteq> expected then Inl (capture_failure Stale_plan 0 included no_entry)
                 else (case report_encode_into (brcb_snapshot b pl report_time (length (de_members x)) ms) encode_buffer of
                   ((status, written, required), buffer) \<Rightarrow>
                     if status \<noteq> Encode_ok
                     then Inl (capture_failure (if status = Buffer_too_small then Response_buffer_too_small
                             else Report_encode_failed) required included entry_id)
                     else let n = length (br_slots b);
                              target = (if br_count b = n then br_head b else (br_head b + br_count b) mod n) in
                       if length (sl_storage (br_slots b ! target)) < written
                       then Inl (capture_failure Slot_too_small written included entry_id)
                       else Inr (\<lparr>cres_status = Brcb_ok, cres_bytes_written = written, cres_required_bytes = required,
                                  cres_included = included, cres_entry_id = entry_id\<rparr>, take written buffer)))))"

definition brcb_capture :: "object_entry list \<Rightarrow> data_set_entry list \<Rightarrow> capture_plan \<Rightarrow> bytes \<Rightarrow> bytes \<Rightarrow> bytes \<Rightarrow>
    brcb \<Rightarrow> capture_result \<times> brcb" where
  "brcb_capture objs ds pl report_time encode_buffer workspace b =
     (case brcb_prepare objs ds pl report_time encode_buffer workspace b of
        Inl res \<Rightarrow> (res, b)
      | Inr (res, octets) \<Rightarrow> (res, brcb_retire_cause pl (brcb_enqueue pl report_time octets b)))"

subsection \<open>Delivery and replay\<close>

record entry_view =
  ev_pdu :: bytes
  ev_entry_id :: bytes
  ev_sequence_number :: u8
  ev_buffer_overflow :: bool

definition slot_view :: "brcb_slot \<Rightarrow> entry_view" where
  "slot_view s = \<lparr>ev_pdu = take (sl_bytes s) (sl_storage s), ev_entry_id = sl_entry_id s,
     ev_sequence_number = sl_sequence_number s, ev_buffer_overflow = sl_buffer_overflow s\<rparr>"

definition brcb_front :: "brcb \<Rightarrow> entry_view option" where
  "brcb_front b =
     (if \<not> br_initialized b \<or> br_count b = 0 \<or> br_delivery_offset b \<ge> br_count b \<or> br_head b \<ge> length (br_slots b)
      then None
      else let s = br_slots b ! ((br_head b + br_delivery_offset b) mod length (br_slots b)) in
        if \<not> sl_occupied s \<or> sl_bytes s = 0 \<or> sl_bytes s > length (sl_storage s) then None else Some (slot_view s))"

definition brcb_commit_delivery :: "bytes \<Rightarrow> brcb \<Rightarrow> brcb_status \<times> brcb" where
  "brcb_commit_delivery eid b =
     (if \<not> br_initialized b \<or> br_slots b = [] \<or> br_delivery_offset b > br_count b then (Invalid_runtime, b)
      else if br_delivery_offset b \<ge> br_count b \<or> br_head b \<ge> length (br_slots b) then (Entry_not_found, b)
      else let s = br_slots b ! ((br_head b + br_delivery_offset b) mod length (br_slots b)) in
        if \<not> sl_occupied s \<or> \<not> entry_id_equal eid (sl_entry_id s) then (Entry_not_found, b)
        else (Brcb_ok, b\<lparr>br_delivery_offset := br_delivery_offset b + 1,
                         br_queue_revision := bump_revision (br_queue_revision b)\<rparr>))"

definition brcb_find_entry :: "bytes \<Rightarrow> brcb \<Rightarrow> nat option" where
  "brcb_find_entry eid b =
     (if \<not> br_initialized b \<or> length eid \<noteq> 8 \<or> br_count b > length (br_slots b) \<or> br_head b \<ge> length (br_slots b)
      then None
      else find (\<lambda>i. let s = br_slots b ! ((br_head b + i) mod length (br_slots b)) in
                      sl_occupied s \<and> entry_id_equal eid (sl_entry_id s)) [0..<br_count b])"

definition brcb_replay_from :: "bytes \<Rightarrow> brcb \<Rightarrow> brcb_status \<times> brcb" where
  "brcb_replay_from eid b =
     (if \<not> br_initialized b then (Invalid_runtime, b)
      else case brcb_find_entry eid b of
          None \<Rightarrow> (Entry_not_found, b)
        | Some i \<Rightarrow> (Brcb_ok, b\<lparr>br_delivery_offset := i, br_queue_revision := bump_revision (br_queue_revision b)\<rparr>))"

definition brcb_resume_after :: "bytes \<Rightarrow> brcb \<Rightarrow> brcb_status \<times> brcb" where
  "brcb_resume_after eid b =
     (if \<not> br_initialized b then (Invalid_runtime, b)
      else case brcb_find_entry eid b of
          None \<Rightarrow> (Entry_not_found, b)
        | Some i \<Rightarrow> (Brcb_ok, b\<lparr>br_delivery_offset := i + 1, br_queue_revision := bump_revision (br_queue_revision b)\<rparr>))"

definition brcb_rewind_to_oldest :: "brcb \<Rightarrow> brcb_status \<times> brcb" where
  "brcb_rewind_to_oldest b =
     (if \<not> br_initialized b \<or> br_count b > length (br_slots b) then (Invalid_runtime, b)
      else (Brcb_ok, b\<lparr>br_delivery_offset := 0, br_queue_revision := bump_revision (br_queue_revision b)\<rparr>))"

definition brcb_purge_buffer :: "brcb \<Rightarrow> brcb_status \<times> brcb" where
  "brcb_purge_buffer b =
     (if \<not> br_initialized b \<or> br_slots b = [] then (Invalid_runtime, b)
      else (Brcb_ok, b\<lparr>br_slots := map clear_slot (br_slots b), br_head := 0, br_count := 0,
                       br_delivery_offset := 0, br_replay_gap := False,
                       br_queue_revision := bump_revision (br_queue_revision b)\<rparr>))"

definition brcb_latest_slot :: "brcb \<Rightarrow> brcb_slot option" where
  "brcb_latest_slot b =
     (if \<not> br_initialized b \<or> br_slots b = [] \<or> br_count b = 0 \<or> br_count b > length (br_slots b) \<or>
        br_head b \<ge> length (br_slots b) then None
      else let s = br_slots b ! ((br_head b + br_count b - 1) mod length (br_slots b)) in
        if sl_occupied s then Some s else None)"

definition brcb_latest_entry_id :: "brcb \<Rightarrow> bytes" where
  "brcb_latest_entry_id b = (case brcb_latest_slot b of None \<Rightarrow> replicate 8 0 | Some s \<Rightarrow> sl_entry_id s)"

definition brcb_latest_time_of_entry :: "brcb \<Rightarrow> bytes" where
  "brcb_latest_time_of_entry b = (case brcb_latest_slot b of None \<Rightarrow> replicate 6 0 | Some s \<Rightarrow> sl_time_of_entry s)"

definition brcb_queue_size :: "brcb \<Rightarrow> nat" where
  "brcb_queue_size b = (if br_delivery_offset b \<le> br_count b then br_count b - br_delivery_offset b else 0)"

subsection \<open>The ring of retained entries\<close>

definition ring_slot :: "brcb \<Rightarrow> nat \<Rightarrow> brcb_slot" where
  "ring_slot b i = br_slots b ! ((br_head b + i) mod length (br_slots b))"

definition ring_ok :: "brcb \<Rightarrow> bool" where
  "ring_ok b \<longleftrightarrow> br_slots b \<noteq> [] \<and> br_head b < length (br_slots b) \<and> br_count b \<le> length (br_slots b) \<and>
     br_delivery_offset b \<le> br_count b"

lemma ring_index_inj:
  assumes "i < n" "j < n" "(h + i) mod n = (h + j) mod (n :: nat)"
  shows "i = j"
proof -
  have le: "a = b" if "a \<le> b" "b < n" "(h + a) mod n = (h + b) mod n" for a b
  proof -
    have "n dvd (h + b) - (h + a)" using that by (subst mod_eq_dvd_iff_nat [symmetric]) auto
    then have "n dvd b - a" by simp
    with that show ?thesis by (auto dest: dvd_imp_le)
  qed
  from assms show ?thesis by (metis le nat_le_linear)
qed

lemma ring_slot_enqueue:
  fixes pl :: capture_plan and t octets :: bytes
  assumes "ring_ok b"
  defines "b' \<equiv> brcb_enqueue pl t octets b" and "n \<equiv> length (br_slots b)"
  shows "length (br_slots b') = n" "br_head b' < n"
    "br_count b' = (if br_count b = n then n else br_count b + 1)"
    "\<And>i. i < br_count b' - 1 \<Longrightarrow> ring_slot b' i = ring_slot b (if br_count b = n then Suc i else i)"
    "\<exists>s. ring_slot b' (br_count b' - 1) = brcb_store pl t octets s \<and>
       s = br_slots b ! (if br_count b = n then br_head b else (br_head b + br_count b) mod n)"
proof -
  have ok: "0 < n" "br_head b < n" "br_count b \<le> n" using assms(1) by (auto simp: ring_ok_def n_def)
  define target where "target = (if br_count b = n then br_head b else (br_head b + br_count b) mod n)"
  have target: "target < n" using ok by (simp add: target_def)
  have slots: "br_slots b' = (br_slots b)[target := brcb_store pl t octets (br_slots b ! target)]"
    by (simp add: b'_def brcb_enqueue_def Let_def target_def n_def)
  have head: "br_head b' = (if br_count b = n then (br_head b + 1) mod n else br_head b)"
    by (simp add: b'_def brcb_enqueue_def Let_def n_def)
  show len: "length (br_slots b') = n" by (simp add: slots n_def)
  show "br_head b' < n" using ok by (simp add: head)
  show count: "br_count b' = (if br_count b = n then n else br_count b + 1)"
    by (simp add: b'_def brcb_enqueue_def Let_def n_def)
  have pos: "(br_head b' + i) mod n = (br_head b + (if br_count b = n then Suc i else i)) mod n" for i
    by (simp add: head mod_add_left_eq)
  show "ring_slot b' i = ring_slot b (if br_count b = n then Suc i else i)" if i: "i < br_count b' - 1" for i
  proof -
    let ?j = "if br_count b = n then Suc i else i"
    have "(br_head b + ?j) mod n \<noteq> target"
    proof
      assume "(br_head b + ?j) mod n = target"
      then have "(br_head b + ?j) mod n = (br_head b + (if br_count b = n then 0 else br_count b)) mod n"
        using ok by (simp add: target_def)
      moreover have "?j < n" "(if br_count b = n then 0 else br_count b) < n" "?j \<noteq> (if br_count b = n then 0 else br_count b)"
        using i count ok by (auto simp: less_diff_conv split: if_splits)
      ultimately show False using ring_index_inj by blast
    qed
    then show ?thesis by (simp add: ring_slot_def len pos slots n_def [symmetric])
  qed
  have "(br_head b' + (br_count b' - 1)) mod n = target"
    using ok by (subst pos) (auto simp: count target_def)
  then show "\<exists>s. ring_slot b' (br_count b' - 1) = brcb_store pl t octets s \<and>
       s = br_slots b ! (if br_count b = n then br_head b else (br_head b + br_count b) mod n)"
    using target by (auto simp: ring_slot_def len slots target_def n_def)
qed

text \<open>The abstract log: retained entries, oldest first, and the delivery cursor.\<close>

record report_log =
  rl_entries :: "entry_view list"
  rl_cursor :: nat

definition brcb_log :: "brcb \<Rightarrow> report_log" where
  "brcb_log b = \<lparr>rl_entries = map (\<lambda>i. slot_view (ring_slot b i)) [0..<br_count b], rl_cursor = br_delivery_offset b\<rparr>"

definition log_append :: "nat \<Rightarrow> entry_view \<Rightarrow> report_log \<Rightarrow> report_log" where
  "log_append capacity e l =
     (if length (rl_entries l) = capacity
      then \<lparr>rl_entries = tl (rl_entries l) @ [e], rl_cursor = rl_cursor l - 1\<rparr>
      else l\<lparr>rl_entries := rl_entries l @ [e]\<rparr>)"

definition log_undelivered :: "report_log \<Rightarrow> entry_view list" where
  "log_undelivered l = drop (rl_cursor l) (rl_entries l)"

lemma log_append_undelivered:
  assumes "rl_cursor l \<le> length (rl_entries l)" "length (rl_entries l) \<le> capacity" "0 < capacity"
  shows "log_undelivered (log_append capacity e l) =
    (if length (rl_entries l) = capacity \<and> rl_cursor l = 0 then tl (log_undelivered l) else log_undelivered l) @ [e]"
  using assms
  by (cases "rl_entries l"; cases "rl_cursor l") (auto simp: log_append_def log_undelivered_def)

lemma length_brcb_log [simp]: "length (rl_entries (brcb_log b)) = br_count b" "rl_cursor (brcb_log b) = br_delivery_offset b"
  by (simp_all add: brcb_log_def)

lemma brcb_log_enqueue:
  assumes "ring_ok b"
  shows "brcb_log (brcb_enqueue pl t octets b) = log_append (length (br_slots b))
    \<lparr>ev_pdu = octets, ev_entry_id = encode_entry_id (pl_entry_number pl),
     ev_sequence_number = pl_sequence_number pl, ev_buffer_overflow = pl_buffer_overflow pl\<rparr> (brcb_log b)"
proof -
  let ?b = "brcb_enqueue pl t octets b" and ?n = "length (br_slots b)"
  note enq = ring_slot_enqueue [OF assms, where pl = pl and t = t and octets = octets]
  have ok: "0 < ?n" "br_count b \<le> ?n" using assms by (auto simp: ring_ok_def)
  have last: "slot_view (ring_slot ?b (br_count ?b - 1)) = \<lparr>ev_pdu = octets, ev_entry_id = encode_entry_id (pl_entry_number pl),
     ev_sequence_number = pl_sequence_number pl, ev_buffer_overflow = pl_buffer_overflow pl\<rparr>"
    using enq(5) by (auto simp: slot_view_def brcb_store_def)
  have count: "br_count ?b = Suc (br_count ?b - 1)" using enq(3) ok by auto
  have "map (\<lambda>i. slot_view (ring_slot ?b i)) [0..<br_count ?b] =
      map (\<lambda>i. slot_view (ring_slot ?b i)) [0..<br_count ?b - 1] @ [slot_view (ring_slot ?b (br_count ?b - 1))]"
    by (subst count) simp
  also have "map (\<lambda>i. slot_view (ring_slot ?b i)) [0..<br_count ?b - 1] =
      (if br_count b = ?n then tl (rl_entries (brcb_log b)) else rl_entries (brcb_log b))"
    using enq(3,4) ok by (auto intro!: nth_equalityI simp: brcb_log_def nth_tl)
  finally have entries: "rl_entries (brcb_log ?b) =
      (if br_count b = ?n then tl (rl_entries (brcb_log b)) else rl_entries (brcb_log b)) @ [slot_view (ring_slot ?b (br_count ?b - 1))]"
    by (simp add: brcb_log_def)
  moreover have "rl_cursor (brcb_log ?b) = (if br_count b = ?n then br_delivery_offset b - 1 else br_delivery_offset b)"
    by (auto simp: brcb_enqueue_def Let_def)
  ultimately show ?thesis unfolding last
    by (intro report_log.equality) (auto simp: log_append_def)
qed

subsection \<open>Invariant\<close>

text \<open>Retained entries are complete and consecutively numbered up to the next number; pending members
  are counted exactly.\<close>

definition slot_ok :: "nat \<Rightarrow> brcb_slot \<Rightarrow> bool" where
  "slot_ok k s \<longleftrightarrow> sl_occupied s \<and> 0 < sl_bytes s \<and> sl_bytes s \<le> length (sl_storage s) \<and>
     sl_entry_id s = encode_entry_id (of_nat k)"

definition entries_ok :: "brcb \<Rightarrow> bool" where
  "entries_ok b \<longleftrightarrow> (\<exists>first. 1 \<le> first \<and> unat (br_next_entry_number b) = first + br_count b \<and>
     (\<forall>i < br_count b. slot_ok (first + i) (ring_slot b i)))"

definition pending_ok :: "pending_state \<Rightarrow> bool" where
  "pending_ok p \<longleftrightarrow> length (pe_masks p) = 128 \<and> pe_member_count p = length (filter (\<lambda>m. m \<noteq> 0) (pe_masks p)) \<and>
     (pe_pending p \<longleftrightarrow> pe_member_count p \<noteq> 0)"

definition brcb_inv :: "brcb \<Rightarrow> bool" where
  "brcb_inv b \<longleftrightarrow> br_initialized b \<and> ring_ok b \<and> entries_ok b \<and> pending_ok (br_pending b) \<and>
     length (br_optional_fields b) = 2"

lemma length_filter_update:
  "i < length xs \<Longrightarrow> length (filter P (xs[i := x])) + (if P (xs ! i) then 1 else 0) =
     length (filter P xs) + (if P x then 1 else 0)"
proof -
  assume i: "i < length xs"
  have "length (filter P xs) = length (filter P (take i xs)) + (if P (xs ! i) then 1 else 0) + length (filter P (drop (Suc i) xs))"
    by (subst id_take_nth_drop [OF i]) simp
  then show ?thesis by (simp add: upd_conv_take_nth_drop [OF i])
qed

lemma pending_ok_clear: "length (pe_masks p) = 128 \<Longrightarrow> pending_ok ((clear_pending p)\<lparr>pe_revision := r\<rparr>)"
  by (simp add: pending_ok_def clear_pending_def)

lemma pending_ok_mark:
  fixes due :: u64
  assumes "pending_ok p" "i < 128" "code \<noteq> 0"
  defines "p1 \<equiv> (if \<not> pe_pending p then p\<lparr>pe_pending := True, pe_due_ms := due\<rparr> else p)"
  defines "p2 \<equiv> (if pe_masks p1 ! i = 0 then p1\<lparr>pe_member_count := pe_member_count p1 + 1\<rparr> else p1)"
  shows "pending_ok (p2\<lparr>pe_masks := (pe_masks p2)[i := pe_masks p2 ! i OR code], pe_revision := r\<rparr>)"
proof -
  let ?nz = "\<lambda>m :: u8. m \<noteq> 0"
  have len: "length (pe_masks p) = 128" using assms(1) by (simp add: pending_ok_def)
  have "pe_masks p ! i OR code \<noteq> 0" using assms(3) by (simp add: or_eq_0_iff)
  then have upd: "length (filter ?nz ((pe_masks p)[i := pe_masks p ! i OR code])) + (if pe_masks p ! i \<noteq> 0 then 1 else 0) =
      length (filter ?nz (pe_masks p)) + 1"
    using length_filter_update [of i "pe_masks p" ?nz "pe_masks p ! i OR code"] len assms(2) by simp
  have nz: "pe_masks p ! i \<noteq> 0 \<Longrightarrow> 0 < length (filter ?nz (pe_masks p))"
    using len assms(2) by (auto simp: filter_empty_conv intro!: bexI [of _ "pe_masks p ! i"])
  show ?thesis using assms(1) upd nz by (auto simp: p1_def p2_def pending_ok_def)
qed

lemma encode_entry_id_inj: "encode_entry_id m = encode_entry_id n \<longleftrightarrow> m = n"
proof -
  have "be_value (encode_entry_id k) = k" for k
    using be_value_be_bytes [of 8 k, where 'b = 64] by (simp add: encode_entry_id_def)
  then show ?thesis by metis
qed

lemma length_encode_entry_id [simp]: "length (encode_entry_id n) = 8"
  by (simp add: encode_entry_id_def)

text \<open>The fields the invariant reads.\<close>

lemma brcb_inv_cong:
  assumes "brcb_inv b" "br_initialized b' = br_initialized b" "br_slots b' = br_slots b" "br_head b' = br_head b"
    "br_count b' = br_count b" "br_delivery_offset b' \<le> br_count b'" "br_next_entry_number b' = br_next_entry_number b"
    "pending_ok (br_pending b')" "length (br_optional_fields b') = 2"
  shows "brcb_inv b'"
proof -
  have "ring_slot b' = ring_slot b" by (rule ext) (simp add: ring_slot_def assms)
  with assms show ?thesis by (simp add: brcb_inv_def ring_ok_def entries_ok_def)
qed

lemma brcb_inv_facts:
  assumes "brcb_inv b"
  shows "br_initialized b" "ring_ok b" "entries_ok b" "pending_ok (br_pending b)" "length (br_optional_fields b) = 2"
    "br_delivery_offset b \<le> br_count b" "br_count b \<le> length (br_slots b)" "br_head b < length (br_slots b)" "br_slots b \<noteq> []"
    "length (pe_masks (br_pending b)) = 128"
  using assms by (auto simp: brcb_inv_def ring_ok_def pending_ok_def)

lemma brcb_reschedule_inv: "brcb_inv b \<Longrightarrow> brcb_inv (brcb_reschedule armed b)"
  by (rule brcb_inv_cong [of b]) (simp_all add: brcb_reschedule_def pending_ok_clear brcb_inv_facts)

lemma brcb_retire_cause_inv: "brcb_inv b \<Longrightarrow> brcb_inv (brcb_retire_cause pl b)"
  by (rule brcb_inv_cong [of b])
    (simp_all add: brcb_retire_cause_def Let_def pending_ok_clear brcb_inv_facts split: capture_reason.split)

lemma brcb_enqueue_inv:
  assumes inv: "brcb_inv b" and number: "pl_entry_number pl = br_next_entry_number b"
    and small: "unat (br_next_entry_number b) < 2 ^ 64 - 1" and octets: "octets \<noteq> []"
    and room: "length octets \<le> length (sl_storage (br_slots b !
      (if br_count b = length (br_slots b) then br_head b else (br_head b + br_count b) mod length (br_slots b))))"
  shows "brcb_inv (brcb_enqueue pl t octets b)"
proof -
  let ?b = "brcb_enqueue pl t octets b" and ?n = "length (br_slots b)" and ?k = "unat (br_next_entry_number b)"
  note f = brcb_inv_facts [OF inv]
  note enq = ring_slot_enqueue [OF f(2), where pl = pl and t = t and octets = octets]
  have next_num: "unat (br_next_entry_number ?b) = ?k + 1"
  proof -
    have "br_next_entry_number b \<noteq> - 1"
      using small by (auto simp: unsigned_minus_1_eq_mask mask_eq_exp_minus_1)
    then have "br_next_entry_number ?b = br_next_entry_number b + 1"
      by (simp add: brcb_enqueue_def Let_def number next_entry_number_def)
    then show ?thesis using small by (simp add: unat_word_ariths)
  qed
  obtain first where first: "1 \<le> first" "?k = first + br_count b"
      and old: "\<And>i. i < br_count b \<Longrightarrow> slot_ok (first + i) (ring_slot b i)"
    using f(3) by (auto simp: entries_ok_def)
  have n: "0 < ?n" using f(9) by simp
  define first' where "first' = (if br_count b = ?n then Suc first else first)"
  have "slot_ok (first' + i) (ring_slot ?b i)" if i: "i < br_count ?b" for i
  proof (cases "i = br_count ?b - 1")
    case True
    have k: "first' + i = ?k" using True first n by (simp add: enq(3) first'_def)
    obtain s where "ring_slot ?b i = brcb_store pl t octets s" "length octets \<le> length (sl_storage s)"
      using enq(5) room True by metis
    then show ?thesis unfolding k using octets number by (simp add: slot_ok_def brcb_store_def)
  next
    case False
    let ?j = "if br_count b = ?n then Suc i else i"
    have i1: "i < br_count ?b - 1" using False i by simp
    then have "?j < br_count b" "first' + i = first + ?j"
      by (auto simp: enq(3) less_diff_conv first'_def split: if_splits)
    with old [of ?j] enq(4) [OF i1] show ?thesis by simp
  qed
  moreover have "1 \<le> first'" "?k + 1 = first' + br_count ?b" using first by (auto simp: enq(3) first'_def)
  ultimately have "entries_ok ?b" unfolding entries_ok_def next_num by blast
  moreover have "ring_ok ?b"
    using enq(1-3) f(6-9) by (auto simp: ring_ok_def brcb_enqueue_def Let_def)
  moreover have "br_initialized ?b" "br_pending ?b = br_pending b" "br_optional_fields ?b = br_optional_fields b"
    using f(1) by (simp_all add: brcb_enqueue_def Let_def)
  ultimately show ?thesis using f(4,5) by (simp add: brcb_inv_def)
qed

lemma event_mapping_nonzero: "snd (event_mapping r) \<noteq> 0"
  by (cases r) simp_all

lemma brcb_notify_inv: "brcb_inv b \<Longrightarrow> brcb_inv (snd (brcb_notify ds i reason now b))"
proof -
  assume inv: "brcb_inv b"
  show ?thesis
  proof (cases "snd (brcb_notify ds i reason now b) = b")
    case False
    let ?code = "snd (event_mapping reason)" and ?p = "br_pending b"
    let ?due = "saturating_add now (ucast (bd_buffer_time_ms (br_definition b)))"
    let ?p1 = "if \<not> pe_pending ?p then ?p\<lparr>pe_pending := True, pe_due_ms := ?due\<rparr> else ?p"
    let ?p2 = "if pe_masks ?p1 ! i = 0 then ?p1\<lparr>pe_member_count := pe_member_count ?p1 + 1\<rparr> else ?p1"
    from False have "i < 128"
      and eq: "snd (brcb_notify ds i reason now b) = b\<lparr>br_pending := ?p2\<lparr>pe_masks := (pe_masks ?p2)[i := pe_masks ?p2 ! i OR ?code],
        pe_revision := bump_revision (pe_revision ?p2)\<rparr>\<rparr>"
      by (auto simp: brcb_notify_def Let_def case_prod_unfold split: option.splits if_splits)
    then have "pending_ok (?p2\<lparr>pe_masks := (pe_masks ?p2)[i := pe_masks ?p2 ! i OR ?code],
        pe_revision := bump_revision (pe_revision ?p2)\<rparr>)"
      by (intro pending_ok_mark brcb_inv_facts(4) [OF inv] event_mapping_nonzero)
    then show ?thesis
      unfolding eq by (intro brcb_inv_cong [OF inv]) (simp_all add: brcb_inv_facts [OF inv])
  qed (simp add: inv)
qed

lemma brcb_next_due_inv: "brcb_inv b \<Longrightarrow> brcb_inv (snd (brcb_next_due now b))"
proof -
  assume inv: "brcb_inv b"
  have "brcb_inv (brcb_arm_integrity now b)"
    by (rule brcb_inv_cong [OF inv]) (simp_all add: brcb_arm_integrity_def Let_def brcb_inv_facts [OF inv])
  with inv show ?thesis by (simp add: brcb_next_due_def Let_def)
qed

lemma brcb_find_entry_bound: "brcb_find_entry eid b = Some i \<Longrightarrow> i < br_count b"
  by (auto simp: brcb_find_entry_def find_Some_iff split: if_splits)

lemma brcb_collect_fails: "brcb_collect objs reason ms i rem used acc = Inl (s, req, n) \<Longrightarrow> s \<noteq> Brcb_ok"
  by (induction objs reason ms i rem used acc rule: brcb_collect.induct)
    (auto split: if_splits option.splits prod.splits)

lemma brcb_prepare_failure: "brcb_prepare objs ds pl t buf ws b = Inl res \<Longrightarrow> cres_status res \<noteq> Brcb_ok"
  using brcb_collect_fails
  by (fastforce simp: brcb_prepare_def Let_def capture_failure_def split: if_splits option.splits sum.splits prod.splits)

lemma brcb_prepare_success:
  assumes "brcb_prepare objs ds pl t buf ws b = Inr (res, octets)"
  obtains x ms r where
    "brcb_data_set ds b = Some x" "\<not> brcb_plan_stale pl b" "cres_status res = Brcb_ok"
    "r = brcb_snapshot b pl t (length (de_members x)) ms" "report_valid r"
    "brcb_collect objs (\<lambda>i. if pl_reason pl = Capture_integrity \<or> pl_reason pl = Capture_interrogation
       then scheduled_reason_mask (pl_reason pl) else pe_masks (br_pending b) ! i) (de_members x) 0 ws 0 [] = Inr ms"
    "octets = report_pdu r" "octets \<noteq> []"
    "length octets \<le> length (sl_storage (br_slots b !
      (if br_count b = length (br_slots b) then br_head b else (br_head b + br_count b) mod length (br_slots b))))"
    "length ms = (if pl_reason pl = Capture_integrity \<or> pl_reason pl = Capture_interrogation
       then length (de_members x) else pe_member_count (br_pending b))"
    "cres_entry_id res = encode_entry_id (pl_entry_number pl)"
proof -
  let ?reason = "\<lambda>i. if pl_reason pl = Capture_integrity \<or> pl_reason pl = Capture_interrogation
       then scheduled_reason_mask (pl_reason pl) else pe_masks (br_pending b) ! i"
  have live: "br_initialized b" "br_slots b \<noteq> []" "\<not> br_delivery_offset b > br_count b" "\<not> brcb_plan_stale pl b"
    using assms by (simp_all add: brcb_prepare_def Let_def split: if_splits)
  obtain x where x: "brcb_data_set ds b = Some x"
    using assms live by (simp add: brcb_prepare_def Let_def split: option.splits)
  obtain ms where ms: "brcb_collect objs ?reason (de_members x) 0 ws 0 [] = Inr ms"
    using assms live x by (auto simp: brcb_prepare_def Let_def split: sum.splits)
  define r where "r = brcb_snapshot b pl t (length (de_members x)) ms"
  obtain st written required buffer where enc: "report_encode_into r buf = ((st, written, required), buffer)"
    by (metis surj_pair)
  note rest = assms [unfolded brcb_prepare_def Let_def, simplified live x ms option.case sum.case simp_thms if_False,
      folded r_def, unfolded enc, simplified prod.case]
  have st: "st = Encode_ok" using rest by (simp split: if_splits)
  note ok = report_encode_success [OF enc [unfolded st]]
  have "octets = take written buffer" using rest st by (simp split: if_splits)
  then have octets: "octets = report_pdu r" using ok by simp
  then show ?thesis
    using rest st ok by (intro that [OF x live(4) _ r_def ok(1) ms octets]) (auto split: if_splits)
qed

subsection \<open>All operations keep the invariant\<close>

datatype brcb_call =
    Set_enabled bool
  | Set_optional_fields bytes
  | Set_trigger_options u8
  | Set_integrity_period u32
  | Notify "data_set_entry list" nat event_reason u64
  | Request_interrogation
  | Next_due u64
  | Capture "object_entry list" "data_set_entry list" capture_plan bytes bytes bytes
  | Commit_delivery bytes
  | Replay_from bytes
  | Resume_after bytes
  | Rewind_to_oldest
  | Purge_buffer

fun brcb_step :: "brcb_call \<Rightarrow> brcb \<Rightarrow> brcb" where
  "brcb_step (Set_enabled on) b = snd (brcb_set_enabled on b)"
| "brcb_step (Set_optional_fields opts) b = snd (brcb_set_optional_fields opts b)"
| "brcb_step (Set_trigger_options t) b = snd (brcb_set_trigger_options t b)"
| "brcb_step (Set_integrity_period ms) b = snd (brcb_set_integrity_period ms b)"
| "brcb_step (Notify ds i reason now) b = snd (brcb_notify ds i reason now b)"
| "brcb_step Request_interrogation b = snd (brcb_request_interrogation b)"
| "brcb_step (Next_due now) b = snd (brcb_next_due now b)"
| "brcb_step (Capture objs ds pl t buf ws) b = snd (brcb_capture objs ds pl t buf ws b)"
| "brcb_step (Commit_delivery eid) b = snd (brcb_commit_delivery eid b)"
| "brcb_step (Replay_from eid) b = snd (brcb_replay_from eid b)"
| "brcb_step (Resume_after eid) b = snd (brcb_resume_after eid b)"
| "brcb_step Rewind_to_oldest b = snd (brcb_rewind_to_oldest b)"
| "brcb_step Purge_buffer b = snd (brcb_purge_buffer b)"

text \<open>The entry number wraps after \<open>2 ^ 64 - 1\<close> reports; up to there numbers are unique.\<close>

fun brcb_allowed :: "brcb_call \<Rightarrow> brcb \<Rightarrow> bool" where
  "brcb_allowed (Capture _ _ _ _ _ _) b = (unat (br_next_entry_number b) < 2 ^ 64 - 1)"
| "brcb_allowed _ b = True"

lemma plan_not_stale:
  "\<not> brcb_plan_stale pl b \<Longrightarrow> br_enabled b \<and> pl_queue_revision pl = br_queue_revision b \<and>
     pl_entry_number pl = br_next_entry_number b \<and>
     pl_buffer_overflow pl = (br_count b = length (br_slots b) \<and> br_delivery_offset b = 0) \<and>
     pl_sequence_number pl = next_sequence_number (br_sequence_number b)"
  by (simp add: brcb_plan_stale_def Let_def)

lemma brcb_capture_inv:
  assumes "brcb_inv b" "unat (br_next_entry_number b) < 2 ^ 64 - 1"
  shows "brcb_inv (snd (brcb_capture objs ds pl t buf ws b))"
proof (cases "brcb_prepare objs ds pl t buf ws b")
  case (Inl res)
  then show ?thesis using assms(1) by (simp add: brcb_capture_def)
next
  case (Inr p)
  then obtain res octets where prep: "brcb_prepare objs ds pl t buf ws b = Inr (res, octets)" by (metis surj_pair)
  from prep have "brcb_inv (brcb_enqueue pl t octets b)"
    using brcb_enqueue_inv [OF assms(1) _ assms(2), of pl octets t] plan_not_stale [of pl b]
    by (elim brcb_prepare_success) blast
  with prep show ?thesis by (simp add: brcb_capture_def brcb_retire_cause_inv)
qed

lemma brcb_setters_inv:
  assumes "brcb_inv b"
  shows "brcb_inv (snd (brcb_set_enabled on b))" "brcb_inv (snd (brcb_set_optional_fields opts b))"
    "brcb_inv (snd (brcb_set_trigger_options t b))" "brcb_inv (snd (brcb_set_integrity_period ms b))"
    "brcb_inv (snd (brcb_request_interrogation b))"
proof -
  note f = brcb_inv_facts [OF assms]
  have upd: "brcb_inv (b\<lparr>br_enabled := x\<rparr>)" "length o2 = 2 \<Longrightarrow> brcb_inv (b\<lparr>br_optional_fields := o2\<rparr>)"
    "brcb_inv (b\<lparr>br_trigger_options := t\<rparr>)" "brcb_inv (b\<lparr>br_integrity_period_ms := ms\<rparr>)"
    "brcb_inv (b\<lparr>br_interrogation_pending := x, br_schedule_revision := r\<rparr>)" for x o2 r
    by (rule brcb_inv_cong [OF assms], simp_all add: f)+
  then show "brcb_inv (snd (brcb_set_enabled on b))" "brcb_inv (snd (brcb_set_optional_fields opts b))"
    "brcb_inv (snd (brcb_set_trigger_options t b))" "brcb_inv (snd (brcb_set_integrity_period ms b))"
    "brcb_inv (snd (brcb_request_interrogation b))"
    using assms f(5)
    by (simp_all add: brcb_set_enabled_def brcb_set_optional_fields_def brcb_set_trigger_options_def
        brcb_set_integrity_period_def brcb_request_interrogation_def brcb_reschedule_inv)
qed

lemma brcb_cursor_inv:
  assumes "brcb_inv b"
  shows "brcb_inv (snd (brcb_commit_delivery eid b))" "brcb_inv (snd (brcb_replay_from eid b))"
    "brcb_inv (snd (brcb_resume_after eid b))" "brcb_inv (snd (brcb_rewind_to_oldest b))"
proof -
  note f = brcb_inv_facts [OF assms]
  have upd: "brcb_inv (b\<lparr>br_delivery_offset := i, br_queue_revision := r\<rparr>)" if "i \<le> br_count b" for i r
    by (rule brcb_inv_cong [OF assms], simp_all add: f that)
  then show "brcb_inv (snd (brcb_commit_delivery eid b))" "brcb_inv (snd (brcb_replay_from eid b))"
    "brcb_inv (snd (brcb_resume_after eid b))" "brcb_inv (snd (brcb_rewind_to_oldest b))"
    using assms f
    by (auto simp: brcb_commit_delivery_def brcb_replay_from_def brcb_resume_after_def brcb_rewind_to_oldest_def
        Let_def dest!: brcb_find_entry_bound split: option.splits)
qed

lemma entries_ok_empty: "br_count b = 0 \<Longrightarrow> 1 \<le> unat (br_next_entry_number b) \<Longrightarrow> entries_ok b"
  by (auto simp: entries_ok_def)

lemma brcb_purge_inv: "brcb_inv b \<Longrightarrow> brcb_inv (snd (brcb_purge_buffer b))"
proof -
  assume inv: "brcb_inv b"
  note f = brcb_inv_facts [OF inv]
  have "1 \<le> unat (br_next_entry_number b)" using f(3) by (auto simp: entries_ok_def)
  then show ?thesis
    using f(1,4,5,9) by (auto simp: brcb_purge_buffer_def brcb_inv_def ring_ok_def intro!: entries_ok_empty)
qed

interpretation runtime: machine brcb_step brcb_allowed brcb_inv
proof
  fix b c assume inv: "brcb_inv b" and allowed: "brcb_allowed c b"
  show "brcb_inv (brcb_step c b)"
  proof (cases c)
    case (Capture objs ds pl t buf ws)
    then show ?thesis using brcb_capture_inv [OF inv] allowed by simp
  qed (simp_all only: brcb_step.simps brcb_setters_inv [OF inv] brcb_notify_inv [OF inv] brcb_next_due_inv [OF inv]
      brcb_cursor_inv [OF inv] brcb_purge_inv [OF inv])
qed

lemma brcb_initialize_inv:
  assumes "brcb_initialize objs ds b = (True, b')" "length (bd_optional_fields (br_definition b)) = 2"
  shows "brcb_inv b'"
proof -
  have b': "br_slots b' = map clear_slot (br_slots b)" "br_slots b \<noteq> []" "br_initialized b'" "br_head b' = 0" "br_count b' = 0"
      "br_delivery_offset b' = 0" "br_next_entry_number b' = 1" "br_optional_fields b' = bd_optional_fields (br_definition b)"
      "br_pending b' = \<lparr>pe_masks = replicate 128 0, pe_due_ms = 0, pe_revision = 1, pe_member_count = 0, pe_pending = False\<rparr>"
    using assms(1) by (auto simp: brcb_initialize_def Let_def split: if_splits option.splits)
  with assms(2) show ?thesis
    by (auto simp: brcb_inv_def ring_ok_def pending_ok_def intro!: entries_ok_empty)
qed

end
