(* ===== verification/Brcb_Delivery.thy ===== *)
theory Brcb_Delivery
  imports Brcb
begin

text \<open>
  What the buffered report control block promises: its ring refines a log of retained entries with a
  delivery cursor, entries are found again by their identifiers, plans are used at most once, and an
  event report contains every member that changed.
\<close>

subsection \<open>The cursor operations on the log\<close>

lemma brcb_log_retire [simp]: "brcb_log (brcb_retire_cause pl b) = brcb_log b"
proof -
  let ?b = "brcb_retire_cause pl b"
  have "br_slots ?b = br_slots b" "br_head ?b = br_head b" "br_count ?b = br_count b" "br_delivery_offset ?b = br_delivery_offset b"
    by (simp_all add: brcb_retire_cause_def Let_def split: capture_reason.split)
  then show ?thesis by (simp add: brcb_log_def ring_slot_def)
qed

lemma brcb_log_cursor:
  "brcb_log (b\<lparr>br_delivery_offset := i, br_queue_revision := r\<rparr>) = (brcb_log b)\<lparr>rl_cursor := i\<rparr>"
  by (simp add: brcb_log_def ring_slot_def)

lemma brcb_log_nth: "i < br_count b \<Longrightarrow> rl_entries (brcb_log b) ! i = slot_view (ring_slot b i)"
  by (simp add: brcb_log_def)

lemma slot_view_entry_id [simp]: "ev_entry_id (slot_view s) = sl_entry_id s"
  by (simp add: slot_view_def)

lemma log_undelivered_hd:
  "br_delivery_offset b < br_count b \<Longrightarrow>
     log_undelivered (brcb_log b) = slot_view (ring_slot b (br_delivery_offset b)) #
       drop (Suc (br_delivery_offset b)) (rl_entries (brcb_log b))"
  by (simp add: log_undelivered_def Cons_nth_drop_Suc [symmetric] brcb_log_nth)

lemma retained_slot_ok: "brcb_inv b \<Longrightarrow> i < br_count b \<Longrightarrow> \<exists>k. slot_ok k (ring_slot b i)"
  using brcb_inv_facts(3) [of b] by (auto simp: entries_ok_def)

lemma retained_id_length: "brcb_inv b \<Longrightarrow> i < br_count b \<Longrightarrow> length (sl_entry_id (ring_slot b i)) = 8"
  by (drule (1) retained_slot_ok) (auto simp: slot_ok_def)

text \<open>Consecutive numbers below \<open>2 ^ 64\<close> give pairwise different identifiers.\<close>

lemma retained_ids_distinct:
  assumes "brcb_inv b" "i < br_count b" "j < br_count b"
    "sl_entry_id (ring_slot b i) = sl_entry_id (ring_slot b j)"
  shows "i = j"
proof -
  obtain first where first: "unat (br_next_entry_number b) = first + br_count b"
      "\<And>i. i < br_count b \<Longrightarrow> slot_ok (first + i) (ring_slot b i)"
    using brcb_inv_facts(3) [OF assms(1)] by (auto simp: entries_ok_def)
  have "encode_entry_id (of_nat (first + i)) = encode_entry_id (of_nat (first + j))"
    using first(2) assms(2-4) by (simp add: slot_ok_def)
  then have eq: "(of_nat (first + i) :: u64) = of_nat (first + j)" by (simp only: encode_entry_id_inj)
  have "first + i < 2 ^ 64" "first + j < 2 ^ 64"
    using first(1) assms(2,3) unat_less_exp [of "br_next_entry_number b"] by auto
  then have "unat (of_nat (first + i) :: u64) = first + i" "unat (of_nat (first + j) :: u64) = first + j"
    by (simp_all add: unat_of_nat del: of_nat_add)
  with eq have "first + i = first + j" by metis
  then show ?thesis by simp
qed

lemma brcb_find_entry_retained:
  assumes "brcb_inv b" "i < br_count b"
  shows "brcb_find_entry (sl_entry_id (ring_slot b i)) b = Some i"
proof -
  note f = brcb_inv_facts [OF assms(1)]
  obtain k where k: "slot_ok k (ring_slot b i)" using retained_slot_ok [OF assms] by blast
  note len = retained_id_length [OF assms]
  let ?P = "\<lambda>j. let s = br_slots b ! ((br_head b + j) mod length (br_slots b)) in
      sl_occupied s \<and> entry_id_equal (sl_entry_id (ring_slot b i)) (sl_entry_id s)"
  have "?P i" using k by (simp add: slot_ok_def ring_slot_def entry_id_equal_def Let_def)
  moreover have "\<not> ?P j" if "j < i" for j
    using retained_ids_distinct [OF assms(1), of j i] that assms(2) by (auto simp: entry_id_equal_def ring_slot_def Let_def)
  ultimately have "find ?P [0..<br_count b] = Some i"
    using assms(2) by (auto simp: find_Some_iff intro!: exI [of _ i])
  with f len show ?thesis by (simp add: brcb_find_entry_def)
qed

lemma brcb_find_entry_unknown:
  assumes "brcb_inv b" "eid \<notin> ev_entry_id ` set (rl_entries (brcb_log b))"
  shows "brcb_find_entry eid b = None"
  using assms(2) by (auto simp: brcb_find_entry_def find_None_iff brcb_log_def entry_id_equal_def ring_slot_def image_image Let_def)

lemma brcb_capture_log:
  assumes inv: "brcb_inv b"
  shows "case brcb_capture objs ds pl t buf ws b of (res, b') \<Rightarrow>
      (if cres_status res = Brcb_ok
       then \<exists>pdu. brcb_log b' = log_append (length (br_slots b))
          \<lparr>ev_pdu = pdu, ev_entry_id = cres_entry_id res, ev_sequence_number = br_sequence_number b',
           ev_buffer_overflow = (br_count b = length (br_slots b) \<and> log_undelivered (brcb_log b) = rl_entries (brcb_log b))\<rparr>
          (brcb_log b)
       else b' = b)"
proof (cases "brcb_prepare objs ds pl t buf ws b")
  case (Inl res)
  then have "cres_status res \<noteq> Brcb_ok" by (rule brcb_prepare_failure)
  with Inl show ?thesis by (simp add: brcb_capture_def)
next
  case (Inr p)
  note f = brcb_inv_facts [OF inv]
  have cursor: "br_delivery_offset b = 0 \<longleftrightarrow> log_undelivered (brcb_log b) = rl_entries (brcb_log b)"
    if "br_count b = length (br_slots b)"
  proof -
    have "rl_entries (brcb_log b) \<noteq> []" using that f(9) by (metis length_brcb_log(1) length_0_conv)
    then show ?thesis
      by (auto simp: log_undelivered_def) (metis append_self_conv2 append_take_drop_id length_brcb_log(1) take_eq_Nil)
  qed
  from Inr obtain res octets where prep: "brcb_prepare objs ds pl t buf ws b = Inr (res, octets)" by (metis surj_pair)
  then have ok: "cres_status res = Brcb_ok" "cres_entry_id res = encode_entry_id (pl_entry_number pl)"
      "\<not> brcb_plan_stale pl b"
    by (auto elim: brcb_prepare_success)
  have seq: "br_sequence_number (brcb_retire_cause pl (brcb_enqueue pl t octets b)) = pl_sequence_number pl"
    by (simp add: brcb_retire_cause_def brcb_enqueue_def Let_def split: capture_reason.split)
  show ?thesis
    using prep ok plan_not_stale [OF ok(3)] cursor
    by (simp add: brcb_capture_def brcb_log_enqueue [OF f(2)] seq) (intro exI [of _ octets] arg_cong3 [where f = log_append], auto)
qed

lemma brcb_front_log:
  assumes inv: "brcb_inv b"
  shows "brcb_front b = (case log_undelivered (brcb_log b) of [] \<Rightarrow> None | e # _ \<Rightarrow> Some e)"
proof (cases "br_delivery_offset b < br_count b")
  case True
  then show ?thesis
    using brcb_inv_facts [OF inv] retained_slot_ok [OF inv True] log_undelivered_hd [OF True]
    by (auto simp: brcb_front_def ring_slot_def slot_ok_def Let_def)
next
  case False
  then show ?thesis using brcb_inv_facts [OF inv] by (simp add: brcb_front_def log_undelivered_def)
qed

lemma brcb_commit_log:
  assumes inv: "brcb_inv b"
  shows "case brcb_commit_delivery eid b of (status, b') \<Rightarrow>
      (case log_undelivered (brcb_log b) of
         [] \<Rightarrow> status = Entry_not_found \<and> b' = b
       | e # es \<Rightarrow> if ev_entry_id e = eid then status = Brcb_ok \<and> log_undelivered (brcb_log b') = es \<and>
             rl_entries (brcb_log b') = rl_entries (brcb_log b)
           else status = Entry_not_found \<and> b' = b)"
proof (cases "br_delivery_offset b < br_count b")
  case True
  then show ?thesis
    using brcb_inv_facts [OF inv] retained_slot_ok [OF inv True] log_undelivered_hd [OF True]
    by (auto simp: brcb_commit_delivery_def ring_slot_def [symmetric] slot_ok_def entry_id_equal_def Let_def
        brcb_log_cursor) (simp_all add: log_undelivered_def)
next
  case False
  then show ?thesis using brcb_inv_facts [OF inv] by (simp add: brcb_commit_delivery_def log_undelivered_def)
qed

text \<open>The member loop includes exactly the members with a reason, in order, with their reasons.\<close>

lemma brcb_collect_members:
  "brcb_collect objs reason members i rem used acc = Inr ms \<Longrightarrow>
     map im_index ms = map im_index acc @ filter (\<lambda>k. reason k \<noteq> 0) [i..<i + length members] \<and>
     ((\<forall>m \<in> set acc. im_reason m = reason (im_index m)) \<longrightarrow> (\<forall>m \<in> set ms. im_reason m = reason (im_index m)))"
proof (induction objs reason members i rem used acc rule: brcb_collect.induct)
  case (2 objs reason d item members i rem used acc)
  have upt: "[i..<Suc (i + length members)] = i # [Suc i..<Suc (i + length members)]"
    by (subst upt_conv_Cons) (simp_all del: upt_Suc)
  show ?case
  proof (cases "reason i = 0")
    case True
    then show ?thesis using "2.IH"(1) [OF True] "2.prems" by (simp add: upt del: upt_Suc)
  next
    case False
    then obtain x written required content where
      "objects_find objs (Domain_specific d item) = Some x"
      "the (oe_read x) rem = ((Encode_ok, written, required), content)"
      "\<not> (Encode_ok \<noteq> Encode_ok \<or> written > length rem \<or> \<not> valid_mms_data (take written content))"
      "brcb_collect objs reason members (Suc i) (drop written content) (used + written)
         (acc @ [\<lparr>im_index = i, im_reference = (d, item), im_data = take written content, im_reason = reason i\<rparr>]) = Inr ms"
      using "2.prems" by (auto split: option.splits prod.splits if_splits)
    with False "2.IH"(2) show ?thesis by (fastforce simp: upt simp del: upt_Suc)
  qed
qed simp

lemma bump_revision_changes: "bump_revision r \<noteq> r"
  by (simp add: bump_revision_def)

subsection \<open>Properties\<close>

text \<open>C2.  The buffered report block refines a bounded log.  In every state the block can reach, a
  successful capture appends one entry with the announced identifier and, when the log is full, gives
  up the oldest; the overflow flag is set exactly when that entry was not yet delivered.  A failed
  capture changes nothing.  The front of the queue is the first undelivered entry, and committing the
  delivery of its identifier, and of no other, advances the cursor by one.\<close>

theorem brcb_refines_log:
  assumes "brcb_inv b"
  shows "(case brcb_capture objs ds pl t buf ws b of (res, b') \<Rightarrow>
      (if cres_status res = Brcb_ok
       then \<exists>pdu. brcb_log b' = log_append (length (br_slots b))
          \<lparr>ev_pdu = pdu, ev_entry_id = cres_entry_id res, ev_sequence_number = br_sequence_number b',
           ev_buffer_overflow = (br_count b = length (br_slots b) \<and> log_undelivered (brcb_log b) = rl_entries (brcb_log b))\<rparr>
          (brcb_log b)
       else b' = b)) \<and>
    brcb_front b = (case log_undelivered (brcb_log b) of [] \<Rightarrow> None | e # _ \<Rightarrow> Some e) \<and>
    (case brcb_commit_delivery eid b of (status, b') \<Rightarrow>
      (case log_undelivered (brcb_log b) of
         [] \<Rightarrow> status = Entry_not_found \<and> b' = b
       | e # es \<Rightarrow> if ev_entry_id e = eid then status = Brcb_ok \<and> log_undelivered (brcb_log b') = es \<and>
             rl_entries (brcb_log b') = rl_entries (brcb_log b)
           else status = Entry_not_found \<and> b' = b))"
  using brcb_capture_log [OF assms, of objs ds pl t buf ws] brcb_front_log [OF assms] brcb_commit_log [OF assms, of eid]
  by blast

text \<open>A fresh block with two slots, to exercise the properties.\<close>

definition sample_block :: brcb where
  "sample_block =
     (let slot = \<lparr>sl_storage = replicate 100 0, sl_entry_id = replicate 8 0, sl_time_of_entry = replicate 6 0, sl_bytes = 0,
          sl_sequence_number = 0, sl_buffer_overflow = False, sl_occupied = False\<rparr> in
      \<lparr>br_definition = \<lparr>bd_domain = ''LD'', bd_item = ''BR'', bd_report_id = ''R1'', bd_data_set_domain = ''LD'',
         bd_data_set_item = ''DS'', bd_conf_revision = 1, bd_optional_fields = [0x01, 0x00], bd_buffer_time_ms = 10,
         bd_trigger_options = 0x40, bd_integrity_period_ms = 0\<rparr>,
       br_pending = \<lparr>pe_masks = replicate 128 0, pe_due_ms = 0, pe_revision = 1, pe_member_count = 0, pe_pending = False\<rparr>,
       br_slots = [slot, slot], br_head = 0, br_count = 0, br_delivery_offset = 0, br_next_entry_number = 1,
       br_dropped_reports = 0, br_next_integrity_due_ms = 0, br_queue_revision = 1, br_schedule_revision = 1,
       br_sequence_number = 0, br_optional_fields = [0x01, 0x00], br_trigger_options = 0x40,
       br_integrity_period_ms = 0, br_replay_gap = False, br_interrogation_pending = False,
       br_integrity_armed = False, br_enabled = False, br_initialized = True\<rparr>)"

lemma sample_block_inv: "brcb_inv sample_block"
  by (auto simp: sample_block_def brcb_inv_def ring_ok_def pending_ok_def Let_def intro!: entries_ok_empty)

definition sample_objects :: "object_entry list" where
  "sample_objects = [\<lparr>oe_domain = ''LD'', oe_item = ''A'', oe_type_specification = [0x83, 0],
     oe_read = Some (\<lambda>w. ((Encode_ok, 3, 3), [0x83, 1, 1] @ drop 3 w))\<rparr>]"

definition sample_data_sets :: "data_set_entry list" where
  "sample_data_sets = [\<lparr>de_domain = ''LD'', de_item = ''DS'', de_members = [(''LD'', ''A'')]\<rparr>]"

text \<open>The block after one data change and the plan that became due.\<close>

definition sample_changed :: brcb where
  "sample_changed = snd (brcb_notify sample_data_sets 0 Data_change 5 (snd (brcb_set_enabled True sample_block)))"

definition sample_plan :: capture_plan where
  "sample_plan = \<lparr>pl_pending_revision = 3, pl_schedule_revision = 2, pl_queue_revision = 1, pl_entry_number = 1,
     pl_observed_now_ms = 20, pl_sequence_number = 1, pl_reason = Capture_event, pl_buffer_overflow = False\<rparr>"

definition sample_included :: "included_member list" where
  "sample_included = [\<lparr>im_index = 0, im_reference = (''LD'', ''A''), im_data = [0x83, 1, 1], im_reason = 0x40\<rparr>]"

lemma sample_initialize: "brcb_initialize sample_objects sample_data_sets sample_block = (True, sample_block)"
  by code_simp

lemma sample_next_due: "brcb_next_due 20 sample_changed = (Some sample_plan, sample_changed)"
  by code_simp

lemma sample_changed_inv: "brcb_inv sample_changed"
  unfolding sample_changed_def by (intro brcb_notify_inv brcb_setters_inv sample_block_inv)

lemma sample_prepare:
  "\<exists>res octets. brcb_prepare sample_objects sample_data_sets sample_plan [] (replicate 64 0) (replicate 8 0) sample_changed =
     Inr (res, octets)"
proof -
  let ?r = "brcb_snapshot sample_changed sample_plan [] 1 sample_included"
  have steps: "brcb_plan_stale sample_plan sample_changed = False"
    "brcb_data_set sample_data_sets sample_changed = Some (hd sample_data_sets)"
    "brcb_collect sample_objects (\<lambda>i. pe_masks (br_pending sample_changed) ! i) (de_members (hd sample_data_sets)) 0
       (replicate 8 0) 0 [] = Inr sample_included"
    "pl_reason sample_plan = Capture_event" "br_initialized sample_changed" "br_delivery_offset sample_changed = 0"
    "br_count sample_changed = 0" "pe_member_count (br_pending sample_changed) = 1" "br_head sample_changed = 0"
    "br_slots sample_changed = br_slots sample_block" "length (de_members (hd sample_data_sets)) = 1"
    "length sample_included = 1"
    by code_simp+
  have "report_valid ?r" "length (concat (report_fields ?r)) = 26" "length (report_pdu ?r) = 39" by code_simp+
  then have "report_encode_into ?r (replicate 64 0) = ((Encode_ok, 39, 39), report_pdu ?r @ drop 39 (replicate 64 0))"
    by (subst report_encode_octets) simp_all
  with steps show ?thesis
    by (simp add: brcb_prepare_def sample_block_def Let_def)
qed

lemma sample_capture:
  "\<exists>res b'. brcb_capture sample_objects sample_data_sets sample_plan [] (replicate 64 0) (replicate 8 0) sample_changed = (res, b') \<and>
     cres_status res = Brcb_ok"
  using sample_prepare by (auto simp: brcb_capture_def elim: brcb_prepare_success)

theorem brcb_refines_log_witness:
  "brcb_front sample_block = None \<and> brcb_commit_delivery [0, 0, 0, 0, 0, 0, 0, 1] sample_block = (Entry_not_found, sample_block)"
proof -
  have "log_undelivered (brcb_log sample_block) = []"
    by (simp add: log_undelivered_def brcb_log_def sample_block_def Let_def)
  with brcb_refines_log [OF sample_block_inv, of "[]" "[]" undefined "[]" "[]" "[]" "[0, 0, 0, 0, 0, 0, 0, 1]"]
  show ?thesis by (cases "brcb_commit_delivery [0, 0, 0, 0, 0, 0, 0, 1] sample_block") simp
qed

text \<open>C9.  From a successful initialisation, whatever sequence of operations follows (configuration,
  events, interrogations, captures with any plan, deliveries, replays, purges), the ring indices stay
  within the slots, every retained entry is complete, retained entries carry consecutive numbers
  ending just below the next one, and the pending members are counted exactly.\<close>

theorem brcb_run_invariant:
  assumes "brcb_initialize objs ds b = (True, b0)" "length (bd_optional_fields (br_definition b)) = 2"
    "run_ok brcb_allowed brcb_step calls b0"
  shows "brcb_inv (fold brcb_step calls b0)"
  using runtime.run_inv [OF assms(3) brcb_initialize_inv [OF assms(1,2)]] .

theorem brcb_run_invariant_witness:
  "brcb_inv (fold brcb_step [Set_enabled True, Notify sample_data_sets 0 Data_change 5, Next_due 20,
     Capture sample_objects sample_data_sets sample_plan [] (replicate 64 0) (replicate 8 0), Rewind_to_oldest] sample_block)"
proof -
  have "run_ok brcb_allowed brcb_step [Set_enabled True, Notify sample_data_sets 0 Data_change 5, Next_due 20,
     Capture sample_objects sample_data_sets sample_plan [] (replicate 64 0) (replicate 8 0), Rewind_to_oldest] sample_block"
    by (simp add: sample_changed_def [symmetric] sample_next_due)
      (simp add: sample_changed_def sample_block_def brcb_notify_def brcb_set_enabled_def brcb_reschedule_def
        brcb_data_set_def sample_data_sets_def Let_def)
  moreover have "length (bd_optional_fields (br_definition sample_block)) = 2" by (simp add: sample_block_def Let_def)
  ultimately show ?thesis by (intro brcb_run_invariant [OF sample_initialize])
qed

text \<open>C34.  Replay finds what was retained: for a state that satisfies the invariant, resuming after the
  identifier of a retained entry makes exactly the later entries undelivered, replaying from it makes
  it the next one, and an identifier that is not retained is refused without any effect.\<close>

theorem brcb_replay_exact:
  assumes "brcb_inv b"
  shows "(\<forall>i < br_count b. let eid = ev_entry_id (rl_entries (brcb_log b) ! i) in
      fst (brcb_resume_after eid b) = Brcb_ok \<and>
      log_undelivered (brcb_log (snd (brcb_resume_after eid b))) = drop (Suc i) (rl_entries (brcb_log b)) \<and>
      fst (brcb_replay_from eid b) = Brcb_ok \<and>
      log_undelivered (brcb_log (snd (brcb_replay_from eid b))) = drop i (rl_entries (brcb_log b))) \<and>
    (eid \<notin> ev_entry_id ` set (rl_entries (brcb_log b)) \<longrightarrow>
      brcb_resume_after eid b = (Entry_not_found, b) \<and> brcb_replay_from eid b = (Entry_not_found, b))"
  using brcb_inv_facts(1) [OF assms] brcb_find_entry_retained [OF assms] brcb_find_entry_unknown [OF assms]
  by (auto simp: brcb_resume_after_def brcb_replay_from_def brcb_log_nth brcb_log_cursor Let_def)
    (simp_all add: log_undelivered_def)

theorem brcb_replay_exact_witness:
  "\<exists>b. br_count b = 1 \<and> fst (brcb_replay_from (ev_entry_id (rl_entries (brcb_log b) ! 0)) b) = Brcb_ok \<and>
     brcb_resume_after [9] b = (Entry_not_found, b)"
proof -
  obtain res octets where prep: "brcb_prepare sample_objects sample_data_sets sample_plan [] (replicate 64 0) (replicate 8 0)
      sample_changed = Inr (res, octets)"
    using sample_prepare by blast
  define b where "b = snd (brcb_capture sample_objects sample_data_sets sample_plan [] (replicate 64 0) (replicate 8 0) sample_changed)"
  have "unat (br_next_entry_number sample_changed) = 1" "br_count sample_changed = 0" "length (br_slots sample_changed) = 2"
    by code_simp+
  note facts = this
  have inv: "brcb_inv b"
    unfolding b_def by (rule brcb_capture_inv [OF sample_changed_inv]) (simp add: facts)
  have "b = brcb_retire_cause sample_plan (brcb_enqueue sample_plan [] octets sample_changed)"
    using prep by (simp add: b_def brcb_capture_def)
  then have one: "br_count b = 1"
    using facts ring_slot_enqueue(3) [OF brcb_inv_facts(2) [OF sample_changed_inv], where pl = sample_plan and t = "[]" and octets = octets]
    by (simp add: brcb_retire_cause_def sample_plan_def Let_def)
  have "length (ev_entry_id e) = 8" if "e \<in> set (rl_entries (brcb_log b))" for e
    using that by (auto simp: brcb_log_def retained_id_length [OF inv])
  moreover have "length [9 :: u8] \<noteq> 8" by simp
  ultimately have "[9] \<notin> ev_entry_id ` set (rl_entries (brcb_log b))" by (metis imageE)
  with brcb_replay_exact [OF inv, of "[9]"] one show ?thesis by (auto simp: Let_def)
qed

text \<open>Plans are good exactly once: the plan \<open>next_due\<close> hands out is accepted by the capture that
  follows it, and after a capture succeeded with a plan the same plan is refused as stale.\<close>

theorem brcb_plan_used_once:
  assumes "brcb_next_due now b = (Some pl, b1)"
    "brcb_capture objs ds pl t buf ws b1 = (res, b2)"
  shows "\<not> brcb_plan_stale pl b1 \<and> (cres_status res = Brcb_ok \<longrightarrow> brcb_plan_stale pl b2)"
proof -
  have b1: "b1 = brcb_arm_integrity now b" "br_initialized b" "br_enabled b" "br_slots b \<noteq> []"
      "brcb_due_reason now b1 \<noteq> Capture_none"
    and pl: "pl = \<lparr>pl_pending_revision = pe_revision (br_pending b1), pl_schedule_revision = br_schedule_revision b1,
                    pl_queue_revision = br_queue_revision b1, pl_entry_number = br_next_entry_number b1,
                    pl_observed_now_ms = now, pl_sequence_number = next_sequence_number (br_sequence_number b1),
                    pl_reason = brcb_due_reason now b1,
                    pl_buffer_overflow = (br_count b1 = length (br_slots b1) \<and> br_delivery_offset b1 = 0)\<rparr>"
    using assms(1) by (auto simp: brcb_next_due_def Let_def split: if_splits)
  have "br_enabled b1" using b1(1,3) by (simp add: brcb_arm_integrity_def Let_def)
  then have fresh: "\<not> brcb_plan_stale pl b1"
    using b1(5) by (auto simp: brcb_plan_stale_def Let_def pl brcb_due_reason_def split: if_splits)
  have "brcb_plan_stale pl b2" if ok: "cres_status res = Brcb_ok"
  proof -
    obtain octets where "b2 = brcb_retire_cause pl (brcb_enqueue pl t octets b1)"
      using assms(2) ok brcb_prepare_failure by (fastforce simp: brcb_capture_def split: sum.splits)
    then have "br_queue_revision b2 = bump_revision (br_queue_revision b1)"
      by (simp add: brcb_retire_cause_def brcb_enqueue_def Let_def split: capture_reason.split)
    then have "pl_queue_revision pl \<noteq> br_queue_revision b2"
      using bump_revision_changes [of "br_queue_revision b1"] by (simp add: pl)
    then show ?thesis by (simp add: brcb_plan_stale_def Let_def)
  qed
  with fresh show ?thesis by blast
qed

theorem brcb_plan_used_once_witness:
  "\<exists>res b2. brcb_capture sample_objects sample_data_sets sample_plan [] (replicate 64 0) (replicate 8 0) sample_changed = (res, b2) \<and>
     cres_status res = Brcb_ok \<and> \<not> brcb_plan_stale sample_plan sample_changed \<and> brcb_plan_stale sample_plan b2"
  using sample_capture brcb_plan_used_once [OF sample_next_due] by blast

text \<open>C10.  An event report contains every member that changed and no other: when a capture with an
  event plan succeeds, the stored entry is the encoding of a report whose included indices are exactly
  the data set members with a pending reason, in order and with those reasons, and nothing is pending
  afterwards.\<close>

theorem brcb_event_report_complete:
  assumes "brcb_inv b" "pl_reason pl = Capture_event" "brcb_capture objs ds pl t buf ws b = (res, b')"
    "cres_status res = Brcb_ok"
  shows "\<exists>x r. brcb_data_set ds b = Some x \<and> report_valid r \<and>
    ev_pdu (last (rl_entries (brcb_log b'))) = report_pdu r \<and>
    rs_included_indices r = filter (\<lambda>i. pe_masks (br_pending b) ! i \<noteq> 0) [0..<length (de_members x)] \<and>
    (br_optional_fields b ! 0 AND 0x10 \<noteq> 0 \<longrightarrow>
      rs_included_reasons r = map (\<lambda>i. pe_masks (br_pending b) ! i) (rs_included_indices r)) \<and>
    length (rs_included_indices r) = pe_member_count (br_pending b) \<and>
    \<not> pe_pending (br_pending b') \<and> pe_member_count (br_pending b') = 0"
proof -
  obtain octets where prep: "brcb_prepare objs ds pl t buf ws b = Inr (res, octets)"
    and b': "b' = brcb_retire_cause pl (brcb_enqueue pl t octets b)"
    using assms(3,4) brcb_prepare_failure by (fastforce simp: brcb_capture_def split: sum.splits)
  from prep obtain x ms r where x: "brcb_data_set ds b = Some x" and r: "r = brcb_snapshot b pl t (length (de_members x)) ms"
      "report_valid r" "octets = report_pdu r" "length ms = pe_member_count (br_pending b)"
      and ms: "brcb_collect objs (\<lambda>i. pe_masks (br_pending b) ! i) (de_members x) 0 ws 0 [] = Inr ms"
    by (rule brcb_prepare_success) (simp add: assms(2))
  have idx: "map im_index ms = filter (\<lambda>i. pe_masks (br_pending b) ! i \<noteq> 0) [0..<length (de_members x)]"
    "\<forall>m \<in> set ms. im_reason m = pe_masks (br_pending b) ! im_index m"
    using brcb_collect_members [OF ms] by simp_all
  have reasons: "map im_reason ms = map (\<lambda>i. pe_masks (br_pending b) ! i) (map im_index ms)" using idx(2) by simp
  have "rs_included_indices r = map im_index ms"
      "br_optional_fields b ! 0 AND 0x10 \<noteq> 0 \<Longrightarrow> rs_included_reasons r = map im_reason ms"
    by (simp_all add: r(1) brcb_snapshot_def Let_def)
  moreover have "rl_entries (brcb_log b') \<noteq> [] \<and> ev_pdu (last (rl_entries (brcb_log b'))) = report_pdu r"
    by (simp add: b' brcb_log_enqueue [OF brcb_inv_facts(2) [OF assms(1)]] log_append_def r(3))
  moreover have "\<not> pe_pending (br_pending b') \<and> pe_member_count (br_pending b') = 0"
    by (simp add: b' brcb_retire_cause_def assms(2) Let_def clear_pending_def)
  ultimately show ?thesis
    using x r(2,4) idx(1) reasons length_map [of im_index ms]
    by (intro exI [of _ x] exI [of _ r]) (simp del: length_map)
qed

theorem brcb_event_report_complete_witness:
  "\<exists>res b' r. brcb_capture sample_objects sample_data_sets sample_plan [] (replicate 64 0) (replicate 8 0) sample_changed = (res, b') \<and>
     report_valid r \<and> ev_pdu (last (rl_entries (brcb_log b'))) = report_pdu r \<and> rs_included_indices r = [0]"
proof -
  obtain res b' where c: "brcb_capture sample_objects sample_data_sets sample_plan [] (replicate 64 0) (replicate 8 0)
      sample_changed = (res, b')" "cres_status res = Brcb_ok"
    using sample_capture by blast
  have "pl_reason sample_plan = Capture_event" by (simp add: sample_plan_def)
  from brcb_event_report_complete [OF sample_changed_inv this c]
  obtain x r where x: "brcb_data_set sample_data_sets sample_changed = Some x" and r: "report_valid r"
      "ev_pdu (last (rl_entries (brcb_log b'))) = report_pdu r"
      "rs_included_indices r = filter (\<lambda>i. pe_masks (br_pending sample_changed) ! i \<noteq> 0) [0..<length (de_members x)]"
    by blast
  have "brcb_data_set sample_data_sets sample_changed = Some (hd sample_data_sets)"
    "filter (\<lambda>i. pe_masks (br_pending sample_changed) ! i \<noteq> 0) [0..<length (de_members (hd sample_data_sets))] = [0]"
    by code_simp+
  with x r c(1) show ?thesis by (intro exI [of _ res] exI [of _ b'] exI [of _ r]) simp
qed

text \<open>C35.  A configuration the block accepts and can never serve: optional fields without the EntryID bit
  are accepted while the block is disabled, and as long as they are in force no capture succeeds,
  whatever the plan, the tables and the buffers.\<close>

theorem brcb_without_entry_id_never_captures:
  assumes "br_initialized b" "\<not> br_enabled b" "length (br_optional_fields b) = 2" "length opts = 2"
    "opts ! 0 AND NOT 0x7F = 0" "opts ! 1 AND NOT 0x80 = 0" "opts ! 0 AND 0x01 = 0"
  shows "fst (brcb_set_optional_fields opts b) = Brcb_ok \<and>
    br_optional_fields (snd (brcb_set_optional_fields opts b)) = opts \<and>
    (\<forall>b1 objs ds pl t buf ws. br_optional_fields b1 = opts \<longrightarrow>
      cres_status (fst (brcb_capture objs ds pl t buf ws b1)) \<noteq> Brcb_ok)"
proof -
  have "cres_status (fst (brcb_capture objs ds pl t buf ws b1)) \<noteq> Brcb_ok"
    if b1: "br_optional_fields b1 = opts" for b1 objs ds pl t buf ws
  proof (cases "brcb_prepare objs ds pl t buf ws b1")
    case (Inl res)
    then show ?thesis using brcb_prepare_failure [OF Inl] by (simp add: brcb_capture_def)
  next
    case (Inr p)
    then obtain res octets where "brcb_prepare objs ds pl t buf ws b1 = Inr (res, octets)" by (metis surj_pair)
    then obtain r where "report_valid r" "rs_optional_fields r = opts" "rs_entry_id r \<noteq> []"
      by (rule brcb_prepare_success) (auto simp: brcb_snapshot_def Let_def b1 encode_entry_id_def)
    then have False using assms(4,7) by (auto simp: report_valid_def opt_selected_def)
    then show ?thesis ..
  qed
  with assms show ?thesis
    by (auto simp: brcb_set_optional_fields_def brcb_reschedule_def)
qed

theorem brcb_without_entry_id_never_captures_witness:
  "fst (brcb_set_optional_fields [0x40, 0x00] sample_block) = Brcb_ok \<and>
    (\<forall>objs ds pl t buf ws.
      cres_status (fst (brcb_capture objs ds pl t buf ws (snd (brcb_set_optional_fields [0x40, 0x00] sample_block)))) \<noteq> Brcb_ok)"
proof -
  have "fst (brcb_set_optional_fields [0x40, 0x00] sample_block) = Brcb_ok \<and>
    br_optional_fields (snd (brcb_set_optional_fields [0x40, 0x00] sample_block)) = [0x40, 0x00] \<and>
    (\<forall>b1 objs ds pl t buf ws. br_optional_fields b1 = [0x40, 0x00] \<longrightarrow>
      cres_status (fst (brcb_capture objs ds pl t buf ws b1)) \<noteq> Brcb_ok)"
    by (rule brcb_without_entry_id_never_captures) (simp_all add: sample_block_def Let_def)
  then show ?thesis by blast
qed

end
