(* ===== verification/Brcb_Control.thy ===== *)
theory Brcb_Control
  imports Brcb_Delivery
begin

text \<open>
  Ownership of a buffered report control block (\<open>src/mms/static_brcb_control.cpp\<close>): a client
  reserves the block, operates it through its live association, and keeps the reservation for a while
  after the association is lost.  The results: one client at a time, reports enabled only for a live
  owner, and a reservation life cycle given as an abstract step relation.
\<close>

datatype control_status = Control_ok | Control_invalid_runtime | Control_invalid_identity
  | Control_access_denied | Control_temporarily_unavailable | Control_entry_not_found | Control_backend_failure

record client_identity =
  cl_association_id :: u64
  cl_owner :: bytes
  cl_owner_size :: nat

record brcb_control =
  rc_reports :: brcb
  rc_owner :: bytes
  rc_owner_size :: nat
  rc_association_id :: u64
  rc_expires_at_ms :: u64
  rc_resv_tms_seconds :: u32
  rc_reserved :: bool
  rc_owner_connected :: bool

record control_state_view =
  cv_reserved :: bool
  cv_owner_connected :: bool
  cv_report_enabled :: bool
  cv_resv_tms_seconds :: u32
  cv_association_id :: u64
  cv_reservation_expires_at_ms :: u64
  cv_owner :: bytes

text \<open>The owner array has sixteen octets.\<close>

definition client_valid :: "client_identity \<Rightarrow> bool" where
  "client_valid cl \<longleftrightarrow> cl_association_id cl \<noteq> 0 \<and> cl_owner_size cl > 0 \<and> cl_owner_size cl \<le> length (cl_owner cl)"

definition reservation_deadline :: "u64 \<Rightarrow> u32 \<Rightarrow> u64" where
  "reservation_deadline now seconds =
     (let seconds64 = (ucast seconds :: u64) in
      if seconds64 > - 1 div 1000 then - 1
      else let duration = seconds64 * 1000 in if duration > - 1 - now then - 1 else now + duration)"

definition same_owner :: "client_identity \<Rightarrow> brcb_control \<Rightarrow> bool" where
  "same_owner cl c \<longleftrightarrow> client_valid cl \<and> rc_reserved c \<and> cl_owner_size cl = rc_owner_size c \<and>
     take (cl_owner_size cl) (cl_owner cl) = take (cl_owner_size cl) (rc_owner c)"

definition owns_live_association :: "client_identity \<Rightarrow> brcb_control \<Rightarrow> bool" where
  "owns_live_association cl c \<longleftrightarrow> same_owner cl c \<and> rc_owner_connected c \<and> cl_association_id cl = rc_association_id c"

fun map_runtime_status :: "brcb_status \<Rightarrow> control_status" where
  "map_runtime_status Brcb_ok = Control_ok"
| "map_runtime_status Entry_not_found = Control_entry_not_found"
| "map_runtime_status Temporarily_unavailable = Control_temporarily_unavailable"
| "map_runtime_status No_report_due = Control_temporarily_unavailable"
| "map_runtime_status Stale_plan = Control_temporarily_unavailable"
| "map_runtime_status _ = Control_backend_failure"

definition clear_reservation :: "brcb_control \<Rightarrow> brcb_control" where
  "clear_reservation c = c\<lparr>rc_owner := replicate 16 0, rc_owner_size := 0, rc_association_id := 0,
     rc_expires_at_ms := 0, rc_resv_tms_seconds := 0, rc_reserved := False, rc_owner_connected := False\<rparr>"

text \<open>\<open>if (reports_->valid() && reports_->enabled()) reports_->set_enabled(false)\<close>.\<close>

definition disable_reports :: "brcb_control \<Rightarrow> brcb_control" where
  "disable_reports c =
     (if br_initialized (rc_reports c) \<and> br_enabled (rc_reports c)
      then c\<lparr>rc_reports := snd (brcb_set_enabled False (rc_reports c))\<rparr> else c)"

definition control_tick :: "u64 \<Rightarrow> brcb_control \<Rightarrow> brcb_control" where
  "control_tick now c =
     (if \<not> rc_reserved c \<or> rc_owner_connected c \<or> rc_resv_tms_seconds c = 0 then c
      else if now < rc_expires_at_ms c then c
      else clear_reservation (disable_reports c))"

definition control_reserve :: "client_identity \<Rightarrow> u32 \<Rightarrow> u64 \<Rightarrow> brcb_control \<Rightarrow> control_status \<times> brcb_control" where
  "control_reserve cl seconds now c =
     (if \<not> br_initialized (rc_reports c) then (Control_invalid_runtime, c)
      else if \<not> client_valid cl then (Control_invalid_identity, c)
      else let c = control_tick now c in
        if \<not> rc_reserved c
        then (Control_ok, c\<lparr>rc_owner := take (cl_owner_size cl) (cl_owner cl) @ drop (cl_owner_size cl) (rc_owner c),
                rc_owner_size := cl_owner_size cl, rc_association_id := cl_association_id cl,
                rc_resv_tms_seconds := seconds, rc_expires_at_ms := 0, rc_reserved := True, rc_owner_connected := True\<rparr>)
        else if \<not> same_owner cl c then (Control_access_denied, c)
        else if rc_owner_connected c \<and> rc_association_id c \<noteq> cl_association_id cl then (Control_access_denied, c)
        else (Control_ok, c\<lparr>rc_association_id := cl_association_id cl, rc_owner_connected := True,
                rc_resv_tms_seconds := seconds, rc_expires_at_ms := 0\<rparr>))"

definition require_control_access :: "client_identity \<Rightarrow> u64 \<Rightarrow> brcb_control \<Rightarrow> control_status \<times> brcb_control" where
  "require_control_access cl now c =
     (if \<not> br_initialized (rc_reports c) then (Control_invalid_runtime, c)
      else if \<not> client_valid cl then (Control_invalid_identity, c)
      else let c = control_tick now c in
        (if owns_live_association cl c then Control_ok else Control_access_denied, c))"

text \<open>Every operation below starts with the access check and returns what it refuses.\<close>

definition with_access :: "(brcb_control \<Rightarrow> control_status \<times> brcb_control) \<Rightarrow> client_identity \<Rightarrow> u64 \<Rightarrow> brcb_control \<Rightarrow>
    control_status \<times> brcb_control" where
  "with_access body cl now c = (case require_control_access cl now c of
     (status, c) \<Rightarrow> if status \<noteq> Control_ok then (status, c) else body c)"

definition control_release :: "client_identity \<Rightarrow> u64 \<Rightarrow> brcb_control \<Rightarrow> control_status \<times> brcb_control" where
  "control_release = with_access (\<lambda>c.
     if br_enabled (rc_reports c) then (Control_temporarily_unavailable, c) else (Control_ok, clear_reservation c))"

text \<open>A runtime operation on behalf of the owner, once the state of RptEna was found suitable.\<close>

definition forward :: "(brcb \<Rightarrow> brcb_status \<times> brcb) \<Rightarrow> brcb_control \<Rightarrow> control_status \<times> brcb_control" where
  "forward op c = (case op (rc_reports c) of (s, b) \<Rightarrow> (map_runtime_status s, c\<lparr>rc_reports := b\<rparr>))"

definition control_set_report_enabled :: "client_identity \<Rightarrow> bool \<Rightarrow> u64 \<Rightarrow> brcb_control \<Rightarrow> control_status \<times> brcb_control" where
  "control_set_report_enabled cl on = with_access (forward (brcb_set_enabled on)) cl"

text \<open>The operations that require RptEna to be off share their guard.\<close>

definition control_while_disabled :: "(brcb \<Rightarrow> brcb_status \<times> brcb) \<Rightarrow> client_identity \<Rightarrow> u64 \<Rightarrow> brcb_control \<Rightarrow>
    control_status \<times> brcb_control" where
  "control_while_disabled op = with_access (\<lambda>c.
     if br_enabled (rc_reports c) then (Control_temporarily_unavailable, c) else forward op c)"

definition control_set_optional_fields :: "client_identity \<Rightarrow> bytes \<Rightarrow> u64 \<Rightarrow> brcb_control \<Rightarrow> control_status \<times> brcb_control" where
  "control_set_optional_fields cl opts = control_while_disabled (brcb_set_optional_fields opts) cl"

definition control_set_trigger_options :: "client_identity \<Rightarrow> u8 \<Rightarrow> u64 \<Rightarrow> brcb_control \<Rightarrow> control_status \<times> brcb_control" where
  "control_set_trigger_options cl t = control_while_disabled (brcb_set_trigger_options t) cl"

definition control_set_integrity_period :: "client_identity \<Rightarrow> u32 \<Rightarrow> u64 \<Rightarrow> brcb_control \<Rightarrow> control_status \<times> brcb_control" where
  "control_set_integrity_period cl ms = control_while_disabled (brcb_set_integrity_period ms) cl"

definition control_request_interrogation :: "client_identity \<Rightarrow> u64 \<Rightarrow> brcb_control \<Rightarrow> control_status \<times> brcb_control" where
  "control_request_interrogation = with_access (\<lambda>c.
     if \<not> br_enabled (rc_reports c) then (Control_temporarily_unavailable, c) else forward brcb_request_interrogation c)"

definition control_replay_from :: "client_identity \<Rightarrow> bytes \<Rightarrow> u64 \<Rightarrow> brcb_control \<Rightarrow> control_status \<times> brcb_control" where
  "control_replay_from cl eid = control_while_disabled (brcb_replay_from eid) cl"

definition control_resume_after :: "client_identity \<Rightarrow> bytes \<Rightarrow> u64 \<Rightarrow> brcb_control \<Rightarrow> control_status \<times> brcb_control" where
  "control_resume_after cl eid = control_while_disabled (brcb_resume_after eid) cl"

definition control_rewind_to_oldest :: "client_identity \<Rightarrow> u64 \<Rightarrow> brcb_control \<Rightarrow> control_status \<times> brcb_control" where
  "control_rewind_to_oldest cl = control_while_disabled brcb_rewind_to_oldest cl"

definition control_purge_buffer :: "client_identity \<Rightarrow> u64 \<Rightarrow> brcb_control \<Rightarrow> control_status \<times> brcb_control" where
  "control_purge_buffer cl = control_while_disabled brcb_purge_buffer cl"

definition control_association_closed :: "u64 \<Rightarrow> u64 \<Rightarrow> brcb_control \<Rightarrow> brcb_control" where
  "control_association_closed assoc now c =
     (let c = control_tick now c in
      if \<not> rc_reserved c \<or> \<not> rc_owner_connected c \<or> assoc = 0 \<or> assoc \<noteq> rc_association_id c then c
      else let c = (disable_reports c)\<lparr>rc_association_id := 0, rc_owner_connected := False\<rparr> in
        if rc_resv_tms_seconds c = 0 then clear_reservation c
        else c\<lparr>rc_expires_at_ms := reservation_deadline now (rc_resv_tms_seconds c)\<rparr>)"

definition control_state :: "u64 \<Rightarrow> brcb_control \<Rightarrow> control_state_view \<times> brcb_control" where
  "control_state now c =
     (let c = control_tick now c in
      (\<lparr>cv_reserved = rc_reserved c, cv_owner_connected = rc_owner_connected c,
        cv_report_enabled = (br_initialized (rc_reports c) \<and> br_enabled (rc_reports c)),
        cv_resv_tms_seconds = rc_resv_tms_seconds c, cv_association_id = rc_association_id c,
        cv_reservation_expires_at_ms = rc_expires_at_ms c, cv_owner = take (rc_owner_size c) (rc_owner c)\<rparr>, c))"

text \<open>The control object as constructed for a runtime.\<close>

definition control_initial :: "brcb \<Rightarrow> brcb_control" where
  "control_initial b = \<lparr>rc_reports = b, rc_owner = replicate 16 0, rc_owner_size = 0, rc_association_id = 0,
     rc_expires_at_ms = 0, rc_resv_tms_seconds = 0, rc_reserved = False, rc_owner_connected = False\<rparr>"

subsection \<open>Calls\<close>

datatype client_op =
    Op_reserve u32
  | Op_release
  | Op_set_report_enabled bool
  | Op_set_optional_fields bytes
  | Op_set_trigger_options u8
  | Op_set_integrity_period u32
  | Op_request_interrogation
  | Op_replay_from bytes
  | Op_resume_after bytes
  | Op_rewind_to_oldest
  | Op_purge_buffer

fun client_call :: "client_op \<Rightarrow> client_identity \<Rightarrow> u64 \<Rightarrow> brcb_control \<Rightarrow> control_status \<times> brcb_control" where
  "client_call (Op_reserve s) cl = control_reserve cl s"
| "client_call Op_release cl = control_release cl"
| "client_call (Op_set_report_enabled on) cl = control_set_report_enabled cl on"
| "client_call (Op_set_optional_fields opts) cl = control_set_optional_fields cl opts"
| "client_call (Op_set_trigger_options t) cl = control_set_trigger_options cl t"
| "client_call (Op_set_integrity_period ms) cl = control_set_integrity_period cl ms"
| "client_call Op_request_interrogation cl = control_request_interrogation cl"
| "client_call (Op_replay_from eid) cl = control_replay_from cl eid"
| "client_call (Op_resume_after eid) cl = control_resume_after cl eid"
| "client_call Op_rewind_to_oldest cl = control_rewind_to_oldest cl"
| "client_call Op_purge_buffer cl = control_purge_buffer cl"


text \<open>What happens to the block: a call of a client, a lost association, a tick, a snapshot of the state,
  and what the device does with the runtime between them (events, captures, deliveries).\<close>

datatype control_event =
    Client_event client_op client_identity u64
  | Association_closed u64 u64
  | Tick u64
  | State_view u64
  | Device brcb_call

fun control_step :: "control_event \<Rightarrow> brcb_control \<Rightarrow> brcb_control" where
  "control_step (Client_event op cl now) c = snd (client_call op cl now c)"
| "control_step (Association_closed a now) c = control_association_closed a now c"
| "control_step (Tick now) c = control_tick now c"
| "control_step (State_view now) c = snd (control_state now c)"
| "control_step (Device call) c = c\<lparr>rc_reports := brcb_step call (rc_reports c)\<rparr>"

text \<open>The owner of a client identity is an array of sixteen octets; the configuration of the runtime is
  left to the clients.\<close>

fun device_call :: "brcb_call \<Rightarrow> bool" where
  "device_call (Notify _ _ _ _) = True"
| "device_call (Next_due _) = True"
| "device_call (Capture _ _ _ _ _ _) = True"
| "device_call (Commit_delivery _) = True"
| "device_call _ = False"

fun control_allowed :: "control_event \<Rightarrow> brcb_control \<Rightarrow> bool" where
  "control_allowed (Client_event _ cl _) c = (length (cl_owner cl) = 16)"
| "control_allowed (Device call) c = (device_call call \<and> brcb_allowed call (rc_reports c))"
| "control_allowed _ c = True"

definition control_inv :: "brcb_control \<Rightarrow> bool" where
  "control_inv c \<longleftrightarrow> brcb_inv (rc_reports c) \<and> length (rc_owner c) = 16 \<and>
     (rc_reserved c \<longrightarrow> 1 \<le> rc_owner_size c \<and> rc_owner_size c \<le> 16) \<and>
     (rc_owner_connected c \<longrightarrow> rc_reserved c \<and> rc_association_id c \<noteq> 0) \<and>
     (rc_reserved c \<and> \<not> rc_owner_connected c \<longrightarrow> rc_resv_tms_seconds c \<noteq> 0) \<and>
     (br_enabled (rc_reports c) \<longrightarrow> rc_owner_connected c)"

subsection \<open>Access\<close>

lemma control_tick_cases:
  obtains "control_tick now c = c"
  | "rc_reserved c" "\<not> rc_owner_connected c" "rc_expires_at_ms c \<le> now"
    "control_tick now c = clear_reservation (disable_reports c)"
  unfolding control_tick_def by (meson not_less)

lemma control_tick_connected [simp]: "rc_owner_connected c \<Longrightarrow> control_tick now c = c"
  by (simp add: control_tick_def)

lemma owns_live_tick [simp]: "owns_live_association cl (control_tick now c) \<longleftrightarrow> owns_live_association cl c"
  by (rule control_tick_cases [of now c]) (auto simp: owns_live_association_def same_owner_def clear_reservation_def)

lemma with_access_eq:
  "with_access body cl now c =
     (if \<not> br_initialized (rc_reports c) then (Control_invalid_runtime, c)
      else if \<not> client_valid cl then (Control_invalid_identity, c)
      else if owns_live_association cl c then body c
      else (Control_access_denied, control_tick now c))"
proof -
  have "control_tick now c = c" if "owns_live_association cl c"
    using that by (simp add: owns_live_association_def)
  then show ?thesis by (simp add: with_access_def require_control_access_def Let_def)
qed

text \<open>The operation the access check protects.\<close>

fun client_body :: "client_op \<Rightarrow> brcb_control \<Rightarrow> control_status \<times> brcb_control" where
  "client_body Op_release c =
     (if br_enabled (rc_reports c) then (Control_temporarily_unavailable, c) else (Control_ok, clear_reservation c))"
| "client_body (Op_set_report_enabled on) c = forward (brcb_set_enabled on) c"
| "client_body Op_request_interrogation c =
     (if \<not> br_enabled (rc_reports c) then (Control_temporarily_unavailable, c) else forward brcb_request_interrogation c)"
| "client_body op c =
     (if br_enabled (rc_reports c) then (Control_temporarily_unavailable, c)
      else forward (case op of
          Op_set_optional_fields opts \<Rightarrow> brcb_set_optional_fields opts
        | Op_set_trigger_options t \<Rightarrow> brcb_set_trigger_options t
        | Op_set_integrity_period ms \<Rightarrow> brcb_set_integrity_period ms
        | Op_replay_from eid \<Rightarrow> brcb_replay_from eid
        | Op_resume_after eid \<Rightarrow> brcb_resume_after eid
        | Op_rewind_to_oldest \<Rightarrow> brcb_rewind_to_oldest
        | _ \<Rightarrow> brcb_purge_buffer) c)"

lemmas control_op_defs = control_release_def control_set_report_enabled_def control_set_optional_fields_def
  control_set_trigger_options_def control_set_integrity_period_def control_request_interrogation_def
  control_replay_from_def control_resume_after_def control_rewind_to_oldest_def control_purge_buffer_def
  control_while_disabled_def

lemma client_call_body:
  assumes "\<And>s. op \<noteq> Op_reserve s"
  shows "client_call op cl now c = with_access (client_body op) cl now c"
proof (cases op)
  case (Op_reserve s)
  with assms show ?thesis by blast
qed (simp_all add: control_op_defs with_access_eq)

subsection \<open>The invariant\<close>

lemma runtime_enabled:
  "(\<And>on. call \<noteq> Set_enabled on) \<Longrightarrow> br_enabled (brcb_step call b) = br_enabled b"
proof (cases call)
  case (Notify ds i reason now)
  then show ?thesis by (auto simp: brcb_notify_def Let_def split: option.splits prod.splits)
next
  case (Next_due now)
  then show ?thesis by (auto simp: brcb_next_due_def brcb_arm_integrity_def Let_def)
next
  case (Capture objs ds pl t buf ws)
  then show ?thesis
    by (auto simp: brcb_capture_def brcb_retire_cause_def brcb_enqueue_def Let_def
        split: sum.splits prod.splits capture_reason.splits)
qed (auto simp: brcb_set_optional_fields_def brcb_set_trigger_options_def brcb_set_integrity_period_def
    brcb_request_interrogation_def brcb_commit_delivery_def brcb_replay_from_def brcb_resume_after_def
    brcb_rewind_to_oldest_def brcb_purge_buffer_def brcb_reschedule_def Let_def split: option.splits)

lemma control_inv_reports:
  assumes "control_inv c" "brcb_inv b" "br_enabled b \<longrightarrow> rc_owner_connected c"
  shows "control_inv (c\<lparr>rc_reports := b\<rparr>)"
  using assms by (simp add: control_inv_def)

text \<open>The runtime calls a client operation makes.\<close>

fun op_call :: "client_op \<Rightarrow> brcb_call" where
  "op_call (Op_set_report_enabled on) = Set_enabled on"
| "op_call (Op_set_optional_fields opts) = Set_optional_fields opts"
| "op_call (Op_set_trigger_options t) = Set_trigger_options t"
| "op_call (Op_set_integrity_period ms) = Set_integrity_period ms"
| "op_call Op_request_interrogation = Request_interrogation"
| "op_call (Op_replay_from eid) = Replay_from eid"
| "op_call (Op_resume_after eid) = Resume_after eid"
| "op_call Op_rewind_to_oldest = Rewind_to_oldest"
| "op_call _ = Purge_buffer"

lemma snd_forward: "snd (forward f c) = c\<lparr>rc_reports := snd (f (rc_reports c))\<rparr>"
  by (simp add: forward_def case_prod_unfold)

lemma client_body_cases:
  obtains "snd (client_body op c) = c"
  | "op = Op_release" "\<not> br_enabled (rc_reports c)" "snd (client_body op c) = clear_reservation c"
  | "snd (client_body op c) = c\<lparr>rc_reports := brcb_step (op_call op) (rc_reports c)\<rparr>"
proof -
  have "snd (client_body op c) = c \<or> (op = Op_release \<and> \<not> br_enabled (rc_reports c) \<and>
      snd (client_body op c) = clear_reservation c) \<or>
    snd (client_body op c) = c\<lparr>rc_reports := brcb_step (op_call op) (rc_reports c)\<rparr>"
    by (cases op) (simp_all add: snd_forward)
  then show thesis using that by blast
qed

lemma op_call_allowed [simp]: "brcb_allowed (op_call op) b"
  by (cases op) simp_all

lemma disable_reports_off:
  assumes "br_initialized (rc_reports c)"
  obtains b where "disable_reports c = c\<lparr>rc_reports := b\<rparr>" "\<not> br_enabled b" "brcb_inv (rc_reports c) \<Longrightarrow> brcb_inv b"
proof (cases "br_enabled (rc_reports c)")
  case True
  let ?b = "snd (brcb_set_enabled False (rc_reports c))"
  have "disable_reports c = c\<lparr>rc_reports := ?b\<rparr>" "\<not> br_enabled ?b"
    using assms True by (simp_all add: disable_reports_def brcb_set_enabled_def brcb_reschedule_def)
  then show ?thesis using brcb_setters_inv(1) by (rule that)
next
  case False
  then show ?thesis by (intro that [of "rc_reports c"]) (simp_all add: disable_reports_def)
qed

lemma control_inv_clear: "brcb_inv (rc_reports c) \<Longrightarrow> \<not> br_enabled (rc_reports c) \<Longrightarrow> control_inv (clear_reservation c)"
  by (simp add: control_inv_def clear_reservation_def)

lemma control_inv_runtime: "control_inv c \<Longrightarrow> brcb_inv (rc_reports c) \<and> br_initialized (rc_reports c)"
  by (simp add: control_inv_def brcb_inv_def)

lemma control_tick_inv: "control_inv c \<Longrightarrow> control_inv (control_tick now c)"
proof (rule control_tick_cases [of now c])
  assume inv: "control_inv c" and tick: "control_tick now c = clear_reservation (disable_reports c)"
  obtain b where "disable_reports c = c\<lparr>rc_reports := b\<rparr>" "\<not> br_enabled b" "brcb_inv b"
    using disable_reports_off control_inv_runtime [OF inv] by metis
  then show ?thesis by (simp add: tick control_inv_clear)
qed simp

lemma control_reserve_inv:
  assumes "control_inv c" "length (cl_owner cl) = 16"
  shows "control_inv (snd (control_reserve cl s now c))"
  using control_tick_inv [OF assms(1), of now] assms
  by (auto simp: control_reserve_def Let_def control_inv_def client_valid_def)

lemma with_access_inv:
  assumes "control_inv c" "owns_live_association cl c \<Longrightarrow> control_inv (snd (body c))"
  shows "control_inv (snd (with_access body cl now c))"
  using assms control_tick_inv by (simp add: with_access_eq)

lemma client_body_inv:
  assumes "control_inv c" "rc_owner_connected c"
  shows "control_inv (snd (client_body op c))"
proof (rule client_body_cases [of op c])
  assume "snd (client_body op c) = c\<lparr>rc_reports := brcb_step (op_call op) (rc_reports c)\<rparr>"
  then show ?thesis
    using assms runtime.step_inv [OF _ op_call_allowed] control_inv_runtime
    by (simp add: control_inv_reports)
qed (use assms in \<open>simp_all add: control_inv_clear control_inv_runtime\<close>)

lemma control_closed_inv:
  assumes "control_inv c"
  shows "control_inv (control_association_closed a now c)"
proof -
  let ?c = "control_tick now c"
  have inv: "control_inv ?c" by (rule control_tick_inv [OF assms])
  obtain b where "disable_reports ?c = ?c\<lparr>rc_reports := b\<rparr>" "\<not> br_enabled b" "brcb_inv b"
    using disable_reports_off control_inv_runtime [OF inv] by metis
  with inv show ?thesis
    by (auto simp: control_association_closed_def Let_def control_inv_def clear_reservation_def)
qed

interpretation ownership: machine control_step control_allowed control_inv
proof
  fix c e assume inv: "control_inv c" and ok: "control_allowed e c"
  show "control_inv (control_step e c)"
  proof (cases e)
    case (Client_event op cl now)
    show ?thesis
    proof (cases "\<exists>s. op = Op_reserve s")
      case True
      with Client_event ok inv show ?thesis by (auto intro: control_reserve_inv)
    next
      case False
      with Client_event inv show ?thesis
        by (auto simp: client_call_body owns_live_association_def intro!: with_access_inv client_body_inv)
    qed
  next
    case (Device call)
    with ok have "br_enabled (brcb_step call b) = br_enabled b" for b
      by (intro runtime_enabled) auto
    with Device ok inv runtime.step_inv [of "rc_reports c" call] show ?thesis
      by (auto intro!: control_inv_reports simp: control_inv_def)
  qed (use inv in \<open>simp_all add: control_tick_inv control_closed_inv control_state_def Let_def\<close>)
qed

end
