(* ===== verification/Brcb_Reservation.thy ===== *)
theory Brcb_Reservation
  imports Brcb_Control
begin

text \<open>
  The life cycle of the reservation of a buffered report control block as a labelled step relation, the
  refinement of it by every operation of \<open>MmsStaticBrcbControl\<close>, and the consequences for clients:
  exclusive control, reports only for a live owner, retention after a lost association.
\<close>

datatype reservation =
    Free
  | Held bytes u64 u32          \<comment> \<open>owner, association, retention time in seconds\<close>
  | Retained bytes u32 u64      \<comment> \<open>owner, retention time in seconds, deadline\<close>

datatype actor = Client bytes u64 | Network u64 | Clock

inductive res_step :: "actor \<Rightarrow> u64 \<Rightarrow> reservation \<Rightarrow> reservation \<Rightarrow> bool" where
  acquire: "res_step (Client own a) now Free (Held own a s)" if "a \<noteq> 0" "own \<noteq> []" "length own \<le> 16"
| renew: "res_step (Client own a) now (Held own a s) (Held own a s')"
| reclaim: "res_step (Client own a) now (Retained own s e) (Held own a s')" if "a \<noteq> 0" "now < e"
| release: "res_step (Client own a) now (Held own a s) Free"
| lose: "res_step (Network a) now (Held own a s) (Retained own s (reservation_deadline now s))" if "s \<noteq> 0"
| forget: "res_step (Network a) now (Held own a 0) Free"
| expire: "res_step x now (Retained own s e) Free" if "e \<le> now"

inductive_cases held_stepE: "res_step x now (Held own a s) r"
inductive_cases retained_stepE: "res_step x now (Retained own s e) r"

definition reservation :: "brcb_control \<Rightarrow> reservation" where
  "reservation c =
     (let own = take (rc_owner_size c) (rc_owner c) in
      if \<not> rc_reserved c then Free
      else if rc_owner_connected c then Held own (rc_association_id c) (rc_resv_tms_seconds c)
      else Retained own (rc_resv_tms_seconds c) (rc_expires_at_ms c))"

definition owner_view :: "client_identity \<Rightarrow> bytes" where
  "owner_view cl = take (if cl_owner_size cl \<le> length (cl_owner cl) then cl_owner_size cl else 0) (cl_owner cl)"

fun event_actor :: "control_event \<Rightarrow> actor" where
  "event_actor (Client_event op cl now) = Client (owner_view cl) (cl_association_id cl)"
| "event_actor (Association_closed a now) = Network a"
| "event_actor _ = Clock"

fun event_time :: "control_event \<Rightarrow> u64" where
  "event_time (Client_event op cl now) = now"
| "event_time (Association_closed a now) = now"
| "event_time (Tick now) = now"
| "event_time (State_view now) = now"
| "event_time (Device call) = 0"

subsection \<open>The abstract life cycle\<close>

text \<open>While the block is held only its own association moves the reservation.\<close>

lemma held_steps:
  assumes "(res_step x now)\<^sup>*\<^sup>* (Held own a s) r" "x \<noteq> Client own a" "x \<noteq> Network a"
  shows "r = Held own a s"
  using assms by (induction rule: rtranclp_induct) (auto elim: held_stepE)

text \<open>Before its deadline a retained reservation goes to its owner only.\<close>

lemma retained_steps:
  assumes "(res_step x now)\<^sup>*\<^sup>* (Retained own s e) r" "now < e" "\<And>a. x \<noteq> Client own a"
  shows "r = Retained own s e"
  using assms(1)
proof (induction rule: rtranclp_induct)
  case (step y z)
  from step.hyps(2) [unfolded step.IH] show ?case
    by (rule retained_stepE) (use assms(2,3) in auto)
qed simp

subsection \<open>Refinement\<close>

lemma reservation_clear [simp]: "reservation (clear_reservation c) = Free"
  by (simp add: reservation_def clear_reservation_def)

lemma reservation_reports [simp]: "reservation (c\<lparr>rc_reports := b\<rparr>) = reservation c"
  by (simp add: reservation_def Let_def)

lemma reservation_disable [simp]: "reservation (disable_reports c) = reservation c"
  by (simp add: disable_reports_def)

lemma tick_refines: "(res_step x now)\<^sup>*\<^sup>* (reservation c) (reservation (control_tick now c))"
proof (rule control_tick_cases [of now c])
  assume "rc_reserved c" "\<not> rc_owner_connected c" "rc_expires_at_ms c \<le> now"
    "control_tick now c = clear_reservation (disable_reports c)"
  then show ?thesis by (auto simp: reservation_def [of c] intro!: r_into_rtranclp res_step.expire)
qed simp

lemma same_owner_view: "same_owner cl c \<Longrightarrow> owner_view cl = take (rc_owner_size c) (rc_owner c)"
  by (auto simp: same_owner_def owner_view_def client_valid_def)

lemma owner_view_valid: "client_valid cl \<Longrightarrow> owner_view cl = take (cl_owner_size cl) (cl_owner cl) \<and> owner_view cl \<noteq> []"
  by (auto simp: owner_view_def client_valid_def)

lemma tick_retained:
  assumes "rc_reserved (control_tick now c)" "\<not> rc_owner_connected (control_tick now c)" "control_inv c"
  shows "now < rc_expires_at_ms (control_tick now c)"
  using assms by (auto simp: control_tick_def clear_reservation_def control_inv_def split: if_splits)

lemma reserve_refines:
  assumes inv: "control_inv c" and own: "length (cl_owner cl) = 16"
  shows "(res_step (Client (owner_view cl) (cl_association_id cl)) now)\<^sup>*\<^sup>*
    (reservation c) (reservation (snd (control_reserve cl s now c)))" (is "?R\<^sup>*\<^sup>* _ _")
proof (cases "br_initialized (rc_reports c) \<and> client_valid cl")
  case True
  let ?c = "control_tick now c"
  have a: "cl_association_id cl \<noteq> 0" using True by (simp add: client_valid_def)
  have "?R\<^sup>*\<^sup>* (reservation ?c) (reservation (snd (control_reserve cl s now c)))"
  proof -
    consider (acquire) "\<not> rc_reserved ?c" | (denied) "snd (control_reserve cl s now c) = ?c"
      | (renew) "same_owner cl ?c" "rc_owner_connected ?c" "rc_association_id ?c = cl_association_id cl"
      | (reclaim) "same_owner cl ?c" "\<not> rc_owner_connected ?c"
    proof (cases "rc_reserved ?c \<and> (\<not> same_owner cl ?c \<or> rc_owner_connected ?c \<and> rc_association_id ?c \<noteq> cl_association_id cl)")
      case True
      with \<open>br_initialized (rc_reports c) \<and> client_valid cl\<close>
      have "snd (control_reserve cl s now c) = ?c" by (auto simp: control_reserve_def Let_def)
      then show thesis by (rule denied)
    qed (use acquire renew reclaim in blast)
    then show ?thesis
    proof cases
      case acquire
      then have "reservation (snd (control_reserve cl s now c)) = Held (owner_view cl) (cl_association_id cl) s"
        using True by (auto simp: control_reserve_def reservation_def Let_def owner_view_valid client_valid_def)
      moreover have "reservation ?c = Free" using acquire by (simp add: reservation_def)
      ultimately show ?thesis
        using a True own owner_view_valid [of cl] res_step.acquire [of "cl_association_id cl" "owner_view cl" now s]
        by (auto intro: r_into_rtranclp)
    next
      case renew
      then show ?thesis
        using True same_owner_view [of cl ?c]
        by (auto simp: control_reserve_def reservation_def same_owner_def Let_def intro!: r_into_rtranclp res_step.renew)
    next
      case reclaim
      then have "now < rc_expires_at_ms ?c" by (intro tick_retained inv) (simp_all add: same_owner_def)
      with reclaim show ?thesis
        using True same_owner_view [of cl ?c] a
        by (auto simp: control_reserve_def reservation_def same_owner_def Let_def
            intro!: r_into_rtranclp res_step.reclaim)
    qed simp
  qed
  with tick_refines show ?thesis by (rule rtranclp_trans)
next
  case False
  then show ?thesis by (auto simp: control_reserve_def)
qed

lemma body_refines:
  assumes "owns_live_association cl c"
  shows "(res_step (Client (owner_view cl) (cl_association_id cl)) now)\<^sup>*\<^sup>*
    (reservation c) (reservation (snd (client_body op c)))"
proof (rule client_body_cases [of op c])
  assume "snd (client_body op c) = clear_reservation c"
  with assms show ?thesis
    by (auto simp: owns_live_association_def same_owner_def same_owner_view reservation_def [of c]
        intro!: r_into_rtranclp res_step.release)
qed simp_all

lemma closed_refines:
  "(res_step (Network a) now)\<^sup>*\<^sup>* (reservation c) (reservation (control_association_closed a now c))"
proof -
  let ?c = "control_tick now c"
  have "(res_step (Network a) now)\<^sup>*\<^sup>* (reservation ?c) (reservation (control_association_closed a now c))"
  proof (cases "rc_reserved ?c \<and> rc_owner_connected ?c \<and> a = rc_association_id ?c \<and> a \<noteq> 0")
    case True
    then have held: "reservation ?c = Held (take (rc_owner_size ?c) (rc_owner ?c)) a (rc_resv_tms_seconds ?c)"
      by (simp add: reservation_def)
    have "reservation (control_association_closed a now c) =
        (if rc_resv_tms_seconds ?c = 0 then Free
         else Retained (take (rc_owner_size ?c) (rc_owner ?c)) (rc_resv_tms_seconds ?c)
           (reservation_deadline now (rc_resv_tms_seconds ?c)))"
      using True by (auto simp: control_association_closed_def disable_reports_def reservation_def clear_reservation_def Let_def)
    with held show ?thesis by (auto intro!: r_into_rtranclp res_step.lose res_step.forget)
  next
    case False
    then have "control_association_closed a now c = ?c" by (auto simp: control_association_closed_def Let_def)
    then show ?thesis by simp
  qed
  with tick_refines show ?thesis by (rule rtranclp_trans)
qed

text \<open>C16.  Every operation of the control object, the calls of clients, lost associations and the
  passing of time, moves the reservation only along the life cycle: a free block is acquired, the holding
  client renews or releases it, a lost association leaves it retained until a deadline or frees it at
  once, only the same owner reclaims it before the deadline, and nobody else moves it.\<close>

theorem brcb_control_refines_life_cycle:
  assumes "control_inv c" "control_allowed e c"
  shows "(res_step (event_actor e) (event_time e))\<^sup>*\<^sup>* (reservation c) (reservation (control_step e c))"
proof (cases e)
  case (Client_event op cl now)
  show ?thesis
  proof (cases "\<exists>s. op = Op_reserve s")
    case True
    with Client_event assms show ?thesis by (auto intro: reserve_refines)
  next
    case False
    then have "client_call op cl now c = with_access (client_body op) cl now c" by (blast intro: client_call_body)
    then show ?thesis
      unfolding Client_event using body_refines [of cl c now op] tick_refines by (simp add: with_access_eq)
  qed
qed (simp_all add: closed_refines tick_refines control_state_def Let_def)

text \<open>Exclusive control: while a client is connected as owner, every call (reservation, release,
  enabling, configuration, interrogation, replay, purge) of a client with another association or another
  owner is refused and leaves the reservation, the configuration and the retained reports untouched.\<close>

theorem brcb_control_exclusive:
  assumes "rc_reserved c" "rc_owner_connected c"
    and "cl_association_id cl \<noteq> rc_association_id c \<or> owner_view cl \<noteq> take (rc_owner_size c) (rc_owner c)"
  shows "fst (client_call op cl now c) \<noteq> Control_ok \<and> snd (client_call op cl now c) = c"
proof -
  have denied: "\<not> owns_live_association cl c"
    using assms(3) same_owner_view by (auto simp: owns_live_association_def)
  show ?thesis
  proof (cases "\<exists>s. op = Op_reserve s")
    case True
    then obtain s where "op = Op_reserve s" by blast
    with assms(1,2) denied show ?thesis
      by (simp add: control_reserve_def Let_def owns_live_association_def) auto
  next
    case False
    then have "client_call op cl now c = with_access (client_body op) cl now c" by (blast intro: client_call_body)
    with assms(2) denied show ?thesis by (simp add: with_access_eq)
  qed
qed

text \<open>Whatever clients, the network, the clock and the device do after initialisation, reports are
  enabled only while a live association owns the block, the report buffer stays consistent, and a
  reservation without a live association has a retention time and so comes to an end.\<close>

theorem brcb_control_run_invariant:
  assumes "brcb_inv b" "\<not> br_enabled b" "run_ok control_allowed control_step es (control_initial b)"
  shows "let c = fold control_step es (control_initial b) in
    brcb_inv (rc_reports c) \<and>
    (br_enabled (rc_reports c) \<longrightarrow> rc_reserved c \<and> rc_owner_connected c \<and> rc_association_id c \<noteq> 0) \<and>
    (rc_reserved c \<and> \<not> rc_owner_connected c \<longrightarrow> rc_resv_tms_seconds c \<noteq> 0)"
proof -
  have "control_inv (control_initial b)" using assms(1,2) by (simp add: control_inv_def control_initial_def)
  from ownership.run_inv [OF assms(3) this] show ?thesis by (auto simp: control_inv_def Let_def)
qed

lemma reservation_deadline_saturates:
  "unat (reservation_deadline now s) = min (2 ^ 64 - 1) (unat now + 1000 * unat s)"
proof -
  let ?d = "(ucast s :: u64) * 1000"
  have s: "unat (ucast s :: u64) = unat s" by (rule unat_ucast_widen) simp
  have "unat s < 2 ^ 32" using unat_less_exp [of s] by simp
  then have d: "unat ?d = 1000 * unat s" by (subst unat_mult_lem [THEN iffD1]) (simp_all add: s)
  have "unat (- 1 - now) = 2 ^ 64 - 1 - unat now"
    by (simp add: unat_sub unsigned_minus_1_eq_mask mask_eq_exp_minus_1)
  moreover have "\<not> (ucast s :: u64) > - 1 div 1000"
    using \<open>unat s < 2 ^ 32\<close> by (simp add: word_less_nat_alt s unat_div unsigned_minus_1_eq_mask mask_eq_exp_minus_1)
  ultimately show ?thesis
    using d unat_less_exp [of now]
    by (auto simp: reservation_deadline_def Let_def word_less_nat_alt unat_word_ariths unsigned_minus_1_eq_mask
        mask_eq_exp_minus_1)
qed

lemma disable_reports_log: "brcb_log (rc_reports (disable_reports c)) = brcb_log (rc_reports c)"
  by (simp add: disable_reports_def brcb_set_enabled_def brcb_reschedule_def brcb_log_def ring_slot_def)

lemma retained_calls:
  assumes "rc_reserved c" "\<not> rc_owner_connected c" "now < rc_expires_at_ms c"
    "owner_view cl \<noteq> take (rc_owner_size c) (rc_owner c)"
  shows "fst (client_call op cl now c) \<noteq> Control_ok \<and> snd (client_call op cl now c) = c"
proof -
  have tick: "control_tick now c = c" using assms(3) by (simp add: control_tick_def)
  have other: "\<not> same_owner cl c" using assms(4) same_owner_view by blast
  show ?thesis
  proof (cases "\<exists>s. op = Op_reserve s")
    case True
    then obtain s where "op = Op_reserve s" by blast
    with assms(1) other tick show ?thesis by (simp add: control_reserve_def Let_def)
  next
    case False
    then have "client_call op cl now c = with_access (client_body op) cl now c" by (blast intro: client_call_body)
    with tick other show ?thesis by (simp add: with_access_eq owns_live_association_def)
  qed
qed

lemma same_ownerI:
  assumes "client_valid cl" "rc_reserved c" "length (cl_owner cl) = 16" "length (rc_owner c) = 16" "rc_owner_size c \<le> 16"
    "owner_view cl = take (rc_owner_size c) (rc_owner c)"
  shows "same_owner cl c"
proof -
  have view: "take (cl_owner_size cl) (cl_owner cl) = take (rc_owner_size c) (rc_owner c)"
    using owner_view_valid [OF assms(1)] assms(6) by simp
  then have "length (take (cl_owner_size cl) (cl_owner cl)) = length (take (rc_owner_size c) (rc_owner c))" by simp
  then have "cl_owner_size cl = rc_owner_size c" using assms(1,3,4,5) by (simp add: client_valid_def)
  with view assms(1,2) show ?thesis by (simp add: same_owner_def)
qed

text \<open>C17.  A lost association does not lose reports: when the association of the owner closes and the
  owner asked for a retention time, reports are disabled but every retained entry and the delivery
  cursor stay; until the deadline (retention time after the loss, saturating at the end of the clock's
  range) clients with another owner are refused without effect while the owner gets the block back with
  the same entries, and from the deadline on any valid client can reserve it.\<close>

theorem brcb_control_retention:
  assumes inv: "control_inv c" and held: "rc_reserved c" "rc_owner_connected c" "rc_resv_tms_seconds c \<noteq> 0"
    and c': "c' = control_association_closed (rc_association_id c) t c"
    and deadline: "deadline = reservation_deadline t (rc_resv_tms_seconds c)"
    and cl: "client_valid cl" "length (cl_owner cl) = 16"
  shows "unat deadline = min (2 ^ 64 - 1) (unat t + 1000 * unat (rc_resv_tms_seconds c)) \<and>
    \<not> br_enabled (rc_reports c') \<and> brcb_log (rc_reports c') = brcb_log (rc_reports c) \<and>
    (now < deadline \<and> owner_view cl \<noteq> take (rc_owner_size c) (rc_owner c) \<longrightarrow>
       fst (client_call op cl now c') \<noteq> Control_ok \<and> snd (client_call op cl now c') = c') \<and>
    (now < deadline \<and> owner_view cl = take (rc_owner_size c) (rc_owner c) \<longrightarrow>
       fst (control_reserve cl s now c') = Control_ok \<and> rc_reports (snd (control_reserve cl s now c')) = rc_reports c') \<and>
    (deadline \<le> now \<longrightarrow> fst (control_reserve cl s now c') = Control_ok)"
proof -
  have a: "rc_association_id c \<noteq> 0" "length (rc_owner c) = 16" "rc_owner_size c \<le> 16"
    using inv held by (simp_all add: control_inv_def)
  have eq: "c' = (disable_reports c)\<lparr>rc_association_id := 0, rc_owner_connected := False, rc_expires_at_ms := deadline\<rparr>"
    using held a by (simp add: c' control_association_closed_def Let_def deadline disable_reports_def)
  then have retained: "rc_reserved c'" "\<not> rc_owner_connected c'" "rc_expires_at_ms c' = deadline"
      "rc_owner c' = rc_owner c" "rc_owner_size c' = rc_owner_size c" "rc_resv_tms_seconds c' \<noteq> 0"
      "brcb_log (rc_reports c') = brcb_log (rc_reports c)"
    using held disable_reports_log [of c] by (simp_all add: disable_reports_def)
  have inv': "control_inv c'" unfolding c' by (rule control_closed_inv [OF inv])
  then have off: "\<not> br_enabled (rc_reports c')" and init: "br_initialized (rc_reports c')"
    using retained control_inv_runtime by (auto simp: control_inv_def)
  have "same_owner cl c'" if "owner_view cl = take (rc_owner_size c) (rc_owner c)"
    using that cl a retained by (intro same_ownerI) simp_all
  then have reclaimed: "fst (control_reserve cl s now c') = Control_ok \<and> rc_reports (snd (control_reserve cl s now c')) = rc_reports c'"
    if "now < deadline" "owner_view cl = take (rc_owner_size c) (rc_owner c)"
    using that retained init cl by (simp add: control_reserve_def control_tick_def Let_def)
  have free: "fst (control_reserve cl s now c') = Control_ok" if "deadline \<le> now"
    using that retained init cl
    by (simp add: control_reserve_def control_tick_def clear_reservation_def Let_def not_less)
  show ?thesis
    using reservation_deadline_saturates [of t "rc_resv_tms_seconds c"] retained_calls [of c' now cl op] retained off reclaimed free
    by (simp add: deadline)
qed

subsection \<open>Concrete runs\<close>

definition sample_client :: "u8 \<Rightarrow> u64 \<Rightarrow> client_identity" where
  "sample_client o1 a = \<lparr>cl_association_id = a, cl_owner = o1 # replicate 15 0, cl_owner_size = 1\<rparr>"

definition sample_held :: brcb_control where
  "sample_held = fold control_step [Client_event (Op_reserve 30) (sample_client 7 1) 0,
     Client_event (Op_set_report_enabled True) (sample_client 7 1) 5] (control_initial sample_block)"

lemma sample_run_ok:
  "run_ok control_allowed control_step [Client_event (Op_reserve 30) (sample_client 7 1) 0,
     Client_event (Op_set_report_enabled True) (sample_client 7 1) 5] (control_initial sample_block)"
  by (simp add: sample_client_def)

lemma sample_initial_inv: "control_inv (control_initial sample_block)"
  using sample_block_inv by (simp add: control_inv_def control_initial_def) (simp add: sample_block_def Let_def)

lemma sample_held_inv: "control_inv sample_held"
  unfolding sample_held_def by (rule ownership.run_inv [OF sample_run_ok sample_initial_inv])

lemma sample_held_fields:
  "rc_reserved sample_held" "rc_owner_connected sample_held" "rc_association_id sample_held = 1"
  "take (rc_owner_size sample_held) (rc_owner sample_held) = [7]" "rc_resv_tms_seconds sample_held = 30"
  "br_enabled (rc_reports sample_held)"
  by code_simp+

lemma sample_client_facts [simp]:
  "owner_view (sample_client k a) = [k]" "cl_association_id (sample_client k a) = a"
  "length (cl_owner (sample_client k a)) = 16" "client_valid (sample_client k a) \<longleftrightarrow> a \<noteq> 0"
  by (simp_all add: sample_client_def owner_view_def client_valid_def)

theorem brcb_control_refines_life_cycle_witness:
  "(res_step (Network 1) 9)\<^sup>*\<^sup>* (reservation sample_held) (reservation (control_association_closed 1 9 sample_held))"
  using brcb_control_refines_life_cycle [OF sample_held_inv, of "Association_closed 1 9"] by simp

theorem brcb_control_exclusive_witness:
  "fst (client_call Op_purge_buffer (sample_client 8 2) 6 sample_held) \<noteq> Control_ok \<and>
   snd (client_call Op_purge_buffer (sample_client 8 2) 6 sample_held) = sample_held"
  by (rule brcb_control_exclusive) (simp_all add: sample_held_fields)

theorem brcb_control_run_invariant_witness:
  "brcb_inv (rc_reports sample_held) \<and> br_enabled (rc_reports sample_held) \<and> rc_owner_connected sample_held"
proof -
  have "\<not> br_enabled sample_block" by code_simp
  from brcb_control_run_invariant [OF sample_block_inv this sample_run_ok, folded sample_held_def]
  show ?thesis using sample_held_fields by (simp only: Let_def simp_thms)
qed

theorem brcb_control_retention_witness:
  "let c' = control_association_closed 1 9 sample_held in
     \<not> br_enabled (rc_reports c') \<and> fst (control_reserve (sample_client 7 3) 30 30000 c') = Control_ok \<and>
     fst (control_reserve (sample_client 8 4) 30 30000 c') \<noteq> Control_ok \<and>
     fst (control_reserve (sample_client 8 4) 30 30009 c') = Control_ok"
proof -
  have d: "reservation_deadline 9 30 = 30009" by code_simp
  note ret = brcb_control_retention [OF sample_held_inv sample_held_fields(1,2) _ refl refl, unfolded sample_held_fields d]
  from ret [of "sample_client 7 3" 9 30000 Op_release 30] ret [of "sample_client 8 4" 9 30000 "Op_reserve 30" 30]
    ret [of "sample_client 8 4" 9 30009 Op_release 30]
  show ?thesis by (simp add: Let_def d)
qed

end
