(* ===== verification/Brcb_State.thy ===== *)
theory Brcb_State
  imports Brcb_Delivery
begin

text \<open>
  The recovery image of a buffered report control block (\<open>src/mms/static_brcb_state_codec.cpp\<close>): the
  retained entries with their cursor as octets, and a restore that validates the whole image before it
  changes anything.
\<close>

datatype state_status = State_ok | State_invalid_runtime | State_buffer_too_small | State_invalid
  | State_definition_mismatch | State_capacity_mismatch

type_synonym state_result = "state_status \<times> nat \<times> nat"  \<comment> \<open>status, octets written, octets required\<close>

definition magic_v1 :: bytes where
  "magic_v1 = map of_char ''ARBRCBQ1''"

definition magic_v2 :: bytes where
  "magic_v2 = map of_char ''ARBRCBQ2''"

definition read_u32_at :: "bytes \<Rightarrow> nat \<Rightarrow> u32" where
  "read_u32_at src off = be_value (take 4 (drop off src))"

definition read_u64_at :: "bytes \<Rightarrow> nat \<Rightarrow> u64" where
  "read_u64_at src off = be_value (take 8 (drop off src))"

subsection \<open>Fingerprint of the definition\<close>

definition hash_byte :: "u8 \<Rightarrow> u64 \<Rightarrow> u64" where
  "hash_byte v hash = (hash XOR ucast v) * 1099511628211"

definition hash_u64 :: "u64 \<Rightarrow> u64 \<Rightarrow> u64" where
  "hash_u64 v = fold hash_byte (be_bytes 8 v)"

definition hash_text :: "string \<Rightarrow> u64 \<Rightarrow> u64" where
  "hash_text s = fold hash_byte (map of_char s) \<circ> hash_u64 (of_nat (length s))"

definition definition_fingerprint :: "brcb_definition \<Rightarrow> u64" where
  "definition_fingerprint d =
     (let h = 14695981039346656037;
          h = hash_text (bd_domain d) h; h = hash_text (bd_item d) h; h = hash_text (bd_report_id d) h;
          h = hash_text (bd_data_set_domain d) h; h = hash_text (bd_data_set_item d) h;
          h = hash_u64 (ucast (bd_conf_revision d)) h; h = fold hash_byte (bd_optional_fields d) h;
          h = hash_u64 (ucast (bd_buffer_time_ms d)) h
      in hash_byte (bd_trigger_options d) h)"

subsection \<open>Encoding\<close>

definition add_required :: "nat \<Rightarrow> nat \<Rightarrow> nat option" where
  "add_required required extra = (if extra > 2 ^ 64 - 1 - required then None else Some (required + extra))"

fun state_required :: "brcb_slot list \<Rightarrow> nat \<Rightarrow> nat option" where
  "state_required [] required = Some required"
| "state_required (s # ss) required =
     (if \<not> sl_occupied s \<or> sl_bytes s = 0 \<or> sl_bytes s > length (sl_storage s) \<or> sl_bytes s > 0xFFFFFFFF then None
      else case add_required required 16 of
          None \<Rightarrow> None
        | Some n \<Rightarrow> (case add_required n (sl_bytes s) of None \<Rightarrow> None | Some m \<Rightarrow> state_required ss m))"

fun state_write_entries :: "brcb_slot list \<Rightarrow> nat \<Rightarrow> bytes \<Rightarrow> bytes" where
  "state_write_entries [] off out = out"
| "state_write_entries (s # ss) off out =
     (let out = put_at off (be_bytes 4 (of_nat (sl_bytes s) :: u32)) out;
          out = put_at (off + 4) (sl_entry_id s) out;
          out = out[off + 12 := sl_sequence_number s];
          out = out[off + 13 := (if sl_buffer_overflow s then 1 else 0)];
          off = off + 16;
          out = put_at off (take (sl_bytes s) (sl_storage s)) out
      in state_write_entries ss (off + sl_bytes s) out)"

definition state_write_header :: "brcb \<Rightarrow> bytes \<Rightarrow> bytes" where
  "state_write_header b out =
     (let out = put_at 0 magic_v2 out;
          out = put_at 8 (write_be_u16 2) out;
          out = put_at 10 (write_be_u16 56) out;
          out = put_at 12 (be_bytes 8 (definition_fingerprint (br_definition b))) out;
          out = put_at 20 (be_bytes 4 (of_nat (br_count b) :: u32)) out;
          out = put_at 24 (be_bytes 8 (br_next_entry_number b)) out;
          out = put_at 32 (be_bytes 8 (br_dropped_reports b)) out;
          out = out[40 := br_sequence_number b];
          out = out[41 := (if br_replay_gap b then 0x01 else 0)]
      in put_at 44 (be_bytes 4 (of_nat (br_delivery_offset b) :: u32)) out)"

definition retained_slots :: "brcb \<Rightarrow> brcb_slot list" where
  "retained_slots b = map (\<lambda>i. br_slots b ! ((br_head b + i) mod length (br_slots b))) [0..<br_count b]"

definition state_encode :: "brcb \<Rightarrow> bytes \<Rightarrow> state_result \<times> bytes" where
  "state_encode b dest =
     (if \<not> br_initialized b \<or> br_slots b = [] \<or> br_head b \<ge> length (br_slots b) \<or> br_count b > length (br_slots b) \<or>
         br_delivery_offset b > br_count b \<or> br_count b > 0xFFFFFFFF \<or> br_delivery_offset b > 0xFFFFFFFF
      then ((State_invalid_runtime, 0, 0), dest)
      else case state_required (retained_slots b) 56 of
          None \<Rightarrow> ((State_invalid_runtime, 0, 0), dest)
        | Some required \<Rightarrow>
            if length dest < required then ((State_buffer_too_small, 0, required), dest)
            else let out = state_write_header b (replicate required 0);
                     out = state_write_entries (retained_slots b) 56 out
              in ((State_ok, required, required), out @ drop required dest))"

subsection \<open>Restoring\<close>

text \<open>The loop that validates the entries; it returns the offset after the last one, its number and its
  sequence number.\<close>

fun state_check :: "bytes \<Rightarrow> brcb_slot list \<Rightarrow> nat \<Rightarrow> nat \<Rightarrow> nat \<Rightarrow> u64 \<Rightarrow> u8 \<Rightarrow> state_status + nat \<times> u64 \<times> u8" where
  "state_check src slots logical 0 off previous last_sequence = Inr (off, previous, last_sequence)"
| "state_check src slots logical (Suc n) off previous last_sequence =
     (if off > length src \<or> length src - off < 16 then Inl State_invalid
      else let pdu_bytes = unat (read_u32_at src off); overflow = src ! (off + 13); capacity = length (sl_storage (slots ! logical)) in
        if pdu_bytes = 0 \<or> overflow > 1 \<or> src ! (off + 14) \<noteq> 0 \<or> src ! (off + 15) \<noteq> 0 \<or> pdu_bytes > capacity
        then Inl (if pdu_bytes > capacity then State_capacity_mismatch else State_invalid)
        else let off' = off + 16 in
          if off' > length src \<or> pdu_bytes > length src - off' then Inl State_invalid
          else let entry_number = read_u64_at src (off + 4) in
            if entry_number = 0 \<or> (logical \<noteq> 0 \<and> entry_number \<noteq> next_entry_number previous) then Inl State_invalid
            else state_check src slots (Suc logical) n (off' + pdu_bytes) entry_number (src ! (off + 12)))"

fun state_load :: "bytes \<Rightarrow> nat \<Rightarrow> nat \<Rightarrow> nat \<Rightarrow> brcb_slot list \<Rightarrow> brcb_slot list" where
  "state_load src 0 logical off slots = slots"
| "state_load src (Suc n) logical off slots =
     (let pdu_bytes = unat (read_u32_at src off);
          s = slots ! logical;
          s = s\<lparr>sl_entry_id := take 8 (drop (off + 4) src), sl_sequence_number := src ! (off + 12),
                sl_buffer_overflow := (src ! (off + 13) \<noteq> 0), sl_bytes := pdu_bytes, sl_occupied := True,
                sl_storage := put_at 0 (take pdu_bytes (drop (off + 16) src)) (sl_storage s)\<rparr>
      in state_load src n (Suc logical) (off + 16 + pdu_bytes) (slots[logical := s]))"

definition magic_matches :: "bytes \<Rightarrow> bytes \<Rightarrow> bool" where
  "magic_matches src magic \<longleftrightarrow> length src \<ge> length magic \<and> take (length magic) src = magic"

text \<open>Header size, delivery offset and replay gap of an image of either version.\<close>

definition state_header :: "bytes \<Rightarrow> (nat \<times> nat \<times> bool) option" where
  "state_header src =
     (let is_v2 = (length src \<ge> 56 \<and> magic_matches src magic_v2 \<and> read_be_u16 src 8 = 2 \<and> read_be_u16 src 10 = 56);
          is_v1 = (length src \<ge> 48 \<and> magic_matches src magic_v1 \<and> read_be_u16 src 8 = 1 \<and> read_be_u16 src 10 = 48)
      in if \<not> is_v2 \<and> \<not> is_v1 then None
         else if is_v2 then
           (if src ! 41 AND NOT 0x01 \<noteq> 0 \<or> src ! 42 \<noteq> 0 \<or> src ! 43 \<noteq> 0 \<or> list_ex (\<lambda>i. src ! i \<noteq> 0) [48..<56] then None
            else Some (56, unat (read_u32_at src 44), src ! 41 AND 0x01 \<noteq> 0))
         else if list_ex (\<lambda>i. src ! i \<noteq> 0) [41..<48] then None
         else Some (48, 0, False))"

definition state_restore :: "brcb \<Rightarrow> bytes \<Rightarrow> state_result \<times> brcb" where
  "state_restore b src =
     (if \<not> br_initialized b \<or> br_slots b = [] then ((State_invalid_runtime, 0, length src), b)
      else case state_header src of
          None \<Rightarrow> ((State_invalid, 0, length src), b)
        | Some (header_bytes, delivery_offset, replay_gap) \<Rightarrow>
            if read_u64_at src 12 \<noteq> definition_fingerprint (br_definition b)
            then ((State_definition_mismatch, 0, length src), b)
            else let count = unat (read_u32_at src 20); next = read_u64_at src 24; dropped = read_u64_at src 32;
                     sequence = src ! 40 in
              if count > length (br_slots b) then ((State_capacity_mismatch, 0, length src), b)
              else if delivery_offset > count \<or> next = 0 then ((State_invalid, 0, length src), b)
              else (case state_check src (br_slots b) 0 count header_bytes 0 0 of
                  Inl status \<Rightarrow> ((status, 0, length src), b)
                | Inr (off, previous, last_sequence) \<Rightarrow>
                    if off \<noteq> length src \<or> (count \<noteq> 0 \<and> next \<noteq> next_entry_number previous) \<or>
                       (count \<noteq> 0 \<and> sequence \<noteq> last_sequence)
                    then ((State_invalid, 0, length src), b)
                    else ((State_ok, length src, length src),
                      b\<lparr>br_slots := state_load src count 0 header_bytes (map clear_slot (br_slots b)), br_head := 0,
                        br_count := count, br_delivery_offset := delivery_offset, br_next_entry_number := next,
                        br_dropped_reports := dropped, br_sequence_number := sequence, br_replay_gap := replay_gap,
                        br_queue_revision := bump_revision (br_queue_revision b),
                        br_pending := \<lparr>pe_masks = replicate 128 0, pe_due_ms = 0, pe_revision = 1, pe_member_count = 0,
                          pe_pending = False\<rparr>,
                        br_enabled := False\<rparr>)))"

end
