(* ===== verification/Brcb_Recovery.thy ===== *)
theory Brcb_Recovery
  imports Brcb_State
begin

text \<open>
  What the recovery image promises: restoring the image of a block gives back its log of retained entries
  with the delivery cursor, a refused image changes nothing, and an accepted image always gives a
  consistent block.
\<close>

subsection \<open>The image\<close>

definition entry_octets :: "brcb_slot \<Rightarrow> bytes" where
  "entry_octets s = be_bytes 4 (of_nat (sl_bytes s) :: u32) @ sl_entry_id s @
     [sl_sequence_number s, if sl_buffer_overflow s then 1 else 0, 0, 0] @ take (sl_bytes s) (sl_storage s)"

definition image_header :: "brcb \<Rightarrow> bytes" where
  "image_header b = magic_v2 @ write_be_u16 2 @ write_be_u16 56 @ be_bytes 8 (definition_fingerprint (br_definition b)) @
     be_bytes 4 (of_nat (br_count b) :: u32) @ be_bytes 8 (br_next_entry_number b) @ be_bytes 8 (br_dropped_reports b) @
     [br_sequence_number b, if br_replay_gap b then 0x01 else 0, 0, 0] @
     be_bytes 4 (of_nat (br_delivery_offset b) :: u32) @ replicate 8 0"

definition state_image :: "brcb \<Rightarrow> bytes" where
  "state_image b = image_header b @ concat (map entry_octets (retained_slots b))"

text \<open>A slot the encoder accepts.\<close>

definition storable :: "brcb_slot \<Rightarrow> bool" where
  "storable s \<longleftrightarrow> sl_occupied s \<and> 0 < sl_bytes s \<and> sl_bytes s \<le> length (sl_storage s) \<and> sl_bytes s \<le> 0xFFFFFFFF \<and>
     length (sl_entry_id s) = 8"

lemma length_magic [simp]: "length magic_v1 = 8" "length magic_v2 = 8"
  by (simp_all add: magic_v1_def magic_v2_def)

lemma length_image_header [simp]: "length (image_header b) = 56"
  by (simp add: image_header_def)

lemma length_entry_octets [simp]: "storable s \<Longrightarrow> length (entry_octets s) = 16 + sl_bytes s"
  by (simp add: storable_def entry_octets_def)

lemma entry_written:
  assumes "length x = 4" "length y = 8" "length p = n"
  shows "put_at (length pre + 16) p
      ((put_at (length pre + 4) y (put_at (length pre) x (pre @ replicate 16 0 @ replicate n 0 @ post)))
        [length pre + 12 := u, length pre + 13 := v]) =
    (pre @ x @ y @ [u, v, 0, 0] @ p) @ (post :: bytes)"
proof -
  have "replicate 16 0 = replicate 4 0 @ replicate 8 0 @ [0, 0, 0, 0 :: u8]" by (simp add: numeral_eq_Suc)
  moreover have "drop (4 + n) (u # v # 0 # 0 # replicate n 0 @ post) = post" by (simp add: eval_nat_numeral)
  ultimately show ?thesis using assms by (simp add: put_at_def list_update_append)
qed

lemma write_entries_eq:
  assumes "list_all storable ss"
  shows "state_write_entries ss (length pre) (pre @ replicate (length (concat (map entry_octets ss))) 0) =
    pre @ concat (map entry_octets ss)"
  using assms
proof (induction ss arbitrary: pre)
  case (Cons s ss)
  let ?n = "length (concat (map entry_octets ss))"
  have s: "storable s" using Cons.prems by simp
  have split: "replicate (length (concat (map entry_octets (s # ss)))) 0 = replicate 16 0 @ replicate (sl_bytes s) 0 @ replicate ?n (0 :: u8)"
    using s by (simp add: replicate_add [symmetric] add.assoc)
  have "state_write_entries (s # ss) (length pre) (pre @ replicate (length (concat (map entry_octets (s # ss)))) 0) =
      state_write_entries ss (length pre + 16 + sl_bytes s) ((pre @ entry_octets s) @ replicate ?n 0)"
    unfolding split state_write_entries.simps Let_def
    by (subst entry_written) (use s in \<open>simp_all add: storable_def entry_octets_def\<close>)
  also have "length pre + 16 + sl_bytes s = length (pre @ entry_octets s)" using s by simp
  also have "state_write_entries ss \<dots> ((pre @ entry_octets s) @ replicate ?n 0) = (pre @ entry_octets s) @ concat (map entry_octets ss)"
    using Cons.prems by (intro Cons.IH) simp
  finally show ?case by simp
qed simp

lemma write_header_eq: "state_write_header b (replicate 56 0 @ post) = image_header b @ post"
proof -
  have z: "replicate 56 0 = replicate 8 0 @ replicate 2 0 @ replicate 2 0 @ replicate 8 0 @ replicate 4 0 @ replicate 8 0 @
      replicate 8 0 @ [0, 0, 0, 0] @ replicate 4 0 @ replicate 8 (0 :: u8)"
    by (simp add: numeral_eq_Suc)
  show ?thesis
    unfolding state_write_header_def Let_def z image_header_def
    by (simp add: put_at_def list_update_append)
qed

lemma state_required_Some:
  "list_all storable ss \<Longrightarrow> n + length (concat (map entry_octets ss)) < 2 ^ 64 \<Longrightarrow>
     state_required ss n = Some (n + length (concat (map entry_octets ss)))"
proof (induction ss arbitrary: n)
  case (Cons s ss)
  then show ?case by (auto simp: storable_def [of s] add_required_def add.assoc)
qed simp

lemma state_encode_image:
  assumes "brcb_inv b" "list_all storable (retained_slots b)" "br_count b \<le> 0xFFFFFFFF" "length (state_image b) < 2 ^ 64"
  shows "state_encode b dest = (if length dest < length (state_image b) then ((State_buffer_too_small, 0, length (state_image b)), dest)
    else ((State_ok, length (state_image b), length (state_image b)), state_image b @ drop (length (state_image b)) dest))"
proof -
  let ?e = "concat (map entry_octets (retained_slots b))"
  have ring: "ring_ok b" and init: "br_initialized b" using assms(1) by (simp_all add: brcb_inv_def)
  have len: "length (state_image b) = 56 + length ?e" by (simp add: state_image_def)
  have req: "state_required (retained_slots b) 56 = Some (length (state_image b))"
    using state_required_Some [OF assms(2), of 56] assms(4) by (simp add: len)
  have "state_write_entries (retained_slots b) 56 (state_write_header b (replicate (length (state_image b)) 0)) = state_image b"
    using write_entries_eq [OF assms(2), of "image_header b"] by (simp add: len replicate_add write_header_eq state_image_def)
  then show ?thesis
    using ring init assms(3) by (auto simp: state_encode_def req ring_ok_def Let_def)
qed

subsection \<open>Reading entries\<close>

definition entry_number :: "brcb_slot \<Rightarrow> u64" where
  "entry_number s = be_value (sl_entry_id s)"

text \<open>Numbers the restore accepts: none is zero and each follows the previous one.\<close>

fun chain_ok :: "nat \<Rightarrow> u64 \<Rightarrow> brcb_slot list \<Rightarrow> bool" where
  "chain_ok l previous [] = True"
| "chain_ok l previous (s # ss) \<longleftrightarrow> entry_number s \<noteq> 0 \<and> (l = 0 \<or> entry_number s = next_entry_number previous) \<and>
     chain_ok (Suc l) (entry_number s) ss"

fun fits :: "brcb_slot list \<Rightarrow> nat \<Rightarrow> brcb_slot list \<Rightarrow> bool" where
  "fits slots l [] = True"
| "fits slots l (s # ss) \<longleftrightarrow> sl_bytes s \<le> length (sl_storage (slots ! l)) \<and> fits slots (Suc l) ss"

definition last_number :: "u64 \<Rightarrow> brcb_slot list \<Rightarrow> u64" where
  "last_number previous ss = (if ss = [] then previous else entry_number (last ss))"

definition last_sequence :: "u8 \<Rightarrow> brcb_slot list \<Rightarrow> u8" where
  "last_sequence q ss = (if ss = [] then q else sl_sequence_number (last ss))"

lemma last_Cons_fold [simp]:
  "last_number previous (s # ss) = last_number (entry_number s) ss"
  "last_sequence q (s # ss) = last_sequence (sl_sequence_number s) ss"
  by (simp_all add: last_number_def last_sequence_def)

lemma storable_size: "storable s \<Longrightarrow> unat (of_nat (sl_bytes s) :: u32) = sl_bytes s"
  by (simp add: storable_def unsigned_of_nat take_bit_nat_eq_self)

lemma entry_reads:
  assumes "storable s"
  shows "read_u32_at (pre @ entry_octets s @ post) (length pre) = of_nat (sl_bytes s)"
    "take 8 (drop (length pre + 4) (pre @ entry_octets s @ post)) = sl_entry_id s"
    "read_u64_at (pre @ entry_octets s @ post) (length pre + 4) = entry_number s"
    "(pre @ entry_octets s @ post) ! (length pre + 12) = sl_sequence_number s"
    "(pre @ entry_octets s @ post) ! (length pre + 13) = (if sl_buffer_overflow s then 1 else 0)"
    "(pre @ entry_octets s @ post) ! (length pre + 14) = 0" "(pre @ entry_octets s @ post) ! (length pre + 15) = 0"
    "take (sl_bytes s) (drop (length pre + 16) (pre @ entry_octets s @ post)) = take (sl_bytes s) (sl_storage s)"
proof -
  have len: "length (sl_entry_id s) = 8" using assms by (simp add: storable_def)
  show "read_u32_at (pre @ entry_octets s @ post) (length pre) = of_nat (sl_bytes s)"
    using be_value_be_bytes [of 4 "of_nat (sl_bytes s) :: u32", where 'b = 32] by (simp add: read_u32_at_def entry_octets_def)
  show id: "take 8 (drop (length pre + 4) (pre @ entry_octets s @ post)) = sl_entry_id s"
    using len by (simp add: entry_octets_def)
  show "read_u64_at (pre @ entry_octets s @ post) (length pre + 4) = entry_number s"
    by (simp only: read_u64_at_def id entry_number_def)
qed (use assms in \<open>simp_all add: storable_def entry_octets_def nth_append\<close>)

lemma state_check_complete:
  "list_all storable ss \<Longrightarrow> fits slots l ss \<Longrightarrow> chain_ok l previous ss \<Longrightarrow>
     state_check (pre @ concat (map entry_octets ss) @ post) slots l (length ss) (length pre) previous q =
       Inr (length (pre @ concat (map entry_octets ss)), last_number previous ss, last_sequence q ss)"
proof (induction ss arbitrary: pre l previous q)
  case Nil
  then show ?case by (simp add: last_number_def last_sequence_def)
next
  case (Cons s ss)
  have s: "storable s" "sl_bytes s \<noteq> 0" using Cons.prems by (auto simp: storable_def)
  note r = entry_reads [OF s(1), where pre = pre and post = "concat (map entry_octets ss) @ post"]
  have ih: "state_check ((pre @ entry_octets s) @ concat (map entry_octets ss) @ post) slots (Suc l) (length ss)
      (length (pre @ entry_octets s)) (entry_number s) (sl_sequence_number s) =
    Inr (length ((pre @ entry_octets s) @ concat (map entry_octets ss)), last_number (entry_number s) ss,
      last_sequence (sl_sequence_number s) ss)"
    using Cons.prems by (intro Cons.IH) simp_all
  then show ?case using Cons.prems s r by (simp add: Let_def add.assoc storable_size)
qed

text \<open>The entry that accepted octets stand for.\<close>

definition entry_of :: "bytes \<Rightarrow> nat \<Rightarrow> brcb_slot" where
  "entry_of src off = (let n = unat (read_u32_at src off) in
     \<lparr>sl_storage = take n (drop (off + 16) src), sl_entry_id = take 8 (drop (off + 4) src), sl_time_of_entry = [],
       sl_bytes = n, sl_sequence_number = src ! (off + 12), sl_buffer_overflow = (src ! (off + 13) \<noteq> 0), sl_occupied = True\<rparr>)"

lemma take_four: "k + 4 \<le> length xs \<Longrightarrow> take 4 (drop k xs) = [xs ! k, xs ! (k + 1), xs ! (k + 2), xs ! (k + 3)]"
  by (simp add: list_eq_iff_nth_eq All_less_Suc numeral_eq_Suc)

lemma entry_of_octets:
  assumes "unat (read_u32_at (pre @ rest) (length pre)) = n" "n \<noteq> 0" "16 + n \<le> length rest"
    "rest ! 13 \<le> 1" "rest ! 14 = 0" "rest ! 15 = 0"
  shows "storable (entry_of (pre @ rest) (length pre))"
    "rest = entry_octets (entry_of (pre @ rest) (length pre)) @ drop (16 + n) rest"
proof -
  let ?s = "entry_of (pre @ rest) (length pre)"
  have "unat (read_u32_at (pre @ rest) (length pre)) < 2 ^ LENGTH(32)" by (rule unsigned_less)
  then have n: "read_u32_at (pre @ rest) (length pre) = (of_nat n :: u32)" "n \<le> 0xFFFFFFFF" using assms(1) by auto
  show "storable ?s" using assms n by (simp add: storable_def entry_of_def Let_def)
  have bit: "rest ! 13 = (if rest ! 13 \<noteq> 0 then 1 else 0)"
    using assms(4) by (auto simp: word_le_nat_alt word_unat_eq_iff)
  have "be_bytes 4 (of_nat n :: u32) = take 4 rest"
    using n(1) be_bytes_be_value [of "take 4 rest" 4, where 'a = 32] assms(3) by (simp add: read_u32_at_def)
  moreover have "take (16 + n) rest = take 4 rest @ take 8 (drop 4 rest) @ [rest ! 12, rest ! 13, rest ! 14, rest ! 15] @ take n (drop 16 rest)"
    using assms(3) take_four [of 12 rest] take_add [of 16 n rest] take_add [of 4 8 rest] take_add [of 12 4 rest] by simp
  ultimately have "entry_octets ?s = take (16 + n) rest"
    using assms bit by (simp add: entry_octets_def entry_of_def Let_def)
  then show "rest = entry_octets ?s @ drop (16 + n) rest" by simp
qed

lemma state_check_sound:
  "state_check (pre @ rest) slots l n (length pre) previous q = Inr (off, k, q') \<Longrightarrow>
     \<exists>ss post. rest = concat (map entry_octets ss) @ post \<and> length ss = n \<and> off = length (pre @ concat (map entry_octets ss)) \<and>
       list_all storable ss \<and> fits slots l ss \<and> chain_ok l previous ss \<and> k = last_number previous ss \<and> q' = last_sequence q ss"
proof (induction n arbitrary: pre rest l previous q)
  case 0
  then show ?case by (intro exI [of _ "[]"] exI [of _ rest]) (simp add: last_number_def last_sequence_def)
next
  case (Suc n)
  let ?s = "entry_of (pre @ rest) (length pre)" and ?n = "unat (read_u32_at (pre @ rest) (length pre))"
  have c: "?n \<noteq> 0" "16 + ?n \<le> length rest" "rest ! 13 \<le> 1" "rest ! 14 = 0" "rest ! 15 = 0"
      "?n \<le> length (sl_storage (slots ! l))" "read_u64_at (pre @ rest) (length pre + 4) \<noteq> 0"
      "l = 0 \<or> read_u64_at (pre @ rest) (length pre + 4) = next_entry_number previous"
    and step: "state_check (pre @ rest) slots (Suc l) n (length pre + 16 + ?n) (read_u64_at (pre @ rest) (length pre + 4)) (rest ! 12) =
      Inr (off, k, q')"
    using Suc.prems by (auto simp: Let_def not_less split: if_splits)
  note s = entry_of_octets [OF refl c(1-5)]
  have fields: "sl_bytes ?s = ?n" "entry_number ?s = read_u64_at (pre @ rest) (length pre + 4)" "sl_sequence_number ?s = rest ! 12"
    by (simp_all add: entry_of_def Let_def entry_number_def read_u64_at_def)
  let ?rest = "drop (16 + ?n) rest"
  have src: "pre @ rest = (pre @ entry_octets ?s) @ ?rest" using s(2) by simp
  have len: "length pre + 16 + ?n = length (pre @ entry_octets ?s)" using s(1) fields by simp
  obtain ss post where "?rest = concat (map entry_octets ss) @ post" "length ss = n"
      "off = length ((pre @ entry_octets ?s) @ concat (map entry_octets ss))" "list_all storable ss" "fits slots (Suc l) ss"
      "chain_ok (Suc l) (entry_number ?s) ss" "k = last_number (entry_number ?s) ss" "q' = last_sequence (rest ! 12) ss"
    using Suc.IH [of "pre @ entry_octets ?s" ?rest "Suc l" "entry_number ?s" "rest ! 12"] step
    unfolding len fields(2) [symmetric] by (metis src)
  then show ?case using s c fields
    by (intro exI [of _ "?s # ss"] exI [of _ post]) auto
qed

subsection \<open>Loading entries\<close>

lemma length_state_load [simp]: "length (state_load src n l off slots) = length slots"
  by (induction n arbitrary: l off slots) (simp_all add: Let_def)

lemma state_load_eq_Nil [simp]: "state_load src n l off slots = [] \<longleftrightarrow> slots = []"
  by (metis length_0_conv length_state_load)

lemma state_load_before: "j < l \<Longrightarrow> state_load src n l off slots ! j = slots ! j"
  by (induction n arbitrary: l off slots) (simp_all add: Let_def)

lemma fits_update: "fits slots l ss \<Longrightarrow> k < l \<Longrightarrow> fits (slots[k := s]) l ss"
  by (induction ss arbitrary: l) simp_all

lemma state_load_entries:
  "list_all storable ss \<Longrightarrow> fits slots l ss \<Longrightarrow> l + length ss \<le> length slots \<Longrightarrow> i < length ss \<Longrightarrow>
     storable (state_load (pre @ concat (map entry_octets ss) @ post) (length ss) l (length pre) slots ! (l + i)) \<and>
     slot_view (state_load (pre @ concat (map entry_octets ss) @ post) (length ss) l (length pre) slots ! (l + i)) = slot_view (ss ! i)"
proof (induction ss arbitrary: pre l slots i)
  case (Cons s ss)
  have s: "storable s" "sl_bytes s \<le> length (sl_storage (slots ! l))" "l < length slots" using Cons.prems by auto
  have p: "sl_bytes s \<le> length (sl_storage s)" using s(1) by (simp add: storable_def)
  note r = entry_reads [OF s(1), where pre = pre and post = "concat (map entry_octets ss) @ post"]
  let ?s = "(slots ! l)\<lparr>sl_entry_id := sl_entry_id s, sl_sequence_number := sl_sequence_number s,
      sl_buffer_overflow := sl_buffer_overflow s, sl_bytes := sl_bytes s, sl_occupied := True,
      sl_storage := put_at 0 (take (sl_bytes s) (sl_storage s)) (sl_storage (slots ! l))\<rparr>"
  let ?slots = "slots[l := ?s]"
  have load: "state_load (pre @ concat (map entry_octets (s # ss)) @ post) (length (s # ss)) l (length pre) slots =
      state_load ((pre @ entry_octets s) @ concat (map entry_octets ss) @ post) (length ss) (Suc l) (length (pre @ entry_octets s)) ?slots"
    using r s(1) p by (cases "sl_buffer_overflow s") (simp_all add: Let_def storable_size add.assoc min_absorb2)
  show ?case
  proof (cases i)
    case 0
    have "storable ?s \<and> slot_view ?s = slot_view s"
      using s(1,2) by (auto simp: storable_def slot_view_def)
    then show ?thesis unfolding load using 0 s(3) by (simp add: state_load_before)
  next
    case (Suc j)
    have "fits ?slots (Suc l) ss" using Cons.prems by (simp add: fits_update)
    then show ?thesis unfolding load using Cons.prems Cons.IH [of ?slots "Suc l" j "pre @ entry_octets s"] Suc by simp
  qed
qed simp

subsection \<open>The header\<close>

lemma header_reads:
  assumes "br_count b \<le> 0xFFFFFFFF" "br_delivery_offset b \<le> 0xFFFFFFFF"
  shows "state_header (image_header b @ rest) = Some (56, br_delivery_offset b, br_replay_gap b)"
    "read_u64_at (image_header b @ rest) 12 = definition_fingerprint (br_definition b)"
    "unat (read_u32_at (image_header b @ rest) 20) = br_count b"
    "read_u64_at (image_header b @ rest) 24 = br_next_entry_number b"
    "read_u64_at (image_header b @ rest) 32 = br_dropped_reports b"
    "(image_header b @ rest) ! 40 = br_sequence_number b"
proof -
  have words: "be_value (be_bytes 4 x) = x" "be_value (be_bytes 8 y) = y" for x :: u32 and y :: u64
    using be_value_be_bytes [of 4 x, where 'b = 32] be_value_be_bytes [of 8 y, where 'b = 64] by simp_all
  have small: "unat (of_nat n :: u32) = n" if "n \<le> 0xFFFFFFFF" for n
    using that by (simp add: unsigned_of_nat take_bit_nat_eq_self)
  have version: "read_be_u16 (image_header b @ rest) 8 = 2" "read_be_u16 (image_header b @ rest) 10 = 56"
    using read_be_u16_append [of 8 magic_v2 2] read_be_u16_append [of 10 "magic_v2 @ write_be_u16 2" 56]
    by (simp_all add: image_header_def)
  have delivery: "unat (read_u32_at (image_header b @ rest) 44) = br_delivery_offset b"
    using assms by (simp add: image_header_def read_u32_at_def words small)
  have zero: "(image_header b @ rest) ! 42 = 0" "(image_header b @ rest) ! 43 = 0"
    by (simp_all add: image_header_def nth_append)
  have tail: "(image_header b @ rest) ! i = 0" if "i \<in> {48..<56}" for i
  proof -
    have "drop 48 (image_header b @ rest) = replicate 8 0 @ rest" by (simp add: image_header_def)
    moreover have "i - 48 < 8" using that by auto
    ultimately show ?thesis using that nth_drop [of 48 "image_header b @ rest" "i - 48"] by (simp add: nth_append)
  qed
  have gap: "(image_header b @ rest) ! 41 = (if br_replay_gap b then 1 else 0)"
    by (simp add: image_header_def nth_append)
  have magic: "magic_matches (image_header b @ rest) magic_v2"
    by (simp add: magic_matches_def image_header_def)
  show "state_header (image_header b @ rest) = Some (56, br_delivery_offset b, br_replay_gap b)"
    unfolding state_header_def
    using version delivery zero tail gap magic by (simp add: Let_def list_ex_iff)
  show "read_u64_at (image_header b @ rest) 12 = definition_fingerprint (br_definition b)"
    by (simp add: image_header_def read_u64_at_def words)
  show "unat (read_u32_at (image_header b @ rest) 20) = br_count b"
    using assms by (simp add: image_header_def read_u32_at_def words small)
  show "read_u64_at (image_header b @ rest) 24 = br_next_entry_number b"
    by (simp add: image_header_def read_u64_at_def words)
  show "read_u64_at (image_header b @ rest) 32 = br_dropped_reports b"
    by (simp add: image_header_def read_u64_at_def words)
  show "(image_header b @ rest) ! 40 = br_sequence_number b"
    by (simp add: image_header_def nth_append)
qed

lemma state_header_magic: "state_header src = Some (h, d, g) \<Longrightarrow> take 8 src \<in> {magic_v1, magic_v2}"
  by (auto simp: state_header_def magic_matches_def Let_def split: if_splits)

lemma state_header_v1:
  assumes "state_header src = Some (h, d, g)" "take 8 src = magic_v1"
  shows "h = 48" "d = 0" "\<not> g"
proof -
  have "magic_v1 \<noteq> magic_v2" by (simp add: magic_v1_def magic_v2_def)
  then show "h = 48" "d = 0" "\<not> g" using assms by (auto simp: state_header_def magic_matches_def Let_def split: if_splits)
qed

lemma state_header_v2:
  assumes "state_header src = Some (h, d, g)" "take 8 src = magic_v2"
  shows "h = 56" "d = unat (read_u32_at src 44)" "src ! 41 = (if g then 1 else 0)" "src ! 42 = 0" "src ! 43 = 0"
    "read_be_u16 src 8 = 2" "read_be_u16 src 10 = 56" "\<forall>i \<in> set [48..<56]. src ! i = 0" "56 \<le> length src"
proof -
  have flag: "x = (if x AND 1 \<noteq> 0 then 1 else 0)" if "x AND NOT 1 = 0" for x :: u8
  proof -
    have "x = (x AND NOT 1) OR (x AND 1)" by (simp add: bit.conj_disj_distrib [symmetric])
    moreover have "x AND 1 = (if even x then 0 else 1)" by (simp add: and_one_eq mod2_eq_if)
    ultimately show ?thesis using that by (simp split: if_splits)
  qed
  have "magic_v1 \<noteq> magic_v2" by (simp add: magic_v1_def magic_v2_def)
  then have f: "src ! 41 AND NOT 1 = 0" "g = (src ! 41 AND 1 \<noteq> 0)" and rest: "h = 56" "d = unat (read_u32_at src 44)"
      "src ! 42 = 0" "src ! 43 = 0" "read_be_u16 src 8 = 2" "read_be_u16 src 10 = 56" "\<forall>i \<in> set [48..<56]. src ! i = 0"
      "56 \<le> length src"
    using assms by (auto simp: state_header_def Let_def magic_matches_def split: if_splits)
  show "src ! 41 = (if g then 1 else 0)" unfolding f(2) by (rule flag [OF f(1)])
  show "h = 56" "d = unat (read_u32_at src 44)" "src ! 42 = 0" "src ! 43 = 0" "read_be_u16 src 8 = 2"
    "read_be_u16 src 10 = 56" "\<forall>i \<in> set [48..<56]. src ! i = 0" "56 \<le> length src"
    by (fact rest)+
qed

lemma image_header_exact:
  assumes "56 \<le> length src" "take 8 src = magic_v2" "read_be_u16 src 8 = 2" "read_be_u16 src 10 = 56"
    "definition_fingerprint (br_definition c) = read_u64_at src 12" "of_nat (br_count c) = read_u32_at src 20"
    "br_next_entry_number c = read_u64_at src 24" "br_dropped_reports c = read_u64_at src 32"
    "br_sequence_number c = src ! 40" "(if br_replay_gap c then 1 else 0) = src ! 41" "src ! 42 = 0" "src ! 43 = 0"
    "of_nat (br_delivery_offset c) = read_u32_at src 44" "\<forall>i \<in> set [48..<56]. src ! i = 0"
  shows "image_header c = take 56 src"
proof -
  have u16: "write_be_u16 (read_be_u16 src i) = take 2 (drop i src)" if "i < 20" for i
    using that assms(1) write_read_be_u16 [of i src] by (simp add: list_eq_iff_nth_eq All_less_Suc numeral_2_eq_2)
  have u32: "be_bytes 4 (read_u32_at src i) = take 4 (drop i src)" if "i < 50" for i
    using that assms(1) be_bytes_be_value [of "take 4 (drop i src)" 4, where 'a = 32] by (simp add: read_u32_at_def)
  have u64: "be_bytes 8 (read_u64_at src i) = take 8 (drop i src)" if "i < 48" for i
    using that assms(1) be_bytes_be_value [of "take 8 (drop i src)" 8, where 'a = 64] by (simp add: read_u64_at_def)
  have zeros: "replicate 8 0 = take 8 (drop 48 src)"
    using assms(1,14) unfolding set_upt by (intro nth_equalityI) auto
  have flags: "take 4 (drop 40 src) = [br_sequence_number c, if br_replay_gap c then 1 else 0, 0, 0]"
    using take_four [of 40 src] assms by simp
  have "take 56 src = take 8 src @ take 2 (drop 8 src) @ take 2 (drop 10 src) @ take 8 (drop 12 src) @ take 4 (drop 20 src) @
      take 8 (drop 24 src) @ take 8 (drop 32 src) @ take 4 (drop 40 src) @ take 4 (drop 44 src) @ take 8 (drop 48 src)"
    using take_add [of 8 48 src] take_add [of 2 46 "drop 8 src"] take_add [of 2 44 "drop 10 src"] take_add [of 8 36 "drop 12 src"]
      take_add [of 4 32 "drop 20 src"] take_add [of 8 24 "drop 24 src"] take_add [of 8 16 "drop 32 src"]
      take_add [of 4 12 "drop 40 src"] take_add [of 4 8 "drop 44 src"] by simp
  then show ?thesis
    unfolding image_header_def using assms(2-8,13) u16 [of 8] u16 [of 10] u64 [of 12] u32 [of 20] u64 [of 24] u64 [of 32]
      u32 [of 44] zeros flags by simp
qed

subsection \<open>The restored block\<close>

text \<open>The block after an accepted image: the entries of the image in slots \<open>0, 1, \<dots>\<close>.\<close>

definition restored :: "brcb \<Rightarrow> bytes \<Rightarrow> nat \<Rightarrow> nat \<Rightarrow> nat \<Rightarrow> u64 \<Rightarrow> u64 \<Rightarrow> u8 \<Rightarrow> bool \<Rightarrow> brcb" where
  "restored b src header_bytes count delivery_offset next dropped sequence replay_gap =
     b\<lparr>br_slots := state_load src count 0 header_bytes (map clear_slot (br_slots b)), br_head := 0,
       br_count := count, br_delivery_offset := delivery_offset, br_next_entry_number := next,
       br_dropped_reports := dropped, br_sequence_number := sequence, br_replay_gap := replay_gap,
       br_queue_revision := bump_revision (br_queue_revision b),
       br_pending := \<lparr>pe_masks = replicate 128 0, pe_due_ms = 0, pe_revision = 1, pe_member_count = 0, pe_pending = False\<rparr>,
       br_enabled := False\<rparr>"

lemma fits_clear [simp]: "l + length ss \<le> length slots \<Longrightarrow> fits (map clear_slot slots) l ss = fits slots l ss"
  by (induction ss arbitrary: l) (auto simp: clear_slot_def)

lemma restored_ring:
  assumes "list_all storable ss" "fits (br_slots b) 0 ss" "length ss \<le> length (br_slots b)" "br_slots b \<noteq> []" "length pre = h"
    and c_def: "c = restored b (pre @ concat (map entry_octets ss) @ post) h (length ss) d nx dr q g"
  shows "list_all storable (retained_slots c)" "map slot_view (retained_slots c) = map slot_view ss"
    "retained_slots c = map (ring_slot c) [0..<length ss]"
proof -
  let ?slots = "state_load (pre @ concat (map entry_octets ss) @ post) (length ss) 0 (length pre) (map clear_slot (br_slots b))"
  have c: "br_slots c = ?slots" "br_head c = 0" "br_count c = length ss" by (simp_all add: c_def restored_def assms(5) [symmetric])
  show r: "retained_slots c = map (ring_slot c) [0..<length ss]" by (simp add: retained_slots_def ring_slot_def [abs_def] c)
  have slot: "ring_slot c i = ?slots ! i" if "i < length ss" for i using that assms(3) by (simp add: ring_slot_def c)
  have fit: "fits (map clear_slot (br_slots b)) 0 ss" using assms(2,3) by simp
  note e = state_load_entries [OF assms(1) fit, where pre = pre and post = post, simplified]
  show "list_all storable (retained_slots c)" using e assms(3) slot by (auto simp: r list_all_iff)
  show "map slot_view (retained_slots c) = map slot_view ss"
    using e assms(3) slot by (intro nth_equalityI) (simp_all add: r)
qed

lemma state_check_status: "state_check src slots l n off previous q = Inl status \<Longrightarrow> status \<noteq> State_ok"
  by (induction n arbitrary: l off previous q) (auto simp: Let_def split: if_splits)

lemma state_header_size: "state_header src = Some (h, d, g) \<Longrightarrow> h \<le> length src"
  by (auto simp: state_header_def Let_def split: if_splits)

lemma state_restore_cases:
  obtains (refused) status where "state_restore b src = ((status, 0, length src), b)" "status \<noteq> State_ok"
  | (accepted) h d g pre ss where "state_header src = Some (h, d, g)" "read_u64_at src 12 = definition_fingerprint (br_definition b)"
      "length pre = h" "src = pre @ concat (map entry_octets ss)" "length ss = unat (read_u32_at src 20)" "d \<le> length ss"
      "list_all storable ss" "fits (br_slots b) 0 ss" "chain_ok 0 0 ss" "length ss \<le> length (br_slots b)"
      "br_slots b \<noteq> []" "br_initialized b" "read_u64_at src 24 \<noteq> 0"
      "ss \<noteq> [] \<longrightarrow> read_u64_at src 24 = next_entry_number (last_number 0 ss) \<and> src ! 40 = last_sequence 0 ss"
      "state_restore b src = ((State_ok, length src, length src),
         restored b src h (length ss) d (read_u64_at src 24) (read_u64_at src 32) (src ! 40) g)"
proof (cases "fst (fst (state_restore b src)) = State_ok")
  case False
  then have "state_restore b src = ((fst (fst (state_restore b src)), 0, length src), b)"
    by (auto simp: state_restore_def Let_def split: option.splits sum.splits if_splits)
  with False show ?thesis by (rule refused [rotated])
next
  case True
  from True obtain h d g where hdr: "state_header src = Some (h, d, g)"
    by (auto simp: state_restore_def split: if_splits option.splits)
  let ?n = "unat (read_u32_at src 20)"
  have src: "src = take h src @ drop h src" "length (take h src) = h" using state_header_size [OF hdr] by simp_all
  from True obtain off k q where chk: "state_check src (br_slots b) 0 ?n h 0 0 = Inr (off, k, q)"
    by (auto simp: state_restore_def hdr Let_def dest: state_check_status split: if_splits sum.splits)
  have g: "read_u64_at src 12 = definition_fingerprint (br_definition b)" "?n \<le> length (br_slots b)" "d \<le> ?n"
      "br_slots b \<noteq> []" "br_initialized b" "read_u64_at src 24 \<noteq> 0" "off = length src"
      "?n \<noteq> 0 \<longrightarrow> read_u64_at src 24 = next_entry_number k \<and> src ! 40 = q"
      "state_restore b src = ((State_ok, length src, length src),
         restored b src h ?n d (read_u64_at src 24) (read_u64_at src 32) (src ! 40) g)"
    using True by (auto simp: state_restore_def hdr chk Let_def restored_def split: if_splits)
  obtain ss post where ss: "drop h src = concat (map entry_octets ss) @ post" "length ss = ?n"
      "off = length (take h src @ concat (map entry_octets ss))" "list_all storable ss" "fits (br_slots b) 0 ss" "chain_ok 0 0 ss"
      "k = last_number 0 ss" "q = last_sequence 0 ss"
    using state_check_sound [of "take h src" "drop h src" "br_slots b" 0 ?n 0 0 off k q] chk src by auto
  have "length src = length (take h src) + length (drop h src)" using src by (metis length_append)
  then have "post = []" using ss(1,3) g(7) src(2) by simp
  with ss src have "src = take h src @ concat (map entry_octets ss)" by simp
  then show ?thesis using g ss by (intro accepted [OF hdr g(1) src(2)]) auto
qed

subsection \<open>Numbers\<close>

definition numbered :: "nat \<Rightarrow> brcb_slot list \<Rightarrow> bool" where
  "numbered k ss \<longleftrightarrow> (\<forall>i < length ss. entry_number (ss ! i) = of_nat (k + i))"

lemma numbered_snoc: "numbered k (ss @ [s]) \<longleftrightarrow> numbered k ss \<and> entry_number s = of_nat (k + length ss)"
  by (auto simp: numbered_def nth_append less_Suc_eq)

lemma chain_ok_snoc:
  "chain_ok l previous (ss @ [s]) \<longleftrightarrow> chain_ok l previous ss \<and> entry_number s \<noteq> 0 \<and>
     (l + length ss = 0 \<or> entry_number s = next_entry_number (last_number previous ss))"
  by (induction ss arbitrary: l previous) (auto simp: last_number_def)

lemma of_nat_u64_eq_0: "m < 2 ^ 64 \<Longrightarrow> (of_nat m :: u64) = 0 \<longleftrightarrow> m = 0"
  by (simp add: word_unat_eq_iff unsigned_of_nat take_bit_nat_eq_self)

lemma next_entry_number_of_nat: "Suc m < 2 ^ 64 \<Longrightarrow> next_entry_number (of_nat m) = of_nat (Suc m)"
  using of_nat_u64_eq_0 [of "Suc m"] by (auto simp: next_entry_number_def)

lemma next_entry_number_eq: "1 < m \<Longrightarrow> m < 2 ^ 64 \<Longrightarrow> next_entry_number x = of_nat m \<Longrightarrow> x = of_nat (m - 1)"
proof -
  assume m: "1 < m" "m < 2 ^ 64" and x: "next_entry_number x = of_nat m"
  have "m - 1 < 2 ^ 64" using m by simp
  then have "(of_nat m :: u64) \<noteq> 1" using of_nat_u64_eq_0 [of "m - 1"] m by (auto simp: of_nat_diff)
  with x m show ?thesis by (auto simp: next_entry_number_def of_nat_diff algebra_simps split: if_splits)
qed

lemma numbered_chain:
  "numbered k ss \<Longrightarrow> 1 \<le> k \<Longrightarrow> k + length ss < 2 ^ 64 \<Longrightarrow>
     chain_ok 0 0 ss \<and> (ss \<noteq> [] \<longrightarrow> next_entry_number (last_number 0 ss) = of_nat (k + length ss))"
proof (induction ss rule: rev_induct)
  case (snoc s ss)
  then have "entry_number s = of_nat (k + length ss)" by (simp add: numbered_snoc)
  moreover have "next_entry_number (of_nat (k + length ss)) = of_nat (Suc (k + length ss))"
    using snoc.prems by (intro next_entry_number_of_nat) simp
  ultimately show ?case
    using snoc of_nat_u64_eq_0 [of "k + length ss"] by (auto simp: numbered_snoc chain_ok_snoc last_number_def)
qed simp

lemma chain_numbered:
  "chain_ok 0 0 ss \<Longrightarrow> (ss \<noteq> [] \<longrightarrow> next_entry_number (last_number 0 ss) = of_nat m) \<Longrightarrow> length ss < m \<Longrightarrow> m < 2 ^ 64 \<Longrightarrow>
     numbered (m - length ss) ss"
proof (induction ss arbitrary: m rule: rev_induct)
  case (snoc s ss)
  have s: "entry_number s = of_nat (m - 1)"
    using snoc.prems by (intro next_entry_number_eq) (auto simp: last_number_def)
  have "numbered (m - 1 - length ss) ss"
    using snoc.prems s by (intro snoc.IH) (auto simp: chain_ok_snoc)
  with s snoc.prems show ?case by (simp add: numbered_snoc)
qed (simp add: numbered_def)

lemma numbered_retained:
  assumes "brcb_inv b"
  obtains k where "1 \<le> k" "unat (br_next_entry_number b) = k + br_count b" "numbered k (retained_slots b)"
proof -
  obtain k where k: "1 \<le> k" "unat (br_next_entry_number b) = k + br_count b"
      "\<And>i. i < br_count b \<Longrightarrow> slot_ok (k + i) (ring_slot b i)"
    using assms by (auto simp: brcb_inv_def entries_ok_def)
  have "be_value (encode_entry_id n) = n" for n :: u64
    using be_value_be_bytes [of 8 n, where 'b = 64] by (simp add: encode_entry_id_def)
  with k(3) have "numbered k (retained_slots b)"
    by (simp add: numbered_def retained_slots_def ring_slot_def [symmetric] slot_ok_def entry_number_def)
  with k that show ?thesis by blast
qed

lemma retained_slots_ring: "retained_slots b = map (ring_slot b) [0..<br_count b]"
  by (simp add: retained_slots_def ring_slot_def [abs_def])

lemma retained_storable:
  assumes "brcb_inv b" "\<forall>s \<in> set (retained_slots b). sl_bytes s \<le> 0xFFFFFFFF"
  shows "list_all storable (retained_slots b)"
  using assms by (auto simp: list_all_iff storable_def retained_slots_ring brcb_inv_def entries_ok_def slot_ok_def)

lemma restored_inv:
  assumes "list_all storable ss" "fits (br_slots b) 0 ss" "length ss \<le> length (br_slots b)" "br_slots b \<noteq> []" "length pre = h"
    and c_def: "c = restored b (pre @ concat (map entry_octets ss) @ post) h (length ss) d nx dr q g"
    and b: "br_initialized b" "length (br_optional_fields b) = 2" "d \<le> length ss"
    and n: "numbered k ss" "1 \<le> k" "unat nx = k + length ss"
  shows "brcb_inv c"
proof -
  note r = restored_ring [OF assms(1-6)]
  have views: "slot_view (ring_slot c i) = slot_view (ss ! i) \<and> storable (ring_slot c i)" if "i < length ss" for i
    using r that by (auto simp: list_all_iff dest!: map_eq_imp_length_eq) (metis (mono_tags, lifting) add.left_neutral diff_zero
      length_map length_upt nth_map nth_upt r(2,3))
  have "slot_ok (k + i) (ring_slot c i)" if i: "i < length ss" for i
  proof -
    have "sl_entry_id (ring_slot c i) = sl_entry_id (ss ! i)" using views [OF i] by (simp add: slot_view_def)
    moreover have "encode_entry_id (entry_number (ss ! i)) = sl_entry_id (ss ! i)"
      using assms(1) i be_bytes_be_value [of "sl_entry_id (ss ! i)" 8, where 'a = 64]
      by (simp add: encode_entry_id_def entry_number_def list_all_iff storable_def)
    ultimately show ?thesis using views [OF i] n(1) i by (simp add: slot_ok_def storable_def numbered_def)
  qed
  then show ?thesis
    using b n assms(3,4) by (auto simp: brcb_inv_def ring_ok_def entries_ok_def pending_ok_def c_def restored_def intro!: exI [of _ k])
qed

subsection \<open>The sequence number is that of the latest entry\<close>

definition sequence_current :: "brcb \<Rightarrow> bool" where
  "sequence_current b \<longleftrightarrow> (br_count b \<noteq> 0 \<longrightarrow> br_sequence_number b = sl_sequence_number (ring_slot b (br_count b - 1)))"

lemma sequence_current_cong:
  "sequence_current b \<Longrightarrow> br_slots b' = br_slots b \<Longrightarrow> br_head b' = br_head b \<Longrightarrow> br_count b' = br_count b \<Longrightarrow>
     br_sequence_number b' = br_sequence_number b \<Longrightarrow> sequence_current b'"
  by (simp add: sequence_current_def ring_slot_def)

lemma sequence_current_enqueue: "ring_ok b \<Longrightarrow> sequence_current (brcb_enqueue pl t octets b)"
  using ring_slot_enqueue(5) [of b pl t octets] by (auto simp: sequence_current_def brcb_store_def brcb_enqueue_def Let_def)

lemma brcb_capture_sequence:
  assumes "brcb_inv b" "sequence_current b"
  shows "sequence_current (snd (brcb_capture objs ds pl t buf ws b))"
proof (cases "brcb_prepare objs ds pl t buf ws b")
  case (Inr p)
  have "sequence_current (brcb_retire_cause pl (brcb_enqueue pl t (snd p) b))"
    by (rule sequence_current_cong [OF sequence_current_enqueue [OF brcb_inv_facts(2) [OF assms(1)], of pl t "snd p"]])
      (simp_all add: brcb_retire_cause_def Let_def split: capture_reason.split)
  with Inr show ?thesis by (cases p) (simp add: brcb_capture_def)
qed (use assms in \<open>simp add: brcb_capture_def\<close>)

lemma brcb_step_sequence:
  assumes inv: "brcb_inv b" and seq: "sequence_current b"
  shows "sequence_current (brcb_step c b)"
proof (cases c)
  case (Capture objs ds pl t buf ws)
  then show ?thesis using brcb_capture_sequence [OF inv seq] by simp
next
  case Purge_buffer
  then show ?thesis using seq by (simp add: brcb_purge_buffer_def) (simp add: sequence_current_def)
qed (auto intro!: sequence_current_cong [OF seq] simp: brcb_set_enabled_def brcb_set_optional_fields_def
    brcb_set_trigger_options_def brcb_set_integrity_period_def brcb_request_interrogation_def brcb_reschedule_def
    brcb_commit_delivery_def brcb_replay_from_def brcb_resume_after_def brcb_rewind_to_oldest_def brcb_notify_def
    brcb_next_due_def brcb_arm_integrity_def Let_def case_prod_unfold split: option.splits)

interpretation recoverable: machine brcb_step brcb_allowed "\<lambda>b. brcb_inv b \<and> sequence_current b"
  by standard (auto intro: runtime.step_inv brcb_step_sequence)

lemma brcb_initialize_recoverable:
  assumes "brcb_initialize objs ds b = (True, b')" "length (bd_optional_fields (br_definition b)) = 2"
  shows "brcb_inv b' \<and> sequence_current b'"
  using brcb_initialize_inv [OF assms] assms(1)
  by (auto simp: sequence_current_def brcb_initialize_def Let_def split: if_splits option.splits)

subsection \<open>Properties\<close>

lemma entry_octets_view: "storable s \<Longrightarrow> entry_octets s = be_bytes 4 (of_nat (length (ev_pdu (slot_view s))) :: u32) @
     ev_entry_id (slot_view s) @ [ev_sequence_number (slot_view s), if ev_buffer_overflow (slot_view s) then 1 else 0, 0, 0] @
     ev_pdu (slot_view s)"
  by (simp add: storable_def entry_octets_def slot_view_def min_absorb2)

lemma entries_of_views:
  assumes "list_all storable ss" "list_all storable ts" "map slot_view ss = map slot_view ts"
  shows "map entry_octets ss = map entry_octets ts"
proof -
  let ?v = "\<lambda>v. be_bytes 4 (of_nat (length (ev_pdu v)) :: u32) @ ev_entry_id v @
     [ev_sequence_number v, if ev_buffer_overflow v then 1 else 0, 0, 0] @ ev_pdu v"
  have v: "map entry_octets xs = map ?v (map slot_view xs)" if "list_all storable xs" for xs
    using that by (simp add: entry_octets_view list_all_iff)
  show ?thesis by (simp only: v [OF assms(1)] v [OF assms(2)] assms(3))
qed

lemma state_restore_image:
  assumes b: "brcb_inv b" "sequence_current b" "list_all storable (retained_slots b)" "br_count b \<le> 0xFFFFFFFF"
    and c: "brcb_inv c" "br_definition c = br_definition b" "br_count b \<le> length (br_slots c)" "fits (br_slots c) 0 (retained_slots b)"
  shows "state_restore c (state_image b) = ((State_ok, length (state_image b), length (state_image b)),
    restored c (state_image b) 56 (br_count b) (br_delivery_offset b) (br_next_entry_number b) (br_dropped_reports b)
      (br_sequence_number b) (br_replay_gap b))"
proof -
  let ?ss = "retained_slots b"
  note f = brcb_inv_facts [OF b(1)] and g = brcb_inv_facts [OF c(1)]
  have len: "length ?ss = br_count b" by (simp add: retained_slots_def)
  have d: "br_delivery_offset b \<le> 0xFFFFFFFF" using f(6) b(4) by simp
  note r = header_reads [OF b(4) d, of "concat (map entry_octets ?ss)", folded state_image_def]
  obtain k where k: "1 \<le> k" "unat (br_next_entry_number b) = k + br_count b" "numbered k ?ss"
    using numbered_retained [OF b(1)] .
  have less: "unat (br_next_entry_number b) < 2 ^ LENGTH(64)" by (rule unsigned_less)
  have "k + length ?ss < 2 ^ 64" using k(2) len less by simp
  note chain = numbered_chain [OF k(3,1) this]
  have "of_nat (unat (br_next_entry_number b)) = br_next_entry_number b" by simp
  then have nx: "br_next_entry_number b = of_nat (k + length ?ss)" "br_next_entry_number b \<noteq> 0"
    using k(1,2) len by (metis, auto)
  have last: "br_sequence_number b = last_sequence 0 ?ss" if "br_count b \<noteq> 0"
    using b(2) that by (simp add: sequence_current_def last_sequence_def retained_slots_ring last_map)
  have "state_check (state_image b) (br_slots c) 0 (br_count b) 56 0 0 =
      Inr (length (state_image b), last_number 0 ?ss, last_sequence 0 ?ss)"
    using state_check_complete [OF b(3) c(4), of 0 "image_header b" "[]" 0] chain by (simp add: state_image_def len)
  then show ?thesis
    using r c g f nx chain last len by (auto simp: state_restore_def Let_def restored_def)
qed

lemma state_restore_recovers:
  assumes b: "brcb_inv b" "sequence_current b" "list_all storable (retained_slots b)" "br_count b \<le> 0xFFFFFFFF"
    and c: "brcb_inv c" "br_definition c = br_definition b" "br_count b \<le> length (br_slots c)" "fits (br_slots c) 0 (retained_slots b)"
  obtains c' where "state_restore c (state_image b) = ((State_ok, length (state_image b), length (state_image b)), c')"
    "brcb_log c' = brcb_log b" "br_next_entry_number c' = br_next_entry_number b" "br_sequence_number c' = br_sequence_number b"
    "br_dropped_reports c' = br_dropped_reports b" "br_replay_gap c' = br_replay_gap b" "\<not> br_enabled c'" "brcb_inv c'"
proof -
  note g = brcb_inv_facts [OF c(1)]
  have len: "length (retained_slots b) = br_count b" by (simp add: retained_slots_def)
  obtain k where k: "1 \<le> k" "unat (br_next_entry_number b) = k + length (retained_slots b)" "numbered k (retained_slots b)"
    using numbered_retained [OF b(1)] len by metis
  define c' where "c' = restored c (image_header b @ concat (map entry_octets (retained_slots b)) @ []) 56 (length (retained_slots b))
    (br_delivery_offset b) (br_next_entry_number b) (br_dropped_reports b) (br_sequence_number b) (br_replay_gap b)"
  have fit: "length (retained_slots b) \<le> length (br_slots c)" using c(3) len by simp
  have "brcb_inv c'"
    using restored_inv [OF b(3) c(4) fit g(9) length_image_header c'_def g(1,5)] k brcb_inv_facts(6) [OF b(1)] len by simp
  moreover have "brcb_log c' = brcb_log b"
    using restored_ring(2,3) [OF b(3) c(4) fit g(9) length_image_header c'_def] len
    by (simp add: brcb_log_def retained_slots_ring c'_def restored_def)
  moreover have "state_restore c (state_image b) = ((State_ok, length (state_image b), length (state_image b)), c')"
    using state_restore_image [OF b c] len by (simp add: c'_def state_image_def)
  ultimately show ?thesis by (intro that) (simp_all add: c'_def restored_def)
qed

text \<open>C18.  Recovery is faithful: for every block that a run from a successful initialisation reaches,
  with entries and counts that fit 32-bit fields, encoding into enough memory succeeds, and restoring
  the octets into a consistent block with the same definition and large enough slots succeeds and
  gives back the same retained entries in the same order with the same delivery cursor, the same entry,
  sequence and loss counters and replay-gap flag, in a consistent and disabled block.\<close>

theorem brcb_state_round_trip:
  assumes "brcb_initialize objs ds z = (True, b0)" "length (bd_optional_fields (br_definition z)) = 2"
    "run_ok brcb_allowed brcb_step calls b0" "b = fold brcb_step calls b0"
    "\<forall>s \<in> set (retained_slots b). sl_bytes s \<le> 0xFFFFFFFF" "br_count b \<le> 0xFFFFFFFF"
    "length (state_image b) \<le> length dest" "length dest < 2 ^ 64"
    "brcb_inv c" "br_definition c = br_definition b" "br_count b \<le> length (br_slots c)" "fits (br_slots c) 0 (retained_slots b)"
  shows "case state_encode b dest of ((status, written, _), out) \<Rightarrow>
    status = State_ok \<and> written = length (state_image b) \<and>
    (case state_restore c (take written out) of (r, c') \<Rightarrow>
      r = (State_ok, written, written) \<and> brcb_log c' = brcb_log b \<and>
      br_next_entry_number c' = br_next_entry_number b \<and> br_sequence_number c' = br_sequence_number b \<and>
      br_dropped_reports c' = br_dropped_reports b \<and> br_replay_gap c' = br_replay_gap b \<and>
      \<not> br_enabled c' \<and> brcb_inv c')"
proof -
  have b: "brcb_inv b" "sequence_current b"
    using recoverable.run_inv [OF assms(3) brcb_initialize_recoverable [OF assms(1,2)]] assms(4) by simp_all
  note st = retained_storable [OF b(1) assms(5)]
  have "state_encode b dest = ((State_ok, length (state_image b), length (state_image b)), state_image b @ drop (length (state_image b)) dest)"
    using state_encode_image [OF b(1) st assms(6)] assms(7,8) by simp
  with state_restore_recovers [OF b st assms(6,9-12)] show ?thesis by fastforce
qed

text \<open>The block of the sample run after its first report, recovered into a fresh block.\<close>

definition sample_calls :: "brcb_call list" where
  "sample_calls = [Set_enabled True, Notify sample_data_sets 0 Data_change 5, Next_due 20,
     Capture sample_objects sample_data_sets sample_plan [] (replicate 64 0) (replicate 8 0)]"

lemma sample_run: "run_ok brcb_allowed brcb_step sample_calls sample_block"
  unfolding sample_calls_def
  by (simp add: sample_changed_def [symmetric] sample_next_due)
    (simp add: sample_changed_def sample_block_def brcb_notify_def brcb_set_enabled_def brcb_reschedule_def
      brcb_data_set_def sample_data_sets_def Let_def)

lemma sample_retained:
  obtains s where "retained_slots (fold brcb_step sample_calls sample_block) = [s]" "sl_bytes s \<le> 100" "storable s"
    "br_count (fold brcb_step sample_calls sample_block) = 1"
    "br_definition (fold brcb_step sample_calls sample_block) = br_definition sample_block"
proof -
  let ?b = "fold brcb_step sample_calls sample_block"
  obtain res octets where prep: "brcb_prepare sample_objects sample_data_sets sample_plan [] (replicate 64 0) (replicate 8 0) sample_changed =
     Inr (res, octets)" using sample_prepare by blast
  have slots: "br_slots sample_changed = br_slots sample_block" "br_head sample_changed = 0" "br_count sample_changed = 0"
    "br_definition sample_changed = br_definition sample_block"
    by code_simp+
  have len: "octets \<noteq> []" "length octets \<le> 100"
    using prep slots by (auto elim!: brcb_prepare_success simp: sample_block_def Let_def)
  have b: "?b = brcb_retire_cause sample_plan (brcb_enqueue sample_plan [] octets sample_changed)"
    using prep by (simp add: sample_calls_def sample_changed_def [symmetric] sample_next_due brcb_capture_def)
  have two: "length (br_slots sample_block) = 2" by (simp add: sample_block_def Let_def)
  let ?s = "brcb_store sample_plan [] octets (br_slots sample_block ! 0)"
  have "retained_slots ?b = [?s]" "br_count ?b = 1" "br_definition ?b = br_definition sample_block"
    unfolding b using slots two
    by (simp_all add: retained_slots_def brcb_retire_cause_def brcb_enqueue_def Let_def split: capture_reason.split)
  moreover have "storable ?s" "sl_bytes ?s \<le> 100"
    using len by (simp_all add: storable_def brcb_store_def sample_block_def Let_def)
  ultimately show ?thesis using that by blast
qed

theorem brcb_state_round_trip_witness:
  "br_count (fold brcb_step sample_calls sample_block) = 1 \<and>
   (case state_encode (fold brcb_step sample_calls sample_block) (replicate 300 0) of ((status, written, _), out) \<Rightarrow>
     status = State_ok \<and>
     brcb_log (snd (state_restore sample_block (take written out))) = brcb_log (fold brcb_step sample_calls sample_block))"
proof -
  obtain s where s: "retained_slots (fold brcb_step sample_calls sample_block) = [s]" "sl_bytes s \<le> 100" "storable s"
    "br_count (fold brcb_step sample_calls sample_block) = 1"
    "br_definition (fold brcb_step sample_calls sample_block) = br_definition sample_block" using sample_retained .
  define b where "b = fold brcb_step sample_calls sample_block"
  note s = s [folded b_def]
  have sizes: "\<forall>s \<in> set (retained_slots b). sl_bytes s \<le> 0xFFFFFFFF" "br_count b \<le> 0xFFFFFFFF"
    "length (state_image b) \<le> length (replicate 300 (0 :: u8))" "length (replicate 300 (0 :: u8)) < 2 ^ 64"
    using s by (simp_all add: state_image_def)
  have room: "br_definition sample_block = br_definition b" "br_count b \<le> length (br_slots sample_block)"
    "fits (br_slots sample_block) 0 (retained_slots b)"
    using s by (simp_all add: sample_block_def Let_def)
  have opts: "length (bd_optional_fields (br_definition sample_block)) = 2" by (simp add: sample_block_def Let_def)
  show ?thesis
    using brcb_state_round_trip [OF sample_initialize opts sample_run b_def sizes sample_block_inv room] s(4)
    unfolding b_def [symmetric] case_prod_unfold by blast
qed

text \<open>C19.  A restore is all or nothing, and what is accepted determines the block.  An image that is not
  accepted leaves the block exactly as it was.  An accepted image has the magic of version 1 or 2; it
  leaves a disabled block with the entry number, drop count and sequence number of its header.  After a
  version 2 image, the block's own image is that very octet string.  After a legacy version 1 image,
  which has neither a cursor nor a gap flag, the block's own image (of version 2) has the same
  entries, octet for octet, the cursor is at the first and there is no replay gap.  The block is consistent
  provided that it retains fewer entries than its next entry number, that is, as long as the
  entry numbers have not wrapped.\<close>

theorem brcb_state_restore_exact:
  assumes "brcb_inv b" "state_restore b src = ((status, consumed, required), c)"
  shows "(status \<noteq> State_ok \<longrightarrow> c = b \<and> consumed = 0) \<and>
    (status = State_ok \<longrightarrow> consumed = length src \<and> \<not> br_enabled c \<and> take 8 src \<in> {magic_v1, magic_v2} \<and>
      br_next_entry_number c = read_u64_at src 24 \<and> br_dropped_reports c = read_u64_at src 32 \<and> br_sequence_number c = src ! 40 \<and>
      (take 8 src = magic_v2 \<longrightarrow> state_image c = src) \<and>
      (take 8 src = magic_v1 \<longrightarrow> drop 56 (state_image c) = drop 48 src \<and> br_delivery_offset c = 0 \<and> \<not> br_replay_gap c) \<and>
      (br_count c < unat (br_next_entry_number c) \<longrightarrow> brcb_inv c))"
proof (cases rule: state_restore_cases [of b src])
  case (refused status)
  then show ?thesis using assms by simp
next
  case (accepted h d g pre ss)
  have c: "c = restored b (pre @ concat (map entry_octets ss) @ []) h (length ss) d (read_u64_at src 24) (read_u64_at src 32) (src ! 40) g"
      "status = State_ok" "consumed = length src"
    using accepted(4,15) assms(2) by simp_all
  note pre = accepted(7,8,10,11,3) c(1)
  have entries: "map entry_octets (retained_slots c) = map entry_octets ss"
    using restored_ring [OF pre] accepted(7) by (intro entries_of_views) simp_all
  have "state_image c = src" if "take 8 src = magic_v2"
  proof -
    note v2 = state_header_v2 [OF accepted(1) that]
    have "image_header c = take 56 src"
      using that v2 accepted(2,5) by (intro image_header_exact) (simp_all add: c(1) restored_def)
    then have "image_header c = pre" using accepted(3,4) v2(1) by simp
    then show ?thesis using accepted(4) entries by (simp add: state_image_def)
  qed
  moreover have "drop 56 (state_image c) = drop 48 src \<and> br_delivery_offset c = 0 \<and> \<not> br_replay_gap c" if "take 8 src = magic_v1"
    using state_header_v1 [OF accepted(1) that] accepted(3,4) entries by (simp add: state_image_def c(1) restored_def)
  moreover have "brcb_inv c" if "br_count c < unat (br_next_entry_number c)"
  proof -
    let ?m = "unat (read_u64_at src 24)"
    have m: "length ss < ?m" using that by (simp add: c restored_def)
    have "?m < 2 ^ LENGTH(64)" by (rule unsigned_less)
    then have "numbered (?m - length ss) ss"
      using accepted(9,14) m by (intro chain_numbered) simp_all
    moreover obtain j where "?m = j + length ss" "1 \<le> j" using m by (metis add.commute less_imp_add_positive Suc_leI One_nat_def)
    ultimately show ?thesis using accepted(6,12) brcb_inv_facts(5) [OF assms(1)]
      by (intro restored_inv [OF pre, where k = j]) simp_all
  qed
  moreover have "\<not> br_enabled c \<and> br_next_entry_number c = read_u64_at src 24 \<and> br_dropped_reports c = read_u64_at src 32 \<and>
      br_sequence_number c = src ! 40" by (simp add: c(1) restored_def)
  ultimately show ?thesis using c(2,3) state_header_magic [OF accepted(1)] by blast
qed

text \<open>The image of the sample run is accepted by a fresh block and comes back from it; three octets are refused.\<close>

theorem brcb_state_restore_exact_witness:
  "snd (state_restore sample_block [1, 2, 3]) = sample_block \<and>
   (let src = state_image (fold brcb_step sample_calls sample_block); c = snd (state_restore sample_block src) in
      state_image c = src \<and> brcb_log c = brcb_log (fold brcb_step sample_calls sample_block) \<and> length (rl_entries (brcb_log c)) = 1)"
proof -
  have refused: "fst (state_restore sample_block [1, 2, 3]) = (State_invalid, 0, 3)"
    by (simp add: state_restore_def state_header_def sample_block_def Let_def)
  have "snd (state_restore sample_block [1, 2, 3]) = sample_block"
    using brcb_state_restore_exact [OF sample_block_inv, of "[1, 2, 3]"] refused by (cases "state_restore sample_block [1, 2, 3]") auto
  moreover
  define b where "b = fold brcb_step sample_calls sample_block"
  obtain s where s: "retained_slots b = [s]" "sl_bytes s \<le> 100" "storable s" "br_count b = 1" "br_definition b = br_definition sample_block"
    using sample_retained [folded b_def] .
  have "length (bd_optional_fields (br_definition sample_block)) = 2" by (simp add: sample_block_def Let_def)
  then have b: "brcb_inv b" "sequence_current b"
    using recoverable.run_inv [OF sample_run brcb_initialize_recoverable [OF sample_initialize]] by (simp_all add: b_def)
  have fit: "list_all storable (retained_slots b)" "br_count b \<le> 0xFFFFFFFF" "br_definition sample_block = br_definition b"
      "br_count b \<le> length (br_slots sample_block)" "fits (br_slots sample_block) 0 (retained_slots b)"
    using s by (simp_all add: sample_block_def Let_def)
  obtain c where c: "state_restore sample_block (state_image b) = ((State_ok, length (state_image b), length (state_image b)), c)"
      "brcb_log c = brcb_log b"
    using state_restore_recovers [OF b fit(1,2) sample_block_inv fit(3-5)] by metis
  have "take 8 (state_image b) = magic_v2" by (simp add: state_image_def image_header_def)
  then have "state_image c = state_image b" using brcb_state_restore_exact [OF sample_block_inv c(1)] by blast
  moreover have "br_count c = 1" using arg_cong [OF c(2), of "\<lambda>l. length (rl_entries l)"] s(4) by simp
  ultimately show ?thesis using c unfolding b_def [symmetric] by (simp add: Let_def)
qed

end
