(* ===== verification/Brcb_Checkpoint.thy ===== *)
theory Brcb_Checkpoint
  imports Brcb_Recovery
begin

text \<open>
  The checkpoint store (\<open>src/mms/static_brcb_checkpoint_store.cpp\<close>, \<open>integrity/crc32.hpp\<close>): recovery
  images in two banks of a storage device, each with a header, a payload and a commit footer under
  CRC-32.  The device is a parameter, a record of its four operations; a power cut or a failing
  device shows as an operation that returns false after a part of its work.
\<close>

subsection \<open>CRC-32\<close>

definition crc32_bit :: "u32 \<Rightarrow> u32" where
  "crc32_bit state = drop_bit 1 state XOR (0xEDB88320 AND (0 - (state AND 1)))"

definition crc32_byte :: "u32 \<Rightarrow> u8 \<Rightarrow> u32" where
  "crc32_byte state b = (crc32_bit ^^ 8) (state XOR ucast b)"

definition crc32_update :: "u32 \<Rightarrow> bytes \<Rightarrow> u32" where
  "crc32_update = foldl crc32_byte"

definition crc32_finalize :: "u32 \<Rightarrow> u32" where
  "crc32_finalize state = NOT state"

definition crc32 :: "bytes \<Rightarrow> u32" where
  "crc32 bs = crc32_finalize (crc32_update 0xFFFFFFFF bs)"

subsection \<open>Storage\<close>

record 'd backend =
  bk_capacity :: nat
  bk_read :: "'d \<Rightarrow> nat \<Rightarrow> nat \<Rightarrow> bytes option"
  bk_write :: "nat \<Rightarrow> bytes \<Rightarrow> 'd \<Rightarrow> bool \<times> 'd"
  bk_erase :: "nat \<Rightarrow> nat \<Rightarrow> 'd \<Rightarrow> bool \<times> 'd"
  bk_sync :: "'d \<Rightarrow> bool \<times> 'd"

record bank_info =
  bi_valid :: bool
  bi_io_error :: bool
  bi_generation :: u64
  bi_payload_bytes :: u32
  bi_payload_crc :: u32

datatype checkpoint_status = Cp_ok | No_checkpoint | Invalid_backend | Invalid_layout | Cp_state_buffer_too_small
  | Storage_failure | State_encode_failed | State_restore_failed

record checkpoint_result =
  cp_status :: checkpoint_status
  cp_state_status :: state_status
  cp_generation :: u64
  cp_bank_index :: nat
  cp_state_bytes :: nat
  cp_required_state_bytes :: nat

definition new_result :: checkpoint_result where
  "new_result = \<lparr>cp_status = Invalid_backend, cp_state_status = State_ok, cp_generation = 0, cp_bank_index = 0,
     cp_state_bytes = 0, cp_required_state_bytes = 0\<rparr>"

definition header_magic :: bytes where
  "header_magic = map of_char ''ARBRCBP1''"

definition footer_magic :: bytes where
  "footer_magic = map of_char ''ARCOMMIT''"

definition generation_newer :: "u64 \<Rightarrow> u64 \<Rightarrow> bool" where
  "generation_newer left right \<longleftrightarrow> left \<noteq> right \<and> left - right < push_bit 63 1"

definition next_generation :: "u64 \<Rightarrow> u64" where
  "next_generation current = (if current = 0 \<or> current = - 1 then 1 else current + 1)"

definition bank_offset :: "nat \<Rightarrow> nat \<Rightarrow> nat" where
  "bank_offset bank_index bank_bytes = bank_index * bank_bytes"

function payload_crc_loop :: "'d backend \<Rightarrow> 'd \<Rightarrow> nat \<Rightarrow> nat \<Rightarrow> nat \<Rightarrow> u32 \<Rightarrow> u32 option" where
  "payload_crc_loop bk dev payload_offset payload_bytes consumed state =
     (if consumed < payload_bytes
      then let n = min (payload_bytes - consumed) 256 in
        (case bk_read bk dev (payload_offset + consumed) n of
           None \<Rightarrow> None
         | Some chunk \<Rightarrow> payload_crc_loop bk dev payload_offset payload_bytes (consumed + n) (crc32_update state chunk))
      else Some (crc32_finalize state))"
  by pat_completeness auto
termination
  by (relation "measure (\<lambda>(_, _, _, payload_bytes, consumed, _). payload_bytes - consumed)") auto

declare payload_crc_loop.simps [simp del]

definition read_payload_crc :: "'d backend \<Rightarrow> 'd \<Rightarrow> nat \<Rightarrow> nat \<Rightarrow> u32 option" where
  "read_payload_crc bk dev payload_offset payload_bytes = payload_crc_loop bk dev payload_offset payload_bytes 0 0xFFFFFFFF"

definition no_info :: bank_info where
  "no_info = \<lparr>bi_valid = False, bi_io_error = False, bi_generation = 0, bi_payload_bytes = 0, bi_payload_crc = 0\<rparr>"

definition inspect_bank :: "'d backend \<Rightarrow> nat \<Rightarrow> nat \<Rightarrow> 'd \<Rightarrow> bank_info" where
  "inspect_bank bk bank_index bank_bytes dev =
     (let base = bank_offset bank_index bank_bytes; footer_offset = base + bank_bytes - 32 in
      case bk_read bk dev base 40 of
        None \<Rightarrow> no_info\<lparr>bi_io_error := True\<rparr>
      | Some header \<Rightarrow>
        (case bk_read bk dev footer_offset 32 of
          None \<Rightarrow> no_info\<lparr>bi_io_error := True\<rparr>
        | Some footer \<Rightarrow>
          if take 8 header \<noteq> header_magic \<or> read_be_u16 header 8 \<noteq> 1 \<or> read_be_u16 header 10 \<noteq> 40 \<or>
             crc32 (take 36 header) \<noteq> read_u32_at header 36 \<or> take 8 footer \<noteq> footer_magic \<or>
             crc32 (take 28 footer) \<noteq> read_u32_at footer 28
          then no_info
          else if list_ex (\<lambda>i. header ! i \<noteq> 0) [28..<36] then no_info
          else if list_ex (\<lambda>i. footer ! i \<noteq> 0) [24..<28] then no_info
          else let generation = read_u64_at header 12; payload_bytes = read_u32_at header 20; payload_crc = read_u32_at header 24 in
            if generation = 0 \<or> payload_bytes = 0 \<or> generation \<noteq> read_u64_at footer 8 \<or>
               payload_bytes \<noteq> read_u32_at footer 16 \<or> payload_crc \<noteq> read_u32_at footer 20 \<or>
               unat payload_bytes > bank_bytes - 40 - 32
            then no_info
            else (case read_payload_crc bk dev (base + 40) (unat payload_bytes) of
                None \<Rightarrow> no_info\<lparr>bi_io_error := True\<rparr>
              | Some measured_crc \<Rightarrow>
                  if measured_crc \<noteq> payload_crc then no_info
                  else \<lparr>bi_valid = True, bi_io_error = False, bi_generation = generation,
                        bi_payload_bytes = payload_bytes, bi_payload_crc = payload_crc\<rparr>)))"

definition build_header :: "u64 \<Rightarrow> u32 \<Rightarrow> u32 \<Rightarrow> bytes" where
  "build_header generation payload_bytes payload_crc =
     (let header = put_at 0 header_magic (replicate 40 0);
          header = put_at 8 (write_be_u16 1) header;
          header = put_at 10 (write_be_u16 40) header;
          header = put_at 12 (be_bytes 8 generation) header;
          header = put_at 20 (be_bytes 4 payload_bytes) header;
          header = put_at 24 (be_bytes 4 payload_crc) header
      in put_at 36 (be_bytes 4 (crc32 (take 36 header))) header)"

definition build_footer :: "u64 \<Rightarrow> u32 \<Rightarrow> u32 \<Rightarrow> bytes" where
  "build_footer generation payload_bytes payload_crc =
     (let footer = put_at 0 footer_magic (replicate 32 0);
          footer = put_at 8 (be_bytes 8 generation) footer;
          footer = put_at 16 (be_bytes 4 payload_bytes) footer;
          footer = put_at 20 (be_bytes 4 payload_crc) footer
      in put_at 28 (be_bytes 4 (crc32 (take 28 footer))) footer)"

subsection \<open>Checkpoint\<close>

definition store_valid :: "'d backend \<Rightarrow> nat \<Rightarrow> bool" where
  "store_valid bk bank_bytes \<longleftrightarrow> bk_capacity bk \<noteq> 0 \<and> bank_bytes > 40 + 32 \<and> bank_bytes \<le> bk_capacity bk div 2"

definition maximum_state_bytes :: "nat \<Rightarrow> nat" where
  "maximum_state_bytes bank_bytes = (if bank_bytes \<ge> 40 + 32 then bank_bytes - 40 - 32 else 0)"

text \<open>The bank to write and the generation of the newest one.\<close>

definition checkpoint_target :: "bank_info \<Rightarrow> bank_info \<Rightarrow> nat \<times> u64" where
  "checkpoint_target first second =
     (if bi_valid first \<and> bi_valid second then
        (let newest = (if generation_newer (bi_generation second) (bi_generation first) then 1 else 0)
         in (1 - newest, if newest = (0 :: nat) then bi_generation first else bi_generation second))
      else if bi_valid first then (1, bi_generation first)
      else if bi_valid second then (0, bi_generation second)
      else (0, 0))"

text \<open>A conjunction of device operations: the first that fails ends it.\<close>

fun perform :: "('d \<Rightarrow> bool \<times> 'd) list \<Rightarrow> 'd \<Rightarrow> bool \<times> 'd" where
  "perform [] dev = (True, dev)"
| "perform (f # fs) dev = (case f dev of (ok, dev') \<Rightarrow> if ok then perform fs dev' else (False, dev'))"

definition write_record :: "'d backend \<Rightarrow> nat \<Rightarrow> nat \<Rightarrow> bytes \<Rightarrow> bytes \<Rightarrow> bytes \<Rightarrow> 'd \<Rightarrow> bool \<times> 'd" where
  "write_record bk base bank_bytes header payload footer =
     perform [bk_erase bk base bank_bytes, bk_sync bk, bk_write bk base header, bk_write bk (base + 40) payload, bk_sync bk,
       bk_write bk (base + bank_bytes - 32) footer, bk_sync bk]"

definition checkpoint :: "'d backend \<Rightarrow> nat \<Rightarrow> brcb \<Rightarrow> bytes \<Rightarrow> 'd \<Rightarrow> checkpoint_result \<times> bytes \<times> 'd" where
  "checkpoint bk bank_bytes b state_buffer dev =
     (if \<not> store_valid bk bank_bytes then (new_result\<lparr>cp_status := Invalid_backend\<rparr>, state_buffer, dev)
      else case state_encode b state_buffer of
        ((status, bytes_written, required), state_buffer) \<Rightarrow>
          let r = new_result\<lparr>cp_state_status := status, cp_required_state_bytes := required\<rparr> in
          if status \<noteq> State_ok
          then (r\<lparr>cp_status := (if status = State_buffer_too_small then Cp_state_buffer_too_small
            else State_encode_failed)\<rparr>, state_buffer, dev)
          else if bytes_written > maximum_state_bytes bank_bytes \<or> bytes_written > 0xFFFFFFFF
          then (r\<lparr>cp_status := Invalid_layout, cp_state_bytes := bytes_written\<rparr>, state_buffer, dev)
          else let first = inspect_bank bk 0 bank_bytes dev; second = inspect_bank bk 1 bank_bytes dev in
            if bi_io_error first \<or> bi_io_error second then (r\<lparr>cp_status := Storage_failure\<rparr>, state_buffer, dev)
            else case checkpoint_target first second of (target, current_generation) \<Rightarrow>
              let generation = next_generation current_generation; payload_bytes = of_nat bytes_written;
                  payload = take bytes_written state_buffer; payload_crc = crc32 payload;
                  r = r\<lparr>cp_generation := generation, cp_bank_index := target, cp_state_bytes := bytes_written\<rparr> in
              (case write_record bk (bank_offset target bank_bytes) bank_bytes (build_header generation payload_bytes payload_crc)
                      payload (build_footer generation payload_bytes payload_crc) dev of
                 (ok, dev) \<Rightarrow> (r\<lparr>cp_status := (if ok then Cp_ok else Storage_failure)\<rparr>, state_buffer, dev)))"

subsection \<open>Restore\<close>

text \<open>The bank to load first and the one to fall back to.\<close>

definition select_banks :: "bank_info \<Rightarrow> bank_info \<Rightarrow> ((nat \<times> bank_info) \<times> (nat \<times> bank_info) option) option" where
  "select_banks first second =
     (let first_usable = (bi_valid first \<and> \<not> bi_io_error first); second_usable = (bi_valid second \<and> \<not> bi_io_error second) in
      if \<not> first_usable \<and> \<not> second_usable then None
      else if first_usable \<and> second_usable then
        (if generation_newer (bi_generation second) (bi_generation first) then Some ((1, second), Some (0, first))
         else Some ((0, first), Some (1, second)))
      else if second_usable then Some ((1, second), None)
      else Some ((0, first), None))"

definition load_bank :: "'d backend \<Rightarrow> nat \<Rightarrow> 'd \<Rightarrow> nat \<Rightarrow> bank_info \<Rightarrow> bytes \<Rightarrow> checkpoint_result \<Rightarrow>
    checkpoint_status \<times> checkpoint_result \<times> bytes" where
  "load_bank bk bank_bytes dev selected info state_buffer r =
     (let n = unat (bi_payload_bytes info);
          r = r\<lparr>cp_generation := bi_generation info, cp_bank_index := selected, cp_state_bytes := n, cp_required_state_bytes := n\<rparr> in
      if length state_buffer < n then (Cp_state_buffer_too_small, r, state_buffer)
      else case bk_read bk dev (bank_offset selected bank_bytes + 40) n of
          None \<Rightarrow> (Storage_failure, r, state_buffer)
        | Some payload \<Rightarrow>
            (if crc32 payload \<noteq> bi_payload_crc info then Storage_failure else Cp_ok, r, put_at 0 payload state_buffer))"

definition restore_checkpoint :: "'d backend \<Rightarrow> nat \<Rightarrow> 'd \<Rightarrow> brcb \<Rightarrow> bytes \<Rightarrow> checkpoint_result \<times> bytes \<times> brcb" where
  "restore_checkpoint bk bank_bytes dev b state_buffer =
     (if \<not> store_valid bk bank_bytes then (new_result\<lparr>cp_status := Invalid_backend\<rparr>, state_buffer, b)
      else let first = inspect_bank bk 0 bank_bytes dev; second = inspect_bank bk 1 bank_bytes dev in
        case select_banks first second of
          None \<Rightarrow> (new_result\<lparr>cp_status := (if bi_io_error first \<or> bi_io_error second then Storage_failure else No_checkpoint)\<rparr>,
            state_buffer, b)
        | Some ((primary_index, primary), fallback) \<Rightarrow>
            (let l = load_bank bk bank_bytes dev primary_index primary state_buffer new_result;
                 l = (case (fst l, fallback) of
                     (Storage_failure, Some (fallback_index, info)) \<Rightarrow>
                       load_bank bk bank_bytes dev fallback_index info (snd (snd l)) (fst (snd l))
                   | _ \<Rightarrow> l)
             in case l of (load_status, r, state_buffer) \<Rightarrow>
               if load_status \<noteq> Cp_ok then (r\<lparr>cp_status := load_status\<rparr>, state_buffer, b)
               else (case state_restore b (take (cp_state_bytes r) state_buffer) of
                   ((status, _, _), b') \<Rightarrow>
                     (r\<lparr>cp_state_status := status, cp_status := (if status \<noteq> State_ok then State_restore_failed else Cp_ok)\<rparr>,
                      state_buffer, b'))))"

subsection \<open>The simulated device\<close>

text \<open>The flash device of the persistence profile (\<open>embedded/mms_brcb_persistence_hard_profile_smoke.cpp\<close>): a
  budget of octets after which writes are torn (the largest \<open>size_t\<close> stands for no limit), and failing
  reads, erases and syncs.\<close>

record fake_storage =
  fs_bytes :: bytes
  fs_write_budget :: nat
  fs_fail_reads :: bool
  fs_fail_erases :: bool
  fs_fail_sync :: bool

definition fresh_storage :: "nat \<Rightarrow> fake_storage" where
  "fresh_storage n = \<lparr>fs_bytes = replicate n 0xFF, fs_write_budget = 2 ^ 64 - 1, fs_fail_reads = False, fs_fail_erases = False,
     fs_fail_sync = False\<rparr>"

definition storage_read :: "fake_storage \<Rightarrow> nat \<Rightarrow> nat \<Rightarrow> bytes option" where
  "storage_read s off n =
     (if fs_fail_reads s \<or> off > length (fs_bytes s) \<or> n > length (fs_bytes s) - off then None
      else Some (take n (drop off (fs_bytes s))))"

definition storage_write :: "nat \<Rightarrow> bytes \<Rightarrow> fake_storage \<Rightarrow> bool \<times> fake_storage" where
  "storage_write off src s =
     (if off > length (fs_bytes s) \<or> length src > length (fs_bytes s) - off then (False, s)
      else let writable = min (length src) (fs_write_budget s);
               s' = s\<lparr>fs_bytes := put_at off (take writable src) (fs_bytes s)\<rparr>;
               s' = (if fs_write_budget s' \<noteq> 2 ^ 64 - 1 then s'\<lparr>fs_write_budget := fs_write_budget s' - writable\<rparr> else s')
        in (writable = length src, s'))"

definition storage_erase :: "nat \<Rightarrow> nat \<Rightarrow> fake_storage \<Rightarrow> bool \<times> fake_storage" where
  "storage_erase off n s =
     (if fs_fail_erases s \<or> off > length (fs_bytes s) \<or> n > length (fs_bytes s) - off then (False, s)
      else (True, s\<lparr>fs_bytes := put_at off (replicate n 0xFF) (fs_bytes s)\<rparr>))"

definition storage_sync :: "fake_storage \<Rightarrow> bool \<times> fake_storage" where
  "storage_sync s = (\<not> fs_fail_sync s, s)"

definition fake_backend :: "nat \<Rightarrow> fake_storage backend" where
  "fake_backend n = \<lparr>bk_capacity = n, bk_read = storage_read, bk_write = storage_write, bk_erase = storage_erase, bk_sync = storage_sync\<rparr>"

end
