(* ===== verification/Brcb_Journal.thy ===== *)
theory Brcb_Journal
  imports Brcb_Checkpoint
begin

text \<open>
  Crash safety of the checkpoint store.  The laws of the storage device are a locale: an interrupted
  write leaves a prefix of its octets, an interrupted erase a prefix of erased octets.  Under these
  laws a checkpoint that is cut off anywhere leaves the previous image or the complete new one.
\<close>

subsection \<open>Chunks and CRC\<close>

lemma crc32_update_append: "crc32_update s (xs @ ys) = crc32_update (crc32_update s xs) ys"
  by (simp add: crc32_update_def)

subsection \<open>Banks as octets\<close>

definition info_of :: "bytes \<Rightarrow> bank_info" where
  "info_of bank = \<lparr>bi_valid = True, bi_io_error = False, bi_generation = read_u64_at (take 40 bank) 12,
     bi_payload_bytes = read_u32_at (take 40 bank) 20, bi_payload_crc = read_u32_at (take 40 bank) 24\<rparr>"

definition payload_of :: "bank_info \<Rightarrow> bytes \<Rightarrow> bytes" where
  "payload_of info bank = take (unat (bi_payload_bytes info)) (drop 40 bank)"

definition header_ok :: "bytes \<Rightarrow> bool" where
  "header_ok header \<longleftrightarrow> take 8 header = header_magic \<and> read_be_u16 header 8 = 1 \<and> read_be_u16 header 10 = 40 \<and>
     crc32 (take 36 header) = read_u32_at header 36 \<and> \<not> list_ex (\<lambda>i. header ! i \<noteq> 0) [28..<36]"

definition footer_ok :: "bytes \<Rightarrow> bool" where
  "footer_ok footer \<longleftrightarrow> take 8 footer = footer_magic \<and> crc32 (take 28 footer) = read_u32_at footer 28 \<and>
     \<not> list_ex (\<lambda>i. footer ! i \<noteq> 0) [24..<28]"

definition fields_ok :: "nat \<Rightarrow> bank_info \<Rightarrow> bytes \<Rightarrow> bool" where
  "fields_ok n info footer \<longleftrightarrow> bi_generation info \<noteq> 0 \<and> bi_payload_bytes info \<noteq> 0 \<and>
     bi_generation info = read_u64_at footer 8 \<and> bi_payload_bytes info = read_u32_at footer 16 \<and>
     bi_payload_crc info = read_u32_at footer 20 \<and> unat (bi_payload_bytes info) \<le> n - 40 - 32"

definition record_ok :: "nat \<Rightarrow> bytes \<Rightarrow> bool" where
  "record_ok n bank \<longleftrightarrow> header_ok (take 40 bank) \<and> footer_ok (drop (n - 32) bank) \<and>
     fields_ok n (info_of bank) (drop (n - 32) bank) \<and> crc32 (payload_of (info_of bank) bank) = bi_payload_crc (info_of bank)"

definition bank_view :: "nat \<Rightarrow> bytes \<Rightarrow> bank_info" where
  "bank_view n bank = (if record_ok n bank then info_of bank else no_info)"

definition nth_bank :: "nat \<Rightarrow> bytes \<Rightarrow> nat \<Rightarrow> bytes" where
  "nth_bank n x i = take n (drop (i * n) x)"

lemma no_info_valid [simp]: "\<not> bi_valid no_info" "\<not> bi_io_error no_info"
  by (simp_all add: no_info_def)

lemma bank_view_no_error [simp]: "\<not> bi_io_error (bank_view n bank)"
  by (simp add: bank_view_def info_of_def)

lemma bank_view_valid [simp]: "bi_valid (bank_view n bank) = record_ok n bank"
  by (simp add: bank_view_def info_of_def)

lemma merge_ifs: "(if a then x else if b then x else if c then x else if e then x else y) = (if (a \<or> b \<or> c) \<or> e then x else y)"
  by simp

lemma inspect_bank_alt:
  assumes "bk_read bk d (i * n) 40 = Some (take 40 bank)" "bk_read bk d (i * n + n - 32) 32 = Some (drop (n - 32) bank)"
  shows "inspect_bank bk i n d =
    (if header_ok (take 40 bank) \<and> footer_ok (drop (n - 32) bank) \<and> fields_ok n (info_of bank) (drop (n - 32) bank)
     then (case read_payload_crc bk d (i * n + 40) (unat (bi_payload_bytes (info_of bank))) of
         None \<Rightarrow> no_info\<lparr>bi_io_error := True\<rparr>
       | Some c \<Rightarrow> if c \<noteq> bi_payload_crc (info_of bank) then no_info else info_of bank)
     else no_info)"
proof -
  let ?h = "take 40 bank" and ?f = "drop (n - 32) bank"
  have 1: "(take 8 ?h \<noteq> header_magic \<or> read_be_u16 ?h 8 \<noteq> 1 \<or> read_be_u16 ?h 10 \<noteq> 40 \<or>
             crc32 (take 36 ?h) \<noteq> read_u32_at ?h 36 \<or> take 8 ?f \<noteq> footer_magic \<or> crc32 (take 28 ?f) \<noteq> read_u32_at ?f 28) \<or>
       list_ex (\<lambda>i. ?h ! i \<noteq> 0) [28..<36] \<or> list_ex (\<lambda>i. ?f ! i \<noteq> 0) [24..<28] \<longleftrightarrow> \<not> (header_ok ?h \<and> footer_ok ?f)"
    unfolding header_ok_def footer_ok_def by blast
  have 2: "read_u64_at ?h 12 = 0 \<or> read_u32_at ?h 20 = 0 \<or> read_u64_at ?h 12 \<noteq> read_u64_at ?f 8 \<or>
      read_u32_at ?h 20 \<noteq> read_u32_at ?f 16 \<or> read_u32_at ?h 24 \<noteq> read_u32_at ?f 20 \<or>
      unat (read_u32_at ?h 20) > n - 40 - 32 \<longleftrightarrow> \<not> fields_ok n (info_of bank) ?f"
    unfolding fields_ok_def info_of_def bank_info.select_convs not_le [symmetric] by blast
  show ?thesis
    unfolding inspect_bank_def bank_offset_def Let_def assms option.case merge_ifs 1 2
    by (cases "header_ok ?h"; cases "footer_ok ?f"; cases "fields_ok n (info_of bank) ?f")
      (simp_all only: info_of_def bank_info.select_convs simp_thms if_True if_False de_Morgan_conj)
qed

lemma fields_ok_bytes: "fields_ok n info footer \<Longrightarrow> unat (bi_payload_bytes info) \<le> n - 72"
  unfolding fields_ok_def by (elim conjE, erule order_trans, simp)

subsection \<open>Complete and torn records\<close>

definition header_body :: "u64 \<Rightarrow> u32 \<Rightarrow> u32 \<Rightarrow> bytes" where
  "header_body g p c = header_magic @ write_be_u16 1 @ write_be_u16 40 @ be_bytes 8 g @ be_bytes 4 p @ be_bytes 4 c @ replicate 8 0"

definition footer_body :: "u64 \<Rightarrow> u32 \<Rightarrow> u32 \<Rightarrow> bytes" where
  "footer_body g p c = footer_magic @ be_bytes 8 g @ be_bytes 4 p @ be_bytes 4 c @ replicate 4 0"

lemma length_magics [simp]: "length header_magic = 8" "length footer_magic = 8"
  by (simp_all add: header_magic_def footer_magic_def)

lemma length_bodies [simp]: "length (header_body g p c) = 36" "length (footer_body g p c) = 28"
  by (simp_all add: header_body_def footer_body_def)

lemma build_header_eq: "build_header g p c = header_body g p c @ be_bytes 4 (crc32 (header_body g p c))"
proof -
  have "replicate 40 0 = replicate 8 0 @ replicate 2 0 @ replicate 2 0 @ replicate 8 0 @ replicate 4 0 @ replicate 4 0 @
      replicate 8 0 @ replicate 4 (0 :: u8)" by (simp add: numeral_eq_Suc)
  then have "put_at 24 (be_bytes 4 c) (put_at 20 (be_bytes 4 p) (put_at 12 (be_bytes 8 g) (put_at 10 (write_be_u16 40)
      (put_at 8 (write_be_u16 1) (put_at 0 header_magic (replicate 40 0)))))) = header_body g p c @ replicate 4 0"
    by (simp add: header_body_def put_at_def)
  then show ?thesis unfolding build_header_def Let_def by (simp add: put_at_def)
qed

lemma build_footer_eq: "build_footer g p c = footer_body g p c @ be_bytes 4 (crc32 (footer_body g p c))"
proof -
  have "replicate 32 0 = replicate 8 0 @ replicate 8 0 @ replicate 4 0 @ replicate 4 0 @ replicate 4 0 @ replicate 4 (0 :: u8)"
    by (simp add: numeral_eq_Suc)
  then have "put_at 20 (be_bytes 4 c) (put_at 16 (be_bytes 4 p) (put_at 8 (be_bytes 8 g)
      (put_at 0 footer_magic (replicate 32 0)))) = footer_body g p c @ replicate 4 0"
    by (simp add: footer_body_def put_at_def)
  then show ?thesis unfolding build_footer_def Let_def by (simp add: put_at_def)
qed

lemma length_build [simp]: "length (build_header g p c) = 40" "length (build_footer g p c) = 32"
  by (simp_all add: build_header_eq build_footer_eq)

lemma be_value_words [simp]: "be_value (be_bytes 4 x) = (x :: u32)" "be_value (be_bytes 8 y) = (y :: u64)"
  using be_value_be_bytes [of 4 x, where 'b = 32] be_value_be_bytes [of 8 y, where 'b = 64] by simp_all

lemma nth_zero_tail: "length xs = k \<Longrightarrow> \<not> list_ex (\<lambda>i. (xs @ replicate m 0 @ ys) ! i \<noteq> (0 :: u8)) [k..<k + m]"
  by (auto simp: list_ex_iff nth_append)

lemma header_ok_build: "header_ok (build_header g p c)"
proof -
  have "read_be_u16 (build_header g p c) 8 = 1" "read_be_u16 (build_header g p c) 10 = 40"
    using read_be_u16_append [of 8 header_magic 1] read_be_u16_append [of 10 "header_magic @ write_be_u16 1" 40]
    by (simp_all add: build_header_eq header_body_def)
  moreover have "\<not> list_ex (\<lambda>i. build_header g p c ! i \<noteq> 0) [28..<28 + 8]"
    using nth_zero_tail [of "header_magic @ write_be_u16 1 @ write_be_u16 40 @ be_bytes 8 g @ be_bytes 4 p @ be_bytes 4 c" 28 8]
    by (simp only: build_header_eq header_body_def append_assoc) simp
  moreover have "take 8 (build_header g p c) = header_magic" "take 36 (build_header g p c) = header_body g p c"
    "read_u32_at (build_header g p c) 36 = crc32 (header_body g p c)"
    by (simp_all add: build_header_eq read_u32_at_def) (simp add: header_body_def)
  ultimately show ?thesis unfolding header_ok_def by simp
qed

lemma footer_ok_iff: "length x = 4 \<Longrightarrow> footer_ok (footer_body g p c @ x) \<longleftrightarrow> footer_body g p c @ x = build_footer g p c"
proof -
  assume x: "length x = 4"
  have "\<not> list_ex (\<lambda>i. (footer_body g p c @ x) ! i \<noteq> 0) [24..<24 + 4]"
    using nth_zero_tail [of "footer_magic @ be_bytes 8 g @ be_bytes 4 p @ be_bytes 4 c" 24 4 x]
    by (simp only: footer_body_def append_assoc) simp
  moreover have "take 8 (footer_body g p c @ x) = footer_magic" by (simp add: footer_body_def)
  moreover have "read_u32_at (footer_body g p c @ x) 28 = be_value x" using x by (simp add: read_u32_at_def)
  moreover have "crc32 (footer_body g p c) = be_value x \<longleftrightarrow> be_bytes 4 (crc32 (footer_body g p c)) = x"
    using be_bytes_be_value [OF x, where 'a = 32] by auto
  ultimately show ?thesis unfolding footer_ok_def build_footer_eq by auto
qed

lemma footer_torn:
  assumes "footer_ok (take k (build_footer g p c) @ replicate (32 - k) 0xFF)" "k \<le> 32"
  shows "take k (build_footer g p c) @ replicate (32 - k) 0xFF = build_footer g p c"
proof (cases "28 \<le> k")
  case True
  let ?x = "take (k - 28) (be_bytes 4 (crc32 (footer_body g p c))) @ replicate (32 - k) 0xFF"
  have eq: "take k (build_footer g p c) @ replicate (32 - k) 0xFF = footer_body g p c @ ?x"
    using True by (simp add: build_footer_eq)
  have "length ?x = 4" using True assms(2) by simp
  from footer_ok_iff [OF this] assms(1) show ?thesis unfolding eq by blast
next
  case False
  then have "(take k (build_footer g p c) @ replicate (32 - k) 0xFF) ! 27 = (0xFF :: u8)" by (simp add: nth_append)
  then have "list_ex (\<lambda>i. (take k (build_footer g p c) @ replicate (32 - k) 0xFF) ! i \<noteq> (0 :: u8)) [24..<28]"
    by (intro list_ex_iff [THEN iffD2] bexI [of _ 27]) simp_all
  with assms(1) show ?thesis unfolding footer_ok_def by blast
qed

definition record_octets :: "nat \<Rightarrow> u64 \<Rightarrow> bytes \<Rightarrow> bytes" where
  "record_octets n g payload = build_header g (of_nat (length payload)) (crc32 payload) @ payload @
     replicate (n - 72 - length payload) 0xFF @ build_footer g (of_nat (length payload)) (crc32 payload)"

lemma record_valid:
  assumes "72 < n" "payload \<noteq> []" "length payload \<le> n - 72" "length payload \<le> 0xFFFFFFFF" "g \<noteq> 0"
  shows "record_ok n (record_octets n g payload)" "bi_generation (info_of (record_octets n g payload)) = g"
    "payload_of (info_of (record_octets n g payload)) (record_octets n g payload) = payload"
    "length (record_octets n g payload) = n"
proof -
  let ?h = "build_header g (of_nat (length payload)) (crc32 payload)" and ?f = "build_footer g (of_nat (length payload)) (crc32 payload)"
  let ?x = "record_octets n g payload"
  have small: "unat (of_nat (length payload) :: u32) = length payload" "(of_nat (length payload) :: u32) \<noteq> 0"
    using assms(2,4) by (auto simp: unsigned_of_nat take_bit_nat_eq_self word_unat_eq_iff)
  show "length ?x = n" using assms(1,3) by (simp add: record_octets_def)
  have hf: "take 40 ?x = ?h" "drop (n - 32) ?x = ?f" using assms(1,3) by (simp_all add: record_octets_def)
  have info: "info_of ?x = \<lparr>bi_valid = True, bi_io_error = False, bi_generation = g, bi_payload_bytes = of_nat (length payload),
      bi_payload_crc = crc32 payload\<rparr>"
    by (simp add: info_of_def hf build_header_eq header_body_def read_u64_at_def read_u32_at_def)
  have footer: "read_u64_at ?f 8 = g" "read_u32_at ?f 16 = of_nat (length payload)" "read_u32_at ?f 20 = crc32 payload"
    by (simp_all add: build_footer_eq footer_body_def read_u64_at_def read_u32_at_def)
  have "footer_ok ?f" using footer_ok_iff [of "be_bytes 4 (crc32 (footer_body g (of_nat (length payload)) (crc32 payload)))"]
    by (simp add: build_footer_eq)
  moreover show p: "payload_of (info_of ?x) ?x = payload"
    unfolding payload_of_def info bank_info.select_convs small by (simp add: record_octets_def)
  ultimately show "record_ok n ?x"
    unfolding record_ok_def p hf using footer small assms by (simp add: header_ok_build fields_ok_def info)
  show "bi_generation (info_of ?x) = g" by (simp add: info)
qed

lemma erased_header_invalid: "\<not> record_ok n (0xFF # bank)"
  by (simp add: record_ok_def header_ok_def header_magic_def)

lemma erased_footer_invalid: "n - 32 < length bank \<Longrightarrow> bank ! (n - 32) = 0xFF \<Longrightarrow> \<not> record_ok n bank"
  unfolding record_ok_def footer_ok_def footer_magic_def by (simp add: Cons_nth_drop_Suc [symmetric])

lemma torn_record:
  assumes "72 < n" "length payload \<le> n - 72" "k \<le> 32"
    "record_ok n (build_header g p c @ payload @ replicate (n - 72 - length payload) 0xFF @ take k (build_footer g p c) @
       replicate (32 - k) 0xFF)"
  shows "take k (build_footer g p c) @ replicate (32 - k) 0xFF = build_footer g p c"
  using assms by (intro footer_torn) (simp_all add: record_ok_def)

subsection \<open>The device\<close>

lemma put_at_nested:
  "k + length ys \<le> length x \<Longrightarrow> base + length x \<le> length c \<Longrightarrow>
     put_at (base + k) ys (put_at base x c) = put_at base (put_at k ys x) c"
  by (simp add: put_at_def)

lemma put_at_same: "base + n \<le> length c \<Longrightarrow> put_at base (take n (drop base c)) c = c"
  by (simp add: put_at_def) (metis add.commute append_take_drop_id drop_drop)

lemma perform_Cons: "perform (f # fs) d = (ok, d') \<Longrightarrow>
   f d = (False, d') \<and> \<not> ok \<or> (\<exists>d1. f d = (True, d1) \<and> perform fs d1 = (ok, d'))"
  by (auto split: prod.splits if_splits)

lemma perform_append: "perform (fs @ gs) d = (case perform fs d of (ok, d') \<Rightarrow> if ok then perform gs d' else (False, d'))"
  by (induction fs arbitrary: d) (auto split: prod.splits)

text \<open>The device: its octets, and when its size is as announced and its reads work.\<close>

locale checkpoint_storage =
  fixes bk :: "'d backend" and content :: "'d \<Rightarrow> bytes" and sound :: "'d \<Rightarrow> bool"
  assumes dev_size: "sound d \<Longrightarrow> length (content d) = bk_capacity bk"
    and dev_read: "sound d \<Longrightarrow> off + n \<le> bk_capacity bk \<Longrightarrow> bk_read bk d off n = Some (take n (drop off (content d)))"
    and dev_write: "sound d \<Longrightarrow> off + length bs \<le> bk_capacity bk \<Longrightarrow> bk_write bk off bs d = (ok, d') \<Longrightarrow>
      sound d' \<and> (\<exists>k \<le> length bs. (ok \<longrightarrow> k = length bs) \<and> content d' = put_at off (take k bs) (content d))"
    and dev_erase: "sound d \<Longrightarrow> off + n \<le> bk_capacity bk \<Longrightarrow> bk_erase bk off n d = (ok, d') \<Longrightarrow>
      sound d' \<and> (\<exists>k \<le> n. (ok \<longrightarrow> k = n) \<and> content d' = put_at off (replicate k 0xFF) (content d))"
    and dev_sync: "sound d \<Longrightarrow> bk_sync bk d = (ok, d') \<Longrightarrow> sound d' \<and> content d' = content d"
begin

lemma payload_crc:
  assumes "sound d" "off + n \<le> bk_capacity bk"
  shows "read_payload_crc bk d off n = Some (crc32 (take n (drop off (content d))))"
proof -
  have "payload_crc_loop bk d off n c s = Some (crc32_finalize (crc32_update s (take (n - c) (drop (off + c) (content d)))))"
    if "c \<le> n" for c s
    using that
  proof (induction "n - c" arbitrary: c s rule: less_induct)
    case less
    show ?case
    proof (cases "c < n")
      case True
      let ?m = "min (n - c) 256"
      have "take (n - c) (drop (off + c) (content d)) =
          take ?m (drop (off + c) (content d)) @ take (n - (c + ?m)) (drop (off + (c + ?m)) (content d))"
        using take_add [of ?m "n - (c + ?m)" "drop (off + c) (content d)"] True by (simp add: ac_simps)
      moreover have "payload_crc_loop bk d off n (c + ?m) s' =
          Some (crc32_finalize (crc32_update s' (take (n - (c + ?m)) (drop (off + (c + ?m)) (content d)))))" for s'
        using True by (intro less.hyps) auto
      ultimately show ?thesis
        using True assms by (subst payload_crc_loop.simps) (simp add: dev_read Let_def crc32_update_append)
    next
      case False
      then show ?thesis using less.prems by (subst payload_crc_loop.simps) (simp add: crc32_update_def)
    qed
  qed
  from this [of 0 "0xFFFFFFFF"] show ?thesis by (simp add: read_payload_crc_def crc32_def)
qed

lemma inspect_view:
  assumes "sound d" "store_valid bk n" "i < 2"
  shows "inspect_bank bk i n d = bank_view n (nth_bank n (content d) i)"
proof -
  have n: "72 < n" "i * n + n \<le> bk_capacity bk"
    using assms(2,3) by (auto simp: store_valid_def less_2_cases_iff)
  let ?x = "nth_bank n (content d) i"
  have r: "bk_read bk d (i * n) 40 = Some (take 40 ?x)" "bk_read bk d (i * n + n - 32) 32 = Some (drop (n - 32) ?x)"
    using n assms(1) dev_size [OF assms(1)]
    by (simp_all add: dev_read nth_bank_def drop_take add.commute)
  have p: "read_payload_crc bk d (i * n + 40) m = Some (crc32 (take m (drop 40 ?x)))" if "m \<le> n - 72" for m
    using that n payload_crc [OF assms(1), of "i * n + 40" m] by (simp add: nth_bank_def drop_take add.commute min_absorb1)
  show ?thesis
  proof (cases "fields_ok n (info_of ?x) (drop (n - 32) ?x)")
    case True
    then have "unat (bi_payload_bytes (info_of ?x)) \<le> n - 72" by (rule fields_ok_bytes)
    from p [OF this] show ?thesis by (simp add: inspect_bank_alt [OF r] bank_view_def record_ok_def payload_of_def)
  qed (simp add: inspect_bank_alt [OF r] bank_view_def record_ok_def)
qed

lemma bank_write:
  assumes "sound d" "content d = put_at base x c" "base + length x \<le> length c" "length c = bk_capacity bk"
    "j + length bs \<le> length x" "bk_write bk (base + j) bs d = (ok, d')"
  obtains k where "k \<le> length bs" "ok \<longrightarrow> k = length bs" "sound d'" "content d' = put_at base (put_at j (take k bs) x) c"
proof -
  have "base + j + length bs \<le> bk_capacity bk" using assms(3-5) by simp
  from dev_write [OF assms(1) this assms(6)] obtain k where k: "k \<le> length bs" "ok \<longrightarrow> k = length bs" "sound d'"
      "content d' = put_at (base + j) (take k bs) (content d)" by blast
  with that assms(2,3,5) put_at_nested [of j "take k bs" x base c] show ?thesis by simp
qed

lemma fill_outcome:
  assumes d: "sound d" "content d = put_at base (replicate n 0xFF) c" and c: "length c = bk_capacity bk" "base + n \<le> bk_capacity bk" "72 < n"
    and payload: "40 + length payload \<le> n - 32" and h: "length h = 40"
    and run: "perform [bk_sync bk, bk_write bk base h, bk_write bk (base + 40) payload] d = (ok, d')"
  obtains x where "sound d'" "content d' = put_at base x c" "length x = n" "x ! (n - 32) = 0xFF"
    "ok \<longrightarrow> x = h @ payload @ replicate (n - 40 - length payload) 0xFF"
proof -
  let ?e = "replicate n (0xFF :: u8)"
  have base: "base + length ?e \<le> length c" using c by simp
  from perform_Cons [OF run] show thesis
  proof (elim disjE exE conjE)
    assume "bk_sync bk d = (False, d')" "\<not> ok"
    then show thesis using dev_sync [OF d(1)] d(2) c(3) by (intro that [of ?e]) auto
  next
    fix d1 assume sync: "bk_sync bk d = (True, d1)" and rest: "perform [bk_write bk base h, bk_write bk (base + 40) payload] d1 = (ok, d')"
    have d1: "sound d1" "content d1 = put_at base ?e c" using dev_sync [OF d(1) sync] d(2) by simp_all
    from perform_Cons [OF rest] show thesis
    proof (elim disjE exE conjE)
      assume w: "bk_write bk base h d1 = (False, d')" and "\<not> ok"
      obtain k where "k \<le> length h" "sound d'" "content d' = put_at base (put_at 0 (take k h) ?e) c"
        by (rule bank_write [OF d1 base c(1), of 0 h False d']) (use w h c(3) in simp_all)
      then show thesis using h c(3) \<open>\<not> ok\<close> by (intro that [of "put_at 0 (take k h) ?e"]) (auto simp: nth_append)
    next
      fix d2 assume w: "bk_write bk base h d1 = (True, d2)" and rest: "perform [bk_write bk (base + 40) payload] d2 = (ok, d')"
      let ?x = "h @ replicate (n - 40) 0xFF"
      obtain k where "k = length h" "sound d2" "content d2 = put_at base (put_at 0 (take k h) ?e) c"
        by (rule bank_write [OF d1 base c(1), of 0 h True d2]) (use w h c(3) in simp_all)
      then have d2: "sound d2" "content d2 = put_at base ?x c" using h by simp_all
      obtain k where k: "k \<le> length payload" "ok \<longrightarrow> k = length payload" "sound d'" "content d' = put_at base (put_at 40 (take k payload) ?x) c"
        by (rule bank_write [OF d2, of 40 payload ok d']) (use rest c h payload in \<open>auto split: prod.splits if_splits\<close>)
      have x: "put_at 40 (take k payload) ?x = h @ take k payload @ replicate (n - 40 - k) 0xFF"
        using h k(1) payload by (simp add: put_at_def)
      show thesis using k(1,2) h payload by (intro that [OF k(3) k(4) [unfolded x]]) (auto simp: nth_append)
    qed
  qed
qed

lemma prepare_outcome:
  assumes d: "sound d" "base + n \<le> bk_capacity bk" "72 < n" and payload: "40 + length payload \<le> n - 32" and h: "length h = 40"
    and run: "perform [bk_erase bk base n, bk_sync bk, bk_write bk base h, bk_write bk (base + 40) payload] d = (ok, d')"
  obtains x where "sound d'" "content d' = put_at base x (content d)" "length x = n"
    "x = take n (drop base (content d)) \<or> \<not> record_ok n x" "ok \<longrightarrow> x = h @ payload @ replicate (n - 40 - length payload) 0xFF"
proof -
  let ?c = "content d"
  have c: "length ?c = bk_capacity bk" by (rule dev_size [OF d(1)])
  from perform_Cons [OF run] show thesis
  proof (elim disjE exE conjE)
    assume e: "bk_erase bk base n d = (False, d')" and "\<not> ok"
    from dev_erase [OF d(1,2) e] obtain k where k: "k \<le> n" "sound d'" "content d' = put_at base (replicate k 0xFF) ?c" by blast
    let ?bank = "take n (drop base ?c)"
    have bank: "?c = put_at base ?bank ?c" "length ?bank = n" using c d(2) by (simp_all add: put_at_same)
    have "content d' = put_at base (put_at 0 (replicate k 0xFF) ?bank) ?c"
      using k put_at_nested [of 0 "replicate k 0xFF" ?bank base ?c] bank c d(2) by simp
    moreover have "put_at 0 (replicate k 0xFF) ?bank = ?bank \<or> \<not> record_ok n (put_at 0 (replicate k 0xFF) ?bank)"
      by (cases k) (simp_all add: erased_header_invalid)
    ultimately show thesis using \<open>\<not> ok\<close> k bank by (intro that) auto
  next
    fix d1 assume e: "bk_erase bk base n d = (True, d1)"
      and rest: "perform [bk_sync bk, bk_write bk base h, bk_write bk (base + 40) payload] d1 = (ok, d')"
    from dev_erase [OF d(1,2) e] have d1: "sound d1" "content d1 = put_at base (replicate n 0xFF) ?c" by auto
    from fill_outcome [OF d1 c d(2,3) payload h rest] obtain x where x: "sound d'" "content d' = put_at base x ?c" "length x = n"
      "x ! (n - 32) = 0xFF" "ok \<longrightarrow> x = h @ payload @ replicate (n - 40 - length payload) 0xFF" .
    moreover have "\<not> record_ok n x" using x(3,4) d(3) by (intro erased_footer_invalid) simp_all
    ultimately show thesis by (intro that) auto
  qed
qed

lemma commit_outcome:
  fixes g payload n
  defines "h \<equiv> build_header g (of_nat (length payload)) (crc32 payload)" and "f \<equiv> build_footer g (of_nat (length payload)) (crc32 payload)"
  assumes d: "sound d" "content d = put_at base (h @ payload @ replicate (n - 40 - length payload) 0xFF) c"
    and c: "length c = bk_capacity bk" "base + n \<le> bk_capacity bk" "72 < n" and payload: "40 + length payload \<le> n - 32"
    and run: "perform [bk_sync bk, bk_write bk (base + n - 32) f, bk_sync bk] d = (ok, d')"
  obtains x where "sound d'" "content d' = put_at base x c" "length x = n" "\<not> record_ok n x \<or> x = record_octets n g payload"
    "ok \<longrightarrow> x = record_octets n g payload"
proof -
  let ?x = "h @ payload @ replicate (n - 40 - length payload) (0xFF :: u8)"
  have h: "length h = 40" "length f = 32" by (simp_all add: h_def f_def)
  have base: "base + length ?x \<le> length c" "length ?x = n" using c payload h by simp_all
  have "?x ! (n - 32) = 0xFF" using payload h c(3) by (auto simp: nth_append)
  then have blank: "\<not> record_ok n ?x" using base(2) c(3) by (intro erased_footer_invalid) simp_all
  from perform_Cons [OF run] show thesis
  proof (elim disjE exE conjE)
    assume "bk_sync bk d = (False, d')" "\<not> ok"
    then show thesis using dev_sync [OF d(1)] d(2) base(2) blank by (intro that [of ?x]) auto
  next
    fix d1 assume sync: "bk_sync bk d = (True, d1)" and rest: "perform [bk_write bk (base + n - 32) f, bk_sync bk] d1 = (ok, d')"
    have d1: "sound d1" "content d1 = put_at base ?x c" using dev_sync [OF d(1) sync] d(2) by simp_all
    obtain ok2 d2 where w: "bk_write bk (base + (n - 32)) f d1 = (ok2, d2)" by (cases "bk_write bk (base + (n - 32)) f d1")
    have pos: "base + n - 32 = base + (n - 32)" using c(3) by simp
    obtain k where k: "k \<le> 32" "ok2 \<longrightarrow> k = 32" "sound d2" "content d2 = put_at base (put_at (n - 32) (take k f) ?x) c"
      by (rule bank_write [OF d1 base(1) c(1) _ w]) (use h base(2) c(3) in simp_all)
    let ?y = "h @ payload @ replicate (n - 72 - length payload) 0xFF @ take k f @ replicate (32 - k) 0xFF"
    have y: "put_at (n - 32) (take k f) ?x = ?y" using k(1) h payload c(3) by (simp add: put_at_def)
    have rec: "?y = record_octets n g payload" if "take k f @ replicate (32 - k) 0xFF = f"
      using that by (simp add: record_octets_def flip: h_def f_def)
    have "\<not> record_ok n ?y \<or> ?y = record_octets n g payload"
      using torn_record [of n payload k g "of_nat (length payload)" "crc32 payload"] payload c(3) k(1) rec unfolding h_def f_def by auto
    moreover have "ok2 \<longrightarrow> ?y = record_octets n g payload" using k(2) h rec by auto
    moreover have "sound d'" "content d' = content d2" "ok \<longrightarrow> ok2"
      using rest w k(3) dev_sync [OF k(3)] unfolding pos by (auto split: prod.splits if_splits)
    moreover have "length ?y = n" using k(1) h payload c(3) by simp
    ultimately show thesis using k(4) unfolding y by (intro that [of ?y]) auto
  qed
qed

lemma write_record_outcome:
  assumes "sound d" "store_valid bk n" "i < 2" "length payload \<le> n - 72"
    "write_record bk (i * n) n (build_header g (of_nat (length payload)) (crc32 payload)) payload
       (build_footer g (of_nat (length payload)) (crc32 payload)) d = (ok, d')"
  obtains x where "sound d'" "content d' = put_at (i * n) x (content d)" "length x = n"
    "x = nth_bank n (content d) i \<or> \<not> record_ok n x \<or> x = record_octets n g payload" "ok \<longrightarrow> x = record_octets n g payload"
proof -
  let ?h = "build_header g (of_nat (length payload)) (crc32 payload)" and ?f = "build_footer g (of_nat (length payload)) (crc32 payload)"
  have n: "72 < n" "i * n + n \<le> bk_capacity bk" using assms(2,3) by (auto simp: store_valid_def less_2_cases_iff)
  have payload: "40 + length payload \<le> n - 32" using assms(4) n by simp
  note c = dev_size [OF assms(1)]
  let ?p = "perform [bk_erase bk (i * n) n, bk_sync bk, bk_write bk (i * n) ?h, bk_write bk (i * n + 40) payload] d"
  obtain ok1 d1 where p: "?p = (ok1, d1)" by (cases ?p)
  have run: "perform [bk_sync bk, bk_write bk (i * n + n - 32) ?f, bk_sync bk] d1 = (ok, d')" if ok1
    using assms(5) p that perform_append [of "[bk_erase bk (i * n) n, bk_sync bk, bk_write bk (i * n) ?h, bk_write bk (i * n + 40) payload]"
      "[bk_sync bk, bk_write bk (i * n + n - 32) ?f, bk_sync bk]" d] by (simp add: write_record_def del: perform.simps)
  have stop: "ok = False \<and> d' = d1" if "\<not> ok1"
    using assms(5) p that perform_append [of "[bk_erase bk (i * n) n, bk_sync bk, bk_write bk (i * n) ?h, bk_write bk (i * n + 40) payload]"
      "[bk_sync bk, bk_write bk (i * n + n - 32) ?f, bk_sync bk]" d] by (simp add: write_record_def del: perform.simps)
  obtain x where x: "sound d1" "content d1 = put_at (i * n) x (content d)" "length x = n"
      "x = take n (drop (i * n) (content d)) \<or> \<not> record_ok n x" "ok1 \<longrightarrow> x = ?h @ payload @ replicate (n - 40 - length payload) 0xFF"
    using prepare_outcome [OF assms(1) n(2,1) payload length_build(1) p] .
  show thesis
  proof (cases ok1)
    case True
    then have x': "content d1 = put_at (i * n) (?h @ payload @ replicate (n - 40 - length payload) 0xFF) (content d)" using x(2,5) by simp
    show thesis using commit_outcome [OF x(1) x' c n(2,1) payload run [OF True]] that by blast
  next
    case False
    then show thesis using x stop by (intro that [of x]) (auto simp: nth_bank_def)
  qed
qed

end

subsection \<open>The committed image\<close>

text \<open>Bank, record and payload that a restore loads from octets \<open>x\<close> of the device.\<close>

definition committed :: "nat \<Rightarrow> bytes \<Rightarrow> (nat \<times> bank_info \<times> bytes) option" where
  "committed n x = map_option (\<lambda>((i, info), _). (i, info, payload_of info (nth_bank n x i)))
     (select_banks (bank_view n (nth_bank n x 0)) (bank_view n (nth_bank n x 1)))"

lemma next_generation_newer:
  assumes "g \<noteq> 0"
  shows "generation_newer (next_generation g) g" "\<not> generation_newer g (next_generation g)"
proof -
  have "(1 :: u64) - - 1 = 2" "(- 1 :: u64) - 1 = - 2" by simp_all
  then show "generation_newer (next_generation g) g" "\<not> generation_newer g (next_generation g)"
    using assms by (auto simp: generation_newer_def next_generation_def)
qed

lemma next_generation_nonzero: "next_generation g \<noteq> 0"
proof
  assume "next_generation g = 0"
  then have "g + 1 = 0" "g \<noteq> - 1" by (auto simp: next_generation_def split: if_splits)
  then show False by (metis eq_neg_iff_add_eq_0)
qed

lemma nth_bank_put_at:
  assumes "length y = n" "2 * n \<le> length x" "t < 2" "i < 2"
  shows "nth_bank n (put_at (t * n) y x) i = (if i = t then y else nth_bank n x i)"
  using assms by (auto simp: nth_bank_def put_at_def less_2_cases_iff)

lemma record_generation: "record_ok n bank \<Longrightarrow> bi_generation (info_of bank) \<noteq> 0"
  unfolding record_ok_def fields_ok_def by blast

lemma bank_view_generation: "record_ok n bank \<Longrightarrow> bi_generation (bank_view n bank) \<noteq> 0"
  by (simp add: bank_view_def record_generation)

lemma committed_update:
  assumes len: "length y = n" "2 * n \<le> length x"
    and t: "checkpoint_target (bank_view n (nth_bank n x 0)) (bank_view n (nth_bank n x 1)) = (t, cur)"
  shows "t < 2" "\<not> record_ok n y \<Longrightarrow> committed n (put_at (t * n) y x) = committed n x"
    "record_ok n y \<Longrightarrow> bi_generation (info_of y) = next_generation cur \<Longrightarrow>
       committed n (put_at (t * n) y x) = Some (t, info_of y, payload_of (info_of y) y)"
proof -
  let ?v0 = "bank_view n (nth_bank n x 0)" and ?v1 = "bank_view n (nth_bank n x 1)"
  show t2: "t < 2" using t by (auto simp: checkpoint_target_def Let_def split: if_splits)
  define x' where "x' = put_at (t * n) y x"
  have banks: "nth_bank n x' 0 = (if t = 0 then y else nth_bank n x 0)"
      "nth_bank n x' (Suc 0) = (if t = 1 then y else nth_bank n x (Suc 0))"
    using nth_bank_put_at [OF len t2, of 0] nth_bank_put_at [OF len t2, of 1] t2 unfolding x'_def [symmetric] by auto
  show "committed n (put_at (t * n) y x) = committed n x" if "\<not> record_ok n y"
    using that t unfolding x'_def [symmetric]
    by (auto simp: committed_def banks checkpoint_target_def select_banks_def Let_def split: if_splits)
  show "committed n (put_at (t * n) y x) = Some (t, info_of y, payload_of (info_of y) y)"
    if y: "record_ok n y" "bi_generation (info_of y) = next_generation cur"
  proof -
    have "bank_view n y = info_of y" using y by (simp add: bank_view_def)
    moreover have "record_ok n bank \<Longrightarrow> bi_generation (bank_view n bank) \<noteq> 0" for bank
      by (rule bank_view_generation)
    ultimately show ?thesis using t y next_generation_newer unfolding x'_def [symmetric]
      by (auto simp: committed_def banks checkpoint_target_def select_banks_def Let_def split: if_splits)
  qed
qed

lemma record_payload: "record_ok n bank \<Longrightarrow> length bank = n \<Longrightarrow>
   length (payload_of (info_of bank) bank) = unat (bi_payload_bytes (info_of bank)) \<and>
   crc32 (payload_of (info_of bank) bank) = bi_payload_crc (info_of bank)"
  using fields_ok_bytes [of n "info_of bank" "drop (n - 32) bank"] by (simp add: record_ok_def payload_of_def)

lemma committed_Some:
  assumes "committed n x = Some (i, info, payload)" "2 * n \<le> length x"
  shows "i < 2" "info = info_of (nth_bank n x i)" "payload = payload_of info (nth_bank n x i)"
    "length payload = unat (bi_payload_bytes info)" "crc32 payload = bi_payload_crc info"
    "length payload \<le> n - 72"
proof -
  show i: "i < 2" and info: "info = info_of (nth_bank n x i)" and payload: "payload = payload_of info (nth_bank n x i)"
    using assms(1) by (auto simp: committed_def select_banks_def Let_def bank_view_def split: if_splits)
  have rec: "record_ok n (nth_bank n x i)"
    using assms(1) by (auto simp: committed_def select_banks_def Let_def split: if_splits)
  have "length (nth_bank n x i) = n" using assms(2) i by (auto simp: nth_bank_def less_2_cases_iff)
  then show len: "length payload = unat (bi_payload_bytes info)" and "crc32 payload = bi_payload_crc info"
    using record_payload rec unfolding payload info by blast+
  show "length payload \<le> n - 72" using rec fields_ok_bytes unfolding len info record_ok_def by blast
qed

context checkpoint_storage
begin

lemma checkpoint_commits:
  assumes d: "sound d" and n: "store_valid bk n" and cp: "checkpoint bk n b buf d = (r, buf', d')"
    and enc: "state_encode b buf = ((status, w, q), buf1)" "status = State_ok \<longrightarrow> take w buf1 = img \<and> w = length img \<and> img \<noteq> []"
  shows "sound d' \<and> (committed n (content d') = committed n (content d) \<and> cp_status r \<noteq> Cp_ok \<or>
    (\<exists>i info. committed n (content d') = Some (i, info, img)))"
proof -
  let ?x = "content d"
  let ?v0 = "bank_view n (nth_bank n ?x 0)" and ?v1 = "bank_view n (nth_bank n ?x 1)"
  obtain t cur where t: "checkpoint_target ?v0 ?v1 = (t, cur)" by (cases "checkpoint_target ?v0 ?v1")
  have len: "2 * n \<le> length ?x" "72 < n" using n dev_size [OF d] by (auto simp: store_valid_def)
  have inspect: "inspect_bank bk 0 n d = ?v0" "inspect_bank bk 1 n d = ?v1" using inspect_view [OF d n] by simp_all
  show ?thesis
  proof (cases "status = State_ok \<and> w \<le> n - 72 \<and> w \<le> 0xFFFFFFFF")
    case False
    then have "d' = d" "cp_status r \<noteq> Cp_ok"
      using cp len by (auto simp: checkpoint_def n enc(1) Let_def maximum_state_bytes_def split: if_splits)
    with d show ?thesis by simp
  next
    case True
    then have img: "take w buf1 = img" "w = length img" "img \<noteq> []" "length img \<le> n - 72" "length img \<le> 0xFFFFFFFF" using enc(2) by auto
    define g where "g = next_generation cur"
    let ?w = "write_record bk (t * n) n (build_header g (of_nat (length img)) (crc32 img)) img
      (build_footer g (of_nat (length img)) (crc32 img)) d"
    obtain ok where w: "?w = (ok, d')" and ok: "cp_status r = Cp_ok \<longleftrightarrow> ok"
      using cp True len img inspect by (auto simp: checkpoint_def n enc(1) Let_def maximum_state_bytes_def t g_def bank_offset_def
        simp del: One_nat_def split: prod.splits if_splits)
    have t2: "t < 2" using committed_update(1) [OF _ len(1) t] len by (metis length_replicate)
    obtain x where x: "sound d'" "content d' = put_at (t * n) x ?x" "length x = n"
        "x = nth_bank n ?x t \<or> \<not> record_ok n x \<or> x = record_octets n g img" "ok \<longrightarrow> x = record_octets n g img"
      using write_record_outcome [OF d n t2 img(4) w] .
    note upd = committed_update [OF x(3) len(1) t]
    have g0: "g \<noteq> 0" by (simp add: g_def next_generation_nonzero)
    have full: "\<exists>i info. committed n (content d') = Some (i, info, img)" if "x = record_octets n g img"
      using upd(3) record_valid [OF len(2) img(3,4,5) g0] that unfolding x(2) g_def by metis
    have same: "content d' = ?x" if "x = nth_bank n ?x t"
      using that x(2) put_at_same [of "t * n" n ?x] len t2 by (auto simp: nth_bank_def less_2_cases_iff)
    show ?thesis using x(1,2,4,5) full same upd(2) ok by metis
  qed
qed

lemma restore_committed:
  assumes d: "sound d" and n: "store_valid bk n"
  shows "committed n (content d) = None \<Longrightarrow> restore_checkpoint bk n d b buf = (new_result\<lparr>cp_status := No_checkpoint\<rparr>, buf, b)"
    "committed n (content d) = Some (i, info, payload) \<Longrightarrow> restore_checkpoint bk n d b buf =
      (let r = new_result\<lparr>cp_generation := bi_generation info, cp_bank_index := i, cp_state_bytes := length payload,
         cp_required_state_bytes := length payload\<rparr> in
       if length buf < length payload then (r\<lparr>cp_status := Cp_state_buffer_too_small\<rparr>, buf, b)
       else (case state_restore b payload of ((status, _, _), b') \<Rightarrow>
         (r\<lparr>cp_state_status := status, cp_status := (if status \<noteq> State_ok then State_restore_failed else Cp_ok)\<rparr>,
          put_at 0 payload buf, b')))"
proof -
  let ?v0 = "bank_view n (nth_bank n (content d) 0)" and ?v1 = "bank_view n (nth_bank n (content d) 1)"
  have len: "2 * n \<le> length (content d)" "72 < n" using n dev_size [OF d] by (auto simp: store_valid_def)
  have inspect: "inspect_bank bk 0 n d = ?v0" "inspect_bank bk 1 n d = ?v1" using inspect_view [OF d n] by simp_all
  show "restore_checkpoint bk n d b buf = (new_result\<lparr>cp_status := No_checkpoint\<rparr>, buf, b)" if "committed n (content d) = None"
    using that by (simp add: restore_checkpoint_def n inspect committed_def del: One_nat_def)
  show "restore_checkpoint bk n d b buf = (let r = new_result\<lparr>cp_generation := bi_generation info, cp_bank_index := i,
         cp_state_bytes := length payload, cp_required_state_bytes := length payload\<rparr> in
       if length buf < length payload then (r\<lparr>cp_status := Cp_state_buffer_too_small\<rparr>, buf, b)
       else (case state_restore b payload of ((status, _, _), b') \<Rightarrow>
         (r\<lparr>cp_state_status := status, cp_status := (if status \<noteq> State_ok then State_restore_failed else Cp_ok)\<rparr>,
          put_at 0 payload buf, b')))" if some: "committed n (content d) = Some (i, info, payload)"
  proof -
    note c = committed_Some [OF some len(1)]
    obtain fallback where select: "select_banks ?v0 ?v1 = Some ((i, info), fallback)"
      using some by (auto simp: committed_def)
    have "i * n + 40 + length payload \<le> bk_capacity bk"
      using c(1,6) len dev_size [OF d] by (auto simp: less_2_cases_iff)
    moreover have "take (length payload) (drop (i * n + 40) (content d)) = payload"
      using c(3,4,6) len(2) by (simp add: payload_of_def nth_bank_def drop_take add.commute)
    ultimately have read: "bk_read bk d (i * n + 40) (length payload) = Some payload" using dev_read [OF d] by simp
    show ?thesis
      using c(4,5) read by (auto simp: restore_checkpoint_def n inspect select load_bank_def bank_offset_def Let_def
        simp del: One_nat_def split: prod.splits option.splits)
  qed
qed

end

subsection \<open>Crash safety\<close>

lemma state_image_nonempty: "state_image b \<noteq> []"
proof -
  have "length (image_header b) \<noteq> 0" by simp
  then show ?thesis by (auto simp: state_image_def simp del: length_image_header)
qed

interpretation flash: checkpoint_storage "fake_backend n" fs_bytes "\<lambda>s. length (fs_bytes s) = n \<and> \<not> fs_fail_reads s" for n
proof
  fix d d' :: fake_storage and off k ok bs
  assume d: "length (fs_bytes d) = n \<and> \<not> fs_fail_reads d"
  show "length (fs_bytes d) = bk_capacity (fake_backend n)" using d by (simp add: fake_backend_def)
  show "bk_read (fake_backend n) d off k = Some (take k (drop off (fs_bytes d)))" if "off + k \<le> bk_capacity (fake_backend n)"
    using d that by (simp add: fake_backend_def storage_read_def)
  show "(length (fs_bytes d') = n \<and> \<not> fs_fail_reads d') \<and>
      (\<exists>k \<le> length bs. (ok \<longrightarrow> k = length bs) \<and> fs_bytes d' = put_at off (take k bs) (fs_bytes d))"
    if "off + length bs \<le> bk_capacity (fake_backend n)" "bk_write (fake_backend n) off bs d = (ok, d')"
    using d that by (auto simp: fake_backend_def storage_write_def Let_def split: if_splits
      intro!: exI [of _ "min (length bs) (fs_write_budget d)"])
  show "(length (fs_bytes d') = n \<and> \<not> fs_fail_reads d') \<and>
      (\<exists>j \<le> k. (ok \<longrightarrow> j = k) \<and> fs_bytes d' = put_at off (replicate j 0xFF) (fs_bytes d))"
    if "off + k \<le> bk_capacity (fake_backend n)" "bk_erase (fake_backend n) off k d = (ok, d')"
    using d that by (auto simp: fake_backend_def storage_erase_def split: if_splits)
  show "(length (fs_bytes d') = n \<and> \<not> fs_fail_reads d') \<and> fs_bytes d' = fs_bytes d" if "bk_sync (fake_backend n) d = (ok, d')"
    using d that by (auto simp: fake_backend_def storage_sync_def)
qed

text \<open>C3.  Checkpoints are crash safe.  Let the storage device keep its laws: an interrupted write leaves
  a prefix of its octets, an interrupted erase a prefix of erased octets, other octets stay.  Take any
  reachable block whose entries fit the image, and any checkpoint of it, whatever operation of the
  device failed or was cut off on the way.  A later restore then behaves exactly as it would have before
  the checkpoint, or it recovers the retained entries, cursor and counters of the checkpointed block;
  when the checkpoint reported success it is always the latter.  A sync changes nothing of what the device
  holds, so the theorem does not tell a checkpoint that syncs from one that does not.\<close>

theorem brcb_checkpoint_crash_safe:
  assumes "checkpoint_storage bk content sound" "sound d" "store_valid bk n"
    and "brcb_initialize objs ds z = (True, b0)" "length (bd_optional_fields (br_definition z)) = 2"
    and "run_ok brcb_allowed brcb_step calls b0" "b = fold brcb_step calls b0"
    and "\<forall>s \<in> set (retained_slots b). sl_bytes s \<le> 0xFFFFFFFF" "br_count b \<le> 0xFFFFFFFF" "length (state_image b) < 2 ^ 64"
    and "brcb_inv c" "br_definition c = br_definition b" "br_count b \<le> length (br_slots c)"
    and "fits (br_slots c) 0 (retained_slots b)" "length (state_image b) \<le> length buf2"
    and "checkpoint bk n b buf d = (r, buf', d')"
  shows "case (restore_checkpoint bk n d c buf2, restore_checkpoint bk n d' c buf2) of (before, after) \<Rightarrow>
    after = before \<and> cp_status r \<noteq> Cp_ok \<or>
    cp_status (fst after) = Cp_ok \<and>
    (let c' = snd (snd after) in brcb_inv c' \<and> brcb_log c' = brcb_log b \<and>
      br_next_entry_number c' = br_next_entry_number b \<and> br_sequence_number c' = br_sequence_number b \<and>
      br_dropped_reports c' = br_dropped_reports b \<and> br_replay_gap c' = br_replay_gap b)"
proof -
  have b: "brcb_inv b" "sequence_current b"
    using recoverable.run_inv [OF assms(6) brcb_initialize_recoverable [OF assms(4,5)]] assms(7) by simp_all
  note st = retained_storable [OF b(1) assms(8)]
  note commits = checkpoint_storage.checkpoint_commits [OF assms(1-3,16)]
    and restore = checkpoint_storage.restore_committed [OF assms(1) _ assms(3)]
  obtain status w q buf1 where enc: "state_encode b buf = ((status, w, q), buf1)" by (metis surj_pair)
  have "status = State_ok \<longrightarrow> take w buf1 = state_image b \<and> w = length (state_image b) \<and> state_image b \<noteq> []"
    using enc state_encode_image [OF b(1) st assms(9,10), of buf] state_image_nonempty [of b] by (auto split: if_splits)
  from commits [OF enc this] have sound: "sound d'" and
    cases: "committed n (content d') = committed n (content d) \<and> cp_status r \<noteq> Cp_ok \<or>
      (\<exists>i info. committed n (content d') = Some (i, info, state_image b))" by blast+
  from cases show ?thesis
  proof (elim disjE exE conjE)
    assume same: "committed n (content d') = committed n (content d)" and "cp_status r \<noteq> Cp_ok"
    have "restore_checkpoint bk n d' c buf2 = restore_checkpoint bk n d c buf2"
      by (cases "committed n (content d)") (auto simp: restore [OF sound] restore [OF assms(2)] same)
    with \<open>cp_status r \<noteq> Cp_ok\<close> show ?thesis by simp
  next
    fix i info assume some: "committed n (content d') = Some (i, info, state_image b)"
    obtain c' where "state_restore c (state_image b) = ((State_ok, length (state_image b), length (state_image b)), c')"
      "brcb_log c' = brcb_log b" "br_next_entry_number c' = br_next_entry_number b" "br_sequence_number c' = br_sequence_number b"
      "br_dropped_reports c' = br_dropped_reports b" "br_replay_gap c' = br_replay_gap b" "brcb_inv c'"
      using state_restore_recovers [OF b st assms(9,11-14)] by blast
    then show ?thesis using assms(15) by (simp add: restore(2) [OF sound some] Let_def)
  qed
qed

lemma fresh_write_record:
  assumes "base + n \<le> m" "40 + length payload \<le> n - 32" "72 < n" "length h = 40" "length f = 32" "m < 2 ^ 64"
  shows "fst (write_record (fake_backend m) base n h payload f (fresh_storage m))"
proof -
  have ok: "fst (storage_write off bs s) \<and> snd (storage_write off bs s) = s\<lparr>fs_bytes := put_at off bs (fs_bytes s)\<rparr> \<and>
      length (put_at off bs (fs_bytes s)) = m" if "off + length bs \<le> m" "length (fs_bytes s) = m" "fs_write_budget s = 2 ^ 64 - 1" for off bs s
    using that assms(6) by (auto simp: storage_write_def Let_def)
  show ?thesis
    using assms(1-5) ok [of base h] ok [of "base + 40" payload] ok [of "base + n - 32" f]
    by (simp add: write_record_def fake_backend_def storage_erase_def storage_sync_def fresh_storage_def case_prod_unfold)
qed

lemma fresh_checkpoint:
  assumes "store_valid (fake_backend m) n" "m < 2 ^ 64" "state_encode b buf = ((State_ok, w, q), buf1)" "w \<le> n - 72" "w \<le> 0xFFFFFFFF"
    "w \<le> length buf1"
  shows "cp_status (fst (checkpoint (fake_backend m) n b buf (fresh_storage m))) = Cp_ok"
proof -
  let ?d = "fresh_storage m"
  have d: "length (fs_bytes ?d) = m \<and> \<not> fs_fail_reads ?d" by (simp add: fresh_storage_def)
  obtain t cur where t: "checkpoint_target (inspect_bank (fake_backend m) 0 n ?d) (inspect_bank (fake_backend m) 1 n ?d) = (t, cur)" by fastforce
  have io: "\<not> bi_io_error (inspect_bank (fake_backend m) 0 n ?d)" "\<not> bi_io_error (inspect_bank (fake_backend m) 1 n ?d)"
    using flash.inspect_view [OF d assms(1)] by simp_all
  have t2: "t < 2" using t by (auto simp: checkpoint_target_def Let_def split: if_splits)
  have n: "72 < n" "n \<le> m div 2" using assms(1) by (simp_all add: store_valid_def fake_backend_def)
  then have "t * n + n \<le> m" using t2 by (auto simp: less_2_cases_iff)
  then have "fst (write_record (fake_backend m) (t * n) n h (take w buf1) f ?d)" if "length h = 40" "length f = 32" for h f
    using that assms(2,4,6) n(1) by (intro fresh_write_record) simp_all
  then show ?thesis
    using assms(3-6) io n(1)
    by (simp add: checkpoint_def assms(1) t Let_def maximum_state_bytes_def bank_offset_def case_prod_unfold del: One_nat_def)
qed

theorem brcb_checkpoint_crash_safe_witness:
  "case checkpoint (fake_backend 1000) 500 (fold brcb_step sample_calls sample_block) (replicate 300 0) (fresh_storage 1000) of
     (r, buf, dev) \<Rightarrow> cp_status r = Cp_ok \<and>
       brcb_log (snd (snd (restore_checkpoint (fake_backend 1000) 500 dev sample_block (replicate 300 0)))) =
         brcb_log (fold brcb_step sample_calls sample_block)"
proof -
  obtain s where s: "retained_slots (fold brcb_step sample_calls sample_block) = [s]" "sl_bytes s \<le> 100" "storable s"
    "br_count (fold brcb_step sample_calls sample_block) = 1"
    "br_definition (fold brcb_step sample_calls sample_block) = br_definition sample_block" using sample_retained .
  define b where "b = fold brcb_step sample_calls sample_block"
  note s = s [folded b_def]
  let ?bk = "fake_backend 1000" and ?d = "fresh_storage 1000" and ?buf = "replicate 300 (0 :: u8)"
  have len: "length (state_image b) \<le> 172" using s by (simp add: state_image_def)
  have sizes: "\<forall>s \<in> set (retained_slots b). sl_bytes s \<le> 0xFFFFFFFF" "br_count b \<le> 0xFFFFFFFF" "length (state_image b) < 2 ^ 64"
    using s len by simp_all
  have room: "br_definition sample_block = br_definition b" "br_count b \<le> length (br_slots sample_block)"
    "fits (br_slots sample_block) 0 (retained_slots b)" "length (state_image b) \<le> length ?buf"
    using s len by (simp_all add: sample_block_def Let_def)
  have opts: "length (bd_optional_fields (br_definition sample_block)) = 2" by (simp add: sample_block_def Let_def)
  have dev: "store_valid ?bk 500" "length (fs_bytes ?d) = 1000 \<and> \<not> fs_fail_reads ?d"
    by (simp_all add: store_valid_def fake_backend_def fresh_storage_def)
  obtain r buf' d' where cp: "checkpoint ?bk 500 b ?buf ?d = (r, buf', d')" by (metis surj_pair)
  have inv: "brcb_inv b"
    using recoverable.run_inv [OF sample_run brcb_initialize_recoverable [OF sample_initialize opts]] b_def by simp
  have "state_encode b ?buf = ((State_ok, length (state_image b), length (state_image b)), state_image b @ drop (length (state_image b)) ?buf)"
    using state_encode_image [OF inv _ sizes(2,3), of ?buf] s room(4) by simp
  from fresh_checkpoint [OF dev(1) _ this] have "cp_status r = Cp_ok" using len cp by simp
  moreover note brcb_checkpoint_crash_safe [OF flash.checkpoint_storage_axioms dev(2,1) sample_initialize opts sample_run b_def sizes
      sample_block_inv room cp]
  ultimately show ?thesis unfolding b_def [symmetric] cp by (simp add: Let_def)
qed

end
