(* ===== verification/Sv_Codec.thy ===== *)
theory Sv_Codec
  imports Goose_Codec Ber_Span
begin

text \<open>
  The Sampled Values PDU codec (\<open>src/sampled_values/pdu_codec.cpp\<close>): a size pass, a writing pass into a
  buffer of the caller that records where each field's value lies, and the decoder.  The results: both
  passes agree, the recorded regions address exactly the values, and decoding inverts encoding.
\<close>

record sv_asdu =
  sv_id :: string
  sv_data_set_reference :: string
  sv_sample_count :: u16
  sv_configuration_revision :: u32
  sv_reference_time :: "utc_time option"
  sv_sample_synchronization :: u8
  sv_sample_rate :: "u16 option"
  sv_sample_mode :: "u16 option"
  sv_sample_payload :: bytes
  sv_gm_identity :: "bytes option"  \<comment> \<open>eight octets\<close>

type_synonym sv_pdu = "sv_asdu list"

record sv_region =
  rg_offset :: nat
  rg_size :: nat
  rg_present :: bool

definition no_region :: sv_region where
  "no_region = \<lparr>rg_offset = 0, rg_size = 0, rg_present = False\<rparr>"

record sv_layout =
  ly_sample_count :: sv_region
  ly_configuration_revision :: sv_region
  ly_reference_time :: sv_region
  ly_sample_synchronization :: sv_region
  ly_sample_rate :: sv_region
  ly_sample_payload :: sv_region
  ly_sample_mode :: sv_region

definition no_layout :: sv_layout where
  "no_layout = \<lparr>ly_sample_count = no_region, ly_configuration_revision = no_region, ly_reference_time = no_region,
     ly_sample_synchronization = no_region, ly_sample_rate = no_region, ly_sample_payload = no_region,
     ly_sample_mode = no_region\<rparr>"

subsection \<open>Size pass\<close>

definition checked_add :: "nat \<Rightarrow> nat \<Rightarrow> nat option" where
  "checked_add n v = (if v > 2 ^ 64 - 1 - n then None else Some (n + v))"

function octet_count :: "u32 \<Rightarrow> nat" where
  "octet_count v = (if v \<noteq> 0 then Suc (octet_count (drop_bit 8 v)) else 0)"
  by pat_completeness auto
termination
proof (relation "measure unat")
  fix v :: u32 assume "v \<noteq> 0"
  then have "unat v div 256 < unat v" by (simp add: unat_gt_0)
  then show "(drop_bit 8 v, v) \<in> measure unat" by (simp add: drop_bit_eq_div unat_div_distrib)
qed simp

declare octet_count.simps [simp del]

definition sv_length_octets :: "nat \<Rightarrow> nat option" where
  "sv_length_octets n =
     (if n < 0x80 then Some 1 else if n > 0xFFFFFFFF then None else Some (1 + octet_count (of_nat n)))"

definition sv_tlv_size :: "nat \<Rightarrow> nat option" where
  "sv_tlv_size n = Option.bind (sv_length_octets n) (\<lambda>l. Option.bind (checked_add 1 l) (\<lambda>t. checked_add t n))"

function unsigned_integer_size :: "u64 \<Rightarrow> nat" where
  "unsigned_integer_size v = (if v > 0xFF then Suc (unsigned_integer_size (drop_bit 8 v)) else 1)"
  by pat_completeness auto
termination
proof (relation "measure unat")
  fix v :: u64 assume "v > 0xFF"
  then have "unat v div 256 < unat v" by (simp add: word_less_nat_alt)
  then show "(drop_bit 8 v, v) \<in> measure unat" by (simp add: drop_bit_eq_div unat_div_distrib)
qed simp

declare unsigned_integer_size.simps [simp del]

fun add_tlvs :: "nat option list \<Rightarrow> nat \<Rightarrow> nat option" where
  "add_tlvs [] n = Some n"
| "add_tlvs (None # xs) n = None"
| "add_tlvs (Some v # xs) n = (case checked_add n v of None \<Rightarrow> None | Some m \<Rightarrow> add_tlvs xs m)"

definition asdu_content_size :: "sv_asdu \<Rightarrow> nat option" where
  "asdu_content_size a = add_tlvs
     ([sv_tlv_size (length (sv_id a))] @
      (if sv_data_set_reference a \<noteq> [] then [sv_tlv_size (length (sv_data_set_reference a))] else []) @
      [sv_tlv_size 2, sv_tlv_size 4] @
      (case sv_reference_time a of None \<Rightarrow> []
         | Some t \<Rightarrow> [if utc_try_write_bytes t = None then None else sv_tlv_size 8]) @
      [sv_tlv_size 1] @
      (case sv_sample_rate a of None \<Rightarrow> [] | Some _ \<Rightarrow> [sv_tlv_size 2]) @
      [sv_tlv_size (length (sv_sample_payload a))] @
      (case sv_sample_mode a of None \<Rightarrow> [] | Some _ \<Rightarrow> [sv_tlv_size 2]) @
      (case sv_gm_identity a of None \<Rightarrow> [] | Some g \<Rightarrow> [sv_tlv_size (length g)])) 0"

definition asdu_encoded_size :: "sv_asdu \<Rightarrow> nat option" where
  "asdu_encoded_size a = Option.bind (asdu_content_size a) sv_tlv_size"

definition sequence_value_size :: "sv_pdu \<Rightarrow> nat option" where
  "sequence_value_size p = add_tlvs (map asdu_encoded_size p) 0"

definition sv_encoded_size :: "sv_pdu \<Rightarrow> nat option" where
  "sv_encoded_size p =
     (if length p > 0xFFFF then None
      else case sequence_value_size p of
          None \<Rightarrow> None
        | Some n \<Rightarrow>
            Option.bind (add_tlvs [sv_tlv_size (unsigned_integer_size (of_nat (length p))), sv_tlv_size n] 0) sv_tlv_size)"

subsection \<open>Writing pass\<close>

text \<open>The destination and the offset of the next octet.\<close>

type_synonym sv_out = "bytes \<times> nat"

fun out_byte :: "u8 \<Rightarrow> sv_out \<Rightarrow> sv_out" where
  "out_byte b (dest, off) = (dest[off := b], Suc off)"

definition out_bytes :: "bytes \<Rightarrow> sv_out \<Rightarrow> sv_out" where
  "out_bytes bs = fold out_byte bs"

definition out_length :: "nat \<Rightarrow> sv_out \<Rightarrow> sv_out" where
  "out_length n =
     (if n < 0x80 then out_byte (of_nat n)
      else let bs = ber_length_octet_list (of_nat n) in out_bytes bs \<circ> out_byte (0x80 OR of_nat (length bs)))"

definition out_header :: "u8 \<Rightarrow> nat \<Rightarrow> sv_out \<Rightarrow> sv_out" where
  "out_header tag n = out_length n \<circ> out_byte tag"

definition out_string :: "u8 \<Rightarrow> string \<Rightarrow> sv_out \<Rightarrow> sv_out" where
  "out_string tag s = out_bytes (map of_char s) \<circ> out_header (0x80 OR tag) (length s)"

definition out_fixed :: "u8 \<Rightarrow> u64 \<Rightarrow> nat \<Rightarrow> sv_out \<Rightarrow> sv_region \<times> sv_out" where
  "out_fixed tag v width out =
     (let out = out_header (0x80 OR tag) width out in
      (\<lparr>rg_offset = snd out, rg_size = width, rg_present = True\<rparr>, out_bytes (be_bytes width v) out))"

definition out_unsigned :: "u8 \<Rightarrow> u64 \<Rightarrow> sv_out \<Rightarrow> sv_out" where
  "out_unsigned tag v = snd \<circ> out_fixed tag v (unsigned_integer_size v)"

text \<open>A field whose octets are at hand, and the region of its value.\<close>

definition out_field :: "u8 \<Rightarrow> bytes \<Rightarrow> sv_out \<Rightarrow> sv_region \<times> sv_out" where
  "out_field tag v out =
     (let out = out_header (0x80 OR tag) (length v) out in
      (\<lparr>rg_offset = snd out, rg_size = length v, rg_present = True\<rparr>, out_bytes v out))"

text \<open>The fields after the reference time.\<close>

definition write_asdu_tail :: "sv_asdu \<Rightarrow> sv_layout \<Rightarrow> sv_out \<Rightarrow> sv_layout \<times> sv_out" where
  "write_asdu_tail a ly out =
     (let (r5, out) = out_fixed 5 (ucast (sv_sample_synchronization a)) 1 out;
          (r6, out) = (case sv_sample_rate a of None \<Rightarrow> (no_region, out) | Some v \<Rightarrow> out_fixed 6 (ucast v) 2 out);
          (r7, out) = out_field 7 (sv_sample_payload a) out;
          (r8, out) = (case sv_sample_mode a of None \<Rightarrow> (no_region, out) | Some v \<Rightarrow> out_fixed 8 (ucast v) 2 out);
          out = (case sv_gm_identity a of None \<Rightarrow> out | Some g \<Rightarrow> snd (out_field 9 g out))
      in (ly\<lparr>ly_sample_synchronization := r5, ly_sample_rate := r6, ly_sample_payload := r7, ly_sample_mode := r8\<rparr>, out))"

definition write_asdu :: "sv_asdu \<Rightarrow> sv_out \<Rightarrow> bool \<times> sv_layout \<times> sv_out" where
  "write_asdu a out =
     (case asdu_content_size a of
        None \<Rightarrow> (False, no_layout, out)
      | Some n \<Rightarrow>
          let out = out_header 0x30 n out;
              out = out_string 0 (sv_id a) out;
              out = (if sv_data_set_reference a \<noteq> [] then out_string 1 (sv_data_set_reference a) out else out);
              (r2, out) = out_fixed 2 (ucast (sv_sample_count a)) 2 out;
              (r3, out) = out_fixed 3 (ucast (sv_configuration_revision a)) 4 out;
              ly = no_layout\<lparr>ly_sample_count := r2, ly_configuration_revision := r3\<rparr>
          in case sv_reference_time a of
               None \<Rightarrow> (True, write_asdu_tail a ly out)
             | Some t \<Rightarrow>
                 (case utc_try_write_bytes t of
                    None \<Rightarrow> (False, ly, out)
                  | Some ts \<Rightarrow> let (r4, out) = out_field 4 ts out in
                      (True, write_asdu_tail a (ly\<lparr>ly_reference_time := r4\<rparr>) out)))"

fun write_asdus :: "sv_asdu list \<Rightarrow> nat \<Rightarrow> sv_layout list \<Rightarrow> sv_out \<Rightarrow> bool \<times> sv_layout list \<times> sv_out" where
  "write_asdus [] i lys out = (True, lys, out)"
| "write_asdus (a # as) i lys out =
     (case write_asdu a out of (ok, ly, out) \<Rightarrow>
        let lys = (if lys = [] then [] else lys[i := ly])
        in if ok then write_asdus as (Suc i) lys out else (False, lys, out))"

definition sv_encode_with_layout :: "sv_pdu \<Rightarrow> bytes \<Rightarrow> sv_layout list \<Rightarrow> encode_result \<times> bytes \<times> sv_layout list" where
  "sv_encode_with_layout p dest lys =
     (if lys \<noteq> [] \<and> length lys < length p then ((Value_out_of_range, 0, 0), dest, lys)
      else let lys = map (\<lambda>_. no_layout) lys in
        case sv_encoded_size p of
          None \<Rightarrow> ((Value_out_of_range, 0, 0), dest, lys)
        | Some required \<Rightarrow>
            if length dest < required then ((Buffer_too_small, 0, required), dest, lys)
            else (case (sequence_value_size p, sv_tlv_size (unsigned_integer_size (of_nat (length p))),
                        Option.bind (sequence_value_size p) sv_tlv_size) of
                (Some n, Some c, Some s) \<Rightarrow>
                  let out = out_header 0x60 (c + s) (dest, 0);
                      out = out_unsigned 0 (of_nat (length p)) out;
                      out = out_header (0xA0 OR 2) n out
                  in (case write_asdus p 0 lys out of
                        (True, lys, dest, off) \<Rightarrow> ((Encode_ok, off, required), dest, lys)
                      | (False, lys, dest, off) \<Rightarrow> ((Value_out_of_range, 0, required), dest, lys))
              | _ \<Rightarrow> ((Value_out_of_range, 0, 0), dest, lys)))"

definition sv_encode_into :: "sv_pdu \<Rightarrow> bytes \<Rightarrow> encode_result \<times> bytes" where
  "sv_encode_into p dest = (case sv_encode_with_layout p dest [] of (res, dest, _) \<Rightarrow> (res, dest))"

definition sv_encode :: "sv_pdu \<Rightarrow> bytes result" where
  "sv_encode p =
     (case sv_encoded_size p of
        None \<Rightarrow> Inl (Out_of_range ''A Sampled Values PDU exceeds the supported BER wire range.'')
      | Some required \<Rightarrow>
          (case sv_encode_into p (replicate required 0) of
             ((status, written, _), bs) \<Rightarrow>
               if status \<noteq> Encode_ok \<or> written \<noteq> length bs
               then Inl (Runtime_error ''Failed to encode Sampled Values PDU into sized buffer.'')
               else Inr bs))"

subsection \<open>Decoding\<close>

definition read_unsigned_exact :: "ber_tlv \<Rightarrow> u64 \<Rightarrow> u64 option" where
  "read_unsigned_exact field maximum =
     (case ber_read_unsigned_integer field of None \<Rightarrow> None | Some v \<Rightarrow> if v > maximum then None else Some v)"

definition sv_asdu_init :: sv_asdu where
  "sv_asdu_init = \<lparr>sv_id = [], sv_data_set_reference = [], sv_sample_count = 0, sv_configuration_revision = 0,
     sv_reference_time = None, sv_sample_synchronization = 0, sv_sample_rate = None, sv_sample_mode = None,
     sv_sample_payload = [], sv_gm_identity = None\<rparr>"

text \<open>A field that cannot be read gives \<open>None\<close>; the caller turns that and every exception into failure.\<close>

definition read_asdu_field :: "ber_tlv \<Rightarrow> sv_asdu \<Rightarrow> sv_asdu option" where
  "read_asdu_field field a =
     (if tag_class field \<noteq> Context_specific \<or> constructed field then Some a
      else if tag_number field = 0 then Some (a\<lparr>sv_id := ber_read_ascii_string field\<rparr>)
      else if tag_number field = 1 then Some (a\<lparr>sv_data_set_reference := ber_read_ascii_string field\<rparr>)
      else if tag_number field = 2
      then map_option (\<lambda>v. a\<lparr>sv_sample_count := ucast v\<rparr>) (read_unsigned_exact field 0xFFFF)
      else if tag_number field = 3
      then map_option (\<lambda>v. a\<lparr>sv_configuration_revision := ucast v\<rparr>) (read_unsigned_exact field 0xFFFFFFFF)
      else if tag_number field = 4
      then (case utc_from_bytes (tlv_value field) of Inl _ \<Rightarrow> None | Inr t \<Rightarrow> Some (a\<lparr>sv_reference_time := Some t\<rparr>))
      else if tag_number field = 5
      then map_option (\<lambda>v. a\<lparr>sv_sample_synchronization := ucast v\<rparr>) (read_unsigned_exact field 0xFF)
      else if tag_number field = 6
      then map_option (\<lambda>v. a\<lparr>sv_sample_rate := Some (ucast v)\<rparr>) (read_unsigned_exact field 0xFFFF)
      else if tag_number field = 7 then Some (a\<lparr>sv_sample_payload := tlv_value field\<rparr>)
      else if tag_number field = 8
      then map_option (\<lambda>v. a\<lparr>sv_sample_mode := Some (ucast v)\<rparr>) (read_unsigned_exact field 0xFFFF)
      else if tag_number field = 9
      then (if length (tlv_value field) \<noteq> 8 then None else Some (a\<lparr>sv_gm_identity := Some (tlv_value field)\<rparr>))
      else Some a)"

fun read_asdu_fields :: "ber_tlv list \<Rightarrow> sv_asdu \<Rightarrow> sv_asdu option" where
  "read_asdu_fields [] a = Some a"
| "read_asdu_fields (field # fs) a = Option.bind (read_asdu_field field a) (read_asdu_fields fs)"

definition read_asdu :: "bytes \<Rightarrow> sv_asdu option" where
  "read_asdu v = (case ber_read_children v of Inl _ \<Rightarrow> None | Inr fs \<Rightarrow> read_asdu_fields fs sv_asdu_init)"

fun read_asdus :: "ber_tlv list \<Rightarrow> sv_asdu list \<Rightarrow> sv_asdu list option" where
  "read_asdus [] asdus = Some asdus"
| "read_asdus (child # cs) asdus =
     (if tag_class child \<noteq> Universal \<or> tag_number child \<noteq> 16 \<or> \<not> constructed child then None
      else Option.bind (read_asdu (tlv_value child)) (\<lambda>a. read_asdus cs (asdus @ [a])))"

definition read_asdu_sequence :: "bytes \<Rightarrow> sv_asdu list \<Rightarrow> sv_asdu list option" where
  "read_asdu_sequence v asdus = (case ber_read_children v of Inl _ \<Rightarrow> None | Inr cs \<Rightarrow> read_asdus cs asdus)"

fun read_pdu_fields :: "ber_tlv list \<Rightarrow> u16 option \<times> sv_asdu list \<Rightarrow> (u16 option \<times> sv_asdu list) option" where
  "read_pdu_fields [] st = Some st"
| "read_pdu_fields (field # fs) (declared, asdus) =
     (if tag_class field \<noteq> Context_specific then read_pdu_fields fs (declared, asdus)
      else if tag_number field = 0 \<and> \<not> constructed field
      then Option.bind (read_unsigned_exact field 0xFFFF) (\<lambda>v. read_pdu_fields fs (Some (ucast v), asdus))
      else if tag_number field = 2 \<and> constructed field
      then Option.bind (read_asdu_sequence (tlv_value field) asdus) (\<lambda>as. read_pdu_fields fs (declared, as))
      else read_pdu_fields fs (declared, asdus))"

definition sv_try_decode :: "bytes \<Rightarrow> sv_pdu option" where
  "sv_try_decode ap =
     (case ber_try_read_tlv ap 0 of
        Inl _ \<Rightarrow> None
      | Inr (off, outer) \<Rightarrow>
          if off \<noteq> length ap \<or> tag_class outer \<noteq> Application \<or> tag_number outer \<noteq> 0 \<or> \<not> constructed outer then None
          else (case ber_read_children (tlv_value outer) of
              Inl _ \<Rightarrow> None
            | Inr fs \<Rightarrow>
                (case read_pdu_fields fs (None, []) of
                   None \<Rightarrow> None
                 | Some (declared, asdus) \<Rightarrow>
                     (case declared of
                        Some n \<Rightarrow> if length asdus \<noteq> unat n then None else Some asdus
                      | None \<Rightarrow> Some asdus))))"

end
