(* ===== verification/Sv_Wire.thy ===== *)
theory Sv_Wire
  imports Sv_Codec
begin

text \<open>
  What the Sampled Values encoder puts on the wire: the two passes agree, the octets are the BER encoding
  of the fields, the recorded regions address the values, and the decoder inverts the encoder.
\<close>

subsection \<open>Headers\<close>

definition len_octets :: "nat \<Rightarrow> bytes" where
  "len_octets n = (if n < 0x80 then [of_nat n]
     else let bs = ber_length_octet_list (of_nat n) in (0x80 OR of_nat (length bs)) # bs)"

definition fld :: "u8 \<times> bytes \<Rightarrow> bytes" where
  "fld = (\<lambda>(t, v). (0x80 OR t) # len_octets (length v) @ v)"

lemma ber_write_len_octets: "n \<le> 0xFFFFFFFF \<Longrightarrow> ber_write_length n = Inr (len_octets n)"
proof -
  assume n: "n \<le> 0xFFFFFFFF"
  have "(of_nat n :: u32) \<noteq> 0" if "\<not> n < 0x80"
    using that n by (simp add: word_unat_eq_iff unat_of_nat)
  with n show ?thesis
    by (auto simp: ber_write_length_def len_octets_def ber_length_octet_list_eq Let_def)
qed

lemma octet_count_length: "octet_count v = length (ber_length_octet_list v)"
  by (induction v rule: octet_count.induct)
    (subst octet_count.simps, subst ber_length_octet_list.simps, simp)

lemma length_len_octets: "length (len_octets n) \<le> 5"
proof (cases "n < 0x80")
  case False
  have "length (ber_length_octet_list v) \<le> 4" for v
    using ber_length_octet_list_eq [of v] ber_strip_zeros_length [of "be_bytes 4 v"]
    by (cases "v = 0") (simp_all add: ber_length_octet_list.simps [of 0])
  with False show ?thesis by (simp add: len_octets_def Let_def)
qed (simp add: len_octets_def)

lemma sv_tlv_size_eq:
  "sv_tlv_size n = (if n \<le> 0xFFFFFFFF then Some (1 + length (len_octets n) + n) else None)"
proof (cases "n \<le> 0xFFFFFFFF")
  case True
  then have "sv_length_octets n = Some (length (len_octets n))"
    by (simp add: sv_length_octets_def len_octets_def octet_count_length Let_def)
  then show ?thesis
    using True length_len_octets [of n] by (simp add: sv_tlv_size_def checked_add_def)
qed (simp add: sv_tlv_size_def sv_length_octets_def)

lemma length_fld: "length (fld (t, v)) = 1 + length (len_octets (length v)) + length v"
  by (simp add: fld_def)

lemma context_octet:
  assumes "t \<le> 30"
  shows "ber_identifier_octet Context_specific False (word_of_int (uint (t :: u8))) = 0x80 OR t"
proof -
  have t: "word_of_int (uint t) = (ucast t :: u32)" by (rule bit_word_eqI) (simp add: bit_simps bit_uint_iff)
  show ?thesis
    unfolding t by (rule bit_word_eqI) (simp add: ber_identifier_octet_def bit_simps)
qed

lemma ber_encode_fld:
  assumes "t \<le> 30" "length v \<le> 0xFFFFFFFF"
  shows "ber_encode_tlv Context_specific False (uint t) v = Inr (fld (t, v))"
  using assms ber_write_len_octets [of "length v"] context_octet [of t]
  by (simp add: ber_encode_tlv_def ber_write_identifier_def ber_encode_identifier_def fld_def word_le_def)

subsection \<open>The writer\<close>

lemma out_bytes_put:
  "off + length bs \<le> length dest \<Longrightarrow> out_bytes bs (dest, off) = (put_at off bs dest, off + length bs)"
proof (induction bs arbitrary: dest off)
  case Nil
  then show ?case by (simp add: out_bytes_def)
next
  case (Cons b bs)
  then have upd: "dest[off := b] = put_at off [b] dest"
    by (simp add: put_at_def upd_conv_take_nth_drop)
  have "out_bytes (b # bs) (dest, off) = out_bytes bs (dest[off := b], Suc off)" by (simp add: out_bytes_def)
  also have "\<dots> = (put_at (Suc off) bs (put_at off [b] dest), Suc off + length bs)"
    unfolding upd [symmetric] using Cons.prems by (intro Cons.IH) simp
  also have "put_at (Suc off) bs (put_at off [b] dest) = put_at off (b # bs) dest"
    by (subst put_at_append) (use Cons.prems in \<open>simp_all\<close>)
  finally show ?case by simp
qed

lemma out_bytes_append: "out_bytes (xs @ ys) out = out_bytes ys (out_bytes xs out)"
  by (simp add: out_bytes_def)

lemma out_header_bytes: "out_header tag n = out_bytes (tag # len_octets n)"
  by (auto simp: out_header_def out_length_def len_octets_def out_bytes_def Let_def)

lemma out_field_bytes: "snd (out_field t v out) = out_bytes (fld (t, v)) out"
  by (simp add: out_field_def out_header_bytes fld_def out_bytes_def Let_def)

lemma out_fixed_field: "out_fixed t v w = out_field t (be_bytes w v)"
  by (auto simp: out_fixed_def out_field_def)

lemma out_string_field: "out_string t s = (\<lambda>out. snd (out_field t (map of_char s) out))"
  by (auto simp: out_string_def out_field_def Let_def)

lemma snd_out_bytes [simp]: "snd (out_bytes bs out) = snd out + length bs"
proof -
  have "snd (fold out_byte bs out) = snd out + length bs"
  proof (induction bs arbitrary: out)
    case (Cons b bs)
    show ?case using Cons.IH [of "out_byte b out"] by (cases out) simp
  qed simp
  then show ?thesis by (simp add: out_bytes_def)
qed

lemma out_field_region:
  "fst (out_field t v out) = \<lparr>rg_offset = snd out + (length (fld (t, v)) - length v), rg_size = length v, rg_present = True\<rparr>"
  by (simp add: out_field_def out_header_bytes length_fld Let_def)

lemma out_field_eq:
  "out_field t v out = (\<lparr>rg_offset = snd out + (length (fld (t, v)) - length v), rg_size = length v, rg_present = True\<rparr>,
     out_bytes (fld (t, v)) out)"
  using out_field_region [of t v out] out_field_bytes [of t v out] by (metis prod.collapse)

subsection \<open>One ASDU\<close>

text \<open>The fields of an ASDU with their tags, in the order of the standard, and where the encoder finds
  the value of a tag.\<close>

definition asdu_fields :: "sv_asdu \<Rightarrow> (u8 \<times> bytes) list" where
  "asdu_fields a =
     [(0, map of_char (sv_id a))] @
     (if sv_data_set_reference a \<noteq> [] then [(1, map of_char (sv_data_set_reference a))] else []) @
     [(2, be_bytes 2 (ucast (sv_sample_count a) :: u64)), (3, be_bytes 4 (ucast (sv_configuration_revision a) :: u64))] @
     (case sv_reference_time a of None \<Rightarrow> [] | Some t \<Rightarrow> [(4, the (utc_try_write_bytes t))]) @
     [(5, be_bytes 1 (ucast (sv_sample_synchronization a) :: u64))] @
     (case sv_sample_rate a of None \<Rightarrow> [] | Some v \<Rightarrow> [(6, be_bytes 2 (ucast v :: u64))]) @
     [(7, sv_sample_payload a)] @
     (case sv_sample_mode a of None \<Rightarrow> [] | Some v \<Rightarrow> [(8, be_bytes 2 (ucast v :: u64))]) @
     (case sv_gm_identity a of None \<Rightarrow> [] | Some g \<Rightarrow> [(9, g)])"

fun field_region :: "nat \<Rightarrow> (u8 \<times> bytes) list \<Rightarrow> u8 \<Rightarrow> sv_region" where
  "field_region off [] t = no_region"
| "field_region off ((t', v) # fs) t =
     (if t' = t then \<lparr>rg_offset = off + (length (fld (t', v)) - length v), rg_size = length v, rg_present = True\<rparr>
      else field_region (off + length (fld (t', v))) fs t)"

definition fields_octets :: "(u8 \<times> bytes) list \<Rightarrow> bytes" where
  "fields_octets fs = concat (map fld fs)"

lemma fields_octets_simps [simp]:
  "fields_octets [] = []" "fields_octets (f # fs) = fld f @ fields_octets fs"
  "fields_octets (fs @ gs) = fields_octets fs @ fields_octets gs"
  by (simp_all add: fields_octets_def)

definition asdu_octets :: "sv_asdu \<Rightarrow> bytes" where
  "asdu_octets a = 0x30 # len_octets (length (fields_octets (asdu_fields a))) @ fields_octets (asdu_fields a)"

definition asdu_layout :: "sv_asdu \<Rightarrow> nat \<Rightarrow> sv_layout" where
  "asdu_layout a off =
     (let r = field_region (off + (length (asdu_octets a) - length (fields_octets (asdu_fields a)))) (asdu_fields a) in
      \<lparr>ly_sample_count = r 2, ly_configuration_revision = r 3, ly_reference_time = r 4, ly_sample_synchronization = r 5,
       ly_sample_rate = r 6, ly_sample_payload = r 7, ly_sample_mode = r 8\<rparr>)"

text \<open>A region reads as a value when it has the value's extent and the value's octets lie there.\<close>

definition region_reads :: "bytes \<Rightarrow> sv_region \<Rightarrow> bytes option \<Rightarrow> bool" where
  "region_reads bs r v = (case v of None \<Rightarrow> r = no_region
     | Some x \<Rightarrow> rg_present r \<and> rg_size r = length x \<and> take (rg_size r) (drop (rg_offset r) bs) = x)"

lemma field_region_reads:
  "region_reads (pre @ fields_octets fs @ post) (field_region (length pre) fs t) (map_of fs t)"
proof (induction fs arbitrary: pre)
  case Nil
  then show ?case by (simp add: region_reads_def)
next
  case (Cons f fs)
  obtain t' v where f: "f = (t', v)" by fastforce
  show ?case
  proof (cases "t' = t")
    case True
    have "length pre + (length (fld f) - length v) = length (pre @ take (length (fld f) - length v) (fld f))"
      by (simp add: f length_fld)
    moreover have "pre @ fields_octets (f # fs) @ post =
        (pre @ take (length (fld f) - length v) (fld f)) @ v @ fields_octets fs @ post"
      by (simp add: f fld_def)
    ultimately show ?thesis using True
      by (simp only: region_reads_def f field_region.simps map_of.simps fun_upd_same option.case fst_conv snd_conv
          if_True sv_region.simps append_eq_conv_conj drop_append take_append) simp
  next
    case False
    then show ?thesis using Cons.IH [of "pre @ fld f"] by (simp add: f)
  qed
qed

lemma add_tlvs_Some:
  "add_tlvs xs n = Some m \<Longrightarrow> None \<notin> set xs \<and> m = n + sum_list (map the xs)"
  by (induction xs n rule: add_tlvs.induct) (auto simp: checked_add_def split: if_splits option.splits)

lemma utc_try_write_length: "utc_try_write_bytes t = Some ts \<Longrightarrow> length ts = 8"
  using length_utc_to_bytes [of t ts] by (simp add: utc_to_bytes_def)

lemma asdu_sizes_fields:
  assumes "\<forall>t. sv_reference_time a = Some t \<longrightarrow> utc_try_write_bytes t \<noteq> None"
  shows "asdu_content_size a = add_tlvs (map (\<lambda>(t, v). sv_tlv_size (length v)) (asdu_fields a)) 0"
proof -
  have "(case sv_reference_time a of None \<Rightarrow> []
         | Some t \<Rightarrow> [if utc_try_write_bytes t = None then None else sv_tlv_size 8]) =
      map (\<lambda>(t, v). sv_tlv_size (length v)) (case sv_reference_time a of None \<Rightarrow> [] | Some t \<Rightarrow> [(4 :: u8, the (utc_try_write_bytes t))])"
    using assms by (auto simp: utc_try_write_length split: option.split)
  then show ?thesis
    by (auto simp: asdu_content_size_def asdu_fields_def split: option.split)
qed

lemma asdu_content_size_Some:
  assumes "asdu_content_size a = Some n"
  shows "\<forall>t. sv_reference_time a = Some t \<longrightarrow> utc_try_write_bytes t \<noteq> None"
    "\<forall>(t, v) \<in> set (asdu_fields a). length v \<le> 0xFFFFFFFF" "n = length (fields_octets (asdu_fields a))"
proof -
  show time: "\<forall>t. sv_reference_time a = Some t \<longrightarrow> utc_try_write_bytes t \<noteq> None"
  proof (intro allI impI notI)
    fix t assume "sv_reference_time a = Some t" "utc_try_write_bytes t = None"
    with conjunct1 [OF add_tlvs_Some [OF assms [unfolded asdu_content_size_def]]] show False by simp
  qed
  note sum = add_tlvs_Some [OF assms [unfolded asdu_sizes_fields [OF time]]]
  then show small: "\<forall>(t, v) \<in> set (asdu_fields a). length v \<le> 0xFFFFFFFF"
    by (force simp: sv_tlv_size_eq split: if_splits)
  then have "map (\<lambda>(t, v). the (sv_tlv_size (length v))) (asdu_fields a) = map (\<lambda>f. length (fld f)) (asdu_fields a)"
    by (auto simp: sv_tlv_size_eq length_fld)
  with sum show "n = length (fields_octets (asdu_fields a))"
    by (simp add: fields_octets_def length_concat comp_def case_prod_unfold cong: map_cong)
qed

lemma write_asdu_eq:
  assumes "asdu_content_size a = Some n"
  shows "write_asdu a out = (True, asdu_layout a (snd out), out_bytes (asdu_octets a) out)"
proof -
  note size = asdu_content_size_Some [OF assms]
  have off: "length (asdu_octets a) - length (fields_octets (asdu_fields a)) =
      1 + length (len_octets (length (fields_octets (asdu_fields a))))"
    by (simp add: asdu_octets_def)
  show ?thesis
  proof (cases "sv_reference_time a")
    case None
    then show ?thesis
      unfolding write_asdu_def write_asdu_tail_def asdu_layout_def off assms size(3)
      by (simp add: out_fixed_field out_string_field out_field_eq out_header_bytes Let_def asdu_octets_def asdu_fields_def
          no_layout_def out_bytes_append [symmetric] split: option.split)
  next
    case (Some t)
    then obtain ts where "utc_try_write_bytes t = Some ts" using size(1) by blast
    with Some show ?thesis
      unfolding write_asdu_def write_asdu_tail_def asdu_layout_def off assms size(3)
      by (simp add: out_fixed_field out_string_field out_field_eq out_header_bytes Let_def asdu_octets_def asdu_fields_def
          no_layout_def out_bytes_append [symmetric] split: option.split)
  qed
qed

subsection \<open>The whole PDU\<close>

definition asdus_octets :: "sv_pdu \<Rightarrow> bytes" where
  "asdus_octets p = concat (map asdu_octets p)"

definition count_field :: "sv_pdu \<Rightarrow> u8 \<times> bytes" where
  "count_field p = (let v = of_nat (length p) :: u64 in (0, be_bytes (unsigned_integer_size v) v))"

definition pdu_content :: "sv_pdu \<Rightarrow> bytes" where
  "pdu_content p = fld (count_field p) @ 0xA2 # len_octets (length (asdus_octets p)) @ asdus_octets p"

definition sv_octets :: "sv_pdu \<Rightarrow> bytes" where
  "sv_octets p = 0x60 # len_octets (length (pdu_content p)) @ pdu_content p"

fun asdu_layouts :: "nat \<Rightarrow> sv_pdu \<Rightarrow> sv_layout list" where
  "asdu_layouts off [] = []"
| "asdu_layouts off (a # as) = asdu_layout a off # asdu_layouts (off + length (asdu_octets a)) as"

lemma length_asdu_layouts [simp]: "length (asdu_layouts off p) = length p"
  by (induction p arbitrary: off) auto

lemma write_asdus_eq:
  assumes "\<forall>a \<in> set p. asdu_content_size a \<noteq> None" "lys = [] \<or> i + length p \<le> length lys"
  shows "write_asdus p i lys out =
    (True, if lys = [] then [] else take i lys @ asdu_layouts (snd out) p @ drop (i + length p) lys,
     out_bytes (asdus_octets p) out)"
  using assms
proof (induction p arbitrary: i lys out)
  case Nil
  then show ?case by (simp add: asdus_octets_def out_bytes_def)
next
  case (Cons a p)
  then obtain n where "asdu_content_size a = Some n" by auto
  note w = write_asdu_eq [OF this]
  have upd: "take (Suc i) (lys[i := ly]) = take i lys @ [ly]" "drop (Suc i + length p) (lys[i := ly]) = drop (Suc i + length p) lys"
    if "lys \<noteq> []" for ly
    using that Cons.prems(2) by (simp_all add: take_Suc_conv_app_nth)
  show ?case
    using Cons.prems Cons.IH [of "if lys = [] then [] else lys[i := asdu_layout a (snd out)]" "Suc i" "out_bytes (asdu_octets a) out"]
      upd by (auto simp: w Let_def asdus_octets_def out_bytes_append)
qed

lemma asdus_sizes:
  assumes "sequence_value_size p = Some n"
  shows "\<forall>a \<in> set p. asdu_content_size a \<noteq> None" "n = length (asdus_octets p)"
    "\<forall>a \<in> set p. length (fields_octets (asdu_fields a)) \<le> 0xFFFFFFFF"
proof -
  note sum = add_tlvs_Some [OF assms [unfolded sequence_value_size_def]]
  then show some: "\<forall>a \<in> set p. asdu_content_size a \<noteq> None"
    by (force simp: asdu_encoded_size_def)
  have size: "asdu_encoded_size a = Some (length (asdu_octets a)) \<and> length (fields_octets (asdu_fields a)) \<le> 0xFFFFFFFF"
    if a: "a \<in> set p" for a
  proof -
    obtain k where k: "asdu_content_size a = Some k" using some a by auto
    have "asdu_encoded_size a \<noteq> None" using sum a by (metis image_eqI list.set_map)
    then show ?thesis
      using asdu_content_size_Some(3) [OF k] k by (auto simp: asdu_encoded_size_def sv_tlv_size_eq asdu_octets_def split: if_splits)
  qed
  then show "\<forall>a \<in> set p. length (fields_octets (asdu_fields a)) \<le> 0xFFFFFFFF" by blast
  show "n = length (asdus_octets p)"
    using sum size by (simp add: asdus_octets_def length_concat comp_def cong: map_cong)
qed

lemma sv_encoded_size_Some:
  assumes "sv_encoded_size p = Some n"
  shows "length p \<le> 0xFFFF" "sequence_value_size p = Some (length (asdus_octets p))" "n = length (sv_octets p)"
    "length (asdus_octets p) \<le> 0xFFFFFFFF" "length (pdu_content p) \<le> 0xFFFFFFFF"
    "sv_tlv_size (length (snd (count_field p))) = Some (length (fld (count_field p)))"
proof -
  show "length p \<le> 0xFFFF" using assms by (auto simp: sv_encoded_size_def split: if_splits)
  obtain m where m: "sequence_value_size p = Some m"
    using assms by (auto simp: sv_encoded_size_def split: if_splits option.splits)
  then have "m = length (asdus_octets p)" by (rule asdus_sizes(2))
  with m show seq: "sequence_value_size p = Some (length (asdus_octets p))" by simp
  let ?c = "length (snd (count_field p))"
  obtain k where k: "add_tlvs [sv_tlv_size ?c, sv_tlv_size (length (asdus_octets p))] 0 = Some k" "sv_tlv_size k = Some n"
    using assms seq by (auto simp: sv_encoded_size_def count_field_def Let_def bind_eq_Some_conv split: if_splits)
  from add_tlvs_Some [OF k(1)] show small: "length (asdus_octets p) \<le> 0xFFFFFFFF"
    and c: "sv_tlv_size ?c = Some (length (fld (count_field p)))"
    by (auto simp: sv_tlv_size_eq length_fld count_field_def Let_def split: if_splits)
  with add_tlvs_Some [OF k(1)] have "k = length (pdu_content p)"
    by (simp add: sv_tlv_size_eq pdu_content_def)
  with k(2) show "n = length (sv_octets p)" "length (pdu_content p) \<le> 0xFFFFFFFF"
    by (auto simp: sv_tlv_size_eq sv_octets_def split: if_splits)
qed

lemma sv_encode_layout_eq:
  assumes size: "sv_encoded_size p = Some n" and lys: "lys = [] \<or> length p \<le> length lys" and room: "n \<le> length dest"
  shows "sv_encode_with_layout p dest lys = ((Encode_ok, n, n), sv_octets p @ drop n dest,
    if lys = [] then [] else asdu_layouts (length (sv_octets p) - length (asdus_octets p)) p @
      map (\<lambda>_. no_layout) (drop (length p) lys))"
proof -
  note s = sv_encoded_size_Some [OF size]
  have cnt: "length (snd (count_field p)) = unsigned_integer_size (of_nat (length p))" by (simp add: count_field_def Let_def)
  obtain sq where sq: "sv_tlv_size (length (asdus_octets p)) = Some sq"
      and content: "length (fld (count_field p)) + sq = length (pdu_content p)"
    using s(4) by (simp add: sv_tlv_size_eq pdu_content_def)
  have unsigned: "out_unsigned 0 (of_nat (length p)) out = out_bytes (fld (count_field p)) out" for out
    by (simp add: out_unsigned_def out_fixed_field out_field_bytes count_field_def Let_def)
  define hd where "hd = 0x60 # len_octets (length (pdu_content p)) @ fld (count_field p) @ 0xA2 # len_octets (length (asdus_octets p))"
  have octets: "sv_octets p = hd @ asdus_octets p" by (simp add: hd_def sv_octets_def pdu_content_def)
  have hd: "out_header 0xA2 (length (asdus_octets p)) (out_unsigned 0 (of_nat (length p)) (out_header 0x60 (length (pdu_content p)) (dest, 0))) =
      out_bytes hd (dest, 0)"
    by (simp add: unsigned out_header_bytes hd_def out_bytes_append [symmetric])
  have w: "write_asdus p 0 (map (\<lambda>_. no_layout) lys) (out_bytes hd (dest, 0)) =
      (True, if lys = [] then [] else asdu_layouts (length hd) p @ map (\<lambda>_. no_layout) (drop (length p) lys),
       sv_octets p @ drop n dest, n)"
    using write_asdus_eq [OF asdus_sizes(1) [OF s(2)], of "map (\<lambda>_. no_layout) lys" 0 "out_bytes hd (dest, 0)"] lys room s(3)
      out_bytes_put [of 0 "sv_octets p" dest]
    by (auto simp: octets out_bytes_append drop_map)
  show ?thesis
    using lys room hd w s(6) [unfolded cnt] octets
    by (auto simp: sv_encode_with_layout_def size s(2) sq content Let_def)
qed

subsection \<open>Reading back\<close>

definition layout_reads :: "bytes \<Rightarrow> sv_layout \<Rightarrow> sv_asdu \<Rightarrow> bool" where
  "layout_reads bs ly a \<longleftrightarrow>
     region_reads bs (ly_sample_count ly) (Some (be_bytes 2 (ucast (sv_sample_count a) :: u64))) \<and>
     region_reads bs (ly_configuration_revision ly) (Some (be_bytes 4 (ucast (sv_configuration_revision a) :: u64))) \<and>
     region_reads bs (ly_reference_time ly) (map_option (the \<circ> utc_try_write_bytes) (sv_reference_time a)) \<and>
     region_reads bs (ly_sample_synchronization ly) (Some (be_bytes 1 (ucast (sv_sample_synchronization a) :: u64))) \<and>
     region_reads bs (ly_sample_rate ly) (map_option (\<lambda>v. be_bytes 2 (ucast v :: u64)) (sv_sample_rate a)) \<and>
     region_reads bs (ly_sample_payload ly) (Some (sv_sample_payload a)) \<and>
     region_reads bs (ly_sample_mode ly) (map_option (\<lambda>v. be_bytes 2 (ucast v :: u64)) (sv_sample_mode a))"

lemma map_of_asdu_fields:
  "map_of (asdu_fields a) 2 = Some (be_bytes 2 (ucast (sv_sample_count a) :: u64))"
  "map_of (asdu_fields a) 3 = Some (be_bytes 4 (ucast (sv_configuration_revision a) :: u64))"
  "map_of (asdu_fields a) 4 = map_option (the \<circ> utc_try_write_bytes) (sv_reference_time a)"
  "map_of (asdu_fields a) 5 = Some (be_bytes 1 (ucast (sv_sample_synchronization a) :: u64))"
  "map_of (asdu_fields a) 6 = map_option (\<lambda>v. be_bytes 2 (ucast v :: u64)) (sv_sample_rate a)"
  "map_of (asdu_fields a) 7 = Some (sv_sample_payload a)"
  "map_of (asdu_fields a) 8 = map_option (\<lambda>v. be_bytes 2 (ucast v :: u64)) (sv_sample_mode a)"
  by (simp_all add: asdu_fields_def map_add_def split: option.split)

lemma asdu_layout_reads: "layout_reads (pre @ asdu_octets a @ post) (asdu_layout a (length pre)) a"
proof -
  let ?fs = "asdu_fields a"
  let ?pre = "pre @ 0x30 # len_octets (length (fields_octets ?fs))"
  have split: "pre @ asdu_octets a @ post = ?pre @ fields_octets ?fs @ post"
    and off: "length pre + (length (asdu_octets a) - length (fields_octets ?fs)) = length ?pre"
    by (simp_all add: asdu_octets_def)
  note reads = field_region_reads [of ?pre ?fs post]
  show ?thesis
    unfolding layout_reads_def asdu_layout_def off split Let_def sv_layout.simps
    using reads [of 2] reads [of 3] reads [of 4] reads [of 5] reads [of 6] reads [of 7] reads [of 8]
    by (simp only: map_of_asdu_fields)
qed

lemma asdu_layouts_read:
  "i < length p \<Longrightarrow> layout_reads (pre @ asdus_octets p @ post) (asdu_layouts (length pre) p ! i) (p ! i)"
proof (induction p arbitrary: i pre)
  case (Cons a p)
  show ?case
  proof (cases i)
    case 0
    then show ?thesis using asdu_layout_reads [of pre a "asdus_octets p @ post"] by (simp add: asdus_octets_def)
  next
    case (Suc j)
    then show ?thesis
      using Cons.IH [of j "pre @ asdu_octets a"] Cons.prems by (simp add: asdus_octets_def)
  qed
qed simp

text \<open>Encoding Sampled Values into a buffer of the caller: the size pass announces the exact length;
  a buffer that is too small, or a PDU outside the BER range, is refused with the buffer untouched;
  otherwise exactly the announced octets are written in front of the untouched rest, and the regions
  recorded for each ASDU address the octets of its sample counter, revision, time stamp,
  synchronisation, rate, payload and mode, which a publisher patches in place for the next sample.\<close>

theorem sv_encode_exact:
  assumes "lys = [] \<or> length p \<le> length lys"
  shows "case sv_encoded_size p of
      None \<Rightarrow> fst (sv_encode_with_layout p dest lys) = (Value_out_of_range, 0, 0) \<and>
        fst (snd (sv_encode_with_layout p dest lys)) = dest
    | Some n \<Rightarrow>
        n = length (sv_octets p) \<and>
        (if length dest < n
         then fst (sv_encode_with_layout p dest lys) = (Buffer_too_small, 0, n) \<and> fst (snd (sv_encode_with_layout p dest lys)) = dest
         else fst (sv_encode_with_layout p dest lys) = (Encode_ok, n, n) \<and>
           fst (snd (sv_encode_with_layout p dest lys)) = sv_octets p @ drop n dest \<and>
           (\<forall>i < length p. lys \<noteq> [] \<longrightarrow>
             layout_reads (fst (snd (sv_encode_with_layout p dest lys))) (snd (snd (sv_encode_with_layout p dest lys)) ! i) (p ! i)))"
proof (cases "sv_encoded_size p")
  case None
  then show ?thesis using assms by (auto simp: sv_encode_with_layout_def Let_def)
next
  case (Some n)
  note s = sv_encoded_size_Some(3) [OF Some]
  define pre where "pre = take (length (sv_octets p) - length (asdus_octets p)) (sv_octets p)"
  have octets: "sv_octets p = pre @ asdus_octets p" and len: "length (sv_octets p) - length (asdus_octets p) = length pre"
    by (simp_all add: pre_def sv_octets_def pdu_content_def)
  show ?thesis
  proof (cases "length dest < n")
    case True
    then show ?thesis using assms Some s by (auto simp: sv_encode_with_layout_def Let_def)
  next
    case False
    then have room: "n \<le> length dest" by simp
    have reads: "layout_reads (sv_octets p @ drop n dest) (asdu_layouts (length pre) p ! i) (p ! i)" if "i < length p" for i
      using asdu_layouts_read [OF that, of pre "drop n dest"] by (simp add: octets)
    show ?thesis
      using sv_encode_layout_eq [OF Some assms room, unfolded len] False s reads by (simp add: Some nth_append)
  qed
qed

subsection \<open>Decoding inverts encoding\<close>

lemma be_value_fixed:
  "LENGTH('a::len) \<le> 8 * w \<Longrightarrow> be_value (be_bytes w (ucast (v :: 'a word) :: u64)) = (ucast v :: u64)"
  by (rule bit_word_eqI) (auto simp: be_value_be_bytes_bit bit_simps dest: bit_imp_le_length)

lemma read_fixed:
  assumes "LENGTH('a::len) \<le> 8 * w" "w \<le> 8" "LENGTH('a) \<le> 64" "unat m = 2 ^ LENGTH('a) - 1"
    "tlv_value tlv = be_bytes w (ucast (v :: 'a word) :: u64)"
  shows "read_unsigned_exact tlv m = Some (ucast v)"
proof -
  have "unat v \<le> unat m" using assms(4) unat_less_exp [of v] by linarith
  then have "unat (ucast v :: u64) \<le> unat m" using assms(3) by (simp add: unat_ucast_widen)
  then have "\<not> (ucast v :: u64) > m" by (simp add: word_less_nat_alt)
  then show ?thesis
    using assms by (simp add: read_unsigned_exact_def ber_read_unsigned_integer_def be_value_fixed)
qed

lemma read_fixed_widths:
  "tlv_value tlv = be_bytes 2 (ucast (c :: u16) :: u64) \<Longrightarrow> read_unsigned_exact tlv 0xFFFF = Some (ucast c)"
  "tlv_value tlv = be_bytes 4 (ucast (r :: u32) :: u64) \<Longrightarrow> read_unsigned_exact tlv 0xFFFFFFFF = Some (ucast r)"
  "tlv_value tlv = be_bytes (Suc 0) (ucast (y :: u8) :: u64) \<Longrightarrow> read_unsigned_exact tlv 0xFF = Some (ucast y)"
  by (erule read_fixed [rotated 4]; simp)+

text \<open>An ASDU whose reference time is one the eight octets of the wire format can express, that is, one of
  a whole number of \<open>2 ^ -24\<close> seconds, and whose grandmaster identity has its eight octets.\<close>

definition asdu_ok :: "sv_asdu \<Rightarrow> bool" where
  "asdu_ok a \<longleftrightarrow> (\<forall>t. sv_reference_time a = Some t \<longrightarrow> (\<exists>bs. utc_from_bytes bs = Inr t)) \<and>
     (\<forall>g. sv_gm_identity a = Some g \<longrightarrow> length g = 8)"

definition fld_tlv :: "u8 \<times> bytes \<Rightarrow> ber_tlv" where
  "fld_tlv = (\<lambda>(t, v). tlv_of Context_specific False (uint t) v)"

lemma asdu_fields_tags: "(t, v) \<in> set (asdu_fields a) \<Longrightarrow> t \<le> 30"
  by (auto simp: asdu_fields_def split: if_splits option.splits)

lemma fields_children:
  assumes "\<forall>(t, v) \<in> set fs. t \<le> 30 \<and> length v \<le> 0xFFFFFFFF"
  shows "ber_read_children (fields_octets fs) = Inr (map fld_tlv fs)"
proof -
  have enc: "tlv_encoding (fld_tlv f) = fld f \<and> tlv_wf (fld_tlv f)" if "f \<in> set fs" for f
  proof -
    obtain t v where f: "f = (t, v)" by fastforce
    with assms that have tv: "t \<le> 30" "length v \<le> 0xFFFFFFFF" by auto
    then have "uint t \<le> 30" by (simp add: word_le_def)
    then show ?thesis
      using ber_encode_fld [OF tv] by (auto simp: f fld_tlv_def ber_encode_tlv_encoding intro: tlv_wf_of_encode)
  qed
  then have "fields_octets fs = concat (map tlv_encoding (map fld_tlv fs))"
    by (simp add: fields_octets_def comp_def cong: map_cong)
  moreover have "list_all tlv_wf (map fld_tlv fs)" using enc by (simp add: list_all_iff)
  ultimately show ?thesis by (simp only: ber_read_children_concat)
qed

lemma read_asdu_fields_append:
  "read_asdu_fields (xs @ ys) a = Option.bind (read_asdu_fields xs a) (read_asdu_fields ys)"
proof (induction xs arbitrary: a)
  case (Cons x xs)
  then show ?case by (cases "read_asdu_field x a") simp_all
qed simp

lemma read_ascii_field: "tlv_value tlv = map of_char s \<Longrightarrow> ber_read_ascii_string tlv = s"
  using ascii_of_encode [of s] by (simp add: ber_read_ascii_string_def ber_encode_ascii_def)

lemma read_field_steps:
  "read_asdu_field (fld_tlv (0, map of_char s)) a = Some (a\<lparr>sv_id := s\<rparr>)"
  "read_asdu_field (fld_tlv (1, map of_char s)) a = Some (a\<lparr>sv_data_set_reference := s\<rparr>)"
  "read_asdu_field (fld_tlv (2, be_bytes 2 (ucast c :: u64))) a = Some (a\<lparr>sv_sample_count := c\<rparr>)"
  "read_asdu_field (fld_tlv (3, be_bytes 4 (ucast r :: u64))) a = Some (a\<lparr>sv_configuration_revision := r\<rparr>)"
  "utc_from_bytes ts = Inr t \<Longrightarrow> read_asdu_field (fld_tlv (4, ts)) a = Some (a\<lparr>sv_reference_time := Some t\<rparr>)"
  "read_asdu_field (fld_tlv (5, be_bytes (Suc 0) (ucast y :: u64))) a = Some (a\<lparr>sv_sample_synchronization := y\<rparr>)"
  "read_asdu_field (fld_tlv (6, be_bytes 2 (ucast c :: u64))) a = Some (a\<lparr>sv_sample_rate := Some c\<rparr>)"
  "read_asdu_field (fld_tlv (7, v)) a = Some (a\<lparr>sv_sample_payload := v\<rparr>)"
  "read_asdu_field (fld_tlv (8, be_bytes 2 (ucast c :: u64))) a = Some (a\<lparr>sv_sample_mode := Some c\<rparr>)"
  "length v = 8 \<Longrightarrow> read_asdu_field (fld_tlv (9, v)) a = Some (a\<lparr>sv_gm_identity := Some v\<rparr>)"
  for c :: u16 and r :: u32 and y :: u8
  by (simp_all add: read_asdu_field_def fld_tlv_def read_ascii_field read_fixed_widths ucast_ucast_narrow)

lemma read_asdu_fields_eq:
  assumes "asdu_ok a" "\<forall>t. sv_reference_time a = Some t \<longrightarrow> utc_try_write_bytes t \<noteq> None"
  shows "read_asdu_fields (map fld_tlv (asdu_fields a)) sv_asdu_init = Some a"
proof -
  have time: "read_asdu_fields (map fld_tlv (case sv_reference_time a of None \<Rightarrow> [] | Some t \<Rightarrow> [(4, the (utc_try_write_bytes t))])) x =
      Some (x\<lparr>sv_reference_time := sv_reference_time a\<rparr>)" if "sv_reference_time x = None" for x
  proof (cases "sv_reference_time a")
    case (Some t)
    then obtain ts where ts: "utc_try_write_bytes t = Some ts" using assms(2) by blast
    then have "utc_from_bytes ts = Inr t" using assms(1) Some by (auto simp: asdu_ok_def utc_to_bytes_def dest: utc_decoded_exact)
    with Some ts show ?thesis by (simp add: read_field_steps)
  qed (use that in simp)
  have gm: "read_asdu_fields (map fld_tlv (case sv_gm_identity a of None \<Rightarrow> [] | Some g \<Rightarrow> [(9, g)])) x =
      Some (x\<lparr>sv_gm_identity := sv_gm_identity a\<rparr>)" if "sv_gm_identity x = None" for x
    using that assms(1) by (auto simp: asdu_ok_def read_field_steps split: option.split)
  have opts: "read_asdu_fields (map fld_tlv (case sv_sample_rate a of None \<Rightarrow> [] | Some v \<Rightarrow> [(6, be_bytes 2 (ucast v :: u64))])) x =
      Some (x\<lparr>sv_sample_rate := sv_sample_rate a\<rparr>)" if "sv_sample_rate x = None" for x
    using that by (auto simp: read_field_steps split: option.split)
  have mode: "read_asdu_fields (map fld_tlv (case sv_sample_mode a of None \<Rightarrow> [] | Some v \<Rightarrow> [(8, be_bytes 2 (ucast v :: u64))])) x =
      Some (x\<lparr>sv_sample_mode := sv_sample_mode a\<rparr>)" if "sv_sample_mode x = None" for x
    using that by (auto simp: read_field_steps split: option.split)
  have ds: "read_asdu_fields (map fld_tlv (if sv_data_set_reference a \<noteq> [] then [(1, map of_char (sv_data_set_reference a))] else [])) x =
      Some (x\<lparr>sv_data_set_reference := sv_data_set_reference a\<rparr>)" if "sv_data_set_reference x = []" for x
    using that by (auto simp: read_field_steps)
  show ?thesis
    unfolding asdu_fields_def map_append read_asdu_fields_append
    by (simp add: time gm opts mode ds read_field_steps sv_asdu_init_def)
qed

lemma outer_octets:
  "ber_identifier_octet Universal True 16 = 0x30" "ber_identifier_octet Context_specific True 2 = 0xA2"
  "ber_identifier_octet Application True 0 = 0x60"
  by (simp_all add: ber_identifier_octet_def)

lemma ber_encode_outer:
  assumes "length v \<le> 0xFFFFFFFF"
  shows "ber_encode_tlv Universal True 16 v = Inr (0x30 # len_octets (length v) @ v)"
    "ber_encode_tlv Context_specific True 2 v = Inr (0xA2 # len_octets (length v) @ v)"
    "ber_encode_tlv Application True 0 v = Inr (0x60 # len_octets (length v) @ v)"
  using ber_write_len_octets [OF assms]
  by (simp_all add: ber_encode_tlv_def ber_write_identifier_def ber_encode_identifier_def outer_octets)

definition asdu_tlv :: "sv_asdu \<Rightarrow> ber_tlv" where
  "asdu_tlv a = tlv_of Universal True 16 (fields_octets (asdu_fields a))"

lemma read_asdu_content:
  assumes "asdu_content_size a = Some n" "asdu_ok a"
  shows "read_asdu (fields_octets (asdu_fields a)) = Some a"
proof -
  note s = asdu_content_size_Some [OF assms(1)]
  have "ber_read_children (fields_octets (asdu_fields a)) = Inr (map fld_tlv (asdu_fields a))"
    using s(2) asdu_fields_tags by (intro fields_children) fastforce
  then show ?thesis using read_asdu_fields_eq [OF assms(2) s(1)] by (simp add: read_asdu_def)
qed

lemma read_asdus_eq:
  assumes "\<forall>a \<in> set p. asdu_content_size a \<noteq> None \<and> asdu_ok a"
  shows "read_asdus (map asdu_tlv p) acc = Some (acc @ p)"
  using assms
proof (induction p arbitrary: acc)
  case (Cons a p)
  then obtain n where "asdu_content_size a = Some n" by auto
  with Cons show ?case by (simp add: asdu_tlv_def read_asdu_content)
qed simp

lemma asdus_children:
  assumes "\<forall>a \<in> set p. length (fields_octets (asdu_fields a)) \<le> 0xFFFFFFFF"
  shows "ber_read_children (asdus_octets p) = Inr (map asdu_tlv p)"
proof -
  have enc: "tlv_encoding (asdu_tlv a) = asdu_octets a \<and> tlv_wf (asdu_tlv a)" if "a \<in> set p" for a
    using assms that ber_encode_outer(1) [of "fields_octets (asdu_fields a)"]
    by (auto simp: asdu_tlv_def asdu_octets_def ber_encode_tlv_encoding intro!: tlv_wf_of_encode)
  then have "asdus_octets p = concat (map tlv_encoding (map asdu_tlv p))"
    by (simp add: asdus_octets_def comp_def cong: map_cong)
  moreover have "list_all tlv_wf (map asdu_tlv p)" using enc by (simp add: list_all_iff)
  ultimately show ?thesis by (simp only: ber_read_children_concat)
qed

lemma read_count_field:
  assumes "length p \<le> 0xFFFF"
  shows "read_unsigned_exact (fld_tlv (count_field p)) 0xFFFF = Some (of_nat (length p))"
    "length (snd (count_field p)) \<le> 2"
proof -
  let ?v = "of_nat (length p) :: u64" and ?k = "unsigned_integer_size (of_nat (length p))"
  have v: "unat ?v = length p" using assms by (simp add: unat_of_nat)
  have small: "\<not> drop_bit 8 ?v > 0xFF"
    using v assms by (simp add: word_less_nat_alt drop_bit_eq_div unat_div_distrib)
  have k: "?k = (if length p > 0xFF then 2 else 1)"
    using v small by (simp add: unsigned_integer_size.simps [of ?v] unsigned_integer_size.simps [of "drop_bit 8 ?v"]
        word_less_nat_alt)
  have "take_bit (8 * ?k) ?v = ?v"
    using v k assms by (intro word_unat_eq_iff [THEN iffD2]) (auto simp: unsigned_take_bit_eq take_bit_nat_eq_self)
  then have bits: "bit ?v i \<Longrightarrow> i < 8 * ?k" for i by (metis bit_take_bit_iff)
  have "be_value (be_bytes ?k ?v) = ?v"
    by (rule bit_word_eqI) (use bits in \<open>auto simp: be_value_be_bytes_bit\<close>)
  moreover have "\<not> ?v > 0xFFFF" using v assms by (simp add: word_less_nat_alt)
  ultimately show "read_unsigned_exact (fld_tlv (count_field p)) 0xFFFF = Some ?v"
    using k by (simp add: read_unsigned_exact_def ber_read_unsigned_integer_def fld_tlv_def count_field_def Let_def)
  show "length (snd (count_field p)) \<le> 2" using k by (simp add: count_field_def Let_def)
qed

lemma sv_decode_octets:
  assumes size: "sv_encoded_size p = Some n" and ok: "\<forall>a \<in> set p. asdu_ok a"
  shows "sv_try_decode (sv_octets p) = Some p"
proof -
  note s = sv_encoded_size_Some [OF size] and seq = asdus_sizes [OF sv_encoded_size_Some(2) [OF size]]
  let ?sq = "tlv_of Context_specific True 2 (asdus_octets p)"
  obtain c where c: "count_field p = (0, c)" by (simp add: count_field_def Let_def)
  note count = read_count_field [OF s(1)]
  have "length c \<le> 0xFFFFFFFF" using count(2) c by simp
  then have cf: "tlv_encoding (fld_tlv (count_field p)) = fld (count_field p)" "tlv_wf (fld_tlv (count_field p))"
    using ber_encode_fld [of 0 c] by (auto simp: c fld_tlv_def ber_encode_tlv_encoding intro: tlv_wf_of_encode)
  have sq: "tlv_encoding ?sq = 0xA2 # len_octets (length (asdus_octets p)) @ asdus_octets p" "tlv_wf ?sq"
    using ber_encode_outer(2) [OF s(4)] by (auto simp: ber_encode_tlv_encoding intro: tlv_wf_of_encode)
  have kids: "ber_read_children (pdu_content p) = Inr [fld_tlv (count_field p), ?sq]"
    using ber_read_children_concat [of "[fld_tlv (count_field p), ?sq]"] cf sq by (simp add: pdu_content_def)
  have outer: "ber_try_read_tlv (sv_octets p) 0 = Inr (length (sv_octets p), tlv_of Application True 0 (pdu_content p))"
    using ber_read_back_encoded [OF ber_encode_outer(3) [OF s(5)], of "[]"] by (simp add: sv_octets_def)
  have "read_asdu_sequence (asdus_octets p) [] = Some p"
    using asdus_children [OF seq(3)] read_asdus_eq [of p "[]"] seq(1) ok by (simp add: read_asdu_sequence_def)
  moreover have "unat (ucast (of_nat (length p) :: u64) :: u16) = length p"
    using s(1) by (simp add: unat_of_nat unsigned_ucast_eq take_bit_nat_eq_self)
  ultimately show ?thesis
    using count(1) by (simp add: sv_try_decode_def outer kids c fld_tlv_def)
qed

lemma sv_encode_octets:
  assumes "sv_encoded_size p = Some n"
  shows "sv_encode p = Inr (sv_octets p)" "sv_encode_into p dest =
    (if length dest < n then ((Buffer_too_small, 0, n), dest) else ((Encode_ok, n, n), sv_octets p @ drop n dest))"
proof -
  show into: "sv_encode_into p dest =
    (if length dest < n then ((Buffer_too_small, 0, n), dest) else ((Encode_ok, n, n), sv_octets p @ drop n dest))" for dest
    using sv_encode_layout_eq [OF assms, of "[]" dest]
    by (simp add: sv_encode_into_def) (simp add: sv_encode_with_layout_def assms)
  then show "sv_encode p = Inr (sv_octets p)"
    using sv_encoded_size_Some(3) [OF assms] by (simp add: sv_encode_def assms)
qed

text \<open>Sampled Values round trip: a PDU within the BER range whose time stamps have 24-bit
  resolution is encoded, in the announced number of octets, and the decoder recovers every ASDU with
  exactly the optional fields it had.\<close>

theorem sv_pdu_round_trip:
  assumes "sv_encoded_size p = Some n" "\<forall>a \<in> set p. asdu_ok a"
  shows "\<exists>ap. sv_encode p = Inr ap \<and> length ap = n \<and> sv_try_decode ap = Some p"
  using sv_encode_octets(1) [OF assms(1)] sv_encoded_size_Some(3) [OF assms(1)] sv_decode_octets [OF assms] by simp

definition sv_sample :: sv_pdu where
  "sv_sample = [\<lparr>sv_id = ''MU01'', sv_data_set_reference = [], sv_sample_count = 3999, sv_configuration_revision = 1,
     sv_reference_time = Some \<lparr>utc_ns = 1700000000500000000, utc_quality = 0x0A\<rparr>, sv_sample_synchronization = 2, sv_sample_rate = Some 80, sv_sample_mode = None,
     sv_sample_payload = [0, 0, 1, 44, 0, 0, 0, 0], sv_gm_identity = Some [0, 1, 2, 255, 254, 3, 4, 5]\<rparr>]"

lemma sv_sample_facts: "sv_encoded_size sv_sample = Some 62" "\<forall>a \<in> set sv_sample. asdu_ok a"
proof -
  have time: "utc_from_bytes [0x65, 0x53, 0xF1, 0x00, 0x80, 0, 0, 0x0A] = Inr \<lparr>utc_ns = 1700000000500000000, utc_quality = 0x0A\<rparr>"
    by code_simp
  then show "\<forall>a \<in> set sv_sample. asdu_ok a" by (auto simp: sv_sample_def asdu_ok_def)
  from utc_decoded_exact [OF time]
  have writes: "\<exists>bs. utc_try_write_bytes \<lparr>utc_ns = 1700000000500000000, utc_quality = 0x0A\<rparr> = Some bs"
    by (auto simp: utc_to_bytes_def split: option.splits)
  have one: "unsigned_integer_size 1 = 1" by (simp add: unsigned_integer_size.simps)
  have seq: "sequence_value_size sv_sample = Some 55"
    using writes by (simp add: sequence_value_size_def asdu_encoded_size_def asdu_content_size_def sv_sample_def sv_tlv_size_eq len_octets_def
        checked_add_def)
  then show "sv_encoded_size sv_sample = Some 62"
    by (simp add: sv_encoded_size_def seq) (simp add: sv_sample_def one [simplified] sv_tlv_size_eq len_octets_def checked_add_def)
qed

theorem sv_pdu_round_trip_witness:
  "\<exists>ap. sv_encode sv_sample = Inr ap \<and> length ap = 62 \<and> sv_try_decode ap = Some sv_sample"
  by (rule sv_pdu_round_trip [OF sv_sample_facts])

theorem sv_encode_exact_witness:
  "fst (sv_encode_with_layout sv_sample (replicate 70 0) [no_layout]) = (Encode_ok, 62, 62) \<and>
   layout_reads (fst (snd (sv_encode_with_layout sv_sample (replicate 70 0) [no_layout])))
     (hd (snd (snd (sv_encode_with_layout sv_sample (replicate 70 0) [no_layout])))) (hd sv_sample)"
proof -
  have len: "length sv_sample = 1" by (simp add: sv_sample_def)
  have "snd (snd (sv_encode_with_layout sv_sample (replicate 70 0) [no_layout])) \<noteq> []"
    using sv_encode_layout_eq [OF sv_sample_facts(1), of "[no_layout]" "replicate 70 0"] len
    by (auto simp: sv_sample_def)
  moreover have "sv_sample \<noteq> []" by (simp add: sv_sample_def)
  ultimately show ?thesis
    using sv_encode_exact [of "[no_layout]" sv_sample "replicate 70 0"] len sv_sample_facts(1)
    by (auto simp: hd_conv_nth)
qed

end
