(* ===== verification/Sv_Frame.thy ===== *)
theory Sv_Frame
  imports Sv_Wire
begin

text \<open>
  Sampled Values in Ethernet frames (\<open>src/sampled_values/frame_codec.cpp\<close>).  The encoder writes header and
  PDU straight into the caller's buffer; it agrees with the general Ethernet and process-bus codecs, and
  the regions it reports are offsets in the frame.
\<close>

record sv_frame =
  sf_destination :: mac_address
  sf_source :: mac_address
  sf_vlan :: "vlan_tag option"
  sf_app_id :: u16
  sf_reserved1 :: u16
  sf_reserved2 :: u16
  sf_pdu :: sv_pdu

definition shift_region :: "nat \<Rightarrow> sv_region \<Rightarrow> sv_region" where
  "shift_region delta r = (if rg_present r then r\<lparr>rg_offset := rg_offset r + delta\<rparr> else r)"

definition shift_layout :: "nat \<Rightarrow> sv_layout \<Rightarrow> sv_layout" where
  "shift_layout delta ly =
     \<lparr>ly_sample_count = shift_region delta (ly_sample_count ly),
      ly_configuration_revision = shift_region delta (ly_configuration_revision ly),
      ly_reference_time = shift_region delta (ly_reference_time ly),
      ly_sample_synchronization = shift_region delta (ly_sample_synchronization ly),
      ly_sample_rate = shift_region delta (ly_sample_rate ly),
      ly_sample_payload = shift_region delta (ly_sample_payload ly),
      ly_sample_mode = shift_region delta (ly_sample_mode ly)\<rparr>"

definition vlan_tci :: "vlan_tag \<Rightarrow> u16 option" where
  "vlan_tci v =
     (if \<not> is_valid_vlan_priority (priority_code_point v) \<or> \<not> is_valid_vlan_id (vlan_id v) then None
      else Some (ucast (push_bit 13 (ucast (priority_code_point v)) OR (if drop_eligible v then 0x1000 else 0) OR
                        ucast (vlan_id v) :: u32)))"

definition sv_frame_size :: "sv_frame \<Rightarrow> nat option" where
  "sv_frame_size f =
     (if \<exists>v. sf_vlan f = Some v \<and> vlan_tci v = None then None
      else case sv_encoded_size (sf_pdu f) of
          None \<Rightarrow> None
        | Some n \<Rightarrow>
            if n > 0xFFFF - 8 then None
            else let eth = (if sf_vlan f = None then 14 else 18); pb = 8 + n in
              if pb > 2 ^ 64 - 1 - eth then None else Some (eth + pb))"

text \<open>The octets before the PDU, written one after the other.\<close>

definition sv_write_headers :: "sv_frame \<Rightarrow> nat \<Rightarrow> bytes \<Rightarrow> bytes \<times> nat" where
  "sv_write_headers f n dest =
     (let dest = put_at 6 (sf_source f) (put_at 0 (sf_destination f) dest);
          (dest, off) = (case sf_vlan f of None \<Rightarrow> (dest, 12)
             | Some v \<Rightarrow> (put_at 14 (write_be_u16 (the (vlan_tci v))) (put_at 12 (write_be_u16 0x8100) dest), 16));
          dest = put_at off (write_be_u16 0x88BA) dest; off = off + 2;
          dest = put_at off (write_be_u16 (sf_app_id f)) dest;
          dest = put_at (off + 2) (write_be_u16 (of_nat (8 + n))) dest;
          dest = put_at (off + 4) (write_be_u16 (sf_reserved1 f)) dest;
          dest = put_at (off + 6) (write_be_u16 (sf_reserved2 f)) dest
      in (dest, off + 8))"

text \<open>\<open>encoded_size\<close> has refused an invalid tag, so the tag control information exists when it is written.\<close>

definition sv_frame_encode_with_layout :: "sv_frame \<Rightarrow> bytes \<Rightarrow> sv_layout list \<Rightarrow> encode_result \<times> bytes \<times> sv_layout list" where
  "sv_frame_encode_with_layout f dest lys =
     (if lys \<noteq> [] \<and> length lys < length (sf_pdu f) then ((Value_out_of_range, 0, 0), dest, lys)
      else let lys = map (\<lambda>_. no_layout) lys in
        case sv_frame_size f of
          None \<Rightarrow> ((Value_out_of_range, 0, 0), dest, lys)
        | Some required \<Rightarrow>
            if length dest < required then ((Buffer_too_small, 0, required), dest, lys)
            else (case sv_encoded_size (sf_pdu f) of
                None \<Rightarrow> ((Value_out_of_range, 0, 0), dest, lys)
              | Some n \<Rightarrow>
                  (case sv_write_headers f n dest of
                     (dest, off) \<Rightarrow>
                       (case sv_encode_with_layout (sf_pdu f) (take n (drop off dest)) lys of
                          ((status, written, _), part, lys) \<Rightarrow>
                            let dest = put_at off part dest in
                            if status \<noteq> Encode_ok \<or> written \<noteq> n
                            then ((status, 0, required), dest, map (\<lambda>_. no_layout) lys)
                            else ((Encode_ok, off + written, required), dest,
                                  map (shift_layout off) (take (length (sf_pdu f)) lys) @ drop (length (sf_pdu f)) lys)))))"

definition sv_frame_encode_into :: "sv_frame \<Rightarrow> bytes \<Rightarrow> encode_result \<times> bytes" where
  "sv_frame_encode_into f dest = (case sv_frame_encode_with_layout f dest [] of (res, dest, _) \<Rightarrow> (res, dest))"

definition sv_frame_encode :: "sv_frame \<Rightarrow> bytes result" where
  "sv_frame_encode f =
     (case sv_frame_size f of
        None \<Rightarrow> Inl (Out_of_range ''A Sampled Values Ethernet frame exceeds the supported wire range.'')
      | Some required \<Rightarrow>
          (case sv_frame_encode_into f (replicate required 0) of
             ((status, written, _), bs) \<Rightarrow>
               if status \<noteq> Encode_ok \<or> written \<noteq> length bs
               then Inl (Runtime_error ''Failed to encode Sampled Values frame into sized buffer.'')
               else Inr bs))"

definition sv_frame_try_decode :: "bytes \<Rightarrow> sv_frame option" where
  "sv_frame_try_decode bs =
     (case ethernet_try_decode bs of
        None \<Rightarrow> None
      | Some ef \<Rightarrow>
          if ether_type ef \<noteq> 0x88BA then None
          else (case pb_try_decode ef of
              None \<Rightarrow> None
            | Some pb \<Rightarrow>
                if declared_length pb < 8 then None
                else (case sv_try_decode (apdu pb) of
                   None \<Rightarrow> None
                 | Some p \<Rightarrow> Some \<lparr>sf_destination = destination ef, sf_source = source ef, sf_vlan = vlan ef,
                     sf_app_id = app_id pb, sf_reserved1 = reserved1 pb, sf_reserved2 = reserved2 pb, sf_pdu = p\<rparr>)))"

subsection \<open>The frame on the wire\<close>

definition sv_frame_headers :: "sv_frame \<Rightarrow> nat \<Rightarrow> bytes" where
  "sv_frame_headers f n =
     sf_destination f @ sf_source f @
     (case sf_vlan f of None \<Rightarrow> [] | Some v \<Rightarrow> write_be_u16 0x8100 @ write_be_u16 (the (vlan_tci v))) @
     write_be_u16 0x88BA @ write_be_u16 (sf_app_id f) @ write_be_u16 (of_nat (8 + n)) @
     write_be_u16 (sf_reserved1 f) @ write_be_u16 (sf_reserved2 f)"

lemma vlan_tci_general: "vlan_tci v = Some tci \<longleftrightarrow> to_tag_control_information v = Inr tci"
  by (auto simp: vlan_tci_def to_tag_control_information_def)

lemma sv_frame_size_Some:
  assumes "sv_frame_size f = Some n" "mac_ok (sf_destination f)" "mac_ok (sf_source f)"
  obtains k where "sv_encoded_size (sf_pdu f) = Some k" "k \<le> 0xFFFF - 8" "n = length (sv_frame_headers f k) + k"
    "\<forall>v. sf_vlan f = Some v \<longrightarrow> is_valid_vlan_priority (priority_code_point v) \<and> is_valid_vlan_id (vlan_id v)"
proof -
  obtain k where k: "sv_encoded_size (sf_pdu f) = Some k" "k \<le> 0xFFFF - 8"
      "n = (if sf_vlan f = None then 14 else 18) + (8 + k)"
      "\<And>v. sf_vlan f = Some v \<Longrightarrow> vlan_tci v \<noteq> None"
    using assms(1) by (auto simp: sv_frame_size_def Let_def split: if_splits option.splits)
  have "n = length (sv_frame_headers f k) + k"
    using assms(2,3) k(3) by (auto simp: sv_frame_headers_def mac_ok_def split: option.split)
  moreover have "\<forall>v. sf_vlan f = Some v \<longrightarrow> is_valid_vlan_priority (priority_code_point v) \<and> is_valid_vlan_id (vlan_id v)"
    using k(4) by (auto simp: vlan_tci_def split: if_splits)
  ultimately show thesis using k(1,2) by (intro that)
qed

lemma sv_write_headers_eq:
  assumes "mac_ok (sf_destination f)" "mac_ok (sf_source f)" "length (sv_frame_headers f n) \<le> length dest"
  shows "sv_write_headers f n dest = (put_at 0 (sv_frame_headers f n) dest, length (sv_frame_headers f n))"
proof -
  have len: "length (sf_destination f) = 6" "length (sf_source f) = 6" using assms(1,2) by (simp_all add: mac_ok_def)
  note app = put_at_append [of 0 _ _ dest]
  show ?thesis
  proof (cases "sf_vlan f")
    case None
    then have "22 \<le> length dest" using assms(3) len by (simp add: sv_frame_headers_def)
    then show ?thesis
      using None len by (simp add: sv_write_headers_def sv_frame_headers_def Let_def app del: put_at_zero)
  next
    case (Some v)
    then have "26 \<le> length dest" using assms(3) len by (simp add: sv_frame_headers_def)
    then show ?thesis
      using Some len by (simp add: sv_write_headers_def sv_frame_headers_def Let_def app del: put_at_zero)
  qed
qed

lemma shift_region_reads: "region_reads bs r v \<Longrightarrow> region_reads (pre @ bs) (shift_region (length pre) r) v"
  by (auto simp: region_reads_def shift_region_def no_region_def split: option.splits)

lemma shift_layout_reads: "layout_reads bs ly a \<Longrightarrow> layout_reads (pre @ bs) (shift_layout (length pre) ly) a"
  by (simp add: layout_reads_def shift_layout_def shift_region_reads)

lemma sv_frame_encode_eq:
  assumes size: "sv_frame_size f = Some n" and mac: "mac_ok (sf_destination f)" "mac_ok (sf_source f)"
    and k: "sv_encoded_size (sf_pdu f) = Some k" and lys: "lys = [] \<or> length (sf_pdu f) \<le> length lys" and room: "n \<le> length dest"
  shows "sv_frame_encode_with_layout f dest lys =
    ((Encode_ok, n, n), sv_frame_headers f k @ sv_octets (sf_pdu f) @ drop n dest,
     if lys = [] then [] else map (shift_layout (length (sv_frame_headers f k)))
         (asdu_layouts (length (sv_octets (sf_pdu f)) - length (asdus_octets (sf_pdu f))) (sf_pdu f)) @
       map (\<lambda>_. no_layout) (drop (length (sf_pdu f)) lys))"
proof -
  obtain k' where "sv_encoded_size (sf_pdu f) = Some k'" "n = length (sv_frame_headers f k') + k'"
    using sv_frame_size_Some [OF size mac] by metis
  with k have n: "n = length (sv_frame_headers f k) + k" by simp
  note s = sv_encoded_size_Some(3) [OF k]
  let ?h = "sv_frame_headers f k"
  let ?d = "?h @ drop (length ?h) dest"
  have w: "sv_write_headers f k dest = (?d, length ?h)"
    using sv_write_headers_eq [OF mac, of k dest] room n by simp
  have "length (take k (drop (length ?h) ?d)) = k" using room n by simp
  then have e: "sv_encode_with_layout (sf_pdu f) (take k (drop (length ?h) ?d)) (map (\<lambda>_. no_layout) lys) =
      ((Encode_ok, k, k), sv_octets (sf_pdu f),
       if lys = [] then [] else asdu_layouts (length (sv_octets (sf_pdu f)) - length (asdus_octets (sf_pdu f))) (sf_pdu f) @
         map (\<lambda>_. no_layout) (drop (length (sf_pdu f)) lys))"
    using sv_encode_layout_eq [OF k, of "map (\<lambda>_. no_layout) lys" "take k (drop (length ?h) ?d)"] lys
    by (auto simp: drop_map comp_def)
  have put: "put_at (length ?h) (sv_octets (sf_pdu f)) ?d = ?h @ sv_octets (sf_pdu f) @ drop n dest"
    using n s by (simp add: put_at_def add.commute)
  have "\<not> (lys \<noteq> [] \<and> length lys < length (sf_pdu f))" "\<not> length dest < n" using lys room by auto
  then show ?thesis
    unfolding sv_frame_encode_with_layout_def
    by (simp only: size k w e put Let_def if_False option.case prod.case simp_thms n [symmetric])
      (use lys in auto)
qed

lemma sv_frame_decode_octets:
  assumes size: "sv_frame_size f = Some n" and mac: "mac_ok (sf_destination f)" "mac_ok (sf_source f)"
    and k: "sv_encoded_size (sf_pdu f) = Some k" and ok: "\<forall>a \<in> set (sf_pdu f). asdu_ok a"
  shows "sv_frame_try_decode (sv_frame_headers f k @ sv_octets (sf_pdu f) @ padding) = Some f"
proof -
  let ?ap = "sv_octets (sf_pdu f)"
  have len: "length ?ap = k" using sv_encoded_size_Some(3) [OF k] by simp
  have small: "length ?ap \<le> 0xFFFF - 8"
    and vlan: "\<forall>v. sf_vlan f = Some v \<longrightarrow> is_valid_vlan_priority (priority_code_point v) \<and> is_valid_vlan_id (vlan_id v)"
    using sv_frame_size_Some [OF size mac] k len by (metis option.inject)+
  obtain ef bs ef' pb where
    ef: "pb_encode_ethernet_frame (sf_destination f) (sf_source f) 0x88BA (sf_app_id f) ?ap (sf_vlan f)
      (sf_reserved1 f) (sf_reserved2 f) = Inr ef" and bs: "ethernet_encode ef = Inr bs" and
    dec: "ethernet_try_decode (bs @ padding) = Some ef'" "pb_try_decode ef' = Some pb" and
    fields: "destination ef' = sf_destination f" "source ef' = sf_source f" "ether_type ef' = 0x88BA" "vlan ef' = sf_vlan f"
      "app_id pb = sf_app_id f" "reserved1 pb = sf_reserved1 f" "reserved2 pb = sf_reserved2 f" "apdu pb = ?ap" and
    dl: "declared_length pb = of_nat (8 + length ?ap)"
    using process_bus_transfer [OF mac ether_types_differ(2) small vlan, of "sf_app_id f" "sf_reserved1 f" "sf_reserved2 f" padding]
    by blast
  have "bs = sv_frame_headers f k @ ?ap"
  proof (cases "sf_vlan f")
    case None
    then show ?thesis using ef bs small
      by (auto simp: pb_encode_ethernet_frame_def pb_encode_payload_def ethernet_encode_def sv_frame_headers_def len)
  next
    case (Some v)
    then obtain tci where "to_tag_control_information v = Inr tci"
      using vlan by (auto simp: to_tag_control_information_def)
    moreover from this have "vlan_tci v = Some tci" by (simp add: vlan_tci_general)
    ultimately show ?thesis using Some ef bs small
      by (auto simp: pb_encode_ethernet_frame_def pb_encode_payload_def ethernet_encode_def sv_frame_headers_def len)
  qed
  moreover have "unat (declared_length pb) = 8 + length ?ap"
    using small by (simp add: dl unat_of_nat del: of_nat_add)
  then have "\<not> declared_length pb < 8" by (simp add: word_less_nat_alt)
  ultimately show ?thesis
    using dec fields sv_decode_octets [OF k ok] by (simp add: sv_frame_try_decode_def)
qed

text \<open>C23.  A Sampled Values frame whose reference times, if any, have the 24-bit resolution of the wire format
  and whose grandmaster identities have eight octets: when the size pass accepts it, encoding into a large enough buffer
  writes exactly the announced octets and leaves the rest, the regions reported for every ASDU address its
  values in the frame, and the decoder recovers the frame even with padding after it.\<close>

theorem sv_frame_round_trip:
  assumes size: "sv_frame_size f = Some n" and mac: "mac_ok (sf_destination f)" "mac_ok (sf_source f)"
    and ok: "\<forall>a \<in> set (sf_pdu f). asdu_ok a" and lys: "length lys = length (sf_pdu f)" and room: "n \<le> length dest"
  shows "\<exists>octets lys'. sv_frame_encode_with_layout f dest lys = ((Encode_ok, n, n), octets @ drop n dest, lys') \<and>
    length octets = n \<and> sv_frame_try_decode (octets @ padding) = Some f \<and>
    (\<forall>i < length (sf_pdu f). layout_reads octets (lys' ! i) (sf_pdu f ! i))"
proof -
  obtain k where k: "sv_encoded_size (sf_pdu f) = Some k" "n = length (sv_frame_headers f k) + k"
    using sv_frame_size_Some [OF size mac] by metis
  let ?h = "sv_frame_headers f k" and ?p = "sf_pdu f"
  define pre where "pre = take (length (sv_octets ?p) - length (asdus_octets ?p)) (sv_octets ?p)"
  have octets: "sv_octets ?p = pre @ asdus_octets ?p" and len: "length (sv_octets ?p) - length (asdus_octets ?p) = length pre"
    by (simp_all add: pre_def sv_octets_def pdu_content_def)
  have reads: "layout_reads (?h @ sv_octets ?p) (map (shift_layout (length ?h)) (asdu_layouts (length pre) ?p) ! i) (?p ! i)"
    if "i < length ?p" for i
    using shift_layout_reads [OF asdu_layouts_read [OF that, of pre "[]"], of ?h] that by (simp add: octets)
  have "sv_frame_encode_with_layout f dest lys =
      ((Encode_ok, n, n), (?h @ sv_octets ?p) @ drop n dest, map (shift_layout (length ?h)) (asdu_layouts (length pre) ?p))"
    using sv_frame_encode_eq [OF size mac k(1) _ room, of lys] lys by (cases "lys = []") (simp_all add: len)
  moreover have "length (?h @ sv_octets ?p) = n" using k(2) sv_encoded_size_Some(3) [OF k(1)] by simp
  moreover have "sv_frame_try_decode ((?h @ sv_octets ?p) @ padding) = Some f"
    using sv_frame_decode_octets [OF size mac k(1) ok, of padding] by simp
  ultimately show ?thesis using reads by blast
qed

definition sv_sample_frame :: sv_frame where
  "sv_sample_frame = \<lparr>sf_destination = [1, 0x0C, 0xCD, 4, 0, 1], sf_source = [0, 1, 2, 3, 4, 5],
     sf_vlan = Some \<lparr>priority_code_point = 4, drop_eligible = False, vlan_id = 5\<rparr>, sf_app_id = 0x4000,
     sf_reserved1 = 0, sf_reserved2 = 0, sf_pdu = sv_sample\<rparr>"

theorem sv_frame_round_trip_witness:
  "\<exists>octets lys'. sv_frame_encode_with_layout sv_sample_frame (replicate 90 0) [no_layout] =
      ((Encode_ok, 88, 88), octets @ [0, 0], lys') \<and>
    length octets = 88 \<and> sv_frame_try_decode (octets @ [1, 2]) = Some sv_sample_frame \<and>
    layout_reads octets (lys' ! 0) (sv_sample ! 0)"
proof -
  have "sv_frame_size sv_sample_frame = Some 88"
    by (simp add: sv_frame_size_def sv_sample_frame_def sv_sample_facts(1) vlan_tci_def is_valid_vlan_priority_def is_valid_vlan_id_def)
  moreover have "mac_ok (sf_destination sv_sample_frame)" "mac_ok (sf_source sv_sample_frame)" "sf_pdu sv_sample_frame = sv_sample"
    by (simp_all add: sv_sample_frame_def mac_ok_def)
  moreover have "length sv_sample = 1" by (simp add: sv_sample_def)
  moreover have "drop 88 (replicate 90 0) = [0 :: u8, 0]" by (simp add: numeral_eq_Suc)
  ultimately show ?thesis
    using sv_frame_round_trip [of sv_sample_frame 88 "[no_layout]" "replicate 90 0" "[1, 2]"] sv_sample_facts(2) by auto
qed

end
