(* ===== verification/Sv_Stream.thy ===== *)
theory Sv_Stream
  imports Sv_Codec
begin

text \<open>
  Supervision of a Sampled Values stream (\<open>src/sampled_values/sample_counter.cpp\<close>,
  \<open>stream_supervisor.cpp\<close>) and the quality word (\<open>quality.cpp\<close>).  The results: the statistics account for
  every observation, the samples a stream lost are counted exactly, and the quality survives encoding.
  The start value of a second-aligned counter is computed in floating point and not modelled.
\<close>

subsection \<open>The sample counter\<close>

definition sv_modulo :: "u16 option \<Rightarrow> u64" where
  "sv_modulo wrap = (case wrap of Some w \<Rightarrow> if w > 1 then ucast w else 65536 | None \<Rightarrow> 65536)"

definition sv_increment :: "u16 \<Rightarrow> u16 option \<Rightarrow> u32 \<Rightarrow> u16" where
  "sv_increment current wrap step =
     (if step = 0 then current else ucast ((ucast current + ucast step :: u64) mod sv_modulo wrap))"

datatype transition_kind = Initial | Continuous | Normal_wrap | Gap | Duplicate | Out_of_order | Restart

record sv_transition =
  tr_kind :: transition_kind
  tr_actual :: u16
  tr_previous :: "u16 option"
  tr_expected :: "u16 option"
  tr_wrap :: "u16 option"
  tr_missing_samples :: u32
  tr_detail :: string

definition is_anomaly :: "sv_transition \<Rightarrow> bool" where
  "is_anomaly t \<longleftrightarrow> tr_kind t = Gap \<or> tr_kind t = Duplicate \<or> tr_kind t = Out_of_order"

record sv_tracker =
  tk_last :: "u16 option"
  tk_expected :: "u16 option"

definition tracker_reset :: "sv_tracker \<Rightarrow> sv_tracker" where
  "tracker_reset t = t\<lparr>tk_last := None, tk_expected := None\<rparr>"

definition tracker_next :: "u16 \<Rightarrow> u16 option \<Rightarrow> u16" where
  "tracker_next v wrap = sv_increment v wrap 1"

definition resolve_modulus :: "u16 option \<Rightarrow> u32" where
  "resolve_modulus wrap = (case wrap of Some w \<Rightarrow> if w > 1 then ucast w else 65536 | None \<Rightarrow> 65536)"

text \<open>The remainder of a signed division takes the sign of the dividend.\<close>

definition signed_rem :: "int \<Rightarrow> int \<Rightarrow> int" where
  "signed_rem a m = (if a < 0 then - ((- a) mod m) else a mod m)"

definition distance_forward :: "u16 \<Rightarrow> u16 \<Rightarrow> u32 \<Rightarrow> u32" where
  "distance_forward from to modulus =
     (let distance = signed_rem (uint to - uint from) (uint modulus);
          distance = (if distance < 0 then distance + uint modulus else distance)
      in word_of_int distance)"

text \<open>\<open>std::to_string\<close> of an unsigned number.\<close>

function decimal :: "nat \<Rightarrow> string" where
  "decimal n = (if n < 10 then [char_of (48 + n)] else decimal (n div 10) @ [char_of (48 + n mod 10)])"
  by pat_completeness auto
termination by (relation "measure id") auto

declare decimal.simps [simp del]

definition tracker_observe :: "u16 \<Rightarrow> u16 option \<Rightarrow> bool \<Rightarrow> sv_tracker \<Rightarrow> sv_transition \<times> sv_tracker" where
  "tracker_observe actual wrap restart_hint t =
     (let moved = t\<lparr>tk_last := Some actual, tk_expected := Some (tracker_next actual wrap)\<rparr> in
      case tk_last t of
        None \<Rightarrow>
          (\<lparr>tr_kind = Initial, tr_actual = actual, tr_previous = None, tr_expected = None, tr_wrap = wrap,
            tr_missing_samples = 0, tr_detail = ''Initial sample counter observation.''\<rparr>, moved)
      | Some previous \<Rightarrow>
          if restart_hint
          then (\<lparr>tr_kind = Restart, tr_actual = actual, tr_previous = Some previous, tr_expected = None, tr_wrap = wrap,
                 tr_missing_samples = 0,
                 tr_detail = ''The counter state was reset by trusted restart/configuration evidence.''\<rparr>, moved)
          else if actual = previous
          then (\<lparr>tr_kind = Duplicate, tr_actual = actual, tr_previous = Some previous, tr_expected = tk_expected t,
                 tr_wrap = wrap, tr_missing_samples = 0, tr_detail = ''Duplicate smpCnt '' @ decimal (unat actual) @ ''.''\<rparr>, t)
          else let expected = (case tk_expected t of Some e \<Rightarrow> e | None \<Rightarrow> tracker_next previous wrap) in
            if actual = expected
            then let wrapped = (actual < previous) in
              (\<lparr>tr_kind = (if wrapped then Normal_wrap else Continuous), tr_actual = actual, tr_previous = Some previous,
                tr_expected = Some expected, tr_wrap = wrap, tr_missing_samples = 0,
                tr_detail = (if wrapped then ''Normal smpCnt wrap.'' else ''Continuous smpCnt transition.'')\<rparr>, moved)
            else let modulus = resolve_modulus wrap;
                     forward = distance_forward expected actual modulus;
                     backward = distance_forward actual expected modulus
              in if forward > 0 \<and> forward < backward
                 then (\<lparr>tr_kind = Gap, tr_actual = actual, tr_previous = Some previous, tr_expected = Some expected,
                        tr_wrap = wrap, tr_missing_samples = forward,
                        tr_detail = ''smpCnt advanced from expected '' @ decimal (unat expected) @ '' to '' @
                          decimal (unat actual) @ ''; '' @ decimal (unat forward) @ '' sample(s) were not observed.''\<rparr>, moved)
                 else (\<lparr>tr_kind = Out_of_order, tr_actual = actual, tr_previous = Some previous, tr_expected = Some expected,
                        tr_wrap = wrap, tr_missing_samples = 0,
                        tr_detail = ''smpCnt '' @ decimal (unat actual) @ '' is behind expected '' @
                          decimal (unat expected) @ ''.''\<rparr>, moved))"

subsection \<open>The stream supervisor\<close>

record sv_expectation =
  ex_sv_id :: "string option"
  ex_data_set_reference :: "string option"
  ex_configuration_revision :: "u32 option"
  ex_sample_counter_wrap :: "u16 option"

record sv_observation =
  ob_counter :: sv_transition
  ob_identity_matches :: bool
  ob_configuration_changed :: bool
  ob_diagnostics :: "string list"

record sv_statistics =
  st_observations :: u64
  st_continuous :: u64
  st_normal_wraps :: u64
  st_gaps :: u64
  st_duplicates :: u64
  st_out_of_order :: u64
  st_restarts :: u64
  st_missing_samples :: u64
  st_identity_mismatches :: u64
  st_configuration_changes :: u64

definition no_statistics :: sv_statistics where
  "no_statistics = \<lparr>st_observations = 0, st_continuous = 0, st_normal_wraps = 0, st_gaps = 0, st_duplicates = 0,
     st_out_of_order = 0, st_restarts = 0, st_missing_samples = 0, st_identity_mismatches = 0,
     st_configuration_changes = 0\<rparr>"

record sv_supervisor =
  su_expectation :: sv_expectation
  su_tracker :: sv_tracker
  su_statistics :: sv_statistics
  su_last_revision :: "u32 option"

definition supervisor_init :: "sv_expectation \<Rightarrow> sv_supervisor" where
  "supervisor_init e = \<lparr>su_expectation = e, su_tracker = \<lparr>tk_last = None, tk_expected = None\<rparr>,
     su_statistics = no_statistics, su_last_revision = None\<rparr>"

definition supervisor_reset :: "sv_supervisor \<Rightarrow> sv_supervisor" where
  "supervisor_reset s = s\<lparr>su_tracker := tracker_reset (su_tracker s), su_statistics := no_statistics, su_last_revision := None\<rparr>"

definition identity_diagnostics :: "sv_expectation \<Rightarrow> sv_asdu \<Rightarrow> string list" where
  "identity_diagnostics e a =
     (case ex_sv_id e of Some x \<Rightarrow>
        if x \<noteq> sv_id a then [''svID mismatch: expected '' @ [char_of (39 :: nat)] @ x @ [char_of (39 :: nat)] @
          '', observed '' @ [char_of (39 :: nat)] @ sv_id a @ [char_of (39 :: nat)] @ ''.''] else []
      | None \<Rightarrow> []) @
     (case ex_data_set_reference e of Some x \<Rightarrow>
        if x \<noteq> sv_data_set_reference a then [''datSet mismatch: expected '' @ [char_of (39 :: nat)] @ x @ [char_of (39 :: nat)] @
          '', observed '' @ [char_of (39 :: nat)] @ sv_data_set_reference a @ [char_of (39 :: nat)] @ ''.''] else []
      | None \<Rightarrow> []) @
     (case ex_configuration_revision e of Some x \<Rightarrow>
        if x \<noteq> sv_configuration_revision a then [''confRev mismatch: expected '' @ decimal (unat x) @ '', observed '' @
          decimal (unat (sv_configuration_revision a)) @ ''.''] else []
      | None \<Rightarrow> [])"

fun count_transition :: "sv_transition \<Rightarrow> sv_statistics \<Rightarrow> sv_statistics" where
  "count_transition t st = (case tr_kind t of
       Continuous \<Rightarrow> st\<lparr>st_continuous := st_continuous st + 1\<rparr>
     | Normal_wrap \<Rightarrow> st\<lparr>st_normal_wraps := st_normal_wraps st + 1\<rparr>
     | Gap \<Rightarrow> st\<lparr>st_gaps := st_gaps st + 1, st_missing_samples := st_missing_samples st + ucast (tr_missing_samples t)\<rparr>
     | Duplicate \<Rightarrow> st\<lparr>st_duplicates := st_duplicates st + 1\<rparr>
     | Out_of_order \<Rightarrow> st\<lparr>st_out_of_order := st_out_of_order st + 1\<rparr>
     | Restart \<Rightarrow> st\<lparr>st_restarts := st_restarts st + 1\<rparr>
     | Initial \<Rightarrow> st)"

definition revision_changed :: "sv_asdu \<Rightarrow> sv_supervisor \<Rightarrow> bool" where
  "revision_changed a s \<longleftrightarrow> su_last_revision s \<noteq> None \<and> su_last_revision s \<noteq> Some (sv_configuration_revision a)"

definition supervisor_observe :: "sv_asdu \<Rightarrow> bool \<Rightarrow> sv_supervisor \<Rightarrow> sv_observation \<times> sv_supervisor" where
  "supervisor_observe a restart_hint s =
     (let diagnostics = identity_diagnostics (su_expectation s) a;
          matches = (diagnostics = []);
          changed = revision_changed a s;
          (transition, tracker) = tracker_observe (sv_sample_count a) (ex_sample_counter_wrap (su_expectation s))
             (restart_hint \<or> changed) (su_tracker s);
          st = su_statistics s;
          st = st\<lparr>st_observations := st_observations st + 1\<rparr>;
          st = (if \<not> matches then st\<lparr>st_identity_mismatches := st_identity_mismatches st + 1\<rparr> else st);
          st = (if changed then st\<lparr>st_configuration_changes := st_configuration_changes st + 1\<rparr> else st)
      in (\<lparr>ob_counter = transition, ob_identity_matches = matches, ob_configuration_changed = changed,
           ob_diagnostics = diagnostics\<rparr>,
          s\<lparr>su_tracker := tracker, su_last_revision := Some (sv_configuration_revision a),
            su_statistics := count_transition transition st\<rparr>))"

text \<open>The ASDUs of one PDU; the hint applies to the first.\<close>

fun supervisor_observe_pdu :: "sv_asdu list \<Rightarrow> bool \<Rightarrow> sv_supervisor \<Rightarrow> sv_observation list \<times> sv_supervisor" where
  "supervisor_observe_pdu [] hint s = ([], s)"
| "supervisor_observe_pdu (a # as) hint s =
     (case supervisor_observe a hint s of (ob, s) \<Rightarrow>
        (case supervisor_observe_pdu as False s of (obs, s) \<Rightarrow> (ob # obs, s)))"

subsection \<open>Quality\<close>

datatype sv_validity = Good | Invalid | Reserved | Questionable

fun validity_code :: "sv_validity \<Rightarrow> u32" where
  "validity_code Good = 0"
| "validity_code Invalid = 1"
| "validity_code Reserved = 2"
| "validity_code Questionable = 3"

definition validity_of :: "u32 \<Rightarrow> sv_validity" where
  "validity_of v = (if v = 0 then Good else if v = 1 then Invalid else if v = 2 then Reserved else Questionable)"

record sv_quality =
  qu_validity :: sv_validity
  qu_overflow :: bool
  qu_out_of_range :: bool
  qu_bad_reference :: bool
  qu_oscillatory :: bool
  qu_failure :: bool
  qu_old_data :: bool
  qu_inconsistent :: bool
  qu_inaccurate :: bool
  qu_test :: bool
  qu_operator_blocked :: bool

definition flag_bit :: "nat \<Rightarrow> bool \<Rightarrow> u32 \<Rightarrow> u32" where
  "flag_bit i b v = (if b then v OR push_bit i 1 else v)"

definition quality_to_uint32 :: "sv_quality \<Rightarrow> u32" where
  "quality_to_uint32 q =
     (let v = validity_code (qu_validity q);
          v = flag_bit 2 (qu_overflow q) v; v = flag_bit 3 (qu_out_of_range q) v; v = flag_bit 4 (qu_bad_reference q) v;
          v = flag_bit 5 (qu_oscillatory q) v; v = flag_bit 6 (qu_failure q) v; v = flag_bit 7 (qu_old_data q) v;
          v = flag_bit 8 (qu_inconsistent q) v; v = flag_bit 9 (qu_inaccurate q) v; v = flag_bit 11 (qu_test q) v
      in flag_bit 12 (qu_operator_blocked q) v)"

definition quality_from_uint32 :: "u32 \<Rightarrow> sv_quality" where
  "quality_from_uint32 v =
     \<lparr>qu_validity = validity_of (v AND 0x03), qu_overflow = (v AND push_bit 2 1 \<noteq> 0), qu_out_of_range = (v AND push_bit 3 1 \<noteq> 0),
      qu_bad_reference = (v AND push_bit 4 1 \<noteq> 0), qu_oscillatory = (v AND push_bit 5 1 \<noteq> 0),
      qu_failure = (v AND push_bit 6 1 \<noteq> 0), qu_old_data = (v AND push_bit 7 1 \<noteq> 0),
      qu_inconsistent = (v AND push_bit 8 1 \<noteq> 0), qu_inaccurate = (v AND push_bit 9 1 \<noteq> 0),
      qu_test = (v AND push_bit 11 1 \<noteq> 0), qu_operator_blocked = (v AND push_bit 12 1 \<noteq> 0)\<rparr>"

definition quality_to_bytes :: "nat \<Rightarrow> sv_quality \<Rightarrow> bytes" where
  "quality_to_bytes width q =
     (if width = 0 then []
      else let encoded = be_bytes 4 (quality_to_uint32 q); count = min width 4
           in take count encoded @ replicate (width - count) 0)"

definition quality_from_bytes :: "bytes \<Rightarrow> sv_quality" where
  "quality_from_bytes bs = quality_from_uint32 (fold (\<lambda>i v. v OR push_bit (24 - i * 8) (ucast (bs ! i))) [0..<min (length bs) 4] 0)"

subsection \<open>Counter arithmetic\<close>

definition wrap_modulus :: "u16 option \<Rightarrow> nat" where
  "wrap_modulus wrap = (case wrap of Some w \<Rightarrow> if w > 1 then unat w else 65536 | None \<Rightarrow> 65536)"

lemma wrap_modulus_bounds: "2 \<le> wrap_modulus wrap" "wrap_modulus wrap \<le> 65536"
  using unat_less_exp [where 'a = 16]
  by (auto simp: wrap_modulus_def word_less_nat_alt less_imp_le split: option.split)

lemma unat_modulo: "unat (sv_modulo wrap) = wrap_modulus wrap" "unat (resolve_modulus wrap) = wrap_modulus wrap"
  by (auto simp: sv_modulo_def resolve_modulus_def wrap_modulus_def unat_ucast_widen split: option.split)

lemma tracker_next_unat: "unat (tracker_next v wrap) = (unat v + 1) mod wrap_modulus wrap"
proof -
  let ?m = "wrap_modulus wrap"
  have v: "unat v < 65536" using unat_less_exp [of v] by simp
  have sum: "unat (ucast v + 1 :: u64) = unat v + 1"
    using v by (simp add: unat_word_ariths unat_ucast_widen)
  have "(unat v + 1) mod ?m < 65536"
    using wrap_modulus_bounds [of wrap] by (intro order.strict_trans2 [OF mod_less_divisor]) simp_all
  then show ?thesis
    by (simp add: tracker_next_def sv_increment_def unsigned_ucast_eq unat_mod_distrib sum [simplified] unat_modulo take_bit_nat_eq_self)
qed

lemma distance_forward_uint:
  "uint (distance_forward a b (resolve_modulus wrap)) = (uint b - uint a) mod int (wrap_modulus wrap)"
proof -
  let ?m = "int (wrap_modulus wrap)"
  have m: "uint (resolve_modulus wrap) = ?m" by (simp add: uint_nat unat_modulo)
  have pos: "0 < ?m" using wrap_modulus_bounds(1) [of wrap] by simp
  have rem: "(if signed_rem x ?m < 0 then signed_rem x ?m + ?m else signed_rem x ?m) = x mod ?m" for x
    using pos pos_mod_bound [OF pos, of x] pos_mod_sign [OF pos, of x]
    by (auto simp: signed_rem_def zmod_zminus1_eq_if not_less)
  have "0 \<le> (uint b - uint a) mod ?m" using pos by simp
  moreover have "(uint b - uint a) mod ?m < 2 ^ 32"
    using wrap_modulus_bounds(2) [of wrap] by (intro order.strict_trans2 [OF pos_mod_bound [OF pos]]) simp
  moreover have "distance_forward a b (resolve_modulus wrap) = word_of_int ((uint b - uint a) mod ?m)"
    by (simp only: distance_forward_def Let_def m rem)
  ultimately show ?thesis by (simp add: uint_word_of_int)
qed

subsection \<open>Bookkeeping\<close>

datatype supervisor_event = Observe sv_asdu bool | Reset_supervisor

fun supervisor_step :: "supervisor_event \<Rightarrow> sv_supervisor \<Rightarrow> sv_supervisor" where
  "supervisor_step (Observe a hint) s = snd (supervisor_observe a hint s)"
| "supervisor_step Reset_supervisor s = supervisor_reset s"

definition classified :: "sv_statistics \<Rightarrow> u64" where
  "classified st = st_continuous st + st_normal_wraps st + st_gaps st + st_duplicates st + st_out_of_order st + st_restarts st"

definition supervisor_inv :: "sv_supervisor \<Rightarrow> bool" where
  "supervisor_inv s \<longleftrightarrow>
     st_observations (su_statistics s) = (if tk_last (su_tracker s) = None then 0 else 1) + classified (su_statistics s) \<and>
     tk_expected (su_tracker s) =
       map_option (\<lambda>v. tracker_next v (ex_sample_counter_wrap (su_expectation s))) (tk_last (su_tracker s)) \<and>
     (su_last_revision s = None \<longleftrightarrow> tk_last (su_tracker s) = None)"

lemma supervisor_observe_fields:
  assumes "tracker_observe (sv_sample_count a) (ex_sample_counter_wrap (su_expectation s)) (hint \<or> revision_changed a s)
    (su_tracker s) = (t, tk)"
  shows "su_tracker (snd (supervisor_observe a hint s)) = tk"
    "su_last_revision (snd (supervisor_observe a hint s)) = Some (sv_configuration_revision a)"
    "su_expectation (snd (supervisor_observe a hint s)) = su_expectation s"
    "st_observations (su_statistics (snd (supervisor_observe a hint s))) = st_observations (su_statistics s) + 1"
    "classified (su_statistics (snd (supervisor_observe a hint s))) =
       classified (su_statistics s) + (if tr_kind t = Initial then 0 else 1)"
    "st_missing_samples (su_statistics (snd (supervisor_observe a hint s))) =
       st_missing_samples (su_statistics s) + (if tr_kind t = Gap then ucast (tr_missing_samples t) else 0)"
    "st_gaps (su_statistics (snd (supervisor_observe a hint s))) =
       st_gaps (su_statistics s) + (if tr_kind t = Gap then 1 else 0)"
    "st_duplicates (su_statistics (snd (supervisor_observe a hint s))) =
       st_duplicates (su_statistics s) + (if tr_kind t = Duplicate then 1 else 0)"
    "st_out_of_order (su_statistics (snd (supervisor_observe a hint s))) =
       st_out_of_order (su_statistics s) + (if tr_kind t = Out_of_order then 1 else 0)"
    "st_restarts (su_statistics (snd (supervisor_observe a hint s))) =
       st_restarts (su_statistics s) + (if tr_kind t = Restart then 1 else 0)"
  by (cases "tr_kind t"; simp add: supervisor_observe_def assms classified_def Let_def)+

lemma supervisor_observe_inv: "supervisor_inv s \<Longrightarrow> supervisor_inv (snd (supervisor_observe a hint s))"
proof -
  assume inv: "supervisor_inv s"
  let ?w = "ex_sample_counter_wrap (su_expectation s)"
  obtain t tk where obs: "tracker_observe (sv_sample_count a) ?w (hint \<or> revision_changed a s) (su_tracker s) = (t, tk)"
    by fastforce
  have "tk_last tk \<noteq> None" "tk_expected tk = map_option (\<lambda>v. tracker_next v ?w) (tk_last tk)"
      "tr_kind t = Initial \<longleftrightarrow> tk_last (su_tracker s) = None"
    using obs inv by (auto simp: tracker_observe_def supervisor_inv_def Let_def split: option.splits if_splits)
  then show ?thesis
    using inv by (auto simp: supervisor_inv_def supervisor_observe_fields [OF obs])
qed

interpretation supervision: machine supervisor_step "\<lambda>_ _. True" supervisor_inv
proof
  fix s e assume "supervisor_inv s"
  then show "supervisor_inv (supervisor_step e s)"
    by (cases e)
      (simp_all add: supervisor_observe_inv,
        simp add: supervisor_reset_def supervisor_inv_def tracker_reset_def no_statistics_def classified_def)
qed

text \<open>The stream statistics account for every observation: after any sequence of observations,
  with or without restart hints, and resets, every observed ASDU after the first is counted in exactly one
  of the six transition classes (modulo the 64-bit width), and the expected counter is always the
  successor of the last one in the configured range.\<close>

theorem sv_supervisor_bookkeeping:
  "let s = fold supervisor_step es (supervisor_init e) in
     st_observations (su_statistics s) = (if tk_last (su_tracker s) = None then 0 else 1) + classified (su_statistics s) \<and>
     tk_expected (su_tracker s) = map_option (\<lambda>v. tracker_next v (ex_sample_counter_wrap (su_expectation s))) (tk_last (su_tracker s))"
proof -
  have "supervisor_inv (supervisor_init e)"
    by (simp add: supervisor_inv_def supervisor_init_def no_statistics_def classified_def)
  from supervision.run_inv [OF run_ok_always this, of es] show ?thesis by (simp add: supervisor_inv_def Let_def)
qed

subsection \<open>Counting losses\<close>

text \<open>Sample \<open>k\<close> of a publisher that starts at \<open>c0\<close> and counts in the range of the stream.  A stream is
  delivered in order, with less than half a period lost between two received samples.\<close>

definition nth_count :: "u16 option \<Rightarrow> nat \<Rightarrow> nat \<Rightarrow> u16" where
  "nth_count wrap c0 k = of_nat ((c0 + k) mod wrap_modulus wrap)"

fun delivered_in_order :: "nat \<Rightarrow> nat list \<Rightarrow> bool" where
  "delivered_in_order m (k # k' # ks) \<longleftrightarrow> k < k' \<and> 2 * (k' - Suc k) < m \<and> delivered_in_order m (k' # ks)"
| "delivered_in_order m _ \<longleftrightarrow> True"

lemma unat_nth_count: "unat (nth_count wrap c0 k) = (c0 + k) mod wrap_modulus wrap"
proof -
  have "(c0 + k) mod wrap_modulus wrap < 65536"
    using wrap_modulus_bounds [of wrap] by (intro order.strict_trans2 [OF mod_less_divisor]) simp_all
  then show ?thesis by (simp add: nth_count_def unat_of_nat)
qed

lemma tracker_next_nth: "tracker_next (nth_count wrap c0 k) wrap = nth_count wrap c0 (Suc k)"
  by (simp add: word_unat_eq_iff tracker_next_unat unat_nth_count mod_Suc_eq)

lemma nth_count_eq_iff: "nth_count wrap c0 j = nth_count wrap c0 k \<longleftrightarrow> (c0 + j) mod wrap_modulus wrap = (c0 + k) mod wrap_modulus wrap"
  by (simp add: word_unat_eq_iff unat_nth_count)

lemma distance_nth:
  "uint (distance_forward (nth_count wrap c0 j) (nth_count wrap c0 k) (resolve_modulus wrap)) =
     (int k - int j) mod int (wrap_modulus wrap)"
proof -
  have "uint (nth_count wrap c0 i) = (int c0 + int i) mod int (wrap_modulus wrap)" for i
    by (simp only: uint_nat unat_nth_count zmod_int of_nat_add)
  then have "uint (distance_forward (nth_count wrap c0 j) (nth_count wrap c0 k) (resolve_modulus wrap)) =
      ((int c0 + int k) - (int c0 + int j)) mod int (wrap_modulus wrap)"
    by (simp only: distance_forward_uint mod_diff_eq)
  then show ?thesis by simp
qed

lemma mod_distinct:
  assumes "j < k" "k - j < (m :: nat)"
  shows "(c + k) mod m \<noteq> (c + j) mod m"
proof
  assume "(c + k) mod m = (c + j) mod m"
  then have "m dvd (c + k) - (c + j)" using assms(1) by (subst mod_eq_dvd_iff_nat [symmetric]) simp_all
  then have "m dvd k - j" by simp
  with assms show False by (auto dest: dvd_imp_le)
qed

lemma tracker_observe_nth:
  assumes "k < k'" "2 * (k' - Suc k) < wrap_modulus wrap"
    and t: "tk_last t = Some (nth_count wrap c0 k)" "tk_expected t = Some (nth_count wrap c0 (Suc k))"
  obtains tr t' where "tracker_observe (nth_count wrap c0 k') wrap False t = (tr, t')"
    "tk_last t' = Some (nth_count wrap c0 k')" "tk_expected t' = Some (nth_count wrap c0 (Suc k'))"
    "tr_kind tr \<in> {Continuous, Normal_wrap, Gap}" "tr_kind tr = Gap \<longleftrightarrow> k' \<noteq> Suc k"
    "tr_kind tr = Gap \<Longrightarrow> tr_missing_samples tr = of_nat (k' - Suc k)"
proof -
  let ?m = "wrap_modulus wrap" and ?n = "nth_count wrap c0" and ?d = "k' - Suc k"
  have m: "2 \<le> ?m" "?m \<le> 65536" by (rule wrap_modulus_bounds)+
  have "k' - k < ?m" using assms(1,2) m(1) by linarith
  then have prev: "?n k' \<noteq> ?n k" using mod_distinct [OF assms(1)] by (simp add: nth_count_eq_iff)
  have exp: "?n k' = ?n (Suc k) \<longleftrightarrow> k' = Suc k"
  proof
    assume eq: "?n k' = ?n (Suc k)"
    show "k' = Suc k"
    proof (rule ccontr)
      assume "k' \<noteq> Suc k"
      then have "Suc k < k'" "k' - Suc k < ?m" using assms(1,2) by linarith+
      from mod_distinct [OF this] eq show False by (simp only: nth_count_eq_iff)
    qed
  qed simp
  have fwd: "uint (distance_forward (?n (Suc k)) (?n k') (resolve_modulus wrap)) = int ?d"
    using assms(1,2) by (simp add: distance_nth of_nat_diff mod_pos_pos_trivial)
  have bwd: "uint (distance_forward (?n k') (?n (Suc k)) (resolve_modulus wrap)) = int ?m - int ?d" if "0 < ?d"
  proof -
    have "(int (Suc k) - int k') mod int ?m = (int (Suc k) - int k' + int ?m) mod int ?m" by simp
    also have "\<dots> = int (Suc k) - int k' + int ?m" using that assms(2) by (intro mod_pos_pos_trivial) linarith+
    finally show ?thesis using that by (simp add: distance_nth of_nat_diff)
  qed
  have gap: "distance_forward (?n (Suc k)) (?n k') (resolve_modulus wrap) > 0 \<and>
      distance_forward (?n (Suc k)) (?n k') (resolve_modulus wrap) < distance_forward (?n k') (?n (Suc k)) (resolve_modulus wrap)"
    if "k' \<noteq> Suc k"
  proof -
    have "0 < ?d" using that assms(1) by simp
    then show ?thesis using fwd bwd assms(2) by (simp add: word_less_def)
  qed
  have missing: "distance_forward (?n (Suc k)) (?n k') (resolve_modulus wrap) = of_nat ?d"
    using fwd by (metis of_int_of_nat_eq word_of_int_uint)
  obtain tr t' where obs: "tracker_observe (?n k') wrap False t = (tr, t')" by fastforce
  from obs t prev exp gap missing show thesis
    by (intro that [OF obs]) (auto simp: tracker_observe_def tracker_next_nth Let_def split: if_splits)
qed

definition observe_stream :: "u16 option \<Rightarrow> nat \<Rightarrow> sv_asdu \<Rightarrow> nat list \<Rightarrow> sv_supervisor \<Rightarrow> sv_supervisor" where
  "observe_stream wrap c0 a ks s = fold (\<lambda>k s. snd (supervisor_observe (a\<lparr>sv_sample_count := nth_count wrap c0 k\<rparr>) False s)) ks s"

lemma observe_stream_counts:
  assumes "delivered_in_order (wrap_modulus wrap) (k # ks)" "ex_sample_counter_wrap (su_expectation s) = wrap"
    "tk_last (su_tracker s) = Some (nth_count wrap c0 k)" "tk_expected (su_tracker s) = Some (nth_count wrap c0 (Suc k))"
    "su_last_revision s = Some (sv_configuration_revision a)"
  shows "let s' = su_statistics (observe_stream wrap c0 a ks s); st = su_statistics s in
    k + length ks \<le> last (k # ks) \<and>
    st_missing_samples s' = st_missing_samples st + of_nat (last (k # ks) - k - length ks) \<and>
    st_observations s' = st_observations st + of_nat (length ks) \<and>
    st_duplicates s' = st_duplicates st \<and> st_out_of_order s' = st_out_of_order st \<and> st_restarts s' = st_restarts st"
  using assms
proof (induction ks arbitrary: k s)
  case Nil
  then show ?case by (simp add: observe_stream_def)
next
  case (Cons k' ks)
  let ?a = "a\<lparr>sv_sample_count := nth_count wrap c0 k'\<rparr>"
  let ?s = "snd (supervisor_observe ?a False s)"
  have step: "k < k'" "2 * (k' - Suc k) < wrap_modulus wrap" and rest: "delivered_in_order (wrap_modulus wrap) (k' # ks)"
    using Cons.prems(1) by simp_all
  obtain tr t' where obs: "tracker_observe (nth_count wrap c0 k') wrap False (su_tracker s) = (tr, t')"
    and t': "tk_last t' = Some (nth_count wrap c0 k')" "tk_expected t' = Some (nth_count wrap c0 (Suc k'))"
    and tr: "tr_kind tr \<in> {Continuous, Normal_wrap, Gap}" "tr_kind tr = Gap \<longleftrightarrow> k' \<noteq> Suc k"
      "tr_kind tr = Gap \<Longrightarrow> tr_missing_samples tr = of_nat (k' - Suc k)"
    using tracker_observe_nth [OF step Cons.prems(3,4)] by metis
  have "\<not> revision_changed ?a s" using Cons.prems(5) by (simp add: revision_changed_def)
  with obs Cons.prems(2) have "tracker_observe (sv_sample_count ?a) (ex_sample_counter_wrap (su_expectation s))
      (False \<or> revision_changed ?a s) (su_tracker s) = (tr, t')" by simp
  note f = supervisor_observe_fields [OF this]
  have small: "k' - Suc k < 2 ^ 32" using step(2) wrap_modulus_bounds(2) [of wrap] by simp
  then have miss: "st_missing_samples (su_statistics ?s) = st_missing_samples (su_statistics s) + of_nat (k' - Suc k)"
    using f(6) tr by (auto simp: word_unat_eq_iff unat_word_ariths unat_ucast_widen unat_of_nat)
  have "let s' = su_statistics (observe_stream wrap c0 a ks ?s); st = su_statistics ?s in
    k' + length ks \<le> last (k' # ks) \<and>
    st_missing_samples s' = st_missing_samples st + of_nat (last (k' # ks) - k' - length ks) \<and>
    st_observations s' = st_observations st + of_nat (length ks) \<and>
    st_duplicates s' = st_duplicates st \<and> st_out_of_order s' = st_out_of_order st \<and> st_restarts s' = st_restarts st"
    using Cons.prems(2) t' f(1-3) by (intro Cons.IH rest) simp_all
  moreover have "observe_stream wrap c0 a (k' # ks) s = observe_stream wrap c0 a ks ?s" by (simp add: observe_stream_def)
  moreover have "last (k # k' # ks) - k - length (k' # ks) = (k' - Suc k) + (last (k' # ks) - k' - length ks)"
    if "k' + length ks \<le> last (k' # ks)" using that step(1) by simp
  ultimately show ?case
    using miss f(4,8-10) tr(1) step(1) by (auto simp: Let_def add.assoc)
qed

text \<open>C24.  Lost samples are counted exactly: when a publisher counts in the configured range, from any start
  value and across any number of wraps, and the network drops samples but keeps the order and never loses
  half a period at once, the supervisor reports exactly the number of samples that were not delivered
  between the first and the last observed one, and no duplicate, reordering or restart.\<close>

theorem sv_losses_counted:
  assumes "delivered_in_order (wrap_modulus wrap) (k # ks)" "ex_sample_counter_wrap e = wrap"
  shows "let st = su_statistics (observe_stream wrap c0 a (k # ks) (supervisor_init e)) in
    st_missing_samples st = of_nat (last (k # ks) - k - length ks) \<and> st_observations st = of_nat (length (k # ks)) \<and>
    st_duplicates st = 0 \<and> st_out_of_order st = 0 \<and> st_restarts st = 0"
proof -
  let ?a = "a\<lparr>sv_sample_count := nth_count wrap c0 k\<rparr>" and ?s = "supervisor_init e"
  obtain t tk where obs: "tracker_observe (sv_sample_count ?a) (ex_sample_counter_wrap (su_expectation ?s))
      (False \<or> revision_changed ?a ?s) (su_tracker ?s) = (t, tk)" by fastforce
  then have t: "tr_kind t = Initial" "tk_last tk = Some (nth_count wrap c0 k)" "tk_expected tk = Some (nth_count wrap c0 (Suc k))"
    using assms(2) by (auto simp: tracker_observe_def supervisor_init_def tracker_next_nth Let_def)
  note f = supervisor_observe_fields [OF obs]
  have "observe_stream wrap c0 a (k # ks) ?s = observe_stream wrap c0 a ks (snd (supervisor_observe ?a False ?s))"
    by (simp add: observe_stream_def)
  then show ?thesis
    using observe_stream_counts [OF assms(1), of "snd (supervisor_observe ?a False ?s)" c0 a] f t assms(2)
    by (simp add: Let_def supervisor_init_def no_statistics_def)
qed

theorem sv_losses_counted_witness:
  "let st = su_statistics (observe_stream (Some 4000) 3998 (sv_asdu_init\<lparr>sv_id := ''MU01''\<rparr>) [0, 1, 5, 6]
       (supervisor_init \<lparr>ex_sv_id = Some ''MU01'', ex_data_set_reference = None, ex_configuration_revision = None,
          ex_sample_counter_wrap = Some 4000\<rparr>)) in
     st_missing_samples st = 3 \<and> st_observations st = 4"
  using sv_losses_counted [of "Some 4000" 0 "[1, 5, 6]" "\<lparr>ex_sv_id = Some ''MU01'', ex_data_set_reference = None,
      ex_configuration_revision = None, ex_sample_counter_wrap = Some 4000\<rparr>" 3998 "sv_asdu_init\<lparr>sv_id := ''MU01''\<rparr>"]
  by (simp add: wrap_modulus_def Let_def)

subsection \<open>Quality words\<close>

lemma bit_flag_bit: "bit (flag_bit i b v) k \<longleftrightarrow> bit v k \<or> (b \<and> k = i \<and> i < 32)"
  by (auto simp: flag_bit_def bit_simps)

lemma flag_test: "(v AND push_bit i 1 \<noteq> (0 :: u32)) \<longleftrightarrow> bit v i"
  by (simp add: push_bit_of_1 and_exp_eq_0_iff_not_bit)

lemma bit_validity_code: "bit (validity_code x) k \<longleftrightarrow> (k = 0 \<and> x \<in> {Invalid, Questionable}) \<or> (k = 1 \<and> x \<in> {Reserved, Questionable})"
proof -
  have "bit (1 :: u32) k \<longleftrightarrow> k = 0" "bit (2 :: u32) k \<longleftrightarrow> k = 1" "bit (3 :: u32) k \<longleftrightarrow> k = 0 \<or> k = 1"
    by (auto simp: bit_1_iff bit_numeral_rec(1) bit_numeral_rec(2) split: nat.split)
  then show ?thesis by (cases x) auto
qed

lemma bit_quality:
  "bit (quality_to_uint32 q) k \<longleftrightarrow> bit (validity_code (qu_validity q)) k \<or> (k = 2 \<and> qu_overflow q) \<or> (k = 3 \<and> qu_out_of_range q) \<or>
     (k = 4 \<and> qu_bad_reference q) \<or> (k = 5 \<and> qu_oscillatory q) \<or> (k = 6 \<and> qu_failure q) \<or> (k = 7 \<and> qu_old_data q) \<or>
     (k = 8 \<and> qu_inconsistent q) \<or> (k = 9 \<and> qu_inaccurate q) \<or> (k = 11 \<and> qu_test q) \<or> (k = 12 \<and> qu_operator_blocked q)"
  by (auto simp: quality_to_uint32_def Let_def bit_flag_bit)

lemma low_two_bits: "(v :: u32) AND 0x03 = take_bit 2 v"
  by (simp add: take_bit_eq_mask mask_eq_exp_minus_1)

lemma validity_of_bits:
  "validity_of (v AND 0x03) = (if bit v 1 then if bit v 0 then Questionable else Reserved else if bit v 0 then Invalid else Good)"
proof -
  have "take_bit 2 v = of_bool (bit v 0) + 2 * of_bool (bit v 1)"
    by (simp add: numeral_2_eq_2 take_bit_Suc bit_Suc bit_0 odd_iff_mod_2_eq_one [symmetric] mod_2_eq_odd)
  then show ?thesis by (simp add: low_two_bits validity_of_def)
qed

lemma quality_from_bits:
  "quality_from_uint32 v =
     \<lparr>qu_validity = (if bit v 1 then if bit v 0 then Questionable else Reserved else if bit v 0 then Invalid else Good),
      qu_overflow = bit v 2, qu_out_of_range = bit v 3, qu_bad_reference = bit v 4, qu_oscillatory = bit v 5,
      qu_failure = bit v 6, qu_old_data = bit v 7, qu_inconsistent = bit v 8, qu_inaccurate = bit v 9,
      qu_test = bit v 11, qu_operator_blocked = bit v 12\<rparr>"
  unfolding quality_from_uint32_def flag_test validity_of_bits by (rule refl)

lemma bit_quality_mask: "bit (0x1BFF :: u32) k \<longleftrightarrow> k \<in> {0, 1, 2, 3, 4, 5, 6, 7, 8, 9, 11, 12}"
proof (cases "k < 13")
  case True
  then have "k \<in> {0, 1, 2, 3, 4, 5, 6, 7, 8, 9, 10, 11, 12}" by (simp only: insert_iff empty_iff) presburger
  then show ?thesis by auto
next
  case False
  then have "\<not> bit (take_bit 13 (0x1BFF :: u32)) k" by (simp only: bit_take_bit_iff simp_thms)
  then have "\<not> bit (0x1BFF :: u32) k" by simp
  with False show ?thesis by auto
qed

lemma quality_from_to: "quality_from_uint32 (quality_to_uint32 q) = q"
  unfolding quality_from_bits bit_quality bit_validity_code by (cases q; cases "qu_validity q") simp_all

lemma quality_read_bytes:
  assumes "length bs \<ge> 4"
  shows "quality_from_bytes bs = quality_from_uint32 (be_value (take 4 bs))"
proof -
  obtain a b c d rest where bs: "bs = a # b # c # d # rest"
    using assms by (auto simp: numeral_eq_Suc Suc_le_length_iff)
  have "fold (\<lambda>i v. v OR push_bit (24 - i * 8) (ucast (bs ! i))) [0..<4] 0 = (be_value [a, b, c, d] :: u32)"
    by (rule bit_word_eqI)
      (auto simp: bs be_value_def upt_rec bit_simps)
  moreover have "min (length bs) 4 = 4" "take 4 bs = [a, b, c, d]" using assms by (simp_all add: bs)
  ultimately show ?thesis by (simp only: quality_from_bytes_def)
qed

text \<open>The quality word: every combination of validity and flags survives encoding, as a number and as
  octets of at least four; an encoded word keeps exactly the defined bits.  With a width of one or two the
  octets are zero whatever the quality, because the leading octets of the word are the ones kept.\<close>

theorem sv_quality_round_trip:
  "quality_from_uint32 (quality_to_uint32 q) = q \<and>
   quality_to_uint32 (quality_from_uint32 v) = v AND 0x1BFF \<and>
   (width \<ge> 4 \<longrightarrow> length (quality_to_bytes width q) = width \<and> quality_from_bytes (quality_to_bytes width q) = q) \<and>
   (width \<le> 2 \<longrightarrow> quality_to_bytes width q = replicate width 0)"
proof (intro conjI impI)
  show "quality_from_uint32 (quality_to_uint32 q) = q" by (rule quality_from_to)
  show "quality_to_uint32 (quality_from_uint32 v) = v AND 0x1BFF"
  proof (rule bit_word_eqI)
    fix k assume "k < LENGTH(32)"
    have "bit (v AND 0x1BFF) k \<longleftrightarrow> bit v k \<and> k \<in> {0, 1, 2, 3, 4, 5, 6, 7, 8, 9, 11, 12}"
      by (simp only: bit_and_iff bit_quality_mask)
    also have "\<dots> \<longleftrightarrow> bit (quality_to_uint32 (quality_from_uint32 v)) k"
      by (auto simp: bit_quality bit_validity_code quality_from_bits)
    finally show "bit (quality_to_uint32 (quality_from_uint32 v)) k = bit (v AND 0x1BFF) k" by simp
  qed
next
  assume w: "width \<ge> 4"
  then show len: "length (quality_to_bytes width q) = width" by (simp add: quality_to_bytes_def Let_def)
  have "take 4 (quality_to_bytes width q) = be_bytes 4 (quality_to_uint32 q)"
    using w by (simp add: quality_to_bytes_def Let_def)
  then show "quality_from_bytes (quality_to_bytes width q) = q"
    using w len quality_read_bytes [of "quality_to_bytes width q"] be_value_be_bytes [of 4 "quality_to_uint32 q", where 'b = 32]
    by (simp add: quality_from_to)
next
  assume "width \<le> 2"
  have "drop_bit 16 (quality_to_uint32 q) = 0"
    by (rule bit_word_eqI) (auto simp: bit_drop_bit_eq bit_quality bit_validity_code)
  then have "drop_bit 24 (quality_to_uint32 q) = 0" using drop_bit_drop_bit [of 8 16 "quality_to_uint32 q"] by simp
  with \<open>drop_bit 16 (quality_to_uint32 q) = 0\<close> have "take 2 (be_bytes 4 (quality_to_uint32 q)) = [0, 0]"
    by (simp add: be_bytes_def upt_rec)
  moreover have "take width (be_bytes 4 (quality_to_uint32 q)) = take width (take 2 (be_bytes 4 (quality_to_uint32 q)))"
    using \<open>width \<le> 2\<close> by (simp add: min_def)
  moreover have "width = 0 \<or> width = 1 \<or> width = 2" using \<open>width \<le> 2\<close> by linarith
  ultimately show "quality_to_bytes width q = replicate width 0"
    by (auto simp: quality_to_bytes_def Let_def numeral_2_eq_2)
qed

theorem sv_quality_round_trip_witness:
  "quality_from_bytes (quality_to_bytes 4 ((quality_from_uint32 0)\<lparr>qu_test := True\<rparr>)) = (quality_from_uint32 0)\<lparr>qu_test := True\<rparr>"
  using sv_quality_round_trip [of "(quality_from_uint32 0)\<lparr>qu_test := True\<rparr>" 0 4] by simp

end
