(* ===== verification/Control_Planner.thy ===== *)
theory Control_Planner
  imports Prelude
begin

text \<open>
  The control planner (\<open>src/control/guarded_control.cpp\<close>): references of control objects, and the state
  machine that decides on select, operate and cancel of one controllable object.  The authorisation
  callback is a parameter.
\<close>

datatype control_model = Status_only | Direct_normal | Sbo_normal | Direct_enhanced | Sbo_enhanced | Unknown_model

datatype control_action = Act_select | Act_select_with_value | Act_operate | Act_cancel

text \<open>Origin categories, control errors and additional causes by their codes.\<close>

type_synonym origin_category = u8
type_synonym control_error = u8
type_synonym add_cause = u8

abbreviation (input) "no_error \<equiv> 0 :: control_error"
abbreviation (input) "ac_unknown \<equiv> 0 :: add_cause"
abbreviation (input) "ac_not_supported \<equiv> 1 :: add_cause"
abbreviation (input) "ac_command_already_in_execution \<equiv> 12 :: add_cause"
abbreviation (input) "ac_abortion_by_cancel \<equiv> 15 :: add_cause"
abbreviation (input) "ac_time_limit_over \<equiv> 16 :: add_cause"
abbreviation (input) "ac_object_not_selected \<equiv> 18 :: add_cause"
abbreviation (input) "ac_object_already_selected \<equiv> 19 :: add_cause"
abbreviation (input) "ac_no_access_authority \<equiv> 20 :: add_cause"
abbreviation (input) "ac_none \<equiv> 25 :: add_cause"
abbreviation (input) "ac_inconsistent_parameters \<equiv> 26 :: add_cause"
abbreviation (input) "ac_locked_by_other_client \<equiv> 27 :: add_cause"

datatype guarded_status = Ctl_ok | Accepted_waiting_termination | Positive_termination | Negative_termination | Unsupported
  | Invalid_identity | Invalid_sequence | Access_denied | Object_not_selected | Object_already_selected
  | Locked_by_other_client | Selection_expired | Sequence_mismatch | Command_already_in_execution
  | No_active_selection | No_pending_termination

record control_reference =
  cr_domain :: string
  cr_logical_node :: string
  cr_data_object_path :: string

definition reference_valid :: "control_reference \<Rightarrow> bool" where
  "reference_valid r \<longleftrightarrow> cr_domain r \<noteq> [] \<and> cr_logical_node r \<noteq> [] \<and> cr_data_object_path r \<noteq> []"

subsection \<open>References\<close>

definition ascii_lower :: "char \<Rightarrow> char" where
  "ascii_lower c = (let n = of_char c :: nat in if 65 \<le> n \<and> n \<le> 90 then char_of (n - 65 + 97) else c)"

definition ascii_equal :: "string \<Rightarrow> string \<Rightarrow> bool" where
  "ascii_equal l r \<longleftrightarrow> length l = length r \<and> list_all2 (\<lambda>x y. ascii_lower x = ascii_lower y) l r"

definition service_leaves :: "string list" where
  "service_leaves = [''ctlModel'', ''ctlVal'', ''ctlNum'', ''stSeld'', ''Oper'', ''SBO'', ''SBOw'', ''Cancel'', ''origin'',
     ''orCat'', ''orIdent'', ''T'', ''Test'', ''Check'', ''operTm'']"

definition service_leaf :: "string \<Rightarrow> bool" where
  "service_leaf segment \<longleftrightarrow> list_ex (ascii_equal segment) service_leaves"

definition is_blank :: "char \<Rightarrow> bool" where
  "is_blank c \<longleftrightarrow> c = CHR '' '' \<or> of_char c = (9 :: nat) \<or> of_char c = (13 :: nat) \<or> of_char c = (10 :: nat)"

definition trim :: "string \<Rightarrow> string" where
  "trim s = rev (dropWhile is_blank (rev (dropWhile is_blank s)))"

definition path_separator :: "char \<Rightarrow> bool" where
  "path_separator c \<longleftrightarrow> c = CHR ''.'' \<or> c = CHR ''$''"

function segments_ok :: "string \<Rightarrow> bool" where
  "segments_ok path =
     (let segment = takeWhile (\<lambda>c. \<not> path_separator c) path; rest = drop (length segment) path in
      if CHR ''/'' \<in> set segment \<or> segment = [] \<or> service_leaf segment then False
      else case rest of [] \<Rightarrow> True | _ # rest' \<Rightarrow> (if rest' = [] then False else segments_ok rest'))"
  by pat_completeness auto
termination
proof (relation "measure length")
  fix path segment rest :: string and c rest'
  assume "segment = takeWhile (\<lambda>c. \<not> path_separator c) path" "rest = drop (length segment) path" "rest = c # rest'"
  then have "length (c # rest') \<le> length path" by (metis length_drop diff_le_self)
  then show "(rest', path) \<in> measure length" by simp
qed simp

declare segments_ok.simps [simp del]

definition try_parse_control_object_reference :: "string \<Rightarrow> control_reference option" where
  "try_parse_control_object_reference reference =
     (let normalized = trim reference; before = takeWhile (\<lambda>c. c \<noteq> CHR ''/'') normalized;
          after = drop (length before) normalized in
      if after = [] \<or> before = [] \<or> tl after = [] \<or> CHR ''/'' \<in> set (tl after) then None
      else let domain = trim before; path = trim (tl after) in
        if domain = [] \<or> path = [] then None
        else let logical_node = takeWhile (\<lambda>c. \<not> path_separator c) path; rest = drop (length logical_node) path in
          if rest = [] \<or> logical_node = [] \<or> tl rest = [] then None
          else if \<not> segments_ok (tl rest) then None
          else Some \<lparr>cr_domain = domain, cr_logical_node = logical_node, cr_data_object_path = tl rest\<rparr>)"

definition append_item :: "string \<Rightarrow> string" where
  "append_item = map (\<lambda>c. if path_separator c then CHR ''$'' else c)"

text \<open>Success, the number of characters (written, or required when the destination is too small) and
  the destination.\<close>

definition build_control_item :: "control_reference \<Rightarrow> string \<Rightarrow> string \<Rightarrow> string \<Rightarrow> bool \<times> nat \<times> string" where
  "build_control_item r functional_constraint leaf destination =
     (if \<not> reference_valid r \<or> functional_constraint = [] \<or> leaf = [] \<or> CHR ''$'' \<in> set functional_constraint \<or>
         CHR ''$'' \<in> set leaf \<or> CHR ''.'' \<in> set leaf
      then (False, 0, destination)
      else let required = length (cr_logical_node r) + 1 + length functional_constraint + 1 +
                 length (cr_data_object_path r) + 1 + length leaf in
        if length destination < required then (False, required, destination)
        else let text = append_item (cr_logical_node r) @ ''$'' @ append_item functional_constraint @ ''$'' @
                   append_item (cr_data_object_path r) @ ''$'' @ append_item leaf
          in (True, length text, text @ drop (length text) destination))"

subsection \<open>The planner\<close>

record control_sequence =
  cq_control_value :: bytes
  cq_origin_category :: origin_category
  cq_origin_identifier :: bytes
  cq_control_number :: u8
  cq_timestamp_token :: u64
  cq_operate_at_token :: u64
  cq_test :: bool
  cq_interlock_check :: bool
  cq_synchro_check :: bool

definition sequence_valid :: "control_sequence \<Rightarrow> bool" where
  "sequence_valid q \<longleftrightarrow> cq_control_value q \<noteq> [] \<and> length (cq_origin_identifier q) \<le> 64 \<and> cq_origin_category q \<le> 8"

definition empty_sequence :: control_sequence where
  "empty_sequence = \<lparr>cq_control_value = [], cq_origin_category = 2, cq_origin_identifier = [], cq_control_number = 0,
     cq_timestamp_token = 0, cq_operate_at_token = 0, cq_test = False, cq_interlock_check = False, cq_synchro_check = False\<rparr>"

record control_decision =
  cd_status :: guarded_status
  cd_action :: control_action
  cd_control_number :: u8
  cd_control_error :: control_error
  cd_add_cause :: add_cause

definition accepted :: "control_decision \<Rightarrow> bool" where
  "accepted d \<longleftrightarrow> cd_status d \<in> {Ctl_ok, Accepted_waiting_termination, Positive_termination}"

record control_policy =
  cy_sbo_timeout_ms :: u64
  cy_authorize :: "(control_action \<Rightarrow> control_reference \<Rightarrow> u64 \<Rightarrow> control_sequence \<Rightarrow> bool) option"

record sequence_fingerprint =
  sf_value_hash :: u64
  sf_origin_hash :: u64
  sf_value_bytes :: nat
  sf_origin_bytes :: nat
  sf_origin_category :: origin_category
  sf_control_number :: u8
  sf_timestamp_token :: u64
  sf_operate_at_token :: u64
  sf_test :: bool
  sf_interlock_check :: bool
  sf_synchro_check :: bool

record planner =
  pn_object :: control_reference
  pn_model :: control_model
  pn_policy :: control_policy
  pn_active_sequence :: sequence_fingerprint
  pn_owner_association_id :: u64
  pn_selection_expires_at_ms :: u64
  pn_next_control_number :: u8
  pn_selected :: bool
  pn_waiting_for_termination :: bool

definition model_requires_select :: "control_model \<Rightarrow> bool" where
  "model_requires_select m \<longleftrightarrow> m = Sbo_normal \<or> m = Sbo_enhanced"

definition model_is_enhanced :: "control_model \<Rightarrow> bool" where
  "model_is_enhanced m \<longleftrightarrow> m = Direct_enhanced \<or> m = Sbo_enhanced"

definition empty_fingerprint :: sequence_fingerprint where
  "empty_fingerprint = \<lparr>sf_value_hash = 0, sf_origin_hash = 0, sf_value_bytes = 0, sf_origin_bytes = 0, sf_origin_category = 2,
     sf_control_number = 0, sf_timestamp_token = 0, sf_operate_at_token = 0, sf_test = False, sf_interlock_check = False,
     sf_synchro_check = False\<rparr>"

definition planner_init :: "control_reference \<Rightarrow> control_model \<Rightarrow> control_policy \<Rightarrow> planner" where
  "planner_init object model policy = \<lparr>pn_object = object, pn_model = model, pn_policy = policy,
     pn_active_sequence = empty_fingerprint, pn_owner_association_id = 0, pn_selection_expires_at_ms = 0,
     pn_next_control_number = 0, pn_selected = False, pn_waiting_for_termination = False\<rparr>"

definition planner_valid :: "planner \<Rightarrow> bool" where
  "planner_valid p \<longleftrightarrow> reference_valid (pn_object p) \<and> pn_model p \<noteq> Unknown_model"

definition hash_bytes :: "bytes \<Rightarrow> u64" where
  "hash_bytes bs = foldl (\<lambda>hash b. (hash XOR ucast b) * 1099511628211) 14695981039346656037 bs"

definition fingerprint :: "control_sequence \<Rightarrow> u8 \<Rightarrow> sequence_fingerprint" where
  "fingerprint q n = \<lparr>sf_value_hash = hash_bytes (cq_control_value q), sf_origin_hash = hash_bytes (cq_origin_identifier q),
     sf_value_bytes = length (cq_control_value q), sf_origin_bytes = length (cq_origin_identifier q),
     sf_origin_category = cq_origin_category q, sf_control_number = n, sf_timestamp_token = cq_timestamp_token q,
     sf_operate_at_token = cq_operate_at_token q, sf_test = cq_test q, sf_interlock_check = cq_interlock_check q,
     sf_synchro_check = cq_synchro_check q\<rparr>"

definition sequence_matches :: "control_sequence \<Rightarrow> sequence_fingerprint \<Rightarrow> bool" where
  "sequence_matches q selected \<longleftrightarrow>
     fingerprint q (if cq_control_number q = 0 then sf_control_number selected else cq_control_number q) = selected"

definition reject :: "control_action \<Rightarrow> guarded_status \<Rightarrow> add_cause \<Rightarrow> planner \<Rightarrow> control_decision" where
  "reject a status cause p = \<lparr>cd_status = status, cd_action = a, cd_control_number = sf_control_number (pn_active_sequence p),
     cd_control_error = no_error, cd_add_cause = cause\<rparr>"

definition authorized :: "control_action \<Rightarrow> u64 \<Rightarrow> control_sequence \<Rightarrow> planner \<Rightarrow> bool" where
  "authorized a client q p = (case cy_authorize (pn_policy p) of None \<Rightarrow> False | Some f \<Rightarrow> f a (pn_object p) client q)"

definition assign_control_number :: "control_sequence \<Rightarrow> planner \<Rightarrow> u8 \<times> planner" where
  "assign_control_number q p =
     (if cq_control_number q \<noteq> 0 then (cq_control_number q, p)
      else let n = (if pn_next_control_number p \<ge> 255 then 1 else pn_next_control_number p + 1)
        in (n, p\<lparr>pn_next_control_number := n\<rparr>))"

definition clear_active :: "planner \<Rightarrow> planner" where
  "clear_active p = p\<lparr>pn_active_sequence := empty_fingerprint, pn_owner_association_id := 0, pn_selection_expires_at_ms := 0,
     pn_selected := False, pn_waiting_for_termination := False\<rparr>"

definition selection_over :: "u64 \<Rightarrow> planner \<Rightarrow> bool" where
  "selection_over now p \<longleftrightarrow> pn_selected p \<and> pn_selection_expires_at_ms p \<noteq> 0 \<and> now \<ge> pn_selection_expires_at_ms p"

definition expire_selection :: "u64 \<Rightarrow> planner \<Rightarrow> planner" where
  "expire_selection now p = (if selection_over now p then clear_active p else p)"

definition selection_deadline :: "u64 \<Rightarrow> u64 \<Rightarrow> u64" where
  "selection_deadline timeout now =
     (if timeout = 0 then 0 else if now > - 1 - timeout then - 1 else now + timeout)"

text \<open>\<open>select\<close> and \<open>select_with_value\<close> share their text up to the model and the action.\<close>

definition planner_select_as :: "control_action \<Rightarrow> control_model \<Rightarrow> u64 \<Rightarrow> control_sequence \<Rightarrow> u64 \<Rightarrow> planner \<Rightarrow>
    control_decision \<times> planner" where
  "planner_select_as a model client q now p =
     (if pn_model p \<noteq> model then (reject a Unsupported ac_not_supported p, p)
      else if client = 0 then (reject a Invalid_identity ac_no_access_authority p, p)
      else if \<not> sequence_valid q then (reject a Invalid_sequence ac_inconsistent_parameters p, p)
      else let p = expire_selection now p in
        if pn_waiting_for_termination p then (reject a Command_already_in_execution ac_command_already_in_execution p, p)
        else if pn_selected p then
          (if pn_owner_association_id p = client then (reject a Object_already_selected ac_object_already_selected p, p)
           else (reject a Locked_by_other_client ac_locked_by_other_client p, p))
        else if \<not> authorized a client q p then (reject a Access_denied ac_no_access_authority p, p)
        else case assign_control_number q p of (n, p) \<Rightarrow>
          (\<lparr>cd_status = Ctl_ok, cd_action = a, cd_control_number = n, cd_control_error = no_error, cd_add_cause = ac_none\<rparr>,
           p\<lparr>pn_active_sequence := fingerprint q n, pn_owner_association_id := client,
             pn_selection_expires_at_ms := selection_deadline (cy_sbo_timeout_ms (pn_policy p)) now, pn_selected := True\<rparr>))"

definition planner_select :: "u64 \<Rightarrow> control_sequence \<Rightarrow> u64 \<Rightarrow> planner \<Rightarrow> control_decision \<times> planner" where
  "planner_select = planner_select_as Act_select Sbo_normal"

definition planner_select_with_value :: "u64 \<Rightarrow> control_sequence \<Rightarrow> u64 \<Rightarrow> planner \<Rightarrow> control_decision \<times> planner" where
  "planner_select_with_value = planner_select_as Act_select_with_value Sbo_enhanced"

definition planner_operate :: "u64 \<Rightarrow> control_sequence \<Rightarrow> u64 \<Rightarrow> planner \<Rightarrow> control_decision \<times> planner" where
  "planner_operate client q now p =
     (let a = Act_operate; sbo = model_requires_select (pn_model p); n = sf_control_number (pn_active_sequence p);
          denied = (\<lambda>status cause. \<lparr>cd_status = status, cd_action = a, cd_control_number = n, cd_control_error = no_error,
            cd_add_cause = cause\<rparr>) in
      if \<not> planner_valid p \<or> pn_model p = Status_only then (reject a Unsupported ac_not_supported p, p)
      else if client = 0 then (reject a Invalid_identity ac_no_access_authority p, p)
      else if \<not> sequence_valid q then (reject a Invalid_sequence ac_inconsistent_parameters p, p)
      else if pn_waiting_for_termination p then (reject a Command_already_in_execution ac_command_already_in_execution p, p)
      else if sbo \<and> selection_over now p then (denied Selection_expired ac_time_limit_over, clear_active p)
      else if sbo \<and> \<not> pn_selected p then (reject a Object_not_selected ac_object_not_selected p, p)
      else if sbo \<and> pn_owner_association_id p \<noteq> client then (reject a Locked_by_other_client ac_locked_by_other_client p, p)
      else if sbo \<and> \<not> sequence_matches q (pn_active_sequence p)
      then (denied Sequence_mismatch ac_inconsistent_parameters, clear_active p)
      else if \<not> authorized a client q p
      then (denied Access_denied ac_no_access_authority, if sbo then clear_active p else p)
      else let (n, p) = (if sbo then (n, p\<lparr>pn_selected := False, pn_selection_expires_at_ms := 0\<rparr>)
                else case assign_control_number q p of (n, p) \<Rightarrow>
                  (n, p\<lparr>pn_active_sequence := fingerprint q n, pn_owner_association_id := client\<rparr>)) in
        if model_is_enhanced (pn_model p)
        then (\<lparr>cd_status = Accepted_waiting_termination, cd_action = a, cd_control_number = n, cd_control_error = no_error,
                cd_add_cause = ac_none\<rparr>, p\<lparr>pn_waiting_for_termination := True\<rparr>)
        else (\<lparr>cd_status = Ctl_ok, cd_action = a, cd_control_number = n, cd_control_error = no_error, cd_add_cause = ac_none\<rparr>,
              clear_active p))"

definition planner_cancel :: "u64 \<Rightarrow> u64 \<Rightarrow> planner \<Rightarrow> control_decision \<times> planner" where
  "planner_cancel client now p =
     (let a = Act_cancel; n = sf_control_number (pn_active_sequence p) in
      if \<not> model_requires_select (pn_model p) then (reject a Unsupported ac_not_supported p, p)
      else if client = 0 then (reject a Invalid_identity ac_no_access_authority p, p)
      else if selection_over now p
      then (\<lparr>cd_status = Selection_expired, cd_action = a, cd_control_number = n, cd_control_error = no_error,
              cd_add_cause = ac_time_limit_over\<rparr>, clear_active p)
      else if \<not> pn_selected p then (reject a No_active_selection ac_object_not_selected p, p)
      else if pn_owner_association_id p \<noteq> client then (reject a Locked_by_other_client ac_locked_by_other_client p, p)
      else if \<not> authorized a client empty_sequence p then (reject a Access_denied ac_no_access_authority p, p)
      else (\<lparr>cd_status = Ctl_ok, cd_action = a, cd_control_number = n, cd_control_error = no_error,
              cd_add_cause = ac_abortion_by_cancel\<rparr>, clear_active p))"

definition planner_command_termination :: "control_error \<Rightarrow> add_cause \<Rightarrow> planner \<Rightarrow> control_decision \<times> planner" where
  "planner_command_termination error cause p =
     (if \<not> pn_waiting_for_termination p then (reject Act_operate No_pending_termination ac_unknown p, p)
      else let positive = (error = no_error \<and> (cause = ac_unknown \<or> cause = ac_none)) in
        (\<lparr>cd_status = (if positive then Positive_termination else Negative_termination), cd_action = Act_operate,
          cd_control_number = sf_control_number (pn_active_sequence p), cd_control_error = error, cd_add_cause = cause\<rparr>,
         clear_active p))"

definition planner_on_association_closed :: "u64 \<Rightarrow> planner \<Rightarrow> planner" where
  "planner_on_association_closed client p =
     (if client \<noteq> 0 \<and> pn_owner_association_id p = client then clear_active p else p)"

definition planner_tick :: "u64 \<Rightarrow> planner \<Rightarrow> planner" where
  "planner_tick = expire_selection"

record planner_state =
  ps_model :: control_model
  ps_selected :: bool
  ps_waiting_for_termination :: bool
  ps_owner_association_id :: u64
  ps_selection_expires_at_ms :: u64
  ps_active_control_number :: u8

definition planner_view :: "u64 \<Rightarrow> planner \<Rightarrow> planner_state \<times> planner" where
  "planner_view now p =
     (let p = expire_selection now p in
      (\<lparr>ps_model = pn_model p, ps_selected = pn_selected p, ps_waiting_for_termination = pn_waiting_for_termination p,
        ps_owner_association_id = pn_owner_association_id p, ps_selection_expires_at_ms = pn_selection_expires_at_ms p,
        ps_active_control_number = sf_control_number (pn_active_sequence p)\<rparr>, p))"

end
