(* ===== verification/Control_Safety.thy ===== *)
theory Control_Safety
  imports Control_Planner
begin

text \<open>
  Safety of the control planner over all runs: what an accepted operate implies about the calls before
  it, that clients cannot disturb each other, and the round trip of control references.
\<close>

subsection \<open>Runs\<close>

datatype control_event =
    Select u64 control_sequence u64
  | Select_with_value u64 control_sequence u64
  | Operate u64 control_sequence u64
  | Cancel u64 u64
  | Command_termination control_error add_cause
  | Association_closed u64
  | Tick u64

fun planner_step :: "control_event \<Rightarrow> planner \<Rightarrow> control_decision option \<times> planner" where
  "planner_step (Select c q now) p = apfst Some (planner_select c q now p)"
| "planner_step (Select_with_value c q now) p = apfst Some (planner_select_with_value c q now p)"
| "planner_step (Operate c q now) p = apfst Some (planner_operate c q now p)"
| "planner_step (Cancel c now) p = apfst Some (planner_cancel c now p)"
| "planner_step (Command_termination e a) p = apfst Some (planner_command_termination e a p)"
| "planner_step (Association_closed c) p = (None, planner_on_association_closed c p)"
| "planner_step (Tick now) p = (None, planner_tick now p)"

definition planner_next :: "control_event \<Rightarrow> planner \<Rightarrow> planner" where
  "planner_next e p = snd (planner_step e p)"

definition step_accepted :: "control_event \<Rightarrow> planner \<Rightarrow> bool" where
  "step_accepted e p \<longleftrightarrow> (case fst (planner_step e p) of None \<Rightarrow> False | Some d \<Rightarrow> accepted d)"

definition planner_run :: "control_event list \<Rightarrow> planner \<Rightarrow> planner" where
  "planner_run = fold planner_next"

named_theorems planner_ops
declare planner_select_def [planner_ops] planner_select_with_value_def [planner_ops] planner_select_as_def [planner_ops]
  planner_operate_def [planner_ops] planner_cancel_def [planner_ops] planner_command_termination_def [planner_ops]
  planner_on_association_closed_def [planner_ops] planner_tick_def [planner_ops] expire_selection_def [planner_ops]
  assign_control_number_def [planner_ops]

lemma clear_active_fields [simp]:
  "pn_model (clear_active p) = pn_model p" "pn_policy (clear_active p) = pn_policy p" "pn_object (clear_active p) = pn_object p"
  "\<not> pn_selected (clear_active p)" "\<not> pn_waiting_for_termination (clear_active p)" "pn_owner_association_id (clear_active p) = 0"
  "pn_next_control_number (clear_active p) = pn_next_control_number p"
  by (simp_all add: clear_active_def)

lemma reject_not_accepted [simp]:
  "accepted (reject a s c p) \<longleftrightarrow> s \<in> {Ctl_ok, Accepted_waiting_termination, Positive_termination}"
  by (simp add: accepted_def reject_def)

lemma accepted_record [simp]:
  "accepted \<lparr>cd_status = s, cd_action = a, cd_control_number = n, cd_control_error = e, cd_add_cause = c\<rparr> \<longleftrightarrow>
     s \<in> {Ctl_ok, Accepted_waiting_termination, Positive_termination}"
  by (simp add: accepted_def)

lemma planner_next_config:
  "pn_model (planner_next e p) = pn_model p" "pn_policy (planner_next e p) = pn_policy p" "pn_object (planner_next e p) = pn_object p"
  by (cases e; auto simp: planner_next_def planner_ops Let_def split: prod.splits if_splits)+

lemma planner_run_config [simp]:
  "pn_model (planner_run es p) = pn_model p" "pn_policy (planner_run es p) = pn_policy p" "pn_object (planner_run es p) = pn_object p"
  by (induction es arbitrary: p) (simp_all add: planner_run_def planner_next_config)

lemma planner_run_snoc [simp]: "planner_run (es @ [e]) p = planner_next e (planner_run es p)"
  by (simp add: planner_run_def)

lemma planner_run_Nil [simp]: "planner_run [] p = p"
  by (simp add: planner_run_def)

subsection \<open>Selections\<close>

text \<open>What a selection consists of.\<close>

definition selection :: "planner \<Rightarrow> sequence_fingerprint \<times> u64 \<times> u64" where
  "selection p = (pn_active_sequence p, pn_owner_association_id p, pn_selection_expires_at_ms p)"

definition selects :: "control_event \<Rightarrow> u64 \<Rightarrow> control_sequence \<Rightarrow> u64 \<Rightarrow> bool" where
  "selects e c q t \<longleftrightarrow> e = Select c q t \<or> e = Select_with_value c q t"

lemma select_as_selected:
  assumes "pn_selected (snd (planner_select_as a m c q t p))"
  shows "pn_selected p \<and> selection (snd (planner_select_as a m c q t p)) = selection p \<or>
    accepted (fst (planner_select_as a m c q t p)) \<and>
    (\<exists>n. selection (snd (planner_select_as a m c q t p)) =
       (fingerprint q n, c, selection_deadline (cy_sbo_timeout_ms (pn_policy p)) t) \<and>
       n = cd_control_number (fst (planner_select_as a m c q t p)))"
  using assms
  by (auto simp: planner_select_as_def expire_selection_def assign_control_number_def Let_def selection_def accepted_def
    split: if_splits)

lemma operate_selected:
  "model_requires_select (pn_model p) \<Longrightarrow> pn_selected (snd (planner_operate c q now p)) \<Longrightarrow> snd (planner_operate c q now p) = p"
  by (auto simp: planner_operate_def Let_def split: if_splits)

lemma other_selected:
  "pn_selected (snd (planner_cancel c now p)) \<Longrightarrow> snd (planner_cancel c now p) = p"
  "pn_selected (snd (planner_command_termination err cause p)) \<Longrightarrow> snd (planner_command_termination err cause p) = p"
  "pn_selected (planner_on_association_closed c p) \<Longrightarrow> planner_on_association_closed c p = p"
  "pn_selected (planner_tick now p) \<Longrightarrow> planner_tick now p = p"
  by (auto simp: planner_cancel_def planner_command_termination_def planner_on_association_closed_def planner_tick_def
    expire_selection_def Let_def split: if_splits)

lemma planner_next_selected:
  assumes "pn_selected (planner_next e p)" "model_requires_select (pn_model p)"
  shows "pn_selected p \<and> selection (planner_next e p) = selection p \<or>
    (\<exists>c q t n. selects e c q t \<and> step_accepted e p \<and>
       selection (planner_next e p) = (fingerprint q n, c, selection_deadline (cy_sbo_timeout_ms (pn_policy p)) t))"
proof (cases "\<exists>c q t. selects e c q t")
  case True
  then obtain c q t where "e = Select c q t \<or> e = Select_with_value c q t" by (auto simp: selects_def)
  then show ?thesis
    using assms(1) select_as_selected [of Act_select Sbo_normal c q t p] select_as_selected [of Act_select_with_value Sbo_enhanced c q t p]
    by (elim disjE) (auto simp: planner_next_def step_accepted_def planner_select_def planner_select_with_value_def selects_def)
next
  case False
  then have "planner_next e p = p"
    using assms by (cases e) (auto simp: planner_next_def selects_def intro: operate_selected other_selected)
  then show ?thesis using assms(1) by simp
qed

text \<open>The selection that is held after a run was made by a call of that run and held ever since.\<close>

definition held_since :: "planner \<Rightarrow> control_event list \<Rightarrow> control_event \<Rightarrow> control_event list \<Rightarrow> bool" where
  "held_since p pre e mid \<longleftrightarrow> (\<forall>k \<le> length mid. pn_selected (planner_run (pre @ e # take k mid) p) \<and>
     selection (planner_run (pre @ e # take k mid) p) = selection (planner_run (pre @ e # mid) p))"

lemma selection_origin:
  assumes "\<not> pn_selected p" "pn_selected (planner_run es p)" "model_requires_select (pn_model p)"
  shows "\<exists>pre e mid c q t n. es = pre @ e # mid \<and> selects e c q t \<and> step_accepted e (planner_run pre p) \<and> held_since p pre e mid \<and>
    selection (planner_run es p) = (fingerprint q n, c, selection_deadline (cy_sbo_timeout_ms (pn_policy p)) t)"
  using assms(2)
proof (induction es rule: rev_induct)
  case Nil
  then show ?case using assms(1) by simp
next
  case (snoc e es)
  let ?p = "planner_run es p"
  have "pn_selected (planner_next e ?p)" "model_requires_select (pn_model ?p)" using snoc.prems assms(3) by simp_all
  from planner_next_selected [OF this] show ?case
  proof (elim disjE exE conjE)
    assume sel: "pn_selected ?p" and same: "selection (planner_next e ?p) = selection ?p"
    from snoc.IH [OF sel] obtain pre e' mid c q t n where ih: "es = pre @ e' # mid" "selects e' c q t"
        "step_accepted e' (planner_run pre p)" "held_since p pre e' mid"
        "selection ?p = (fingerprint q n, c, selection_deadline (cy_sbo_timeout_ms (pn_policy p)) t)" by blast
    have run: "planner_run (pre @ e' # mid @ [e]) p = planner_next e ?p" using ih(1) planner_run_snoc [of es e p] by simp
    have "held_since p pre e' (mid @ [e])"
      unfolding held_since_def
    proof (intro allI impI)
      fix k assume "k \<le> length (mid @ [e])"
      then show "pn_selected (planner_run (pre @ e' # take k (mid @ [e])) p) \<and>
          selection (planner_run (pre @ e' # take k (mid @ [e])) p) = selection (planner_run (pre @ e' # mid @ [e]) p)"
        using ih(1,4) snoc.prems same run by (cases "k \<le> length mid") (auto simp: held_since_def le_Suc_eq)
    qed
    with ih same show ?thesis
      by (rule_tac x = pre in exI, rule_tac x = e' in exI, rule_tac x = "mid @ [e]" in exI) (auto simp: run)
  next
    fix c q t n assume "selects e c q t" "step_accepted e ?p"
      "selection (planner_next e ?p) = (fingerprint q n, c, selection_deadline (cy_sbo_timeout_ms (pn_policy ?p)) t)"
    then show ?thesis using snoc.prems
      by (rule_tac x = es in exI, rule_tac x = e in exI, rule_tac x = "[]" in exI) (auto simp: held_since_def)
  qed
qed

lemma selection_deadline_zero: "selection_deadline timeout t = 0 \<longleftrightarrow> timeout = 0"
proof -
  have "t - 1 < t" if "t + timeout = 0" "timeout \<noteq> 0"
    using that by uint_arith
  moreover have "- 1 - timeout = t - 1" if "t + timeout = 0"
    using that by (simp add: add_eq_0_iff)
  ultimately have "- 1 - timeout < t" if "t + timeout = 0" "timeout \<noteq> 0" using that by metis
  then show ?thesis by (auto simp: selection_deadline_def)
qed

lemma operate_accepted:
  assumes "accepted (fst (planner_operate c q now p))" "model_requires_select (pn_model p)"
  shows "pn_selected p" "pn_owner_association_id p = c" "sequence_matches q (pn_active_sequence p)" "\<not> selection_over now p"
    "authorized Act_operate c q p" "\<not> pn_selected (snd (planner_operate c q now p))"
    "cd_control_number (fst (planner_operate c q now p)) = sf_control_number (pn_active_sequence p)"
  using assms by (simp_all add: planner_operate_def Let_def accepted_def reject_def split: if_splits)

subsection \<open>Properties\<close>

text \<open>C4.  Select before operate: when a planner of a select-before-operate model accepts an operate after
  any run, the run contains an accepted selection by the same client, the selection was held without
  interruption up to the operate, the operate repeats the selected sequence, carries its control
  number, comes before the selection's deadline, is authorised, and consumes the selection.\<close>

theorem control_operate_needs_selection:
  assumes "model_requires_select model" "p = planner_init object model policy"
    "planner_step (Operate c q now) (planner_run es p) = (Some d, p')" "accepted d"
  shows "\<exists>pre e mid q' t n. es = pre @ e # mid \<and> selects e c q' t \<and> step_accepted e (planner_run pre p) \<and>
    held_since p pre e mid \<and> sequence_matches q (fingerprint q' n) \<and> cd_control_number d = n \<and>
    (cy_sbo_timeout_ms policy = 0 \<or> now < selection_deadline (cy_sbo_timeout_ms policy) t) \<and>
    authorized Act_operate c q p \<and> \<not> pn_selected p'"
proof -
  let ?p = "planner_run es p"
  have op: "accepted (fst (planner_operate c q now ?p))" "model_requires_select (pn_model ?p)" "d = fst (planner_operate c q now ?p)"
    "p' = snd (planner_operate c q now ?p)"
    using assms by (auto simp: planner_init_def apfst_def map_prod_def case_prod_unfold)
  note acc = operate_accepted [OF op(1,2)]
  have init: "\<not> pn_selected p" "model_requires_select (pn_model p)" "pn_policy p = policy" using assms(1,2) by (simp_all add: planner_init_def)
  from selection_origin [OF init(1) acc(1) init(2)] obtain pre e mid c' q' t n where
    o: "es = pre @ e # mid" "selects e c' q' t" "step_accepted e (planner_run pre p)" "held_since p pre e mid"
      "selection ?p = (fingerprint q' n, c', selection_deadline (cy_sbo_timeout_ms policy) t)" unfolding init(3) by blast
  have sel: "pn_active_sequence ?p = fingerprint q' n" "c' = c" "pn_selection_expires_at_ms ?p = selection_deadline (cy_sbo_timeout_ms policy) t"
    using o(5) acc(2) by (simp_all add: selection_def)
  have "sf_control_number (fingerprint q' n) = n" by (simp add: fingerprint_def)
  moreover have "cy_sbo_timeout_ms policy = 0 \<or> now < selection_deadline (cy_sbo_timeout_ms policy) t"
    using acc(1,4) sel(3) by (auto simp: selection_over_def selection_deadline_zero not_le)
  moreover have "authorized Act_operate c q p" using acc(5) by (simp add: authorized_def split: option.splits)
  ultimately show ?thesis using o acc sel op(3,4) by (metis (no_types))
qed

text \<open>A planner that grants everything, and one command.\<close>

definition sample_policy :: control_policy where
  "sample_policy = \<lparr>cy_sbo_timeout_ms = 100, cy_authorize = Some (\<lambda>_ _ _ _. True)\<rparr>"

definition sample_sequence :: control_sequence where
  "sample_sequence = empty_sequence\<lparr>cq_control_value := [0x83, 1, 1], cq_timestamp_token := 5\<rparr>"

definition sample_planner :: planner where
  "sample_planner = planner_init \<lparr>cr_domain = ''LD'', cr_logical_node = ''CSWI1'', cr_data_object_path = ''Pos''\<rparr> Sbo_enhanced sample_policy"

theorem control_operate_needs_selection_witness:
  "\<exists>pre e mid q' t. [Select_with_value 7 sample_sequence 10, Tick 20] = pre @ e # mid \<and> selects e 7 q' t \<and>
    held_since sample_planner pre e mid \<and> 50 < selection_deadline 100 t"
proof -
  let ?es = "[Select_with_value 7 sample_sequence 10, Tick 20]"
  obtain d p' where step: "planner_step (Operate 7 sample_sequence 50) (planner_run ?es sample_planner) = (Some d, p')"
    by (metis apfst_conv planner_step.simps(3) surj_pair)
  have "step_accepted (Operate 7 sample_sequence 50) (planner_run ?es sample_planner)" by code_simp
  then have "accepted d" unfolding step_accepted_def step by simp
  moreover have "model_requires_select Sbo_enhanced" "cy_sbo_timeout_ms sample_policy = 100"
    by (simp_all add: model_requires_select_def sample_policy_def)
  ultimately show ?thesis using control_operate_needs_selection [OF _ sample_planner_def step] by fastforce
qed

text \<open>C5.  No interference: while one client holds a selection that has not expired, or waits for the
  termination of its command, no select, operate or cancel of another client is accepted or changes
  anything, and neither does the loss of the other client's association.\<close>

theorem control_clients_do_not_interfere:
  assumes "pn_selected p \<and> model_requires_select (pn_model p) \<and> \<not> selection_over now p \<or> pn_waiting_for_termination p \<and> \<not> pn_selected p"
    "pn_owner_association_id p \<noteq> c" "e \<in> {Select c q now, Select_with_value c q now, Operate c q now, Cancel c now, Association_closed c}"
  shows "planner_next e p = p \<and> \<not> step_accepted e p"
  using assms(3)
proof (elim insertE emptyE)
  assume "e = Association_closed c"
  then show ?thesis using assms(2) by (simp add: planner_next_def step_accepted_def planner_on_association_closed_def)
qed (use assms(1,2) in \<open>auto simp: planner_next_def step_accepted_def planner_select_def planner_select_with_value_def
    planner_select_as_def planner_operate_def planner_cancel_def expire_selection_def selection_over_def Let_def\<close>)

theorem control_clients_do_not_interfere_witness:
  "planner_next (Operate 8 sample_sequence 50) (planner_run [Select_with_value 7 sample_sequence 10] sample_planner) =
     planner_run [Select_with_value 7 sample_sequence 10] sample_planner"
proof -
  let ?p = "planner_run [Select_with_value 7 sample_sequence 10] sample_planner"
  have "pn_selected ?p" "model_requires_select (pn_model ?p)" "\<not> selection_over 50 ?p" "pn_owner_association_id ?p \<noteq> 8"
    by code_simp+
  then show ?thesis using control_clients_do_not_interfere [of ?p 50 8 "Operate 8 sample_sequence 50" sample_sequence] by simp
qed

text \<open>Default deny: a planner whose policy has no authorisation callback accepts no select, operate or
  cancel after any run, and holds no selection and no command.\<close>

theorem control_default_deny:
  assumes "cy_authorize policy = None" "p = planner_init object model policy"
  shows "\<not> step_accepted e (planner_run es p) \<and> \<not> pn_selected (planner_run es p) \<and> \<not> pn_waiting_for_termination (planner_run es p)"
proof -
  have deny: "\<not> step_accepted e p \<and> \<not> pn_selected (planner_next e p) \<and> \<not> pn_waiting_for_termination (planner_next e p)"
    if "cy_authorize (pn_policy p) = None" "\<not> pn_selected p" "\<not> pn_waiting_for_termination p" for e p
    using that by (cases e) (auto simp: step_accepted_def planner_next_def planner_ops authorized_def selection_over_def Let_def)
  have "\<not> pn_selected (planner_run es p) \<and> \<not> pn_waiting_for_termination (planner_run es p)"
    using assms by (induction es rule: rev_induct) (auto simp: deny planner_init_def)
  with deny [of "planner_run es p" e] assms show ?thesis by (simp add: planner_init_def)
qed

theorem control_default_deny_witness:
  "\<not> step_accepted (Operate 7 sample_sequence 0) (planner_run [Tick 3]
     (planner_init \<lparr>cr_domain = ''LD'', cr_logical_node = ''GGIO1'', cr_data_object_path = ''SPCSO1''\<rparr> Direct_normal
       (sample_policy\<lparr>cy_authorize := None\<rparr>)))"
  using control_default_deny [of "sample_policy\<lparr>cy_authorize := None\<rparr>", OF _ refl] by simp

end
