(* ===== verification/Control_Reference.thy ===== *)
theory Control_Reference
  imports Control_Planner
begin

text \<open>
  Control references: the parser accepts exactly the printed form of well-formed references, and the
  MMS item name of a service is the path with its separators normalised.
\<close>

fun join :: "char \<Rightarrow> string list \<Rightarrow> string" where
  "join c [] = []"
| "join c [s] = s"
| "join c (s # ss) = s @ c # join c ss"

text \<open>A path segment that may appear in a reference.\<close>

definition segment_ok :: "string \<Rightarrow> bool" where
  "segment_ok s \<longleftrightarrow> s \<noteq> [] \<and> list_all (\<lambda>c. \<not> path_separator c \<and> c \<noteq> CHR ''/'') s \<and> \<not> service_leaf s"

lemma takeWhile_split: "list_all P xs \<Longrightarrow> \<not> P c \<Longrightarrow> takeWhile P (xs @ c # ys) = xs"
  by (induction xs) auto

lemma join_nonempty: "list_all segment_ok ss \<Longrightarrow> ss \<noteq> [] \<Longrightarrow> join c ss \<noteq> []"
  by (cases "(c, ss)" rule: join.cases) (auto simp: segment_ok_def)

lemma segments_ok_join: "list_all segment_ok ss \<Longrightarrow> ss \<noteq> [] \<Longrightarrow> path_separator c \<Longrightarrow> segments_ok (join c ss)"
proof (induction c ss rule: join.induct)
  case (2 c s)
  then have s: "takeWhile (\<lambda>c. \<not> path_separator c) s = s" "CHR ''/'' \<notin> set s" by (auto simp: segment_ok_def list_all_iff)
  show ?case unfolding join.simps by (subst segments_ok.simps, unfold Let_def s(1)) (use s(2) 2 in \<open>simp add: segment_ok_def\<close>)
next
  case (3 c s s' ss)
  let ?rest = "join c (s' # ss)"
  have s: "segment_ok s" and rest: "segments_ok ?rest" "?rest \<noteq> []" using 3 join_nonempty [of "s' # ss" c] by auto
  have "takeWhile (\<lambda>c. \<not> path_separator c) (s @ c # ?rest) = s"
    using s 3(4) by (intro takeWhile_split) (auto simp: segment_ok_def list_all_iff)
  moreover have "CHR ''/'' \<notin> set s" using s by (auto simp: segment_ok_def list_all_iff)
  ultimately show ?case using s rest by (subst segments_ok.simps) (simp add: segment_ok_def Let_def)
qed simp

lemma path_separator_dollar [simp]: "path_separator (CHR ''$'')"
  by (simp add: path_separator_def)

lemma append_item_segment: "list_all (\<lambda>c. \<not> path_separator c) s \<Longrightarrow> append_item s = s"
  by (induction s) (auto simp: append_item_def)

lemma append_item_append: "append_item (xs @ ys) = append_item xs @ append_item ys"
  by (simp add: append_item_def)

lemma append_item_Cons: "append_item (c # xs) = (if path_separator c then CHR ''$'' else c) # append_item xs"
  by (simp add: append_item_def)

lemma segments_ok_split:
  "segments_ok path \<Longrightarrow> \<exists>ss. list_all segment_ok ss \<and> ss \<noteq> [] \<and> append_item path = join (CHR ''$'') ss"
proof (induction path rule: segments_ok.induct)
  case (1 path)
  let ?s = "takeWhile (\<lambda>c. \<not> path_separator c) path" and ?r = "drop (length (takeWhile (\<lambda>c. \<not> path_separator c) path)) path"
  have ok: "CHR ''/'' \<notin> set ?s" "?s \<noteq> []" "\<not> service_leaf ?s"
    using 1(2) by (subst (asm) segments_ok.simps, auto simp: Let_def split: if_splits)+
  then have s: "segment_ok ?s" by (auto simp: segment_ok_def list_all_iff dest: set_takeWhileD)
  have item: "append_item ?s = ?s" by (rule append_item_segment) (auto simp: list_all_iff dest: set_takeWhileD)
  have path: "path = ?s @ ?r" by (metis append_eq_conv_conj takeWhile_dropWhile_id)
  show ?case
  proof (cases ?r)
    case Nil
    then have "append_item path = ?s" using path item by (metis append.right_neutral)
    then show ?thesis using s by (intro exI [of _ "[?s]"]) simp
  next
    case (Cons c rest)
    have rest: "rest \<noteq> []" "segments_ok rest"
      using 1(2) ok Cons by (subst (asm) segments_ok.simps, simp add: Let_def split: if_splits)+
    from 1(1) [OF refl refl _ Cons] ok rest obtain ss where
      ss: "list_all segment_ok ss" "ss \<noteq> []" "append_item rest = join (CHR ''$'') ss" by blast
    have "\<not> (\<not> path_separator c)"
      using Cons hd_dropWhile [of "\<lambda>c. \<not> path_separator c" path] by (simp add: dropWhile_eq_drop)
    then have "append_item (?s @ c # rest) = ?s @ CHR ''$'' # append_item rest"
      by (simp only: append_item_append append_item_Cons item) simp
    then have "append_item path = ?s @ CHR ''$'' # append_item rest" using path Cons by metis
    also have "\<dots> = join (CHR ''$'') (?s # ss)" using ss by (cases ss) simp_all
    finally show ?thesis using s ss by (intro exI [of _ "?s # ss"]) simp
  qed
qed

lemma trim_spaces:
  assumes "list_all is_blank w1" "list_all is_blank w2" "x \<noteq> []" "\<not> is_blank (hd x)" "\<not> is_blank (last x)"
  shows "trim (w1 @ x @ w2) = x"
proof -
  have drop: "dropWhile is_blank (w @ y) = y" if "list_all is_blank w" "y \<noteq> []" "\<not> is_blank (hd y)" for w y
    using that by (cases y) (simp_all add: list_all_iff dropWhile_append2)
  have "dropWhile is_blank (w1 @ x @ w2) = x @ w2" using assms by (intro drop) simp_all
  moreover have "dropWhile is_blank (rev w2 @ rev x) = rev x"
    using assms by (intro drop) (simp_all add: list_all_iff hd_rev)
  ultimately show ?thesis by (simp add: trim_def)
qed

lemma trim_clean: "x \<noteq> [] \<Longrightarrow> \<not> is_blank (hd x) \<Longrightarrow> \<not> is_blank (last x) \<Longrightarrow> trim x = x"
  using trim_spaces [of "[]" "[]" x] by simp

lemma append_item_join: "list_all segment_ok ss \<Longrightarrow> path_separator c \<Longrightarrow> append_item (join c ss) = join (CHR ''$'') ss"
proof (induction c ss rule: join.induct)
  case (2 c s)
  then show ?case by (simp add: append_item_segment segment_ok_def list_all_iff)
next
  case (3 c s s' ss)
  have "append_item s = s" using 3 by (intro append_item_segment) (simp add: segment_ok_def list_all_iff)
  with 3 show ?case by (simp add: append_item_append append_item_Cons)
qed (simp add: append_item_def)

lemma length_join: "length (join c ss) = length (join c' ss)"
  by (induction c ss rule: join.induct) simp_all

lemma slash_not_in_join: "list_all segment_ok ss \<Longrightarrow> path_separator c \<Longrightarrow> CHR ''/'' \<notin> set (join c ss)"
  by (induction c ss rule: join.induct) (auto simp: segment_ok_def list_all_iff path_separator_def)

text \<open>Control references round trip: a reference printed as domain, slash, logical node and path, with
  either separator and with white space around it, parses to exactly its parts, and the MMS item of a
  service of that object is the logical node, the functional constraint, the path segments and the
  service leaf, joined by dollar signs, written whenever the destination is large enough.\<close>

theorem control_reference_round_trip:
  assumes "d \<noteq> []" "CHR ''/'' \<notin> set d" "\<not> is_blank (hd d)" "\<not> is_blank (last d)"
    and "node \<noteq> []" "list_all (\<lambda>c. \<not> path_separator c \<and> c \<noteq> CHR ''/'') node" "\<not> is_blank (hd node)"
    and "list_all segment_ok ss" "ss \<noteq> []" "\<not> is_blank (last (join c ss))" "path_separator c" "path_separator c'"
    and "list_all is_blank before" "list_all is_blank after"
    and "fc \<noteq> []" "list_all (\<lambda>c. \<not> path_separator c) fc" "leaf \<noteq> []" "list_all (\<lambda>c. \<not> path_separator c) leaf"
  shows "(case try_parse_control_object_reference (before @ d @ ''/'' @ node @ [c'] @ join c ss @ after) of
      None \<Rightarrow> False
    | Some r \<Rightarrow> r = \<lparr>cr_domain = d, cr_logical_node = node, cr_data_object_path = join c ss\<rparr> \<and>
       (let text = node @ ''$'' @ fc @ ''$'' @ join (CHR ''$'') ss @ ''$'' @ leaf in
        build_control_item r fc leaf dest =
          (if length dest < length text then (False, length text, dest) else (True, length text, text @ drop (length text) dest))))"
proof -
  let ?path = "node @ [c'] @ join c ss"
  have nonempty: "join c ss \<noteq> []" by (rule join_nonempty [OF assms(8,9)])
  have "trim (before @ (d @ ''/'' @ ?path) @ after) = d @ ''/'' @ ?path"
    using assms nonempty by (intro trim_spaces) simp_all
  then have norm: "trim (before @ d @ ''/'' @ node @ [c'] @ join c ss @ after) = d @ CHR ''/'' # ?path" by simp
  have first: "takeWhile (\<lambda>x. x \<noteq> CHR ''/'') (d @ CHR ''/'' # ?path) = d"
    using assms(2) by (intro takeWhile_split) (auto simp: list_all_iff)
  have slash: "CHR ''/'' \<notin> set ?path"
    using assms(6,12) slash_not_in_join [OF assms(8,11)] by (auto simp: list_all_iff path_separator_def)
  have parts: "trim d = d" "trim ?path = ?path" using assms nonempty by (auto intro!: trim_clean)
  have second: "takeWhile (\<lambda>x. \<not> path_separator x) ?path = node"
    using assms(6,12) by (simp only: append_Cons append_Nil, intro takeWhile_split) (auto simp: list_all_iff)
  have parse: "try_parse_control_object_reference (before @ d @ ''/'' @ node @ [c'] @ join c ss @ after) =
      Some \<lparr>cr_domain = d, cr_logical_node = node, cr_data_object_path = join c ss\<rparr>"
    unfolding try_parse_control_object_reference_def Let_def norm first
    using assms(1,5) nonempty slash parts second segments_ok_join [OF assms(8,9,11)] by simp
  have "append_item node = node" "append_item fc = fc" "append_item leaf = leaf"
    using assms(6,16,18) by (simp_all add: append_item_segment list_all_iff)
  moreover have "CHR ''$'' \<notin> set fc" "CHR ''$'' \<notin> set leaf" "CHR ''.'' \<notin> set leaf"
    using assms(16,18) by (auto simp: list_all_iff path_separator_def)
  ultimately show ?thesis
    unfolding parse using assms(1,5,15,17) nonempty append_item_join [OF assms(8,11)] length_join [of c ss "CHR ''$''"]
    by (simp add: build_control_item_def reference_valid_def Let_def add.assoc)
qed

theorem control_reference_round_trip_witness:
  "try_parse_control_object_reference '' LD0/CSWI1.Pos '' =
     Some \<lparr>cr_domain = ''LD0'', cr_logical_node = ''CSWI1'', cr_data_object_path = ''Pos''\<rparr>"
proof -
  have leaf: "segment_ok ''Pos''" by code_simp
  show ?thesis
    using control_reference_round_trip [of "''LD0''" "''CSWI1''" "[''Pos'']" "CHR ''.''" "CHR ''.''" "'' ''" "'' ''" "''CO''" "''Oper''" "[]"] leaf
    by (simp add: is_blank_def path_separator_def split: option.splits)
qed

end
