(* ===== verification/Session.thy ===== *)
theory Session
  imports Prelude
begin

text \<open>
  The ISO session layer: SPDUs with their parameters and user data, and the data-transfer profile
  (\<open>src/osi/session.cpp\<close>, owning vectors, and \<open>src/osi/session_span.cpp\<close>, caller buffers).
\<close>

datatype spdu_kind = Spdu_unknown | Spdu_connect | Spdu_accept | Spdu_reject | Spdu_refuse | Spdu_abort | Spdu_data_transfer

record session_parameter =
  sp_code :: u8
  sp_value :: bytes

record session_spdu =
  ss_kind :: spdu_kind
  ss_code :: u8
  ss_length_indicator :: u8
  ss_parameters :: "session_parameter list"
  ss_user_data :: bytes

definition kind_from_code :: "u8 \<Rightarrow> spdu_kind" where
  "kind_from_code code =
     (if code = 0x0D then Spdu_connect else if code = 0x0E then Spdu_accept else if code = 0x0A then Spdu_reject
      else if code = 0x0C then Spdu_refuse else if code = 0x19 then Spdu_abort
      else if code = 0x01 then Spdu_data_transfer else Spdu_unknown)"

definition spdu_parameter :: "u8 \<Rightarrow> session_spdu \<Rightarrow> bytes option" where
  "spdu_parameter code s = map_option sp_value (find (\<lambda>p. sp_code p = code) (ss_parameters s))"

subsection \<open>Decoding\<close>

text \<open>The parameter loop over the octets of the body that are not consumed yet; the message of a
  refusal is the error text.\<close>

function session_parse :: "bytes \<Rightarrow> session_parameter list \<Rightarrow> bytes \<Rightarrow> bool \<Rightarrow> string + session_parameter list \<times> bytes" where
  "session_parse [] ps ud saw = Inr (ps, ud)"
| "session_parse [x] ps ud saw = Inl ''ISO Session parameter header is truncated.''"
| "session_parse (code # len # rest) ps ud saw =
     (if length ps \<ge> 64 then Inl ''ISO Session SPDU exceeded the parameter-count limit.''
      else let n = unat len in
        if n > length rest then Inl ''ISO Session parameter value is truncated.''
        else if code = 0xC1 then
          (if saw then Inl ''ISO Session SPDU contains duplicate user-data parameters.''
           else if n \<noteq> length rest then Inl ''ISO Session user-data parameter must be final.''
           else session_parse (drop n rest) ps (take n rest) True)
        else session_parse (drop n rest) (ps @ [\<lparr>sp_code = code, sp_value = take n rest\<rparr>]) ud saw)"
  by pat_completeness auto
termination
  by (relation "measure (\<lambda>(rest, _). length rest)") auto

definition session_decode_prefix :: "bytes \<Rightarrow> string + session_spdu \<times> nat" where
  "session_decode_prefix bs =
     (if length bs < 2 then Inl ''ISO Session SPDU is shorter than its two-byte header.''
      else let kind = kind_from_code (bs ! 0) in
        if kind = Spdu_unknown then Inl ''Unsupported ISO Session SPDU code.''
        else let total_length = unat (bs ! 1) + 2 in
          if total_length > 257 \<or> total_length > length bs
          then Inl ''ISO Session SPDU declared length exceeds available bytes.''
          else bindE (session_parse (drop 2 (take total_length bs)) [] [] False) (\<lambda>(ps, ud).
            Inr (\<lparr>ss_kind = kind, ss_code = bs ! 0, ss_length_indicator = bs ! 1, ss_parameters = ps, ss_user_data = ud\<rparr>,
                 total_length)))"

definition session_decode :: "bytes \<Rightarrow> string + session_spdu" where
  "session_decode bs = bindE (session_decode_prefix bs) (\<lambda>(s, consumed).
     if consumed \<noteq> length bs then Inl ''ISO Session SPDU declared length does not match the supplied frame length.'' else Inr s)"

subsection \<open>Encoding\<close>

definition encode_parameter :: "u8 \<Rightarrow> bytes \<Rightarrow> bytes" where
  "encode_parameter code value = [code, of_nat (length value)] @ value"

fun session_body_length :: "session_parameter list \<Rightarrow> nat \<Rightarrow> nat result" where
  "session_body_length [] n = Inr n"
| "session_body_length (p # ps) n =
     (if sp_code p = 0xC1 then Inl (Invalid_argument ''ISO Session user data must be supplied separately.'')
      else if length (sp_value p) > 255 then Inl (Length_error ''ISO Session parameter exceeds one-byte length encoding.'')
      else if length (sp_value p) > 2 ^ 64 - 1 - 2 - n then Inl (Length_error ''ISO Session SPDU size overflow.'')
      else session_body_length ps (n + (2 + length (sp_value p))))"

definition session_encode :: "u8 \<Rightarrow> session_parameter list \<Rightarrow> bytes \<Rightarrow> bytes result" where
  "session_encode code ps ud =
     (if kind_from_code code = Spdu_unknown then Inl (Invalid_argument ''Unsupported ISO Session SPDU code.'')
      else if length ps > 64 then Inl (Length_error ''ISO Session parameter count exceeds the supported limit.'')
      else if length ud > 255 then Inl (Length_error ''ISO Session user data exceeds one-byte parameter length encoding.'')
      else bindE (session_body_length ps (if ud = [] then 0 else 2 + length ud)) (\<lambda>body_length.
        if body_length > 255 then Inl (Length_error ''ISO Session SPDU exceeds one-byte length encoding.'')
        else Inr ([code, of_nat body_length] @ concat (map (\<lambda>p. encode_parameter (sp_code p) (sp_value p)) ps) @
               (if ud = [] then [] else encode_parameter 0xC1 ud))))"

definition default_parameters :: "session_parameter list" where
  "default_parameters = [\<lparr>sp_code = 0x05, sp_value = [0x13, 0x01, 0x00, 0x16, 0x01, 0x02]\<rparr>,
     \<lparr>sp_code = 0x14, sp_value = [0x00, 0x02]\<rparr>, \<lparr>sp_code = 0x33, sp_value = [0x00, 0x01]\<rparr>,
     \<lparr>sp_code = 0x34, sp_value = [0x00, 0x01]\<rparr>]"

definition effective_parameters :: "session_parameter list \<Rightarrow> session_parameter list" where
  "effective_parameters ps = (if ps \<noteq> [] then ps else default_parameters)"

definition session_encode_connect :: "bytes \<Rightarrow> session_parameter list \<Rightarrow> bytes result" where
  "session_encode_connect payload ps = session_encode 0x0D (effective_parameters ps) payload"

definition session_encode_accept :: "bytes \<Rightarrow> session_parameter list \<Rightarrow> bytes result" where
  "session_encode_accept payload ps = session_encode 0x0E (effective_parameters ps) payload"

definition session_encode_accept_mirroring :: "session_spdu \<Rightarrow> bytes \<Rightarrow> bytes result" where
  "session_encode_accept_mirroring connect payload =
     (if ss_kind connect \<noteq> Spdu_connect then Inl (Invalid_argument ''ISO Session Accept mirroring requires a Connect SPDU.'')
      else session_encode 0x0E (ss_parameters connect) payload)"

subsection \<open>Data transfer\<close>

record session_transfer =
  st_has_give_tokens_prefix :: bool
  st_presentation_payload :: bytes

definition session_encode_data_transfer :: "bytes \<Rightarrow> bool \<Rightarrow> bytes" where
  "session_encode_data_transfer payload include_prefix = (if include_prefix then [0x01, 0x00] else []) @ [0x01, 0x00] @ payload"

definition session_decode_data_transfer :: "bytes \<Rightarrow> string + session_transfer" where
  "session_decode_data_transfer bs =
     (if length bs < 2 then Inl ''ISO Session data-transfer profile is truncated.''
      else if length bs \<ge> 4 \<and> bs ! 0 = 0x01 \<and> bs ! 1 = 0x00 \<and> bs ! 2 = 0x01 \<and> bs ! 3 = 0x00
      then Inr \<lparr>st_has_give_tokens_prefix = True, st_presentation_payload = drop 4 bs\<rparr>
      else if bs ! 0 = 0x01 \<and> bs ! 1 = 0x00 then Inr \<lparr>st_has_give_tokens_prefix = False, st_presentation_payload = drop 2 bs\<rparr>
      else Inl ''ISO Session data-transfer profile has an invalid SPDU prefix.'')"

subsection \<open>Caller buffers\<close>

record session_view =
  sw_kind :: spdu_kind
  sw_code :: u8
  sw_length_indicator :: u8
  sw_parameter_bytes :: bytes
  sw_user_data :: bytes

function view_try_parameter :: "u8 \<Rightarrow> bytes \<Rightarrow> bytes option" where
  "view_try_parameter code [] = None"
| "view_try_parameter code [x] = None"
| "view_try_parameter code (current # len # rest) =
     (let n = unat len in
      if n > length rest then None
      else if current = code then Some (take n rest)
      else view_try_parameter code (drop n rest))"
  by pat_completeness auto
termination
  by (relation "measure (\<lambda>(_, rest). length rest)") auto

text \<open>The scan keeps the offset of the next octet; its result is the end of the parameters and the
  user data.\<close>

function session_scan :: "bytes \<Rightarrow> nat \<Rightarrow> nat \<Rightarrow> nat \<Rightarrow> bytes \<Rightarrow> bool \<Rightarrow> (nat \<times> bytes) option" where
  "session_scan rest off count parameter_end ud saw =
     (case rest of
        [] \<Rightarrow> Some (parameter_end, ud)
      | code # rest1 \<Rightarrow>
          (if count \<ge> 64 then None
           else case rest1 of
               [] \<Rightarrow> None
             | len # rest2 \<Rightarrow>
                 (let n = unat len in
                  if n > length rest2 then None
                  else if code = 0xC1 then
                    (if saw \<or> n \<noteq> length rest2 then None
                     else session_scan (drop n rest2) (off + 2 + n) (count + 1) off (take n rest2) True)
                  else session_scan (drop n rest2) (off + 2 + n) (count + 1) parameter_end ud saw)))"
  by pat_completeness auto
termination
  by (relation "measure (\<lambda>(rest, _). length rest)") auto

declare session_scan.simps [simp del]

definition session_decode_prefix_view :: "bytes \<Rightarrow> (session_view \<times> nat) option" where
  "session_decode_prefix_view bs =
     (if length bs < 2 then None
      else let kind = kind_from_code (bs ! 0) in
        if kind = Spdu_unknown then None
        else let total_length = unat (bs ! 1) + 2 in
          if total_length > 257 \<or> total_length > length bs then None
          else case session_scan (drop 2 (take total_length bs)) 2 0 total_length [] False of
              None \<Rightarrow> None
            | Some (parameter_end, ud) \<Rightarrow>
                Some (\<lparr>sw_kind = kind, sw_code = bs ! 0, sw_length_indicator = bs ! 1,
                  sw_parameter_bytes = take (parameter_end - 2) (drop 2 bs), sw_user_data = ud\<rparr>, total_length))"

definition session_decode_view :: "bytes \<Rightarrow> session_view option" where
  "session_decode_view bs = (case session_decode_prefix_view bs of
     None \<Rightarrow> None | Some (v, consumed) \<Rightarrow> if consumed = length bs then Some v else None)"

fun view_add_sizes :: "session_parameter list \<Rightarrow> nat \<Rightarrow> nat option" where
  "view_add_sizes [] n = (if n \<le> 255 then Some n else None)"
| "view_add_sizes (p # ps) n =
     (if sp_code p = 0xC1 \<or> length (sp_value p) > 255 then None
      else if n > 255 \<or> length (sp_value p) + 2 > 255 - n then None
      else view_add_sizes ps (n + (length (sp_value p) + 2)))"

definition encoded_body_size :: "session_parameter list \<Rightarrow> bytes \<Rightarrow> nat option" where
  "encoded_body_size ps ud =
     (if length ps > 64 \<or> length ud > 255 then None
      else if ud \<noteq> [] \<and> length ud + 2 > 255 then None
      else view_add_sizes ps (if ud = [] then 0 else length ud + 2))"

definition write_parameter :: "u8 \<Rightarrow> bytes \<Rightarrow> nat \<times> bytes \<Rightarrow> (nat \<times> bytes) option" where
  "write_parameter code value = (\<lambda>(off, dest).
     if off > length dest \<or> length value > 255 \<or> length value + 2 > length dest - off then None
     else Some (off + 2 + length value, put_at off ([code, of_nat (length value)] @ value) dest))"

fun write_parameters :: "session_parameter list \<Rightarrow> nat \<times> bytes \<Rightarrow> (nat \<times> bytes) option" where
  "write_parameters [] s = Some s"
| "write_parameters (p # ps) s =
     (case write_parameter (sp_code p) (sp_value p) s of None \<Rightarrow> None | Some s \<Rightarrow> write_parameters ps s)"

text \<open>A failing write returns with the destination as it is then; the encoder checks the size first, so
  this branch is never taken.\<close>

definition session_encode_into :: "u8 \<Rightarrow> session_parameter list \<Rightarrow> bytes \<Rightarrow> bytes \<Rightarrow> encode_result \<times> bytes" where
  "session_encode_into code ps ud dest =
     (if kind_from_code code = Spdu_unknown then ((Value_out_of_range, 0, 0), dest)
      else case encoded_body_size ps ud of
          None \<Rightarrow> ((Value_out_of_range, 0, 0), dest)
        | Some body_length \<Rightarrow>
            let required = body_length + 2 in
            if length dest < required then ((Buffer_too_small, 0, required), dest)
            else let dest = put_at 0 [code, of_nat body_length] dest in
              (case write_parameters ps (2, dest) of
                 None \<Rightarrow> ((Value_out_of_range, 0, required), dest)
               | Some s \<Rightarrow>
                   (case (if ud = [] then Some s else write_parameter 0xC1 ud s) of
                      None \<Rightarrow> ((Value_out_of_range, 0, required), snd s)
                    | Some (off, dest) \<Rightarrow>
                        if off \<noteq> required then ((Value_out_of_range, 0, required), dest)
                        else ((Encode_ok, required, required), dest))))"

definition session_encode_connect_into :: "bytes \<Rightarrow> bytes \<Rightarrow> session_parameter list \<Rightarrow> encode_result \<times> bytes" where
  "session_encode_connect_into payload dest ps = session_encode_into 0x0D (effective_parameters ps) payload dest"

definition session_encode_accept_into :: "bytes \<Rightarrow> bytes \<Rightarrow> session_parameter list \<Rightarrow> encode_result \<times> bytes" where
  "session_encode_accept_into payload dest ps = session_encode_into 0x0E (effective_parameters ps) payload dest"

definition session_encode_accept_mirroring_into :: "session_view \<Rightarrow> bytes \<Rightarrow> bytes \<Rightarrow> encode_result \<times> bytes" where
  "session_encode_accept_mirroring_into connect payload dest =
     (if sw_kind connect \<noteq> Spdu_connect \<or> length payload > 255 then ((Value_out_of_range, 0, 0), dest)
      else let user_bytes = (if payload = [] then 0 else length payload + 2) in
        if user_bytes > 255 \<or> length (sw_parameter_bytes connect) > 255 - user_bytes then ((Value_out_of_range, 0, 0), dest)
        else let body_length = length (sw_parameter_bytes connect) + user_bytes; required = body_length + 2 in
          if length dest < required then ((Buffer_too_small, 0, required), dest)
          else let dest = put_at 0 [0x0E, of_nat body_length] dest;
                   dest = put_at 2 (sw_parameter_bytes connect) dest;
                   off = 2 + length (sw_parameter_bytes connect) in
            (case (if payload = [] then Some (off, dest) else write_parameter 0xC1 payload (off, dest)) of
               None \<Rightarrow> ((Value_out_of_range, 0, required), dest)
             | Some (off, dest) \<Rightarrow>
                 if off = required then ((Encode_ok, required, required), dest)
                 else ((Value_out_of_range, 0, required), dest)))"

definition session_encode_data_transfer_into :: "bytes \<Rightarrow> bytes \<Rightarrow> bool \<Rightarrow> encode_result \<times> bytes" where
  "session_encode_data_transfer_into payload dest include_prefix =
     (let prefix = (if include_prefix then 4 else 2) in
      if length payload > 2 ^ 64 - 1 - prefix then ((Value_out_of_range, 0, 0), dest)
      else let required = length payload + prefix in
        if length dest < required then ((Buffer_too_small, 0, required), dest)
        else let (off, dest) = (if include_prefix then (2, put_at 0 [0x01, 0x00] dest) else (0, dest));
                 dest = put_at off [0x01, 0x00] dest
          in ((Encode_ok, required, required), put_at (off + 2) payload dest))"

definition session_decode_data_transfer_view :: "bytes \<Rightarrow> session_transfer option" where
  "session_decode_data_transfer_view bs =
     (if length bs < 2 then None
      else if length bs \<ge> 4 \<and> bs ! 0 = 0x01 \<and> bs ! 1 = 0x00 \<and> bs ! 2 = 0x01 \<and> bs ! 3 = 0x00
      then Some \<lparr>st_has_give_tokens_prefix = True, st_presentation_payload = drop 4 bs\<rparr>
      else if bs ! 0 = 0x01 \<and> bs ! 1 = 0x00 then Some \<lparr>st_has_give_tokens_prefix = False, st_presentation_payload = drop 2 bs\<rparr>
      else None)"

end
