(* ===== verification/Session_Wire.thy ===== *)
theory Session_Wire
  imports Session
begin

text \<open>
  The session codec: what it writes it reads back, except for a full parameter list with user data and
  for an ambiguous data-transfer profile; the caller-buffer codec agrees with the owning one.
\<close>

abbreviation param_octets :: "session_parameter \<Rightarrow> bytes" where
  "param_octets p \<equiv> encode_parameter (sp_code p) (sp_value p)"

definition params_octets :: "session_parameter list \<Rightarrow> bytes" where
  "params_octets ps = concat (map param_octets ps)"

definition param_ok :: "session_parameter \<Rightarrow> bool" where
  "param_ok p \<longleftrightarrow> sp_code p \<noteq> 0xC1 \<and> length (sp_value p) \<le> 255"

definition user_octets :: "bytes \<Rightarrow> bytes" where
  "user_octets ud = (if ud = [] then [] else encode_parameter 0xC1 ud)"

lemma params_octets_simps [simp]:
  "params_octets [] = []" "params_octets (p # ps) = param_octets p @ params_octets ps"
  "params_octets (ps @ qs) = params_octets ps @ params_octets qs"
  by (simp_all add: params_octets_def)

lemma length_encode_parameter [simp]: "length (encode_parameter c v) = 2 + length v"
  by (simp add: encode_parameter_def)

lemma unat_of_nat_octet [simp]: "n \<le> 255 \<Longrightarrow> unat (of_nat n :: u8) = n"
  by (simp add: unsigned_of_nat take_bit_nat_eq_self)

lemma session_parse_params:
  "list_all param_ok ps \<Longrightarrow> length qs + length ps \<le> 64 \<Longrightarrow>
     session_parse (params_octets ps @ rest) qs ud saw = session_parse rest (qs @ ps) ud saw"
proof (induction ps arbitrary: qs)
  case (Cons p ps)
  then have "session_parse (params_octets (p # ps) @ rest) qs ud saw = session_parse (params_octets ps @ rest) (qs @ [p]) ud saw"
    by (cases p) (simp add: encode_parameter_def param_ok_def Let_def)
  also have "\<dots> = session_parse rest ((qs @ [p]) @ ps) ud saw" using Cons.prems by (intro Cons.IH) simp_all
  finally show ?case by simp
qed simp

lemma session_parse_user:
  "length ud \<le> 255 \<Longrightarrow> session_parse (user_octets ud) ps [] False =
     (if length ps \<ge> 64 \<and> ud \<noteq> [] then Inl ''ISO Session SPDU exceeded the parameter-count limit.'' else Inr (ps, ud))"
  by (simp add: user_octets_def encode_parameter_def Let_def)

lemma session_body_length_Inr:
  "session_body_length ps n = Inr m \<Longrightarrow> list_all param_ok ps \<and> m = n + length (params_octets ps)"
  by (induction ps n rule: session_body_length.induct) (auto simp: param_ok_def split: if_splits)

lemma session_encode_Inr:
  assumes "session_encode code ps ud = Inr bs"
  shows "kind_from_code code \<noteq> Spdu_unknown" "length ps \<le> 64" "length ud \<le> 255" "list_all param_ok ps"
    "length (params_octets ps @ user_octets ud) \<le> 255"
    "bs = [code, of_nat (length (params_octets ps @ user_octets ud))] @ params_octets ps @ user_octets ud"
proof -
  obtain m where m: "kind_from_code code \<noteq> Spdu_unknown" "length ps \<le> 64" "length ud \<le> 255" "m \<le> 255"
      "session_body_length ps (length (user_octets ud)) = Inr m" "bs = [code, of_nat m] @ params_octets ps @ user_octets ud"
    using assms unfolding session_encode_def params_octets_def [symmetric] user_octets_def
    by (cases "ud = []") (auto simp: bindE_Inr_iff split: if_splits)
  note len = session_body_length_Inr [OF m(5)]
  show "kind_from_code code \<noteq> Spdu_unknown" "length ps \<le> 64" "length ud \<le> 255" "list_all param_ok ps"
    "length (params_octets ps @ user_octets ud) \<le> 255"
    "bs = [code, of_nat (length (params_octets ps @ user_octets ud))] @ params_octets ps @ user_octets ud"
    using m len by (simp_all add: add.commute)
qed

lemma decode_prefix_body:
  assumes "kind_from_code code \<noteq> Spdu_unknown" "length body \<le> 255"
  shows "session_decode_prefix ([code, of_nat (length body)] @ body @ rest) = bindE (session_parse body [] [] False) (\<lambda>(ps, ud).
    Inr (\<lparr>ss_kind = kind_from_code code, ss_code = code, ss_length_indicator = of_nat (length body), ss_parameters = ps,
      ss_user_data = ud\<rparr>, length body + 2))"
  using assms by (simp add: session_decode_prefix_def Let_def)

lemma spdu_decode_encode:
  assumes "session_encode code ps ud = Inr bs"
  shows "session_decode_prefix (bs @ rest) =
    (if length ps = 64 \<and> ud \<noteq> [] then Inl ''ISO Session SPDU exceeded the parameter-count limit.''
     else Inr (\<lparr>ss_kind = kind_from_code code, ss_code = code, ss_length_indicator = of_nat (length bs - 2),
       ss_parameters = ps, ss_user_data = ud\<rparr>, length bs)) \<and>
    (session_decode bs = Inr s \<longleftrightarrow> \<not> (length ps = 64 \<and> ud \<noteq> []) \<and>
       s = \<lparr>ss_kind = kind_from_code code, ss_code = code, ss_length_indicator = of_nat (length bs - 2), ss_parameters = ps, ss_user_data = ud\<rparr>)"
proof -
  note e = session_encode_Inr [OF assms]
  let ?body = "params_octets ps @ user_octets ud"
  have "session_parse ?body [] [] False =
      (if length ps = 64 \<and> ud \<noteq> [] then Inl ''ISO Session SPDU exceeded the parameter-count limit.'' else Inr (ps, ud))"
    using session_parse_params [OF e(4), of "[]" "user_octets ud" "[]" False] e(2) session_parse_user [OF e(3), of ps] by auto
  moreover have len: "length bs = length ?body + 2" using e(6) by simp
  moreover have "bs @ r = [code, of_nat (length ?body)] @ ?body @ r" for r using e(6) by simp
  ultimately have prefix: "session_decode_prefix (bs @ r) =
    (if length ps = 64 \<and> ud \<noteq> [] then Inl ''ISO Session SPDU exceeded the parameter-count limit.''
     else Inr (\<lparr>ss_kind = kind_from_code code, ss_code = code, ss_length_indicator = of_nat (length bs - 2),
       ss_parameters = ps, ss_user_data = ud\<rparr>, length bs))" for r
    using decode_prefix_body [OF e(1,5), of r] by (simp del: length_append)
  with prefix [of "[]"] show ?thesis by (auto simp: session_decode_def)
qed

text \<open>C26.  Session SPDUs round trip: what the encoder accepts decodes, also with octets behind it, to the
  same code, parameters and user data, consuming exactly the encoding.  The one exception is a list of
  64 parameters with user data: the encoder accepts it and the decoder refuses it, because it applies
  the limit before it sees that the next parameter is the user data.\<close>

theorem session_spdu_round_trip:
  assumes "session_encode code ps ud = Inr bs"
  shows "session_decode_prefix (bs @ rest) =
    (if length ps = 64 \<and> ud \<noteq> [] then Inl ''ISO Session SPDU exceeded the parameter-count limit.''
     else Inr (\<lparr>ss_kind = kind_from_code code, ss_code = code, ss_length_indicator = of_nat (length bs - 2),
       ss_parameters = ps, ss_user_data = ud\<rparr>, length bs)) \<and>
    (session_decode bs = Inr s \<longleftrightarrow> \<not> (length ps = 64 \<and> ud \<noteq> []) \<and>
       s = \<lparr>ss_kind = kind_from_code code, ss_code = code, ss_length_indicator = of_nat (length bs - 2), ss_parameters = ps, ss_user_data = ud\<rparr>)"
  by (rule spdu_decode_encode [OF assms])

theorem session_spdu_round_trip_witness:
  "\<exists>bs. session_encode 0x0D default_parameters [0x61, 0x00] = Inr bs \<and>
     session_decode_prefix (bs @ [7]) = Inr (\<lparr>ss_kind = Spdu_connect, ss_code = 0x0D, ss_length_indicator = 24,
       ss_parameters = default_parameters, ss_user_data = [0x61, 0x00]\<rparr>, 26)"
proof -
  let ?bs = "[0x0D, 24, 5, 6, 0x13, 1, 0, 0x16, 1, 2, 0x14, 2, 0, 2, 0x33, 2, 0, 1, 0x34, 2, 0, 1, 0xC1, 2, 0x61, 0] :: bytes"
  have "session_encode 0x0D default_parameters [0x61, 0x00] = Inr ?bs"
    by (simp add: session_encode_def default_parameters_def kind_from_code_def encode_parameter_def)
  from session_spdu_round_trip [OF this, of "[7]"] this show ?thesis
    by (intro exI [of _ ?bs]) (simp add: kind_from_code_def default_parameters_def)
qed

subsection \<open>Caller buffers\<close>

definition new_parameters :: "bytes \<Rightarrow> session_parameter list \<Rightarrow> bool" where
  "new_parameters rest ps \<longleftrightarrow> list_all param_ok ps \<and> take (length (params_octets ps)) rest = params_octets ps"

lemma new_parameters_Nil [simp]: "new_parameters rest []"
  by (simp add: new_parameters_def)

lemma octet_length [simp]: "of_nat (unat (n :: u8)) = n" "unat (n :: u8) \<le> 255"
proof -
  have "unat n < 2 ^ LENGTH(8)" by (rule unsigned_less)
  then show "unat n \<le> 255" by simp
qed simp

lemma new_parameters_Cons:
  assumes "code \<noteq> 0xC1" "unat len \<le> length rest" "new_parameters (drop (unat len) rest) ps"
  shows "new_parameters (code # len # rest) (\<lparr>sp_code = code, sp_value = take (unat len) rest\<rparr> # ps)"
proof -
  have "take (unat len + n) rest = take (unat len) rest @ take n (drop (unat len) rest)" for n
    using assms(2) by (simp add: take_add)
  with assms show ?thesis by (auto simp: new_parameters_def param_ok_def encode_parameter_def)
qed

lemma session_scan_agrees:
  "case session_parse rest ps [] False of
     Inl _ \<Rightarrow> session_scan rest off (length ps) (off + length rest) [] False = None
   | Inr (qs, ud) \<Rightarrow> \<exists>new. qs = ps @ new \<and> new_parameters rest new \<and>
       session_scan rest off (length ps) (off + length rest) [] False = Some (off + length (params_octets new), ud)"
proof (induction rest ps "[] :: bytes" False arbitrary: off rule: session_parse.induct)
  case (1 ps)
  show ?case by (simp add: session_scan.simps)
next
  case (2 x ps)
  show ?case by (simp add: session_scan.simps)
next
  case (3 code len rest ps)
  consider (bad) "length ps \<ge> 64 \<or> unat len > length rest" | (user) "\<not> (length ps \<ge> 64 \<or> unat len > length rest)" "code = 0xC1"
    | (param) "\<not> (length ps \<ge> 64 \<or> unat len > length rest)" "code \<noteq> 0xC1" by blast
  then show ?case
  proof cases
    case bad
    then show ?thesis by (auto simp: session_scan.simps Let_def)
  next
    case user
    then show ?thesis by (auto simp: session_scan.simps Let_def)
  next
    case param
    let ?p = "\<lparr>sp_code = code, sp_value = take (unat len) rest\<rparr>"
    let ?rest = "drop (unat len) rest" and ?off = "off + 2 + unat len"
    let ?scan = "session_scan ?rest ?off (length (ps @ [?p])) (?off + length ?rest) [] False"
    have ih: "case session_parse ?rest (ps @ [?p]) [] False of Inl _ \<Rightarrow> ?scan = None
      | Inr (qs, ud) \<Rightarrow> \<exists>new. qs = (ps @ [?p]) @ new \<and> new_parameters ?rest new \<and> ?scan = Some (?off + length (params_octets new), ud)"
      by (rule 3(2) [OF _ refl]) (use param in simp_all)
    have parse: "session_parse (code # len # rest) ps [] False = session_parse ?rest (ps @ [?p]) [] False"
      using param by (simp add: Let_def)
    have scan: "session_scan (code # len # rest) off (length ps) (off + length (code # len # rest)) [] False = ?scan"
      using param by (subst session_scan.simps) (simp add: Let_def)
    show ?thesis unfolding parse scan
    proof (cases "session_parse ?rest (ps @ [?p]) [] False")
      case (Inr r)
      with ih obtain new where new: "fst r = (ps @ [?p]) @ new" "new_parameters ?rest new" "?scan = Some (?off + length (params_octets new), snd r)"
        by (auto split: prod.splits)
      moreover have "new_parameters (code # len # rest) (?p # new)" using new param by (intro new_parameters_Cons) simp_all
      ultimately show "case session_parse ?rest (ps @ [?p]) [] False of Inl _ \<Rightarrow> ?scan = None
        | Inr (qs, ud) \<Rightarrow> \<exists>new. qs = ps @ new \<and> new_parameters (code # len # rest) new \<and> ?scan = Some (off + length (params_octets new), ud)"
        using Inr param by (cases r) simp
    next
      case (Inl e)
      with ih show "case session_parse ?rest (ps @ [?p]) [] False of Inl _ \<Rightarrow> ?scan = None
        | Inr (qs, ud) \<Rightarrow> \<exists>new. qs = ps @ new \<and> new_parameters (code # len # rest) new \<and> ?scan = Some (off + length (params_octets new), ud)"
        by simp
    qed
  qed
qed

lemma put_at_two: "put_at 2 xs (a # b # dest) = a # b # xs @ drop (length xs) dest"
  by (simp add: put_at_def numeral_2_eq_2)

lemma view_try_parameter_octets:
  "list_all param_ok ps \<Longrightarrow> view_try_parameter code (params_octets ps) = map_option sp_value (find (\<lambda>p. sp_code p = code) ps)"
  by (induction ps) (auto simp: encode_parameter_def param_ok_def Let_def)

lemma view_add_sizes_iff:
  "view_add_sizes ps n = Some m \<longleftrightarrow> session_body_length ps n = Inr m \<and> m \<le> 255"
proof (induction ps arbitrary: n)
  case (Cons p ps)
  have "n \<le> m \<and> n + (2 + length (sp_value p)) \<le> m" if "session_body_length (p # ps) n = Inr m"
    using session_body_length_Inr [OF that] by simp
  then show ?case by (auto simp: Cons.IH add.commute split: if_splits)
qed auto

lemma write_parameters_ok:
  "off + length (params_octets ps) \<le> length dest \<Longrightarrow> list_all param_ok ps \<Longrightarrow>
     write_parameters ps (off, dest) = Some (off + length (params_octets ps), put_at off (params_octets ps) dest)"
proof (induction ps arbitrary: off dest)
  case (Cons p ps)
  then have "write_parameter (sp_code p) (sp_value p) (off, dest) = Some (off + length (param_octets p), put_at off (param_octets p) dest)"
    by (simp add: write_parameter_def param_ok_def encode_parameter_def)
  with Cons show ?case by (simp add: put_at_append)
qed simp

lemma write_user_ok:
  "off + length (user_octets ud) \<le> length dest \<Longrightarrow> length ud \<le> 255 \<Longrightarrow>
     (if ud = [] then Some (off, dest) else write_parameter 0xC1 ud (off, dest)) =
     Some (off + length (user_octets ud), put_at off (user_octets ud) dest)"
  by (cases "ud = []") (simp_all add: write_parameter_def user_octets_def encode_parameter_def)

lemma encoded_body_size_iff:
  "kind_from_code code \<noteq> Spdu_unknown \<Longrightarrow> encoded_body_size ps ud = Some m \<longleftrightarrow>
     (\<exists>bs. session_encode code ps ud = Inr bs \<and> m + 2 = length bs)"
proof
  assume k: "kind_from_code code \<noteq> Spdu_unknown" and "encoded_body_size ps ud = Some m"
  then have "length ps \<le> 64" "length ud \<le> 255" "session_body_length ps (length (user_octets ud)) = Inr m" "m \<le> 255"
    by (auto simp: encoded_body_size_def user_octets_def view_add_sizes_iff split: if_splits)
  with k session_body_length_Inr [OF this(3)] show "\<exists>bs. session_encode code ps ud = Inr bs \<and> m + 2 = length bs"
    by (auto simp: session_encode_def user_octets_def params_octets_def split: if_splits)
next
  assume "\<exists>bs. session_encode code ps ud = Inr bs \<and> m + 2 = length bs"
  then obtain bs where bs: "session_encode code ps ud = Inr bs" "m + 2 = length bs" by blast
  note e = session_encode_Inr [OF this(1)]
  obtain n where "session_body_length ps (length (user_octets ud)) = Inr n"
    using bs(1) by (cases "ud = []") (auto simp: session_encode_def bindE_Inr_iff user_octets_def split: if_splits)
  with session_body_length_Inr [OF this] have "session_body_length ps (length (user_octets ud)) = Inr m" "m \<le> 255"
    using e(5,6) bs(2) by simp_all
  then show "encoded_body_size ps ud = Some m" using e(2,3,5)
    by (auto simp: encoded_body_size_def user_octets_def view_add_sizes_iff split: if_splits)
qed

text \<open>The caller-buffer session encoder is the owning encoder: whatever the buffer, it refuses the
  same requests, reports the same size, leaves a short buffer untouched, and otherwise writes exactly
  the owning encoder's octets to the front of the buffer and nothing behind them.\<close>

theorem session_encode_into_agrees:
  "session_encode_into code ps ud dest =
     (case session_encode code ps ud of
        Inl _ \<Rightarrow> ((Value_out_of_range, 0, 0), dest)
      | Inr bs \<Rightarrow> if length dest < length bs then ((Buffer_too_small, 0, length bs), dest)
          else ((Encode_ok, length bs, length bs), bs @ drop (length bs) dest))"
proof (cases "session_encode code ps ud")
  case (Inl e)
  moreover have "encoded_body_size ps ud = None" if "kind_from_code code \<noteq> Spdu_unknown"
    using encoded_body_size_iff [OF that, of ps ud] Inl by (cases "encoded_body_size ps ud") auto
  ultimately show ?thesis by (auto simp: session_encode_into_def)
next
  case (Inr bs)
  note e = session_encode_Inr [OF Inr]
  let ?m = "length (params_octets ps @ user_octets ud)"
  have "encoded_body_size ps ud = Some ?m" using encoded_body_size_iff [OF e(1)] Inr e(6) by auto
  with e Inr show ?thesis
    by (simp add: session_encode_into_def Let_def write_parameters_ok write_user_ok put_at_append)
      (simp add: put_at_two)
qed

definition view_of :: "session_spdu \<Rightarrow> session_view" where
  "view_of s = \<lparr>sw_kind = ss_kind s, sw_code = ss_code s, sw_length_indicator = ss_length_indicator s,
     sw_parameter_bytes = params_octets (ss_parameters s), sw_user_data = ss_user_data s\<rparr>"

lemma session_parse_count: "session_parse rest ps ud saw = Inr (qs, ud') \<Longrightarrow> length ps \<le> 64 \<Longrightarrow> length qs \<le> 64"
  by (induction rest ps ud saw rule: session_parse.induct) (auto simp: Let_def split: if_splits)

lemma session_decode_prefix_count: "session_decode_prefix bs = Inr (s, consumed) \<Longrightarrow> length (ss_parameters s) \<le> 64"
  by (auto simp: session_decode_prefix_def bindE_Inr_iff Let_def dest!: session_parse_count split: if_splits prod.splits)

lemma view_add_sizes_ok:
  "list_all param_ok ps \<Longrightarrow> view_add_sizes ps n =
     (if n + length (params_octets ps) \<le> 255 then Some (n + length (params_octets ps)) else None)"
  by (induction ps arbitrary: n) (auto simp: param_ok_def)

lemma mirroring_body:
  "list_all param_ok ps \<Longrightarrow> length ps \<le> 64 \<Longrightarrow>
     (case session_encode 0x0E ps payload of
        Inl _ \<Rightarrow> length payload > 255 \<or> length (params_octets ps @ user_octets payload) > 255
      | Inr out \<Rightarrow> length payload \<le> 255 \<and> length (params_octets ps @ user_octets payload) \<le> 255 \<and>
          out = [0x0E, of_nat (length (params_octets ps @ user_octets payload))] @ params_octets ps @ user_octets payload)"
proof (cases "session_encode 0x0E ps payload")
  case (Inl e)
  assume ok: "list_all param_ok ps" "length ps \<le> 64"
  have "encoded_body_size ps payload = None"
    using encoded_body_size_iff [of "0x0E" ps payload] Inl by (cases "encoded_body_size ps payload") (auto simp: kind_from_code_def)
  with ok Inl show ?thesis
    by (cases "payload = []") (auto simp: encoded_body_size_def view_add_sizes_ok user_octets_def split: if_splits)
next
  case (Inr out)
  from session_encode_Inr [OF this] this show ?thesis by simp
qed

lemma take_self_length: "take (length xs) ys = xs \<Longrightarrow> length xs \<le> length ys"
  by (metis length_take min.cobounded1)

lemma session_decode_prefix_view_agrees:
  "session_decode_prefix_view bs =
     (case session_decode_prefix bs of Inl _ \<Rightarrow> None | Inr (s, consumed) \<Rightarrow> Some (view_of s, consumed)) \<and>
   (\<forall>s consumed. session_decode_prefix bs = Inr (s, consumed) \<longrightarrow>
      list_all param_ok (ss_parameters s) \<and> length (params_octets (ss_parameters s)) \<le> 255)"
proof (cases "length bs < 2 \<or> kind_from_code (bs ! 0) = Spdu_unknown \<or> unat (bs ! 1) + 2 > length bs")
  case True
  then show ?thesis by (auto simp: session_decode_prefix_def session_decode_prefix_view_def Let_def)
next
  case False
  let ?n = "unat (bs ! 1) + 2" and ?body = "drop 2 (take (unat (bs ! 1) + 2) bs)"
  have len: "2 + length ?body = ?n" "length ?body \<le> 255" using False by simp_all
  note agrees = session_scan_agrees [where rest = ?body and ps = "[]" and off = 2, unfolded len(1)]
  have body: "?body = take (unat (bs ! 1)) (drop 2 bs)" by (simp add: drop_take)
  show ?thesis
  proof (cases "session_parse ?body [] [] False")
    case (Inl e)
    with agrees False show ?thesis by (simp add: session_decode_prefix_def session_decode_prefix_view_def Let_def)
  next
    case (Inr r)
    with agrees obtain new where new: "fst r = new" "new_parameters ?body new"
        "session_scan ?body 2 0 ?n [] False = Some (2 + length (params_octets new), snd r)"
      by (auto split: prod.splits)
    from new(2) have octets: "list_all param_ok new" "take (length (params_octets new)) ?body = params_octets new"
      by (simp_all add: new_parameters_def)
    then have "length (params_octets new) \<le> length ?body" by (blast intro: take_self_length)
    moreover from this octets(2) have "take (length (params_octets new)) (drop 2 bs) = params_octets new"
      unfolding body by (simp add: min_def split: if_splits)
    ultimately show ?thesis using Inr new(1,3) octets(1) len(2) False
      by (cases r) (simp add: session_decode_prefix_def session_decode_prefix_view_def Let_def view_of_def)
  qed
qed

text \<open>The caller-buffer session decoder is the owning decoder: on every octet string both accept or
  both refuse, with the same consumed length, and the view has the same kind, code, length indicator and
  user data; its parameter octets are those of the decoded parameters, a parameter looked up in the
  view is the parameter of the owning SPDU, and mirroring a connect view into a buffer gives exactly the
  accept SPDU that mirrors the owning connect SPDU.\<close>

theorem session_decode_view_agrees:
  assumes "session_decode_prefix bs = Inr (s, consumed)"
  shows "session_decode_prefix_view bs = Some (view_of s, consumed) \<and>
    view_try_parameter code (sw_parameter_bytes (view_of s)) = spdu_parameter code s \<and>
    session_encode_accept_mirroring_into (view_of s) payload dest =
     (case session_encode_accept_mirroring s payload of
        Inl _ \<Rightarrow> ((Value_out_of_range, 0, 0), dest)
      | Inr out \<Rightarrow> if length dest < length out then ((Buffer_too_small, 0, length out), dest)
          else ((Encode_ok, length out, length out), out @ drop (length out) dest))"
proof (intro conjI)
  have ok: "list_all param_ok (ss_parameters s)" "length (ss_parameters s) \<le> 64"
    using session_decode_prefix_view_agrees [of bs] session_decode_prefix_count assms by auto
  show "session_decode_prefix_view bs = Some (view_of s, consumed)"
    using session_decode_prefix_view_agrees [of bs] assms by simp
  show "view_try_parameter code (sw_parameter_bytes (view_of s)) = spdu_parameter code s"
    using ok by (simp add: view_of_def spdu_parameter_def view_try_parameter_octets)
  show "session_encode_accept_mirroring_into (view_of s) payload dest =
     (case session_encode_accept_mirroring s payload of
        Inl _ \<Rightarrow> ((Value_out_of_range, 0, 0), dest)
      | Inr out \<Rightarrow> if length dest < length out then ((Buffer_too_small, 0, length out), dest)
          else ((Encode_ok, length out, length out), out @ drop (length out) dest))"
    using mirroring_body [OF ok, of payload]
    by (cases "session_encode 0x0E (ss_parameters s) payload"; cases "payload = []")
      (auto simp: session_encode_accept_mirroring_into_def session_encode_accept_mirroring_def view_of_def Let_def
        user_octets_def put_at_two write_parameter_def encode_parameter_def put_at_def add.commute)
qed

theorem session_decode_view_agrees_witness:
  "view_try_parameter 5 (sw_parameter_bytes (view_of \<lparr>ss_kind = Spdu_connect, ss_code = 0x0D, ss_length_indicator = 5,
     ss_parameters = [\<lparr>sp_code = 5, sp_value = [9, 8, 7]\<rparr>], ss_user_data = []\<rparr>)) = Some [9, 8, 7]"
proof -
  have "session_decode_prefix [0x0D, 5, 5, 3, 9, 8, 7] = Inr (\<lparr>ss_kind = Spdu_connect, ss_code = 0x0D, ss_length_indicator = 5,
      ss_parameters = [\<lparr>sp_code = 5, sp_value = [9, 8, 7]\<rparr>], ss_user_data = []\<rparr>, 7)"
    by (simp add: session_decode_prefix_def kind_from_code_def Let_def)
  from session_decode_view_agrees [OF this, of 5 "[]" "[]"] show ?thesis by (simp add: spdu_parameter_def)
qed

subsection \<open>Data transfer\<close>

lemma data_transfer_decode:
  "session_decode_data_transfer (session_encode_data_transfer payload tokens) =
     (if \<not> tokens \<and> take 2 payload = [0x01, 0x00]
      then Inr \<lparr>st_has_give_tokens_prefix = True, st_presentation_payload = drop 2 payload\<rparr>
      else Inr \<lparr>st_has_give_tokens_prefix = tokens, st_presentation_payload = payload\<rparr>)"
proof -
  have start: "take 2 payload = [0x01, 0x00] \<longleftrightarrow> length payload \<ge> 2 \<and> payload ! 0 = 0x01 \<and> payload ! 1 = 0x00"
    by (cases payload; cases "tl payload") auto
  show ?thesis
    unfolding start by (auto simp: session_decode_data_transfer_def session_encode_data_transfer_def nth_Cons' numeral_eq_Suc)
qed

text \<open>Data transfer: what is written with the give-tokens prefix is read back exactly; without the
  prefix it is read back exactly unless the payload starts with the octets 01 00, which are then taken
  for the data-transfer header behind a prefix and lost.  The caller-buffer writer and reader behave the
  same, and a short buffer is left untouched.\<close>

theorem session_data_transfer_round_trip:
  "session_decode_data_transfer (session_encode_data_transfer payload tokens) =
     (if \<not> tokens \<and> take 2 payload = [0x01, 0x00]
      then Inr \<lparr>st_has_give_tokens_prefix = True, st_presentation_payload = drop 2 payload\<rparr>
      else Inr \<lparr>st_has_give_tokens_prefix = tokens, st_presentation_payload = payload\<rparr>) \<and>
   session_decode_data_transfer_view bs = (case session_decode_data_transfer bs of Inl _ \<Rightarrow> None | Inr t \<Rightarrow> Some t) \<and>
   (let out = session_encode_data_transfer payload tokens in
    session_encode_data_transfer_into payload dest tokens =
      (if length out > 2 ^ 64 - 1 then ((Value_out_of_range, 0, 0), dest)
       else if length dest < length out then ((Buffer_too_small, 0, length out), dest)
       else ((Encode_ok, length out, length out), out @ drop (length out) dest)))"
proof (intro conjI)
  show "session_decode_data_transfer (session_encode_data_transfer payload tokens) =
     (if \<not> tokens \<and> take 2 payload = [0x01, 0x00]
      then Inr \<lparr>st_has_give_tokens_prefix = True, st_presentation_payload = drop 2 payload\<rparr>
      else Inr \<lparr>st_has_give_tokens_prefix = tokens, st_presentation_payload = payload\<rparr>)"
    by (rule data_transfer_decode)
  show "session_decode_data_transfer_view bs = (case session_decode_data_transfer bs of Inl _ \<Rightarrow> None | Inr t \<Rightarrow> Some t)"
    by (simp add: session_decode_data_transfer_view_def session_decode_data_transfer_def)
  have four: "length payload + 4 = Suc (Suc (Suc (Suc (length payload))))" by simp
  show "let out = session_encode_data_transfer payload tokens in
    session_encode_data_transfer_into payload dest tokens =
      (if length out > 2 ^ 64 - 1 then ((Value_out_of_range, 0, 0), dest)
       else if length dest < length out then ((Buffer_too_small, 0, length out), dest)
       else ((Encode_ok, length out, length out), out @ drop (length out) dest))"
    by (cases tokens) (auto simp: session_encode_data_transfer_into_def session_encode_data_transfer_def Let_def put_at_def four)
qed

end
