(* ===== verification/Decimal.thy ===== *)
theory Decimal
  imports Main
begin

text \<open>Decimal text of unsigned numbers (\<open>std::to_string\<close>), shared by the error and health messages.\<close>

fun decimal :: "nat \<Rightarrow> string" where
  "decimal n = (if n < 10 then [char_of (48 + n)] else decimal (n div 10) @ [char_of (48 + n mod 10)])"

declare decimal.simps [simp del]

end
