(* ===== verification/Presentation.thy ===== *)
theory Presentation
  imports Session_Wire Ber Decimal
begin

text \<open>
  The ISO presentation layer (\<open>src/osi/presentation.cpp\<close>): presentation data values, the connect (CP) and
  accept (CPA) PPDUs with their context lists, and data transfer over the session layer.  A
  \<open>PresentationFormatError\<close> is a \<open>std::runtime_error\<close>.  The decoders catch every exception and return its
  text; they are modelled by the exception itself.
\<close>

abbreviation presentation_format_error :: "string \<Rightarrow> exn" where
  "presentation_format_error \<equiv> Runtime_error"

record context_definition =
  xd_id :: u32
  xd_abstract_syntax_name :: bytes
  xd_transfer_syntax_names :: "bytes list"

datatype context_result_code = Acceptance | User_rejection | Provider_rejection

fun result_code :: "context_result_code \<Rightarrow> u8" where
  "result_code Acceptance = 0" | "result_code User_rejection = 1" | "result_code Provider_rejection = 2"

record context_result =
  xr_result :: context_result_code
  xr_transfer_syntax_name :: bytes

record presentation_pdv =
  pv_context_id :: u32
  pv_single_asn1_type :: bytes

record presentation_cp =
  cp_mode_selector :: u32
  cp_calling_selector :: bytes
  cp_called_selector :: bytes
  cp_contexts :: "context_definition list"
  cp_user_data :: presentation_pdv

record presentation_cpa =
  ca_mode_selector :: u32
  ca_context_results :: "context_result list"
  ca_user_data :: presentation_pdv

definition context_id_for_abstract_syntax :: "bytes \<Rightarrow> presentation_cp \<Rightarrow> u32" where
  "context_id_for_abstract_syntax oid cp =
     (case find (\<lambda>c. xd_abstract_syntax_name c = oid) (cp_contexts cp) of None \<Rightarrow> 0 | Some c \<Rightarrow> xd_id c)"

definition default_contexts :: "context_definition list" where
  "default_contexts = [\<lparr>xd_id = 1, xd_abstract_syntax_name = [0x52, 0x01, 0x00, 0x01], xd_transfer_syntax_names = [[0x51, 0x01]]\<rparr>,
     \<lparr>xd_id = 3, xd_abstract_syntax_name = [0x28, 0xCA, 0x22, 0x02, 0x01], xd_transfer_syntax_names = [[0x51, 0x01]]\<rparr>]"

abbreviation maximum_ppdu_bytes :: nat where
  "maximum_ppdu_bytes \<equiv> 1048576"

subsection \<open>Shared readers and writers\<close>

definition encode_integer :: "u32 \<Rightarrow> bytes result" where
  "encode_integer v = ber_encode_tlv_octet 0x02 (ber_encode_unsigned_integer (ucast v))"

definition read_nonnegative_integer :: "string \<Rightarrow> ber_tlv \<Rightarrow> u32 result" where
  "read_nonnegative_integer field tlv = (case ber_read_unsigned_integer tlv of
     None \<Rightarrow> Inl (presentation_format_error (field @ '' is outside the supported range.''))
   | Some v \<Rightarrow> if v > 0xFFFFFFFF then Inl (presentation_format_error (field @ '' is outside the supported range.'')) else Inr (ucast v))"

definition read_positive_integer :: "string \<Rightarrow> ber_tlv \<Rightarrow> u32 result" where
  "read_positive_integer field tlv = (case ber_read_unsigned_integer tlv of
     None \<Rightarrow> Inl (presentation_format_error (field @ '' is outside the supported range.''))
   | Some v \<Rightarrow> if v = 0 \<or> v > 0xFFFFFFFF then Inl (presentation_format_error (field @ '' is outside the supported range.''))
               else Inr (ucast v))"

definition read_single_tlv :: "u8 \<Rightarrow> string \<Rightarrow> bytes \<Rightarrow> ber_tlv result" where
  "read_single_tlv expected_tag description bs = (case ber_try_read_tlv bs 0 of
     Inl _ \<Rightarrow> Inl (presentation_format_error (''Invalid '' @ description @ ''.''))
   | Inr (off, tlv) \<Rightarrow> if off \<noteq> length bs \<or> encoded_tag tlv \<noteq> expected_tag
       then Inl (presentation_format_error (''Invalid '' @ description @ ''.'')) else Inr tlv)"

definition validate_oid :: "string \<Rightarrow> bytes \<Rightarrow> unit result" where
  "validate_oid description value = (if value = [] \<or> length value > 64
     then Inl (presentation_format_error (description @ '' has an invalid encoded length.'')) else Inr ())"

definition validate_optional_normal_field :: "string \<Rightarrow> ber_tlv \<Rightarrow> unit result" where
  "validate_optional_normal_field description field = (if length (tlv_value field) > 64
     then Inl (presentation_format_error (description @ '' exceeds the bounded limit.'')) else Inr ())"

definition ensureE :: "bool \<Rightarrow> exn \<Rightarrow> unit result" where
  "ensureE b e = (if b then Inr () else Inl e)"

subsection \<open>Context lists\<close>

definition encode_transfer_syntax :: "bytes \<Rightarrow> bytes result" where
  "encode_transfer_syntax syntax = bindE (validate_oid ''Presentation transfer syntax OID'' syntax) (\<lambda>_. ber_encode_tlv_octet 0x06 syntax)"

definition encode_context_definition :: "context_definition \<Rightarrow> bytes result" where
  "encode_context_definition c =
     bindE (ensureE (xd_id c \<noteq> 0) (Invalid_argument ''Presentation context identifiers must be positive.'')) (\<lambda>_.
     bindE (validate_oid ''Presentation abstract syntax OID'' (xd_abstract_syntax_name c)) (\<lambda>_.
     bindE (ensureE (xd_transfer_syntax_names c \<noteq> [] \<and> length (xd_transfer_syntax_names c) \<le> 64)
       (Invalid_argument ''Presentation transfer-syntax list is empty or excessive.'')) (\<lambda>_.
     bindE (mapE encode_transfer_syntax (xd_transfer_syntax_names c)) (\<lambda>syntaxes.
     bindE (ber_encode_tlv_octet 0x30 (concat syntaxes)) (\<lambda>transfer_list.
     bindE (encode_integer (xd_id c)) (\<lambda>id.
     bindE (ber_encode_tlv_octet 0x06 (xd_abstract_syntax_name c)) (\<lambda>abstract_syntax.
     ber_encode_tlv_octet 0x30 (id @ abstract_syntax @ transfer_list))))))))"

definition encode_context_definition_list :: "context_definition list \<Rightarrow> bytes result" where
  "encode_context_definition_list cs =
     (if cs = [] \<or> length cs > 64 then Inl (Invalid_argument ''Presentation context count is outside the supported range.'')
      else bindE (mapE encode_context_definition cs) (\<lambda>ds. ber_encode_tlv_octet 0xA4 (concat ds)))"

definition parse_transfer_syntax :: "ber_tlv \<Rightarrow> bytes list \<Rightarrow> bytes list result" where
  "parse_transfer_syntax syntax names =
     (if encoded_tag syntax \<noteq> 0x06 then Inl (presentation_format_error ''Presentation transfer syntax must be an OBJECT IDENTIFIER.'')
      else bindE (validate_oid ''Presentation transfer syntax OID'' (tlv_value syntax)) (\<lambda>_. Inr (names @ [tlv_value syntax])))"

text \<open>A field is \<open>Some\<close> once the loop has seen it.\<close>

record context_fields =
  xf_id :: "u32 option"
  xf_abstract_syntax :: "bytes option"
  xf_transfer_syntaxes :: "bytes list option"

definition parse_context_field :: "ber_tlv \<Rightarrow> context_fields \<Rightarrow> context_fields result" where
  "parse_context_field field c =
     (if encoded_tag field = 0x02 then
        (if xf_id c \<noteq> None then Inl (presentation_format_error ''Presentation context contains duplicate identifiers.'')
         else bindE (read_positive_integer ''Presentation context identifier'' field) (\<lambda>id. Inr (c\<lparr>xf_id := Some id\<rparr>)))
      else if encoded_tag field = 0x06 then
        (if xf_abstract_syntax c \<noteq> None then Inl (presentation_format_error ''Presentation context contains duplicate abstract syntaxes.'')
         else bindE (validate_oid ''Presentation abstract syntax OID'' (tlv_value field)) (\<lambda>_. Inr (c\<lparr>xf_abstract_syntax := Some (tlv_value field)\<rparr>)))
      else if encoded_tag field = 0x30 then
        (if xf_transfer_syntaxes c \<noteq> None then Inl (presentation_format_error ''Presentation context contains duplicate transfer-syntax lists.'')
         else bindE (ber_read_children (tlv_value field)) (\<lambda>syntaxes.
              bindE (foldE parse_transfer_syntax syntaxes []) (\<lambda>names. Inr (c\<lparr>xf_transfer_syntaxes := Some names\<rparr>))))
      else Inl (presentation_format_error ''Presentation context contains an unsupported field.''))"

definition parse_context_definition :: "ber_tlv \<Rightarrow> context_definition list \<Rightarrow> context_definition list result" where
  "parse_context_definition definition cs =
     bindE (ensureE (encoded_tag definition = 0x30) (presentation_format_error ''Presentation context definition must be a SEQUENCE.'')) (\<lambda>_.
     bindE (ensureE (length cs < 64) (presentation_format_error ''Presentation context count exceeded the limit.'')) (\<lambda>_.
     bindE (ber_read_children (tlv_value definition)) (\<lambda>fields.
     bindE (foldE parse_context_field fields \<lparr>xf_id = None, xf_abstract_syntax = None, xf_transfer_syntaxes = None\<rparr>) (\<lambda>c.
       case (xf_id c, xf_abstract_syntax c, xf_transfer_syntaxes c) of
         (Some cid, Some abstract_syntax, Some names) \<Rightarrow>
           if names = [] then Inl (presentation_format_error ''Presentation context definition is incomplete.'')
           else if list_ex (\<lambda>e. xd_id e = cid) cs then Inl (presentation_format_error ''Presentation context identifiers must be unique.'')
           else Inr (cs @ [\<lparr>xd_id = cid, xd_abstract_syntax_name = abstract_syntax, xd_transfer_syntax_names = names\<rparr>])
       | _ \<Rightarrow> Inl (presentation_format_error ''Presentation context definition is incomplete.'')))))"

definition parse_context_definition_list :: "bytes \<Rightarrow> context_definition list result" where
  "parse_context_definition_list bs =
     bindE (ber_read_children bs) (\<lambda>definitions.
     bindE (foldE parse_context_definition definitions []) (\<lambda>cs.
       if cs = [] then Inl (presentation_format_error ''Presentation context definition list is empty.'') else Inr cs))"

definition encode_context_result :: "context_result \<Rightarrow> bytes result" where
  "encode_context_result r =
     bindE (validate_oid ''Presentation result transfer syntax OID'' (xr_transfer_syntax_name r)) (\<lambda>_.
     bindE (ber_encode_tlv_octet 0x80 [result_code (xr_result r)]) (\<lambda>result_tlv.
     bindE (ber_encode_tlv_octet 0x81 (xr_transfer_syntax_name r)) (\<lambda>syntax_tlv.
     ber_encode_tlv_octet 0x30 (result_tlv @ syntax_tlv))))"

definition encode_context_result_list :: "context_result list \<Rightarrow> bytes result" where
  "encode_context_result_list rs =
     (if rs = [] \<or> length rs > 64 then Inl (Invalid_argument ''Presentation context-result count is outside the supported range.'')
      else bindE (mapE encode_context_result rs) (\<lambda>es. ber_encode_tlv_octet 0xA5 (concat es)))"

record result_fields =
  rf_result :: "context_result_code option"
  rf_transfer_syntax :: "bytes option"

definition parse_result_field :: "ber_tlv \<Rightarrow> result_fields \<Rightarrow> result_fields result" where
  "parse_result_field field r =
     (if encoded_tag field = 0x80 then
        (if rf_result r \<noteq> None then Inl (presentation_format_error ''Presentation result contains duplicate result codes.'')
         else bindE (read_nonnegative_integer ''Presentation context result'' field) (\<lambda>v.
           if v > 2 then Inl (presentation_format_error ''Presentation context result code is unsupported.'')
           else Inr (r\<lparr>rf_result := Some (if v = 0 then Acceptance else if v = 1 then User_rejection else Provider_rejection)\<rparr>)))
      else if encoded_tag field = 0x81 then
        (if rf_transfer_syntax r \<noteq> None then Inl (presentation_format_error ''Presentation result contains duplicate transfer syntaxes.'')
         else bindE (validate_oid ''Presentation result transfer syntax OID'' (tlv_value field)) (\<lambda>_. Inr (r\<lparr>rf_transfer_syntax := Some (tlv_value field)\<rparr>)))
      else if encoded_tag field \<noteq> 0x82 then Inl (presentation_format_error ''Presentation context result contains an unsupported field.'')
      else Inr r)"

definition parse_context_result :: "ber_tlv \<Rightarrow> context_result list \<Rightarrow> context_result list result" where
  "parse_context_result sequence rs =
     bindE (ensureE (encoded_tag sequence = 0x30) (presentation_format_error ''Presentation context result must be a SEQUENCE.'')) (\<lambda>_.
     bindE (ensureE (length rs < 64) (presentation_format_error ''Presentation context-result count exceeded the limit.'')) (\<lambda>_.
     bindE (ber_read_children (tlv_value sequence)) (\<lambda>fields.
     bindE (foldE parse_result_field fields \<lparr>rf_result = None, rf_transfer_syntax = None\<rparr>) (\<lambda>r.
       case (rf_result r, rf_transfer_syntax r) of
         (Some code, Some name) \<Rightarrow> Inr (rs @ [\<lparr>xr_result = code, xr_transfer_syntax_name = name\<rparr>])
       | _ \<Rightarrow> Inl (presentation_format_error ''Presentation context result is incomplete.'')))))"

definition parse_context_result_list :: "bytes \<Rightarrow> context_result list result" where
  "parse_context_result_list bs =
     bindE (ber_read_children bs) (\<lambda>sequences.
     bindE (foldE parse_context_result sequences []) (\<lambda>rs.
       if rs = [] then Inl (presentation_format_error ''Presentation context-result list is empty.'') else Inr rs))"

subsection \<open>Mode selector\<close>

definition encode_mode_selector :: "u32 \<Rightarrow> bytes result" where
  "encode_mode_selector mode =
     (if mode = 0 then Inl (Invalid_argument ''Presentation mode selector must be positive.'')
      else bindE (ber_encode_tlv_octet 0x80 (ber_encode_unsigned_integer (ucast mode))) (\<lambda>m. ber_encode_tlv_octet 0xA0 m))"

definition parse_mode_selector :: "ber_tlv \<Rightarrow> u32 result" where
  "parse_mode_selector item = bindE (ber_read_children (tlv_value item)) (\<lambda>fields.
     if length fields \<noteq> 1 \<or> encoded_tag (hd fields) \<noteq> 0x80 then Inl (presentation_format_error ''Presentation mode selector is malformed.'')
     else read_positive_integer ''Presentation mode selector'' (hd fields))"

subsection \<open>Presentation data values\<close>

definition encode_fully_encoded_data :: "u32 \<Rightarrow> bytes \<Rightarrow> bytes result" where
  "encode_fully_encoded_data context_id payload =
     (if context_id = 0 then Inl (Invalid_argument ''Presentation PDV context identifier must be positive.'')
      else if length payload > maximum_ppdu_bytes then Inl (Length_error ''Presentation PDV payload exceeds the bounded limit.'')
      else bindE (encode_integer context_id) (\<lambda>id.
        bindE (ber_encode_tlv_octet 0xA0 payload) (\<lambda>value.
        bindE (ber_encode_tlv_octet 0x30 (id @ value)) (\<lambda>pdv_list. ber_encode_tlv_octet 0x61 pdv_list))))"

record pdv_fields =
  vf_context_id :: "u32 option"
  vf_payload :: "bytes option"

definition parse_pdv_field :: "ber_tlv \<Rightarrow> pdv_fields \<Rightarrow> pdv_fields result" where
  "parse_pdv_field field p =
     (if encoded_tag field = 0x02 then
        (if vf_context_id p \<noteq> None then Inl (presentation_format_error ''Presentation PDV contains duplicate context identifiers.'')
         else bindE (read_positive_integer ''Presentation PDV context identifier'' field) (\<lambda>id. Inr (p\<lparr>vf_context_id := Some id\<rparr>)))
      else if encoded_tag field = 0xA0 then
        (if vf_payload p \<noteq> None then Inl (presentation_format_error ''Presentation PDV contains duplicate single-ASN.1 values.'')
         else Inr (p\<lparr>vf_payload := Some (tlv_value field)\<rparr>))
      else Inl (presentation_format_error ''Presentation PDV contains an unsupported field.''))"

definition decode_fully_encoded_data :: "bytes \<Rightarrow> presentation_pdv result" where
  "decode_fully_encoded_data bs =
     (if bs = [] \<or> length bs > maximum_ppdu_bytes
      then Inl (presentation_format_error ''Presentation fully-encoded-data size is outside the supported range.'')
      else bindE (read_single_tlv 0x61 ''Presentation fully-encoded-data'' bs) (\<lambda>outer.
        bindE (ber_read_children (tlv_value outer)) (\<lambda>pdv_lists.
          if length pdv_lists \<noteq> 1 \<or> encoded_tag (hd pdv_lists) \<noteq> 0x30
          then Inl (presentation_format_error ''Presentation fully-encoded-data must contain one PDV-list.'')
          else bindE (ber_read_children (tlv_value (hd pdv_lists))) (\<lambda>fields.
            bindE (foldE parse_pdv_field fields \<lparr>vf_context_id = None, vf_payload = None\<rparr>) (\<lambda>p.
              case (vf_context_id p, vf_payload p) of
                (Some cid, Some payload) \<Rightarrow> Inr \<lparr>pv_context_id = cid, pv_single_asn1_type = payload\<rparr>
              | _ \<Rightarrow> Inl (presentation_format_error ''Presentation PDV-list is incomplete.''))))))"

subsection \<open>Connect\<close>

definition effective_selector :: "bytes \<Rightarrow> bytes" where
  "effective_selector selector = (if selector = [] then [0, 0, 0, 1] else selector)"

definition encode_cp :: "context_definition list \<Rightarrow> u32 \<Rightarrow> bytes \<Rightarrow> bytes \<Rightarrow> bytes \<Rightarrow> u32 \<Rightarrow> bytes result" where
  "encode_cp contexts acse_context_id aarq calling_selector called_selector mode =
     (if length calling_selector > 64 \<or> length called_selector > 64 then Inl (Length_error ''Presentation selector exceeds the bounded limit.'')
      else if \<not> list_ex (\<lambda>c. xd_id c = acse_context_id) contexts
      then Inl (Invalid_argument ''ACSE presentation context identifier is not defined.'')
      else bindE (encode_mode_selector mode) (\<lambda>mode.
        bindE (ber_encode_tlv_octet 0x81 (effective_selector calling_selector)) (\<lambda>calling.
        bindE (ber_encode_tlv_octet 0x82 (effective_selector called_selector)) (\<lambda>called.
        bindE (encode_context_definition_list contexts) (\<lambda>definitions.
        bindE (encode_fully_encoded_data acse_context_id aarq) (\<lambda>user_data.
        bindE (ber_encode_tlv_octet 0xA2 (calling @ called @ definitions @ user_data)) (\<lambda>normal.
        bindE (ber_encode_tlv_octet 0x31 (mode @ normal)) (\<lambda>cp.
          if length cp > maximum_ppdu_bytes then Inl (Length_error ''Presentation CP PPDU exceeds the bounded limit.'') else Inr cp))))))))"

record cp_fields =
  cf_mode :: "u32 option"
  cf_calling :: bytes
  cf_called :: bytes
  cf_normal :: bool
  cf_contexts :: "context_definition list"
  cf_user_data :: presentation_pdv

text \<open>The loop over the normal-mode parameters; contexts and user data are \<open>Some\<close> once seen.\<close>

record normal_fields =
  nf_calling :: bytes
  nf_called :: bytes
  nf_contexts :: "context_definition list option"
  nf_user_data :: "presentation_pdv option"

definition parse_normal_field :: "ber_tlv \<Rightarrow> normal_fields \<Rightarrow> normal_fields result" where
  "parse_normal_field normal n =
     (if encoded_tag normal = 0x81 then
        (if nf_calling n \<noteq> [] then Inl (presentation_format_error ''Presentation CP contains duplicate calling selectors.'')
         else if length (tlv_value normal) > 64 then Inl (presentation_format_error ''Presentation calling selector exceeds the limit.'')
         else Inr (n\<lparr>nf_calling := tlv_value normal\<rparr>))
      else if encoded_tag normal = 0x82 then
        (if nf_called n \<noteq> [] then Inl (presentation_format_error ''Presentation CP contains duplicate called selectors.'')
         else if length (tlv_value normal) > 64 then Inl (presentation_format_error ''Presentation called selector exceeds the limit.'')
         else Inr (n\<lparr>nf_called := tlv_value normal\<rparr>))
      else if encoded_tag normal = 0xA4 then
        (if nf_contexts n \<noteq> None then Inl (presentation_format_error ''Presentation CP contains duplicate context lists.'')
         else bindE (parse_context_definition_list (tlv_value normal)) (\<lambda>cs. Inr (n\<lparr>nf_contexts := Some cs\<rparr>)))
      else if encoded_tag normal = 0x61 then
        (if nf_user_data n \<noteq> None then Inl (presentation_format_error ''Presentation CP contains duplicate user data.'')
         else bindE (ber_encode_tlv_octet 0x61 (tlv_value normal)) (\<lambda>encoded.
              bindE (decode_fully_encoded_data encoded) (\<lambda>pdv. Inr (n\<lparr>nf_user_data := Some pdv\<rparr>))))
      else Inl (presentation_format_error ''Presentation CP contains an unsupported normal-mode field.''))"

definition parse_cp_item :: "ber_tlv \<Rightarrow> cp_fields \<Rightarrow> cp_fields result" where
  "parse_cp_item item c =
     (if encoded_tag item = 0xA0 then
        (if cf_mode c \<noteq> None then Inl (presentation_format_error ''Presentation CP contains duplicate mode selectors.'')
         else bindE (parse_mode_selector item) (\<lambda>mode. Inr (c\<lparr>cf_mode := Some mode\<rparr>)))
      else if encoded_tag item = 0xA2 then
        (if cf_normal c then Inl (presentation_format_error ''Presentation CP contains duplicate normal-mode parameters.'')
         else bindE (ber_read_children (tlv_value item)) (\<lambda>fields.
              bindE (foldE parse_normal_field fields
                \<lparr>nf_calling = cf_calling c, nf_called = cf_called c, nf_contexts = None, nf_user_data = None\<rparr>) (\<lambda>n.
                case (nf_contexts n, nf_user_data n) of
                  (Some cs, Some pdv) \<Rightarrow> Inr (c\<lparr>cf_calling := nf_calling n, cf_called := nf_called n, cf_contexts := cs, cf_user_data := pdv,
                    cf_normal := True\<rparr>)
                | _ \<Rightarrow> Inl (presentation_format_error ''Presentation CP normal-mode parameters are incomplete.''))))
      else Inl (presentation_format_error ''Presentation CP contains an unsupported field.''))"

definition decode_cp :: "bytes \<Rightarrow> presentation_cp result" where
  "decode_cp bs =
     (if bs = [] \<or> length bs > maximum_ppdu_bytes then Inl (presentation_format_error ''Presentation CP PPDU size is outside the supported range.'')
      else bindE (read_single_tlv 0x31 ''Presentation CP PPDU'' bs) (\<lambda>outer.
        bindE (ber_read_children (tlv_value outer)) (\<lambda>items.
        bindE (foldE parse_cp_item items \<lparr>cf_mode = None, cf_calling = [], cf_called = [], cf_normal = False, cf_contexts = [],
          cf_user_data = \<lparr>pv_context_id = 0, pv_single_asn1_type = []\<rparr>\<rparr>) (\<lambda>c.
          case cf_mode c of
            None \<Rightarrow> Inl (presentation_format_error ''Presentation CP PPDU is incomplete.'')
          | Some mode \<Rightarrow>
              if \<not> cf_normal c then Inl (presentation_format_error ''Presentation CP PPDU is incomplete.'')
              else if \<not> list_ex (\<lambda>x. xd_id x = pv_context_id (cf_user_data c)) (cf_contexts c)
              then Inl (presentation_format_error ''Presentation CP user-data context identifier is undefined.'')
              else Inr \<lparr>cp_mode_selector = mode, cp_calling_selector = cf_calling c, cp_called_selector = cf_called c,
                     cp_contexts = cf_contexts c, cp_user_data = cf_user_data c\<rparr>))))"

subsection \<open>Accept\<close>

definition encode_cpa :: "context_result list \<Rightarrow> u32 \<Rightarrow> bytes \<Rightarrow> u32 \<Rightarrow> bytes result" where
  "encode_cpa rs acse_context_id aare mode =
     bindE (encode_mode_selector mode) (\<lambda>mode.
     bindE (encode_context_result_list rs) (\<lambda>context_results.
     bindE (encode_fully_encoded_data acse_context_id aare) (\<lambda>user_data.
     bindE (ber_encode_tlv_octet 0xA2 (context_results @ user_data)) (\<lambda>normal.
     bindE (ber_encode_tlv_octet 0x31 (mode @ normal)) (\<lambda>cpa.
       if length cpa > maximum_ppdu_bytes then Inl (Length_error ''Presentation CPA PPDU exceeds the bounded limit.'') else Inr cpa)))))"

definition encode_cpa_accepting :: "presentation_cp \<Rightarrow> bytes \<Rightarrow> bytes result" where
  "encode_cpa_accepting request aare =
     (if cp_contexts request = [] then Inl (Invalid_argument ''Presentation CPA requires at least one requested context.'')
      else bindE (mapE (\<lambda>c. if xd_transfer_syntax_names c = [] then Inl (Invalid_argument ''Requested presentation context has no transfer syntax.'')
             else Inr \<lparr>xr_result = Acceptance, xr_transfer_syntax_name = hd (xd_transfer_syntax_names c)\<rparr>) (cp_contexts request))
        (\<lambda>rs. encode_cpa rs (pv_context_id (cp_user_data request)) aare (cp_mode_selector request)))"

text \<open>The optional normal-mode parameters of an accept are only remembered as seen, by their tag numbers.\<close>

record accept_fields =
  af_seen :: "int list"
  af_results :: "context_result list option"
  af_user_data :: "presentation_pdv option"

definition parse_accept_optional :: "int \<Rightarrow> string \<Rightarrow> string \<Rightarrow> ber_tlv \<Rightarrow> accept_fields \<Rightarrow> accept_fields result" where
  "parse_accept_optional number duplicates description normal a =
     (if number \<in> set (af_seen a) then Inl (presentation_format_error (''Presentation CPA contains duplicate '' @ duplicates @ ''.''))
      else bindE (validate_optional_normal_field description normal) (\<lambda>_. Inr (a\<lparr>af_seen := number # af_seen a\<rparr>)))"

definition parse_accept_field :: "ber_tlv \<Rightarrow> accept_fields \<Rightarrow> accept_fields result" where
  "parse_accept_field normal a =
     (let optional = (\<lambda>n. tag_class normal = Context_specific \<and> tag_number normal = n) in
      if optional 0 then parse_accept_optional 0 ''protocol versions'' ''Presentation protocol-version'' normal a
      else if encoded_tag normal = 0x83 then
        (if 3 \<in> set (af_seen a) then Inl (presentation_format_error ''Presentation CPA contains duplicate responding selectors.'')
         else if length (tlv_value normal) > 64 then Inl (presentation_format_error ''Presentation responding selector exceeds the limit.'')
         else Inr (a\<lparr>af_seen := 3 # af_seen a\<rparr>))
      else if encoded_tag normal = 0xA5 then
        (if af_results a \<noteq> None then Inl (presentation_format_error ''Presentation CPA contains duplicate context results.'')
         else bindE (parse_context_result_list (tlv_value normal)) (\<lambda>rs. Inr (a\<lparr>af_results := Some rs\<rparr>)))
      else if optional 8 then parse_accept_optional 8 ''presentation requirements'' ''Presentation requirements'' normal a
      else if optional 9 then parse_accept_optional 9 ''user-session requirements'' ''Presentation user-session requirements'' normal a
      else if optional 11 then parse_accept_optional 11 ''protocol options'' ''Presentation protocol options'' normal a
      else if optional 13 then parse_accept_optional 13 ''nominated contexts'' ''Presentation responders-nominated-context'' normal a
      else if encoded_tag normal = 0x61 then
        (if af_user_data a \<noteq> None then Inl (presentation_format_error ''Presentation CPA contains duplicate user data.'')
         else bindE (ber_encode_tlv_octet 0x61 (tlv_value normal)) (\<lambda>encoded.
              bindE (decode_fully_encoded_data encoded) (\<lambda>pdv. Inr (a\<lparr>af_user_data := Some pdv\<rparr>))))
      else Inl (presentation_format_error (''Presentation CPA contains an unsupported normal-mode field tag='' @
             decimal (unat (encoded_tag normal)) @ '', tagNumber='' @ decimal (nat (tag_number normal)) @ '', length='' @
             decimal (length (tlv_value normal)) @ ''.'')))"

record cpa_fields =
  ac_mode :: "u32 option"
  ac_normal :: "(context_result list \<times> presentation_pdv) option"

definition parse_cpa_item :: "ber_tlv \<Rightarrow> cpa_fields \<Rightarrow> cpa_fields result" where
  "parse_cpa_item item c =
     (if encoded_tag item = 0xA0 then
        (if ac_mode c \<noteq> None then Inl (presentation_format_error ''Presentation CPA contains duplicate mode selectors.'')
         else bindE (parse_mode_selector item) (\<lambda>mode. Inr (c\<lparr>ac_mode := Some mode\<rparr>)))
      else if encoded_tag item = 0xA2 then
        (if ac_normal c \<noteq> None then Inl (presentation_format_error ''Presentation CPA contains duplicate normal-mode parameters.'')
         else bindE (ber_read_children (tlv_value item)) (\<lambda>fields.
              bindE (foldE parse_accept_field fields \<lparr>af_seen = [], af_results = None, af_user_data = None\<rparr>) (\<lambda>a.
                case (af_results a, af_user_data a) of
                  (Some rs, Some pdv) \<Rightarrow> Inr (c\<lparr>ac_normal := Some (rs, pdv)\<rparr>)
                | _ \<Rightarrow> Inl (presentation_format_error ''Presentation CPA normal-mode parameters are incomplete.''))))
      else Inl (presentation_format_error ''Presentation CPA contains an unsupported field.''))"

definition decode_cpa :: "bytes \<Rightarrow> presentation_cpa result" where
  "decode_cpa bs =
     (if bs = [] \<or> length bs > maximum_ppdu_bytes then Inl (presentation_format_error ''Presentation CPA PPDU size is outside the supported range.'')
      else bindE (read_single_tlv 0x31 ''Presentation CPA PPDU'' bs) (\<lambda>outer.
        bindE (ber_read_children (tlv_value outer)) (\<lambda>items.
        bindE (foldE parse_cpa_item items \<lparr>ac_mode = None, ac_normal = None\<rparr>) (\<lambda>c.
          case (ac_mode c, ac_normal c) of
            (Some mode, Some (rs, pdv)) \<Rightarrow> Inr \<lparr>ca_mode_selector = mode, ca_context_results = rs, ca_user_data = pdv\<rparr>
          | _ \<Rightarrow> Inl (presentation_format_error ''Presentation CPA PPDU is incomplete.'')))))"

subsection \<open>Data transfer\<close>

definition encode_p_data :: "bytes \<Rightarrow> u32 \<Rightarrow> bool \<Rightarrow> bytes result" where
  "encode_p_data payload context_id give_tokens =
     bindE (encode_fully_encoded_data context_id payload) (\<lambda>bs. Inr (session_encode_data_transfer bs give_tokens))"

definition decode_p_data :: "bytes \<Rightarrow> presentation_pdv result" where
  "decode_p_data bs =
     (if bs \<noteq> [] \<and> hd bs = 0x01
      then (case session_decode_data_transfer bs of
              Inl message \<Rightarrow> Inl (presentation_format_error message)
            | Inr t \<Rightarrow> decode_fully_encoded_data (st_presentation_payload t))
      else decode_fully_encoded_data bs)"

end
