(* ===== verification/Presentation_Wire.thy ===== *)
theory Presentation_Wire
  imports Presentation
begin

text \<open>
  The presentation codec: what it writes it reads back, with two exceptions that the encoder does not
  exclude, and the answer to a connect accepts every context with its first transfer syntax.
\<close>

subsection \<open>Elements with a one-octet identifier\<close>

definition low_tag :: "u8 \<Rightarrow> bool" where
  "low_tag et \<longleftrightarrow> et AND 0x1F \<noteq> 0x1F"

definition octet_tlv :: "u8 \<Rightarrow> bytes \<Rightarrow> ber_tlv" where
  "octet_tlv et v = \<lparr>encoded_tag = et, tag_class = ber_class_of (drop_bit 6 et AND 0x03), constructed = (et AND 0x20 \<noteq> 0),
     tag_number = uint (et AND 0x1F), tlv_value = v\<rparr>"

lemma octet_tlv_simps [simp]:
  "encoded_tag (octet_tlv et v) = et" "tlv_value (octet_tlv et v) = v"
  "tag_class (octet_tlv et v) = ber_class_of (drop_bit 6 et AND 0x03)" "tag_number (octet_tlv et v) = uint (et AND 0x1F)"
  "constructed (octet_tlv et v) \<longleftrightarrow> et AND 0x20 \<noteq> 0"
  by (simp_all add: octet_tlv_def)

lemma identifier_octet_table:
  "\<forall>m \<in> set [0..<256]. (let et = of_nat m :: u8 in et AND 0x1F = 0x1F \<or>
     ber_write_identifier (ber_class_of (drop_bit 6 et AND 0x03)) (et AND 0x20 \<noteq> 0) (uint (et AND 0x1F)) = Inr [et])"
  by code_simp

lemma first_octet_table:
  "\<forall>m \<in> set [0..<256]. (let et = of_nat m :: u8 in et AND 0x1F = 0x1F \<or>
     ber_first_octet (ber_class_of (drop_bit 6 et AND 0x03)) (et AND 0x20 \<noteq> 0) (uint (et AND 0x1F)) = et)"
  by code_simp

lemma octet_table:
  assumes "\<forall>m \<in> set [0..<256]. P (of_nat m :: u8)" shows "P et"
proof -
  have "unat et \<in> set [0..<256]" using unat_less_exp [of et] by simp
  with assms have "P (of_nat (unat et))" by (rule bspec)
  then show ?thesis by simp
qed

lemma octet_encoding:
  assumes "ber_encode_tlv_octet et v = Inr enc" "low_tag et"
  shows "enc = tlv_encoding (octet_tlv et v)" "tlv_wf (octet_tlv et v)" "length v < length enc"
proof -
  let ?cls = "ber_class_of (drop_bit 6 et AND 0x03)" and ?c = "et AND 0x20 \<noteq> 0" and ?t = "uint (et AND 0x1F)"
  have ident: "ber_write_identifier ?cls ?c ?t = Inr [et]" and first: "ber_first_octet ?cls ?c ?t = et"
    using octet_table [OF identifier_octet_table [unfolded Let_def], of et] octet_table [OF first_octet_table [unfolded Let_def], of et]
      assms(2) by (simp_all add: low_tag_def)
  from assms(1) obtain len where "ber_write_length (length v) = Inr len" "enc = et # len @ v"
    by (auto simp: ber_encode_tlv_octet_def bindE_Inr_iff)
  with ident have enc: "ber_encode_tlv ?cls ?c ?t v = Inr enc" by (simp add: ber_encode_tlv_def)
  have tlv: "tlv_of ?cls ?c ?t v = octet_tlv et v" by (simp add: tlv_of_def octet_tlv_def first)
  have "?t \<le> 255" using uint_lt2p [of "et AND 0x1F"] by simp
  then show "enc = tlv_encoding (octet_tlv et v)" "tlv_wf (octet_tlv et v)" "length v < length enc"
    using ber_encode_tlv_encoding [OF enc] tlv_wf_of_encode [OF enc] ber_encode_tlv_Inr_bounds(3) [OF enc] by (simp_all add: tlv)
qed

lemma read_single_encoding:
  assumes "tlv_wf (octet_tlv et v)"
  shows "read_single_tlv et d (tlv_encoding (octet_tlv et v)) = Inr (octet_tlv et v)" "tlv_encoding (octet_tlv et v) \<noteq> []"
proof -
  let ?x = "octet_tlv et v"
  have bounds: "0 \<le> tag_number ?x" "tag_number ?x \<le> 1000000" "length (tlv_value ?x) \<le> 0xFFFFFFFF" using assms by (simp_all add: tlv_wf_def)
  obtain enc where enc: "ber_encode_tlv (tag_class ?x) (constructed ?x) (tag_number ?x) (tlv_value ?x) = Inr enc" "enc \<noteq> []"
      "ber_try_read_tlv enc 0 = Inr (length enc, tlv_of (tag_class ?x) (constructed ?x) (tag_number ?x) (tlv_value ?x))"
    using ber_tlv_read_back [OF bounds, of "tag_class ?x" "constructed ?x" "[]" "[]"] by auto
  have "tlv_encoding ?x = enc" using enc(1) by (simp add: tlv_encoding_def)
  with enc(2,3) show "read_single_tlv et d (tlv_encoding ?x) = Inr ?x" "tlv_encoding ?x \<noteq> []"
    unfolding tlv_wf_eta [OF assms] by (simp_all add: read_single_tlv_def)
qed

lemmas children1 = ber_read_children_concat [of "[x]" for x, simplified]
lemmas children2 = ber_read_children_concat [of "[x, y]" for x y, simplified]
lemmas children3 = ber_read_children_concat [of "[x, y, z]" for x y z, simplified]
lemmas children4 = ber_read_children_concat [of "[x, y, z, u]" for x y z u, simplified]

lemma tags_low [simp]:
  "low_tag 0x02" "low_tag 0x06" "low_tag 0x30" "low_tag 0x31" "low_tag 0x61" "low_tag 0x80" "low_tag 0x81" "low_tag 0x82"
  "low_tag 0xA0" "low_tag 0xA2" "low_tag 0xA4" "low_tag 0xA5"
  by (simp_all add: low_tag_def)

subsection \<open>Integers and presentation data values\<close>

definition int_tlv :: "u8 \<Rightarrow> u32 \<Rightarrow> ber_tlv" where
  "int_tlv et v = octet_tlv et (ber_encode_unsigned_integer (ucast v))"

lemma int_tlv_tag [simp]: "encoded_tag (int_tlv et v) = et"
  by (simp add: int_tlv_def)

lemma read_int_tlv: "v \<noteq> 0 \<Longrightarrow> read_positive_integer f (int_tlv et v) = Inr v"
proof -
  have "ber_read_unsigned_integer (int_tlv et v) = Some (ucast v)" by (simp add: int_tlv_def)
  moreover have "(ucast v :: u64) \<le> 0xFFFFFFFF" using unat_less_exp [of v] by (simp add: word_le_nat_alt unat_ucast_widen)
  moreover have "(ucast v :: u64) = 0 \<longleftrightarrow> v = 0" by (simp add: word_unat_eq_iff unat_ucast_widen)
  moreover have "(ucast (ucast v :: u64) :: u32) = v" by (simp add: ucast_ucast_narrow)
  moreover assume "v \<noteq> 0"
  ultimately show ?thesis by (simp add: read_positive_integer_def not_less)
qed

lemma encode_integer_Inr: "encode_integer v = Inr enc \<Longrightarrow> enc = tlv_encoding (int_tlv 0x02 v) \<and> tlv_wf (int_tlv 0x02 v)"
  by (auto simp: encode_integer_def int_tlv_def dest: octet_encoding)

definition pdv_list_tlv :: "u32 \<Rightarrow> bytes \<Rightarrow> ber_tlv" where
  "pdv_list_tlv i payload = octet_tlv 0x30 (tlv_encoding (int_tlv 0x02 i) @ tlv_encoding (octet_tlv 0xA0 payload))"

definition pdv_tlv :: "u32 \<Rightarrow> bytes \<Rightarrow> ber_tlv" where
  "pdv_tlv i payload = octet_tlv 0x61 (tlv_encoding (pdv_list_tlv i payload))"

lemma encode_pdv_Inr:
  assumes "encode_fully_encoded_data i payload = Inr bs"
  shows "i \<noteq> 0" "bs = tlv_encoding (pdv_tlv i payload)" "tlv_wf (pdv_tlv i payload)" "tlv_wf (pdv_list_tlv i payload)"
    "tlv_wf (int_tlv 0x02 i)" "tlv_wf (octet_tlv 0xA0 payload)" "ber_encode_tlv_octet 0x61 (tlv_encoding (pdv_list_tlv i payload)) = Inr bs"
proof -
  obtain a b c where e: "i \<noteq> 0" "encode_integer i = Inr a" "ber_encode_tlv_octet 0xA0 payload = Inr b"
      "ber_encode_tlv_octet 0x30 (a @ b) = Inr c" "ber_encode_tlv_octet 0x61 c = Inr bs"
    using assms by (auto simp: encode_fully_encoded_data_def bindE_Inr_iff split: if_splits)
  note abc = encode_integer_Inr [OF e(2)] octet_encoding [OF e(3)] octet_encoding [OF e(4)] octet_encoding [OF e(5)]
  show "i \<noteq> 0" "bs = tlv_encoding (pdv_tlv i payload)" "tlv_wf (pdv_tlv i payload)" "tlv_wf (pdv_list_tlv i payload)"
    "tlv_wf (int_tlv 0x02 i)" "tlv_wf (octet_tlv 0xA0 payload)" "ber_encode_tlv_octet 0x61 (tlv_encoding (pdv_list_tlv i payload)) = Inr bs"
    using e abc by (simp_all add: pdv_tlv_def pdv_list_tlv_def)
qed

lemma pdv_longer: "encode_fully_encoded_data i payload = Inr bs \<Longrightarrow> length payload < length bs"
  by (auto simp: encode_fully_encoded_data_def bindE_Inr_iff dest!: octet_encoding(3) split: if_splits)

lemma decode_pdv:
  assumes "encode_fully_encoded_data i payload = Inr bs" "length bs \<le> maximum_ppdu_bytes"
  shows "decode_fully_encoded_data bs = Inr \<lparr>pv_context_id = i, pv_single_asn1_type = payload\<rparr>"
proof -
  note e = encode_pdv_Inr [OF assms(1)]
  have "read_single_tlv 0x61 d bs = Inr (pdv_tlv i payload)" "bs \<noteq> []" for d
    using read_single_encoding [of "0x61" "tlv_encoding (pdv_list_tlv i payload)"] e(2,3) by (simp_all add: pdv_tlv_def)
  moreover have "ber_read_children (tlv_value (pdv_tlv i payload)) = Inr [pdv_list_tlv i payload]"
    using children1 [OF e(4)] by (simp add: pdv_tlv_def)
  moreover have "ber_read_children (tlv_value (pdv_list_tlv i payload)) = Inr [int_tlv 0x02 i, octet_tlv 0xA0 payload]"
    using children2 [of "int_tlv 0x02 i" "octet_tlv 0xA0 payload"] e(5,6) by (simp add: pdv_list_tlv_def)
  moreover have "encoded_tag (pdv_list_tlv i payload) = 0x30" by (simp add: pdv_list_tlv_def)
  ultimately show ?thesis using assms(2) e(1)
    by (simp add: decode_fully_encoded_data_def parse_pdv_field_def read_int_tlv)
qed

lemma p_data_decode:
  assumes "encode_p_data payload i give_tokens = Inr bs"
  shows "\<exists>pdv. encode_fully_encoded_data i payload = Inr pdv \<and> length payload < length pdv \<and>
    decode_p_data bs = (if length pdv \<le> maximum_ppdu_bytes then Inr \<lparr>pv_context_id = i, pv_single_asn1_type = payload\<rparr>
      else Inl (presentation_format_error ''Presentation fully-encoded-data size is outside the supported range.''))"
proof -
  obtain pdv where pdv: "encode_fully_encoded_data i payload = Inr pdv" "bs = session_encode_data_transfer pdv give_tokens"
    using assms by (auto simp: encode_p_data_def bindE_Inr_iff)
  obtain len where octets: "pdv = 0x61 # len @ tlv_encoding (pdv_list_tlv i payload)"
    using encode_pdv_Inr(7) [OF pdv(1)] by (auto simp: ber_encode_tlv_octet_def bindE_Inr_iff)
  then have "hd pdv = 0x61" "pdv \<noteq> []" by simp_all
  then have "\<not> (take 2 pdv = [0x01, 0x00])" by (cases pdv) auto
  then have transfer: "session_decode_data_transfer bs = Inr \<lparr>st_has_give_tokens_prefix = give_tokens, st_presentation_payload = pdv\<rparr>"
    using data_transfer_decode [of pdv give_tokens] pdv(2) by simp
  have "bs \<noteq> [] \<and> hd bs = 0x01" by (simp add: pdv(2) session_encode_data_transfer_def)
  then have "decode_p_data bs = decode_fully_encoded_data pdv" by (simp add: decode_p_data_def transfer)
  moreover have "length payload < length pdv" by (rule pdv_longer [OF pdv(1)])
  ultimately show ?thesis using pdv(1) decode_pdv [OF pdv(1)]
    by (intro exI [of _ pdv]) (auto simp: decode_fully_encoded_data_def)
qed

text \<open>C22.  Presentation data transfer: what is written with a context identifier is read back from the
  session data transfer, with or without the give-tokens prefix; the session layer's ambiguity cannot
  arise.  The one exception is a payload near the limit: the encoder bounds the payload, the decoder
  the encoding, so a payload whose encoding exceeds one mebibyte is written and refused.\<close>

theorem presentation_data_round_trip:
  assumes "encode_p_data payload i give_tokens = Inr bs"
  shows "\<exists>pdv. encode_fully_encoded_data i payload = Inr pdv \<and> length payload < length pdv \<and>
    decode_p_data bs = (if length pdv \<le> maximum_ppdu_bytes then Inr \<lparr>pv_context_id = i, pv_single_asn1_type = payload\<rparr>
      else Inl (presentation_format_error ''Presentation fully-encoded-data size is outside the supported range.''))"
  by (rule p_data_decode [OF assms])

subsection \<open>Context lists\<close>

lemma bindE_ensureE [simp]: "bindE (ensureE b e) f = (if b then f () else Inl e)"
  by (simp add: ensureE_def)

definition oid_ok :: "bytes \<Rightarrow> bool" where
  "oid_ok oid \<longleftrightarrow> oid \<noteq> [] \<and> length oid \<le> 64"

lemma validate_oid_bind [simp]:
  "bindE (validate_oid d oid) f = (if oid_ok oid then f () else Inl (presentation_format_error (d @ '' has an invalid encoded length.'')))"
  by (auto simp: validate_oid_def oid_ok_def)

definition context_ok :: "context_definition \<Rightarrow> bool" where
  "context_ok c \<longleftrightarrow> xd_id c \<noteq> 0 \<and> oid_ok (xd_abstract_syntax_name c) \<and> xd_transfer_syntax_names c \<noteq> [] \<and>
     list_all oid_ok (xd_transfer_syntax_names c)"

definition syntaxes_tlv :: "bytes list \<Rightarrow> ber_tlv" where
  "syntaxes_tlv names = octet_tlv 0x30 (concat (map (\<lambda>n. tlv_encoding (octet_tlv 0x06 n)) names))"

definition context_tlv :: "context_definition \<Rightarrow> ber_tlv" where
  "context_tlv c = octet_tlv 0x30 (tlv_encoding (int_tlv 0x02 (xd_id c)) @ tlv_encoding (octet_tlv 0x06 (xd_abstract_syntax_name c)) @
     tlv_encoding (syntaxes_tlv (xd_transfer_syntax_names c)))"

definition context_tlvs_wf :: "context_definition \<Rightarrow> bool" where
  "context_tlvs_wf c \<longleftrightarrow> tlv_wf (context_tlv c) \<and> tlv_wf (int_tlv 0x02 (xd_id c)) \<and> tlv_wf (octet_tlv 0x06 (xd_abstract_syntax_name c)) \<and>
     tlv_wf (syntaxes_tlv (xd_transfer_syntax_names c)) \<and> list_all (\<lambda>n. tlv_wf (octet_tlv 0x06 n)) (xd_transfer_syntax_names c)"

lemma mapE_encodings:
  assumes "mapE f xs = Inr encs" "\<And>x enc. x \<in> set xs \<Longrightarrow> f x = Inr enc \<Longrightarrow> enc = tlv_encoding (g x) \<and> P x"
  shows "encs = map (\<lambda>x. tlv_encoding (g x)) xs" "list_all P xs"
  using assms
  by (induction xs arbitrary: encs) (auto simp: bindE_Inr_iff)

lemma encode_transfer_syntax_Inr:
  "encode_transfer_syntax n = Inr enc \<Longrightarrow> enc = tlv_encoding (octet_tlv 0x06 n) \<and> oid_ok n \<and> tlv_wf (octet_tlv 0x06 n)"
  by (auto simp: encode_transfer_syntax_def dest: octet_encoding split: if_splits)

lemma encode_context_Inr:
  assumes "encode_context_definition c = Inr enc"
  shows "enc = tlv_encoding (context_tlv c) \<and> context_ok c \<and> context_tlvs_wf c"
proof -
  obtain ss ts i a where e: "xd_id c \<noteq> 0" "oid_ok (xd_abstract_syntax_name c)" "xd_transfer_syntax_names c \<noteq> []"
      "mapE encode_transfer_syntax (xd_transfer_syntax_names c) = Inr ss" "ber_encode_tlv_octet 0x30 (concat ss) = Inr ts"
      "encode_integer (xd_id c) = Inr i" "ber_encode_tlv_octet 0x06 (xd_abstract_syntax_name c) = Inr a"
      "ber_encode_tlv_octet 0x30 (i @ a @ ts) = Inr enc"
    using assms by (auto simp: encode_context_definition_def bindE_Inr_iff split: if_splits)
  have ss: "ss = map (\<lambda>n. tlv_encoding (octet_tlv 0x06 n)) (xd_transfer_syntax_names c)"
      "list_all (\<lambda>n. oid_ok n \<and> tlv_wf (octet_tlv 0x06 n)) (xd_transfer_syntax_names c)"
    using mapE_encodings [OF e(4), of "octet_tlv 0x06" "\<lambda>n. oid_ok n \<and> tlv_wf (octet_tlv 0x06 n)"] encode_transfer_syntax_Inr by blast+
  note o = octet_encoding [OF e(5)] encode_integer_Inr [OF e(6)] octet_encoding [OF e(7)] octet_encoding [OF e(8)]
  have "ts = tlv_encoding (syntaxes_tlv (xd_transfer_syntax_names c))" "tlv_wf (syntaxes_tlv (xd_transfer_syntax_names c))"
    using o(1,2) ss(1) by (simp_all add: syntaxes_tlv_def)
  then show ?thesis using e(1,2,3) ss(2) o(4-)
    by (auto simp: context_ok_def context_tlvs_wf_def context_tlv_def list_all_iff)
qed

lemma parse_transfer_syntaxes:
  "list_all oid_ok ns \<Longrightarrow> foldE parse_transfer_syntax (map (octet_tlv 0x06) ns) acc = Inr (acc @ ns)"
  by (induction ns arbitrary: acc) (simp_all add: parse_transfer_syntax_def)

lemma parse_context:
  assumes "context_ok c" "context_tlvs_wf c" "length cs < 64"
  shows "parse_context_definition (context_tlv c) cs =
    (if list_ex (\<lambda>e. xd_id e = xd_id c) cs then Inl (presentation_format_error ''Presentation context identifiers must be unique.'')
     else Inr (cs @ [c]))"
proof -
  have "ber_read_children (tlv_value (context_tlv c)) =
      Inr [int_tlv 0x02 (xd_id c), octet_tlv 0x06 (xd_abstract_syntax_name c), syntaxes_tlv (xd_transfer_syntax_names c)]"
    using children3 [of "int_tlv 0x02 (xd_id c)" "octet_tlv 0x06 (xd_abstract_syntax_name c)" "syntaxes_tlv (xd_transfer_syntax_names c)"] assms(2)
    by (simp add: context_tlv_def context_tlvs_wf_def)
  moreover have "ber_read_children (tlv_value (syntaxes_tlv (xd_transfer_syntax_names c))) = Inr (map (octet_tlv 0x06) (xd_transfer_syntax_names c))"
    using ber_read_children_concat [of "map (octet_tlv 0x06) (xd_transfer_syntax_names c)"] assms(2)
    by (simp add: syntaxes_tlv_def context_tlvs_wf_def list_all_iff comp_def)
  moreover have "foldE parse_transfer_syntax (map (octet_tlv 0x06) (xd_transfer_syntax_names c)) [] = Inr (xd_transfer_syntax_names c)"
    using parse_transfer_syntaxes [of "xd_transfer_syntax_names c" "[]"] assms(1) by (simp add: context_ok_def)
  moreover have "encoded_tag (context_tlv c) = 0x30" "encoded_tag (syntaxes_tlv ns) = 0x30" for ns by (simp_all add: context_tlv_def syntaxes_tlv_def)
  ultimately show ?thesis using assms(1,3)
    by (cases c) (simp add: parse_context_definition_def parse_context_field_def read_int_tlv context_ok_def)
qed

lemma list_ex_id: "list_ex (\<lambda>e. xd_id e = i) cs \<longleftrightarrow> i \<in> set (map xd_id cs)"
  by (induction cs) auto

lemma parse_contexts:
  "list_all (\<lambda>c. context_ok c \<and> context_tlvs_wf c) cs \<Longrightarrow> length acc + length cs \<le> 64 \<Longrightarrow> distinct (map xd_id acc) \<Longrightarrow>
     foldE parse_context_definition (map context_tlv cs) acc =
     (if distinct (map xd_id (acc @ cs)) then Inr (acc @ cs)
      else Inl (presentation_format_error ''Presentation context identifiers must be unique.''))"
proof (induction cs arbitrary: acc)
  case (Cons c cs)
  then show ?case
    by (cases "xd_id c \<in> set (map xd_id acc)") (auto simp: parse_context list_ex_id)
qed simp

definition contexts_tlv :: "context_definition list \<Rightarrow> ber_tlv" where
  "contexts_tlv cs = octet_tlv 0xA4 (concat (map (\<lambda>c. tlv_encoding (context_tlv c)) cs))"

lemma encode_contexts_Inr:
  assumes "encode_context_definition_list cs = Inr enc"
  shows "enc = tlv_encoding (contexts_tlv cs)" "tlv_wf (contexts_tlv cs)"
    "parse_context_definition_list (tlv_value (contexts_tlv cs)) =
       (if distinct (map xd_id cs) then Inr cs else Inl (presentation_format_error ''Presentation context identifiers must be unique.''))"
proof -
  obtain ds where e: "cs \<noteq> []" "length cs \<le> 64" "mapE encode_context_definition cs = Inr ds" "ber_encode_tlv_octet 0xA4 (concat ds) = Inr enc"
    using assms by (auto simp: encode_context_definition_list_def bindE_Inr_iff split: if_splits)
  have ds: "ds = map (\<lambda>c. tlv_encoding (context_tlv c)) cs" "list_all (\<lambda>c. context_ok c \<and> context_tlvs_wf c) cs"
    using mapE_encodings [OF e(3), of context_tlv "\<lambda>c. context_ok c \<and> context_tlvs_wf c"] encode_context_Inr by blast+
  show "enc = tlv_encoding (contexts_tlv cs)" "tlv_wf (contexts_tlv cs)"
    using octet_encoding [OF e(4)] ds(1) by (simp_all add: contexts_tlv_def)
  have "ber_read_children (tlv_value (contexts_tlv cs)) = Inr (map context_tlv cs)"
    using ber_read_children_concat [of "map context_tlv cs"] ds(2) by (simp add: contexts_tlv_def context_tlvs_wf_def list_all_iff comp_def)
  then show "parse_context_definition_list (tlv_value (contexts_tlv cs)) =
       (if distinct (map xd_id cs) then Inr cs else Inl (presentation_format_error ''Presentation context identifiers must be unique.''))"
    using parse_contexts [OF ds(2), of "[]"] e(1,2) by (simp add: parse_context_definition_list_def)
qed

definition result_tlv :: "context_result \<Rightarrow> ber_tlv" where
  "result_tlv r = octet_tlv 0x30 (tlv_encoding (octet_tlv 0x80 [result_code (xr_result r)]) @ tlv_encoding (octet_tlv 0x81 (xr_transfer_syntax_name r)))"

definition result_ok :: "context_result \<Rightarrow> bool" where
  "result_ok r \<longleftrightarrow> oid_ok (xr_transfer_syntax_name r) \<and> tlv_wf (result_tlv r) \<and> tlv_wf (octet_tlv 0x80 [result_code (xr_result r)]) \<and>
     tlv_wf (octet_tlv 0x81 (xr_transfer_syntax_name r))"

definition results_tlv :: "context_result list \<Rightarrow> ber_tlv" where
  "results_tlv rs = octet_tlv 0xA5 (concat (map (\<lambda>r. tlv_encoding (result_tlv r)) rs))"

lemma encode_result_Inr: "encode_context_result r = Inr enc \<Longrightarrow> enc = tlv_encoding (result_tlv r) \<and> result_ok r"
proof -
  assume "encode_context_result r = Inr enc"
  then obtain a b where e: "oid_ok (xr_transfer_syntax_name r)" "ber_encode_tlv_octet 0x80 [result_code (xr_result r)] = Inr a"
      "ber_encode_tlv_octet 0x81 (xr_transfer_syntax_name r) = Inr b" "ber_encode_tlv_octet 0x30 (a @ b) = Inr enc"
    by (auto simp: encode_context_result_def bindE_Inr_iff split: if_splits)
  from octet_encoding [OF e(2)] octet_encoding [OF e(3)] octet_encoding [OF e(4)] e(1) show ?thesis
    by (simp add: result_ok_def result_tlv_def)
qed

lemma parse_result:
  assumes "result_ok r" "length rs < 64"
  shows "parse_context_result (result_tlv r) rs = Inr (rs @ [r])"
proof -
  have "ber_read_children (tlv_value (result_tlv r)) = Inr [octet_tlv 0x80 [result_code (xr_result r)], octet_tlv 0x81 (xr_transfer_syntax_name r)]"
    using children2 [of "octet_tlv 0x80 [result_code (xr_result r)]" "octet_tlv 0x81 (xr_transfer_syntax_name r)"] assms(1)
    by (simp add: result_tlv_def result_ok_def)
  moreover have "parse_result_field (octet_tlv 0x80 [result_code k]) fs = Inr (fs\<lparr>rf_result := Some k\<rparr>)" if "rf_result fs = None" for k fs
    using that by (cases k) (simp_all add: parse_result_field_def read_nonnegative_integer_def ber_read_unsigned_integer_def be_value_def)
  moreover have "parse_result_field (octet_tlv 0x81 n) fs = Inr (fs\<lparr>rf_transfer_syntax := Some n\<rparr>)" if "rf_transfer_syntax fs = None" "oid_ok n" for n fs
    using that by (simp add: parse_result_field_def)
  moreover have "encoded_tag (result_tlv r) = 0x30" by (simp add: result_tlv_def)
  ultimately show ?thesis using assms by (simp add: parse_context_result_def result_ok_def)
qed

lemma parse_results:
  "list_all result_ok rs \<Longrightarrow> length acc + length rs \<le> 64 \<Longrightarrow> foldE parse_context_result (map result_tlv rs) acc = Inr (acc @ rs)"
  by (induction rs arbitrary: acc) (simp_all add: parse_result)

lemma encode_results_Inr:
  assumes "encode_context_result_list rs = Inr enc"
  shows "enc = tlv_encoding (results_tlv rs)" "tlv_wf (results_tlv rs)" "parse_context_result_list (tlv_value (results_tlv rs)) = Inr rs"
proof -
  obtain es where e: "rs \<noteq> []" "length rs \<le> 64" "mapE encode_context_result rs = Inr es" "ber_encode_tlv_octet 0xA5 (concat es) = Inr enc"
    using assms by (auto simp: encode_context_result_list_def bindE_Inr_iff split: if_splits)
  have es: "es = map (\<lambda>r. tlv_encoding (result_tlv r)) rs" "list_all result_ok rs"
    using mapE_encodings [OF e(3), of result_tlv result_ok] encode_result_Inr by blast+
  show "enc = tlv_encoding (results_tlv rs)" "tlv_wf (results_tlv rs)"
    using octet_encoding [OF e(4)] es(1) by (simp_all add: results_tlv_def)
  have "ber_read_children (tlv_value (results_tlv rs)) = Inr (map result_tlv rs)"
    using ber_read_children_concat [of "map result_tlv rs"] es(2) by (simp add: results_tlv_def result_ok_def list_all_iff comp_def)
  then show "parse_context_result_list (tlv_value (results_tlv rs)) = Inr rs"
    using parse_results [OF es(2), of "[]"] e(1,2) by (simp add: parse_context_result_list_def)
qed

lemma encode_mode_Inr:
  assumes "encode_mode_selector mode = Inr enc"
  shows "mode \<noteq> 0" "\<exists>v. enc = tlv_encoding (octet_tlv 0xA0 v) \<and> tlv_wf (octet_tlv 0xA0 v) \<and> parse_mode_selector (octet_tlv 0xA0 v) = Inr mode"
proof -
  obtain m where e: "mode \<noteq> 0" "ber_encode_tlv_octet 0x80 (ber_encode_unsigned_integer (ucast mode)) = Inr m" "ber_encode_tlv_octet 0xA0 m = Inr enc"
    using assms by (auto simp: encode_mode_selector_def bindE_Inr_iff split: if_splits)
  have m: "m = tlv_encoding (int_tlv 0x80 mode)" "tlv_wf (int_tlv 0x80 mode)" using octet_encoding [OF e(2)] by (simp_all add: int_tlv_def)
  show "mode \<noteq> 0" by (rule e(1))
  have "parse_mode_selector (octet_tlv 0xA0 m) = Inr mode"
    using children1 [OF m(2)] m(1) e(1) by (simp add: parse_mode_selector_def read_int_tlv)
  then show "\<exists>v. enc = tlv_encoding (octet_tlv 0xA0 v) \<and> tlv_wf (octet_tlv 0xA0 v) \<and> parse_mode_selector (octet_tlv 0xA0 v) = Inr mode"
    using octet_encoding [OF e(3)] by auto
qed

subsection \<open>Connect and accept\<close>

lemma ppdu_outer:
  assumes "ber_encode_tlv_octet 0x31 (a @ b) = Inr bs" "a = tlv_encoding x" "b = tlv_encoding y" "tlv_wf x" "tlv_wf y"
  shows "read_single_tlv 0x31 d bs = Inr (octet_tlv 0x31 (a @ b))" "ber_read_children (a @ b) = Inr [x, y]" "bs \<noteq> []"
  using octet_encoding [OF assms(1)] read_single_encoding [of "0x31" "a @ b"] children2 [OF _ , of x y] assms(2-5) by simp_all

lemma decode_encode_cp:
  assumes "encode_cp cs i aarq calling called mode = Inr bs"
  shows "decode_cp bs =
    (if distinct (map xd_id cs)
     then Inr \<lparr>cp_mode_selector = mode, cp_calling_selector = effective_selector calling, cp_called_selector = effective_selector called,
       cp_contexts = cs, cp_user_data = \<lparr>pv_context_id = i, pv_single_asn1_type = aarq\<rparr>\<rparr>
     else Inl (presentation_format_error ''Presentation context identifiers must be unique.''))"
proof -
  obtain m l d defs u n where e: "length calling \<le> 64" "length called \<le> 64" "list_ex (\<lambda>c. xd_id c = i) cs" "encode_mode_selector mode = Inr m"
      "ber_encode_tlv_octet 0x81 (effective_selector calling) = Inr l" "ber_encode_tlv_octet 0x82 (effective_selector called) = Inr d"
      "encode_context_definition_list cs = Inr defs" "encode_fully_encoded_data i aarq = Inr u"
      "ber_encode_tlv_octet 0xA2 (l @ d @ defs @ u) = Inr n" "ber_encode_tlv_octet 0x31 (m @ n) = Inr bs" "length bs \<le> maximum_ppdu_bytes"
    using assms by (auto simp: encode_cp_def bindE_Inr_iff split: if_splits)
  obtain v where v: "m = tlv_encoding (octet_tlv 0xA0 v)" "tlv_wf (octet_tlv 0xA0 v)" "parse_mode_selector (octet_tlv 0xA0 v) = Inr mode"
    using encode_mode_Inr(2) [OF e(4)] by blast
  note l = octet_encoding [OF e(5)] note d = octet_encoding [OF e(6)] note n = octet_encoding [OF e(9)] note cs = encode_contexts_Inr [OF e(7)]
  note u = encode_pdv_Inr [OF e(8)]
  have outer: "read_single_tlv 0x31 t bs = Inr (octet_tlv 0x31 (m @ n))" "ber_read_children (m @ n) = Inr [octet_tlv 0xA0 v, octet_tlv 0xA2 (l @ d @ defs @ u)]"
      "bs \<noteq> []" for t
    using ppdu_outer [OF e(10) v(1) _ v(2)] n(1,2) by simp_all
  have normal: "ber_read_children (l @ d @ defs @ u) =
      Inr [octet_tlv 0x81 (effective_selector calling), octet_tlv 0x82 (effective_selector called), contexts_tlv cs, pdv_tlv i aarq]"
    using children4 [of "octet_tlv 0x81 (effective_selector calling)" "octet_tlv 0x82 (effective_selector called)" "contexts_tlv cs" "pdv_tlv i aarq"]
      l(1,2) d(1,2) cs(1,2) u(2,3) by simp
  have "length u \<le> maximum_ppdu_bytes" using n(3) octet_encoding(3) [OF e(10)] e(11) by simp
  then have pdv: "decode_fully_encoded_data u = Inr \<lparr>pv_context_id = i, pv_single_asn1_type = aarq\<rparr>" by (rule decode_pdv [OF e(8)])
  have sel: "effective_selector calling \<noteq> []" "effective_selector called \<noteq> []" "length (effective_selector calling) \<le> 64" "length (effective_selector called) \<le> 64"
    using e(1,2) by (simp_all add: effective_selector_def)
  have tags: "encoded_tag (contexts_tlv cs) = 0xA4" "encoded_tag (pdv_tlv i aarq) = 0x61" "tlv_value (pdv_tlv i aarq) = tlv_encoding (pdv_list_tlv i aarq)"
    by (simp_all add: contexts_tlv_def pdv_tlv_def)
  show ?thesis
  proof (cases "distinct (map xd_id cs)")
    case True
    then show ?thesis using e(3,11) outer normal sel tags cs(3) u(7) pdv v(3)
      by (simp add: decode_cp_def parse_cp_item_def parse_normal_field_def)
  next
    case False
    then show ?thesis using e(11) outer normal sel tags cs(3) v(3)
      by (simp add: decode_cp_def parse_cp_item_def parse_normal_field_def)
  qed
qed

text \<open>C20.  Connect round trip: what the encoder writes is read back with mode, selectors (the default
  selector where none was given), contexts and user data, exactly when the context identifiers are
  distinct; the encoder also accepts repeated identifiers, which the decoder refuses.\<close>

theorem presentation_connect_round_trip:
  assumes "encode_cp cs i aarq calling called mode = Inr bs"
  shows "decode_cp bs =
    (if distinct (map xd_id cs)
     then Inr \<lparr>cp_mode_selector = mode, cp_calling_selector = effective_selector calling, cp_called_selector = effective_selector called,
       cp_contexts = cs, cp_user_data = \<lparr>pv_context_id = i, pv_single_asn1_type = aarq\<rparr>\<rparr>
     else Inl (presentation_format_error ''Presentation context identifiers must be unique.''))"
  by (rule decode_encode_cp [OF assms])

lemma decode_encode_cpa:
  assumes "encode_cpa rs i aare mode = Inr bs"
  shows "decode_cpa bs = Inr \<lparr>ca_mode_selector = mode, ca_context_results = rs, ca_user_data = \<lparr>pv_context_id = i, pv_single_asn1_type = aare\<rparr>\<rparr>"
proof -
  obtain m r u n where e: "encode_mode_selector mode = Inr m" "encode_context_result_list rs = Inr r" "encode_fully_encoded_data i aare = Inr u"
      "ber_encode_tlv_octet 0xA2 (r @ u) = Inr n" "ber_encode_tlv_octet 0x31 (m @ n) = Inr bs" "length bs \<le> maximum_ppdu_bytes"
    using assms by (auto simp: encode_cpa_def bindE_Inr_iff split: if_splits)
  obtain v where v: "m = tlv_encoding (octet_tlv 0xA0 v)" "tlv_wf (octet_tlv 0xA0 v)" "parse_mode_selector (octet_tlv 0xA0 v) = Inr mode"
    using encode_mode_Inr(2) [OF e(1)] by blast
  note r = encode_results_Inr [OF e(2)] note u = encode_pdv_Inr [OF e(3)] note n = octet_encoding [OF e(4)]
  have outer: "read_single_tlv 0x31 t bs = Inr (octet_tlv 0x31 (m @ n))" "ber_read_children (m @ n) = Inr [octet_tlv 0xA0 v, octet_tlv 0xA2 (r @ u)]"
      "bs \<noteq> []" for t
    using ppdu_outer [OF e(5) v(1) _ v(2)] n(1,2) by simp_all
  have normal: "ber_read_children (r @ u) = Inr [results_tlv rs, pdv_tlv i aare]"
    using children2 [of "results_tlv rs" "pdv_tlv i aare"] r(1,2) u(2,3) by simp
  have "length u \<le> maximum_ppdu_bytes" using n(3) octet_encoding(3) [OF e(5)] e(6) by simp
  then have pdv: "decode_fully_encoded_data u = Inr \<lparr>pv_context_id = i, pv_single_asn1_type = aare\<rparr>" by (rule decode_pdv [OF e(3)])
  have tags: "encoded_tag (results_tlv rs) = 0xA5" "tag_number (results_tlv rs) = 5" "encoded_tag (pdv_tlv i aare) = 0x61"
    "tag_class (pdv_tlv i aare) = Application" "tlv_value (pdv_tlv i aare) = tlv_encoding (pdv_list_tlv i aare)"
    by (simp_all add: results_tlv_def pdv_tlv_def ber_class_of_def)
  show ?thesis using e(6) outer normal tags r(3) u(7) pdv v(3)
    by (simp add: decode_cpa_def parse_cpa_item_def parse_accept_field_def Let_def)
qed

lemma accept_all:
  "mapE (\<lambda>c. if xd_transfer_syntax_names c = [] then Inl e
      else Inr \<lparr>xr_result = Acceptance, xr_transfer_syntax_name = hd (xd_transfer_syntax_names c)\<rparr>) cs = Inr rs \<Longrightarrow>
     rs = map (\<lambda>c. \<lparr>xr_result = Acceptance, xr_transfer_syntax_name = hd (xd_transfer_syntax_names c)\<rparr>) cs"
  by (induction cs arbitrary: rs) (auto simp: bindE_Inr_iff split: if_splits)

text \<open>C21.  Accept: the answer to a decoded connect is read back as one acceptance per requested context, in
  their order and each with the first transfer syntax offered for it, with the mode of the connect and
  the user data in the context of the connect's user data; and every accept PPDU that is written is
  read back exactly.\<close>

theorem presentation_accept_round_trip:
  assumes "decode_cp request_octets = Inr request" "encode_cpa_accepting request aare = Inr bs"
  shows "decode_cpa bs = Inr \<lparr>ca_mode_selector = cp_mode_selector request,
      ca_context_results = map (\<lambda>c. \<lparr>xr_result = Acceptance, xr_transfer_syntax_name = hd (xd_transfer_syntax_names c)\<rparr>) (cp_contexts request),
      ca_user_data = \<lparr>pv_context_id = pv_context_id (cp_user_data request), pv_single_asn1_type = aare\<rparr>\<rparr> \<and>
    (case encode_cpa rs i user_data mode of Inl _ \<Rightarrow> True
     | Inr out \<Rightarrow> decode_cpa out = Inr \<lparr>ca_mode_selector = mode, ca_context_results = rs, ca_user_data = \<lparr>pv_context_id = i, pv_single_asn1_type = user_data\<rparr>\<rparr>)"
proof -
  let ?accept = "\<lambda>c. \<lparr>xr_result = Acceptance, xr_transfer_syntax_name = hd (xd_transfer_syntax_names c)\<rparr>"
  have "encode_cpa (map ?accept (cp_contexts request)) (pv_context_id (cp_user_data request)) aare (cp_mode_selector request) = Inr bs"
    using assms(2) by (auto simp: encode_cpa_accepting_def bindE_Inr_iff dest: accept_all split: if_splits)
  from decode_encode_cpa [OF this] show ?thesis by (simp add: decode_encode_cpa split: sum.splits)
qed

lemma octet_short: "length v < 128 \<Longrightarrow> ber_encode_tlv_octet et v = Inr (et # of_nat (length v) # v)"
  by (simp add: ber_encode_tlv_octet_def ber_write_length_def)

lemma integers_short: "ber_encode_unsigned_integer 1 = [1]" "ber_encode_unsigned_integer 3 = [3]"
  by code_simp+

lemma sample_cp: "\<not> isl (encode_cp default_contexts 1 [0x60, 0x00] [] [] 1)"
  by (simp add: encode_cp_def default_contexts_def encode_mode_selector_def encode_context_definition_list_def encode_context_definition_def
      encode_transfer_syntax_def encode_integer_def encode_fully_encoded_data_def effective_selector_def oid_ok_def octet_short integers_short)

theorem presentation_connect_round_trip_witness:
  "\<exists>bs. encode_cp default_contexts 1 [0x60, 0x00] [] [] 1 = Inr bs \<and>
     (\<exists>cp. decode_cp bs = Inr cp \<and> cp_contexts cp = default_contexts \<and> cp_calling_selector cp = [0, 0, 0, 1])"
proof -
  obtain bs where bs: "encode_cp default_contexts 1 [0x60, 0x00] [] [] 1 = Inr bs"
    using sample_cp by (cases "encode_cp default_contexts 1 [0x60, 0x00] [] [] 1") simp_all
  from presentation_connect_round_trip [OF this] bs show ?thesis
    by (simp add: default_contexts_def effective_selector_def)
qed

lemma sample_cp_decoded:
  obtains octets where "decode_cp octets = Inr \<lparr>cp_mode_selector = 1, cp_calling_selector = [7], cp_called_selector = [8],
    cp_contexts = default_contexts, cp_user_data = \<lparr>pv_context_id = 1, pv_single_asn1_type = [0x60, 0x00]\<rparr>\<rparr>"
proof -
  have "\<not> isl (encode_cp default_contexts 1 [0x60, 0x00] [7] [8] 1)"
    by (simp add: encode_cp_def default_contexts_def encode_mode_selector_def encode_context_definition_list_def encode_context_definition_def
        encode_transfer_syntax_def encode_integer_def encode_fully_encoded_data_def effective_selector_def oid_ok_def octet_short integers_short)
  then obtain bs where "encode_cp default_contexts 1 [0x60, 0x00] [7] [8] 1 = Inr bs"
    by (cases "encode_cp default_contexts 1 [0x60, 0x00] [7] [8] 1") simp_all
  from decode_encode_cp [OF this] show ?thesis by (intro that [of bs]) (simp add: default_contexts_def effective_selector_def)
qed

theorem presentation_accept_round_trip_witness:
  "\<exists>request bs. encode_cpa_accepting request [0x61, 0x00] = Inr bs \<and> cp_contexts request = default_contexts \<and>
     (\<exists>cpa. decode_cpa bs = Inr cpa \<and> length (ca_context_results cpa) = 2)"
proof -
  obtain octets where req: "decode_cp octets = Inr \<lparr>cp_mode_selector = 1, cp_calling_selector = [7], cp_called_selector = [8],
      cp_contexts = default_contexts, cp_user_data = \<lparr>pv_context_id = 1, pv_single_asn1_type = [0x60, 0x00]\<rparr>\<rparr>" (is "_ = Inr ?r")
    by (rule sample_cp_decoded)
  have "\<not> isl (encode_cpa_accepting ?r [0x61, 0x00])"
    by (simp add: encode_cpa_accepting_def encode_cpa_def default_contexts_def encode_mode_selector_def encode_context_result_list_def
        encode_context_result_def encode_integer_def encode_fully_encoded_data_def oid_ok_def octet_short integers_short)
  then obtain bs where bs: "encode_cpa_accepting ?r [0x61, 0x00] = Inr bs" by (cases "encode_cpa_accepting ?r [0x61, 0x00]") simp_all
  from presentation_accept_round_trip [OF req bs] bs show ?thesis
    by (intro exI [of _ ?r] exI [of _ bs]) (simp add: default_contexts_def)
qed

theorem presentation_data_round_trip_witness:
  "\<exists>bs. encode_p_data [0xA0, 0x00] 3 False = Inr bs \<and> decode_p_data bs = Inr \<lparr>pv_context_id = 3, pv_single_asn1_type = [0xA0, 0x00]\<rparr>"
proof -
  let ?pdv = "[0x61, 9, 0x30, 7, 0x02, 1, 3, 0xA0, 2, 0xA0, 0x00] :: bytes"
  have pdv: "encode_fully_encoded_data 3 [0xA0, 0x00] = Inr ?pdv"
    by (simp add: encode_fully_encoded_data_def encode_integer_def octet_short integers_short)
  then have "encode_p_data [0xA0, 0x00] 3 False = Inr (session_encode_data_transfer ?pdv False)" by (simp add: encode_p_data_def)
  with presentation_data_round_trip [OF this] pdv show ?thesis by auto
qed

end
