(* ===== verification/Acse.thy ===== *)
theory Acse
  imports Presentation_Wire
begin

text \<open>
  Association control (\<open>src/acse/association.cpp\<close>): the association request (AARQ) and response (AARE), and the
  association handshake through the presentation and session layers.  An \<open>AcseFormatError\<close> is a
  \<open>std::runtime_error\<close>; the decoders return the text of any exception and are modelled by the exception.
\<close>

abbreviation acse_format_error :: "string \<Rightarrow> exn" where
  "acse_format_error \<equiv> Runtime_error"

record acse_external =
  ax_direct_reference :: bytes
  ax_indirect_reference :: u32
  ax_single_asn1_type :: bytes

record acse_aarq =
  aq_application_context_name :: bytes
  aq_called_ap_title :: bytes
  aq_called_ae_qualifier :: "u32 option"
  aq_calling_ap_title :: bytes
  aq_calling_ae_qualifier :: "u32 option"
  aq_user_information :: "acse_external option"

record acse_aare =
  ae_application_context_name :: bytes
  ae_result :: u32
  ae_result_source_diagnostic :: u32
  ae_user_information :: "acse_external option"

definition aare_accepted :: "acse_aare \<Rightarrow> bool" where
  "aare_accepted a \<longleftrightarrow> ae_result a = 0"

abbreviation maximum_acse_bytes :: nat where
  "maximum_acse_bytes \<equiv> 1048576"

subsection \<open>Fields\<close>

definition acse_validate_oid :: "string \<Rightarrow> bool \<Rightarrow> bytes \<Rightarrow> unit result" where
  "acse_validate_oid description allow_empty value = (if \<not> allow_empty \<and> value = [] \<or> length value > 64
     then Inl (acse_format_error (description @ '' has an invalid encoded length.'')) else Inr ())"

definition acse_read_integer :: "string \<Rightarrow> ber_tlv \<Rightarrow> u32 result" where
  "acse_read_integer description tlv = (case ber_read_unsigned_integer tlv of
     None \<Rightarrow> Inl (acse_format_error (description @ '' is outside the supported range.''))
   | Some v \<Rightarrow> if v > 0xFFFFFFFF then Inl (acse_format_error (description @ '' is outside the supported range.'')) else Inr (ucast v))"

definition acse_read_single_tlv :: "u8 \<Rightarrow> string \<Rightarrow> bytes \<Rightarrow> ber_tlv result" where
  "acse_read_single_tlv expected_tag description bs = (case ber_try_read_tlv bs 0 of
     Inl _ \<Rightarrow> Inl (acse_format_error (''Invalid '' @ description @ ''.''))
   | Inr (off, tlv) \<Rightarrow> if off \<noteq> length bs \<or> encoded_tag tlv \<noteq> expected_tag
       then Inl (acse_format_error (''Invalid '' @ description @ ''.'')) else Inr tlv)"

definition encode_explicit_oid :: "u8 \<Rightarrow> bytes \<Rightarrow> bool \<Rightarrow> bytes result" where
  "encode_explicit_oid tag oid allow_empty =
     bindE (acse_validate_oid ''ACSE OBJECT IDENTIFIER'' allow_empty oid) (\<lambda>_.
     bindE (ber_encode_tlv_octet 0x06 oid) (\<lambda>object_identifier. ber_encode_tlv_octet tag object_identifier))"

definition decode_explicit_oid :: "string \<Rightarrow> bool \<Rightarrow> ber_tlv \<Rightarrow> bytes result" where
  "decode_explicit_oid description allow_empty field =
     bindE (ber_read_children (tlv_value field)) (\<lambda>children.
       if length children \<noteq> 1 \<or> encoded_tag (hd children) \<noteq> 0x06 then Inl (acse_format_error (description @ '' is malformed.''))
       else bindE (acse_validate_oid description allow_empty (tlv_value (hd children))) (\<lambda>_. Inr (tlv_value (hd children))))"

definition encode_explicit_integer :: "u8 \<Rightarrow> u32 \<Rightarrow> bytes result" where
  "encode_explicit_integer tag v = bindE (encode_integer v) (\<lambda>integer. ber_encode_tlv_octet tag integer)"

definition decode_explicit_integer :: "string \<Rightarrow> ber_tlv \<Rightarrow> u32 result" where
  "decode_explicit_integer description field =
     bindE (ber_read_children (tlv_value field)) (\<lambda>children.
       if length children \<noteq> 1 \<or> encoded_tag (hd children) \<noteq> 0x02 then Inl (acse_format_error (description @ '' is malformed.''))
       else acse_read_integer description (hd children))"

definition encode_external :: "acse_external \<Rightarrow> bytes result" where
  "encode_external x =
     bindE (acse_validate_oid ''ACSE EXTERNAL direct-reference'' False (ax_direct_reference x)) (\<lambda>_.
     if length (ax_single_asn1_type x) > maximum_acse_bytes
     then Inl (Length_error ''ACSE EXTERNAL single-ASN.1 payload exceeds the bounded limit.'')
     else bindE (ber_encode_tlv_octet 0x06 (ax_direct_reference x)) (\<lambda>direct.
       bindE (encode_integer (ax_indirect_reference x)) (\<lambda>indirect.
       bindE (ber_encode_tlv_octet 0xA0 (ax_single_asn1_type x)) (\<lambda>encoding.
       ber_encode_tlv_octet 0x28 (direct @ indirect @ encoding)))))"

text \<open>A field is \<open>Some\<close> once the loop has seen it.\<close>

record external_fields =
  ef_direct :: "bytes option"
  ef_indirect :: "u32 option"
  ef_encoding :: "bytes option"

definition parse_external_field :: "ber_tlv \<Rightarrow> external_fields \<Rightarrow> external_fields result" where
  "parse_external_field field x =
     (if encoded_tag field = 0x06 then
        (if ef_direct x \<noteq> None then Inl (acse_format_error ''ACSE EXTERNAL contains duplicate direct-references.'')
         else bindE (acse_validate_oid ''ACSE EXTERNAL direct-reference'' False (tlv_value field)) (\<lambda>_. Inr (x\<lparr>ef_direct := Some (tlv_value field)\<rparr>)))
      else if encoded_tag field = 0x02 then
        (if ef_indirect x \<noteq> None then Inl (acse_format_error ''ACSE EXTERNAL contains duplicate indirect-references.'')
         else bindE (acse_read_integer ''ACSE EXTERNAL indirect-reference'' field) (\<lambda>v. Inr (x\<lparr>ef_indirect := Some v\<rparr>)))
      else if encoded_tag field = 0xA0 then
        (if ef_encoding x \<noteq> None then Inl (acse_format_error ''ACSE EXTERNAL contains duplicate encodings.'')
         else Inr (x\<lparr>ef_encoding := Some (tlv_value field)\<rparr>))
      else Inl (acse_format_error ''ACSE EXTERNAL contains an unsupported field.''))"

definition decode_external :: "ber_tlv \<Rightarrow> acse_external result" where
  "decode_external user_information =
     bindE (ber_read_children (tlv_value user_information)) (\<lambda>children.
       if length children \<noteq> 1 \<or> encoded_tag (hd children) \<noteq> 0x28
       then Inl (acse_format_error ''ACSE user-information must contain one EXTERNAL value.'')
       else bindE (ber_read_children (tlv_value (hd children))) (\<lambda>fields.
         bindE (foldE parse_external_field fields \<lparr>ef_direct = None, ef_indirect = None, ef_encoding = None\<rparr>) (\<lambda>x.
           case (ef_direct x, ef_indirect x, ef_encoding x) of
             (Some direct, Some indirect, Some encoding) \<Rightarrow>
               Inr \<lparr>ax_direct_reference = direct, ax_indirect_reference = indirect, ax_single_asn1_type = encoding\<rparr>
           | _ \<Rightarrow> Inl (acse_format_error ''ACSE EXTERNAL is incomplete.''))))"

definition encode_user_information :: "acse_external \<Rightarrow> bytes result" where
  "encode_user_information x = bindE (encode_external x) (\<lambda>encoded. ber_encode_tlv_octet 0xBE encoded)"

subsection \<open>Request\<close>

text \<open>An optional field of the body: nothing when it is absent.\<close>

definition optional_octets :: "bool \<Rightarrow> bytes result \<Rightarrow> bytes result" where
  "optional_octets present field = (if present then field else Inr [])"

definition encode_aarq :: "acse_aarq \<Rightarrow> bytes result" where
  "encode_aarq a =
     bindE (acse_validate_oid ''ACSE application-context-name'' False (aq_application_context_name a)) (\<lambda>_.
     bindE (encode_explicit_oid 0xA1 (aq_application_context_name a) False) (\<lambda>application.
     bindE (optional_octets (aq_called_ap_title a \<noteq> []) (encode_explicit_oid 0xA2 (aq_called_ap_title a) True)) (\<lambda>called_ap.
     bindE (optional_octets (aq_called_ae_qualifier a \<noteq> None) (encode_explicit_integer 0xA3 (the (aq_called_ae_qualifier a)))) (\<lambda>called_ae.
     bindE (optional_octets (aq_calling_ap_title a \<noteq> []) (encode_explicit_oid 0xA6 (aq_calling_ap_title a) True)) (\<lambda>calling_ap.
     bindE (optional_octets (aq_calling_ae_qualifier a \<noteq> None) (encode_explicit_integer 0xA7 (the (aq_calling_ae_qualifier a)))) (\<lambda>calling_ae.
     bindE (optional_octets (aq_user_information a \<noteq> None) (encode_user_information (the (aq_user_information a)))) (\<lambda>user.
       let body = application @ called_ap @ called_ae @ calling_ap @ calling_ae @ user in
       if length body > maximum_acse_bytes then Inl (Length_error ''ACSE AARQ exceeds the bounded limit.'')
       else ber_encode_tlv_octet 0x60 body)))))))"

record aarq_fields =
  qf_application :: "bytes option"
  qf_called_ap :: "bytes option"
  qf_called_ae :: "u32 option"
  qf_calling_ap :: "bytes option"
  qf_calling_ae :: "u32 option"
  qf_user_information :: "acse_external option"

definition parse_aarq_field :: "ber_tlv \<Rightarrow> aarq_fields \<Rightarrow> aarq_fields result" where
  "parse_aarq_field field q =
     (if encoded_tag field = 0xA1 then
        (if qf_application q \<noteq> None then Inl (acse_format_error ''ACSE AARQ contains duplicate application contexts.'')
         else bindE (decode_explicit_oid ''ACSE application-context-name'' False field) (\<lambda>v. Inr (q\<lparr>qf_application := Some v\<rparr>)))
      else if encoded_tag field = 0xA2 then
        (if qf_called_ap q \<noteq> None then Inl (acse_format_error ''ACSE AARQ contains duplicate called AP-titles.'')
         else bindE (decode_explicit_oid ''ACSE called AP-title'' True field) (\<lambda>v. Inr (q\<lparr>qf_called_ap := Some v\<rparr>)))
      else if encoded_tag field = 0xA3 then
        (if qf_called_ae q \<noteq> None then Inl (acse_format_error ''ACSE AARQ contains duplicate called AE-qualifiers.'')
         else bindE (decode_explicit_integer ''ACSE called AE-qualifier'' field) (\<lambda>v. Inr (q\<lparr>qf_called_ae := Some v\<rparr>)))
      else if encoded_tag field = 0xA6 then
        (if qf_calling_ap q \<noteq> None then Inl (acse_format_error ''ACSE AARQ contains duplicate calling AP-titles.'')
         else bindE (decode_explicit_oid ''ACSE calling AP-title'' True field) (\<lambda>v. Inr (q\<lparr>qf_calling_ap := Some v\<rparr>)))
      else if encoded_tag field = 0xA7 then
        (if qf_calling_ae q \<noteq> None then Inl (acse_format_error ''ACSE AARQ contains duplicate calling AE-qualifiers.'')
         else bindE (decode_explicit_integer ''ACSE calling AE-qualifier'' field) (\<lambda>v. Inr (q\<lparr>qf_calling_ae := Some v\<rparr>)))
      else if encoded_tag field = 0xBE then
        (if qf_user_information q \<noteq> None then Inl (acse_format_error ''ACSE AARQ contains duplicate user-information fields.'')
         else bindE (decode_external field) (\<lambda>v. Inr (q\<lparr>qf_user_information := Some v\<rparr>)))
      else Inl (acse_format_error ''ACSE AARQ contains an unsupported field.''))"

definition value_or_empty :: "bytes option \<Rightarrow> bytes" where
  "value_or_empty v = (case v of None \<Rightarrow> [] | Some bs \<Rightarrow> bs)"

definition decode_aarq :: "bytes \<Rightarrow> acse_aarq result" where
  "decode_aarq bs =
     (if bs = [] \<or> length bs > maximum_acse_bytes then Inl (acse_format_error ''ACSE AARQ size is outside the supported range.'')
      else bindE (acse_read_single_tlv 0x60 ''ACSE AARQ'' bs) (\<lambda>outer.
        bindE (ber_read_children (tlv_value outer)) (\<lambda>fields.
        bindE (foldE parse_aarq_field fields \<lparr>qf_application = None, qf_called_ap = None, qf_called_ae = None, qf_calling_ap = None,
          qf_calling_ae = None, qf_user_information = None\<rparr>) (\<lambda>q.
          case (qf_application q, qf_user_information q) of
            (Some application, Some user) \<Rightarrow>
              Inr \<lparr>aq_application_context_name = application, aq_called_ap_title = value_or_empty (qf_called_ap q),
                aq_called_ae_qualifier = qf_called_ae q, aq_calling_ap_title = value_or_empty (qf_calling_ap q),
                aq_calling_ae_qualifier = qf_calling_ae q, aq_user_information = Some user\<rparr>
          | _ \<Rightarrow> Inl (acse_format_error ''ACSE AARQ is missing required fields.'')))))"

subsection \<open>Response\<close>

definition encode_aare :: "acse_aare \<Rightarrow> bytes result" where
  "encode_aare a =
     bindE (acse_validate_oid ''ACSE application-context-name'' False (ae_application_context_name a)) (\<lambda>_.
     bindE (encode_explicit_oid 0xA1 (ae_application_context_name a) False) (\<lambda>application.
     bindE (encode_explicit_integer 0xA2 (ae_result a)) (\<lambda>result.
     bindE (encode_explicit_integer 0xA1 (ae_result_source_diagnostic a)) (\<lambda>diagnostic_value.
     bindE (ber_encode_tlv_octet 0xA3 diagnostic_value) (\<lambda>diagnostic.
     bindE (optional_octets (ae_user_information a \<noteq> None) (encode_user_information (the (ae_user_information a)))) (\<lambda>user.
       let body = application @ result @ diagnostic @ user in
       if length body > maximum_acse_bytes then Inl (Length_error ''ACSE AARE exceeds the bounded limit.'')
       else ber_encode_tlv_octet 0x61 body))))))"

record aare_fields =
  rq_application :: "bytes option"
  rq_result :: "u32 option"
  rq_diagnostic :: "u32 option"
  rq_user_information :: "acse_external option"

definition parse_aare_field :: "ber_tlv \<Rightarrow> aare_fields \<Rightarrow> aare_fields result" where
  "parse_aare_field field r =
     (if encoded_tag field = 0xA1 then
        (if rq_application r \<noteq> None then Inl (acse_format_error ''ACSE AARE contains duplicate application contexts.'')
         else bindE (decode_explicit_oid ''ACSE application-context-name'' False field) (\<lambda>v. Inr (r\<lparr>rq_application := Some v\<rparr>)))
      else if encoded_tag field = 0xA2 then
        (if rq_result r \<noteq> None then Inl (acse_format_error ''ACSE AARE contains duplicate result fields.'')
         else bindE (decode_explicit_integer ''ACSE association result'' field) (\<lambda>v. Inr (r\<lparr>rq_result := Some v\<rparr>)))
      else if encoded_tag field = 0xA3 then
        (if rq_diagnostic r \<noteq> None then Inl (acse_format_error ''ACSE AARE contains duplicate diagnostics.'')
         else bindE (ber_read_children (tlv_value field)) (\<lambda>sources.
           if length sources \<noteq> 1 \<or> encoded_tag (hd sources) \<noteq> 0xA1
           then Inl (acse_format_error ''ACSE AARE result-source-diagnostic is malformed.'')
           else bindE (decode_explicit_integer ''ACSE result-source-diagnostic'' (hd sources)) (\<lambda>v. Inr (r\<lparr>rq_diagnostic := Some v\<rparr>))))
      else if encoded_tag field = 0xBE then
        (if rq_user_information r \<noteq> None then Inl (acse_format_error ''ACSE AARE contains duplicate user-information fields.'')
         else bindE (decode_external field) (\<lambda>v. Inr (r\<lparr>rq_user_information := Some v\<rparr>)))
      else Inl (acse_format_error ''ACSE AARE contains an unsupported field.''))"

definition decode_aare :: "bytes \<Rightarrow> acse_aare result" where
  "decode_aare bs =
     (if bs = [] \<or> length bs > maximum_acse_bytes then Inl (acse_format_error ''ACSE AARE size is outside the supported range.'')
      else bindE (acse_read_single_tlv 0x61 ''ACSE AARE'' bs) (\<lambda>outer.
        bindE (ber_read_children (tlv_value outer)) (\<lambda>fields.
        bindE (foldE parse_aare_field fields \<lparr>rq_application = None, rq_result = None, rq_diagnostic = None, rq_user_information = None\<rparr>) (\<lambda>r.
          case (rq_application r, rq_result r, rq_diagnostic r) of
            (Some application, Some result, Some diagnostic) \<Rightarrow>
              Inr \<lparr>ae_application_context_name = application, ae_result = result, ae_result_source_diagnostic = diagnostic,
                ae_user_information = rq_user_information r\<rparr>
          | _ \<Rightarrow> Inl (acse_format_error ''ACSE AARE is missing required fields.'')))))"

subsection \<open>Default profiles\<close>

definition mms_application_context_name :: bytes where
  "mms_application_context_name = [0x28, 0xCA, 0x22, 0x02, 0x03]"

definition balanced_called_ap_title :: bytes where
  "balanced_called_ap_title = [0x29, 0x01, 0x87, 0x67, 0x01]"

definition balanced_calling_ap_title :: bytes where
  "balanced_calling_ap_title = [0x29, 0x01, 0x87, 0x67]"

definition default_mms_initiate_request :: "bytes result" where
  "default_mms_initiate_request =
     bindE (ber_encode_tlv_octet 0x80 [0x01]) (\<lambda>version.
     bindE (ber_encode_tlv_octet 0x81 [0x05, 0xF1, 0x00]) (\<lambda>parameter_support.
     bindE (ber_encode_tlv_octet 0x82 [0x03, 0xEE, 0x1C, 0x00, 0x00, 0x04, 0x08, 0x00, 0x00, 0x79, 0xEF, 0x18]) (\<lambda>services.
     bindE (ber_encode_tlv_octet 0x80 [0x00, 0xFD, 0xE8]) (\<lambda>local_detail.
     bindE (ber_encode_tlv_octet 0x81 [0x0A]) (\<lambda>calling.
     bindE (ber_encode_tlv_octet 0x82 [0x0A]) (\<lambda>called.
     bindE (ber_encode_tlv_octet 0x83 [0x05]) (\<lambda>nesting.
     bindE (ber_encode_tlv_octet 0xA4 (version @ parameter_support @ services)) (\<lambda>detail.
     ber_encode_tlv_octet 0xA8 (local_detail @ calling @ called @ nesting @ detail)))))))))"

definition default_mms_initiate_response :: "bytes result" where
  "default_mms_initiate_response = bindE default_mms_initiate_request (\<lambda>response.
     if response = [] \<or> hd response \<noteq> 0xA8 then Inl (acse_format_error ''Internal MMS Initiate profile is invalid.'')
     else Inr (response[0 := 0xA9]))"

definition default_balanced_aarq :: "acse_aarq result" where
  "default_balanced_aarq = bindE default_mms_initiate_request (\<lambda>initiate.
     Inr \<lparr>aq_application_context_name = mms_application_context_name, aq_called_ap_title = balanced_called_ap_title,
       aq_called_ae_qualifier = Some 12, aq_calling_ap_title = balanced_calling_ap_title, aq_calling_ae_qualifier = Some 12,
       aq_user_information = Some \<lparr>ax_direct_reference = [0x51, 0x01], ax_indirect_reference = 3, ax_single_asn1_type = initiate\<rparr>\<rparr>)"

definition default_accept_aare :: "acse_aare result" where
  "default_accept_aare = bindE default_mms_initiate_response (\<lambda>initiate.
     Inr \<lparr>ae_application_context_name = mms_application_context_name, ae_result = 0, ae_result_source_diagnostic = 0,
       ae_user_information = Some \<lparr>ax_direct_reference = [0x51, 0x01], ax_indirect_reference = 3, ax_single_asn1_type = initiate\<rparr>\<rparr>)"

subsection \<open>The handshake\<close>

record association_request =
  ar_session :: session_spdu
  ar_presentation :: presentation_cp
  ar_aarq :: acse_aarq
  ar_acse_context_id :: u32
  ar_mms_context_id :: u32

record association_response =
  as_session :: session_spdu
  as_presentation :: presentation_cpa
  as_aare :: acse_aare

record association_response_profile =
  rp_payload :: bytes
  rp_mms_context_id :: u32
  rp_maximum_mms_pdu_size :: u32
  rp_maximum_outstanding_calling :: u32
  rp_maximum_outstanding_called :: u32
  rp_data_structure_nesting_level :: u32

definition build_default_association_request :: "bytes result" where
  "build_default_association_request =
     bindE default_balanced_aarq (\<lambda>aarq.
     bindE (encode_aarq aarq) (\<lambda>aarq.
     bindE (encode_cp default_contexts 1 aarq [] [] 1) (\<lambda>cp. session_encode_connect cp [])))"

definition session_decode_or_fail :: "bytes \<Rightarrow> session_spdu result" where
  "session_decode_or_fail bs = (case session_decode bs of Inl e \<Rightarrow> Inl (acse_format_error e) | Inr s \<Rightarrow> Inr s)"

definition decode_association_request :: "bytes \<Rightarrow> association_request result" where
  "decode_association_request bs =
     bindE (session_decode_or_fail bs) (\<lambda>session.
     if ss_kind session \<noteq> Spdu_connect then Inl (acse_format_error ''Association request must use an ISO Session Connect SPDU.'')
     else bindE (decode_cp (ss_user_data session)) (\<lambda>presentation.
       bindE (decode_aarq (pv_single_asn1_type (cp_user_data presentation))) (\<lambda>aarq.
         let acse = context_id_for_abstract_syntax [0x52, 0x01, 0x00, 0x01] presentation;
             mms = context_id_for_abstract_syntax [0x28, 0xCA, 0x22, 0x02, 0x01] presentation in
         if acse = 0 \<or> acse \<noteq> pv_context_id (cp_user_data presentation)
         then Inl (acse_format_error ''Association request uses an undefined or mismatched ACSE context.'')
         else if mms = 0 then Inl (acse_format_error ''Association request does not define an MMS presentation context.'')
         else Inr \<lparr>ar_session = session, ar_presentation = presentation, ar_aarq = aarq, ar_acse_context_id = acse, ar_mms_context_id = mms\<rparr>)))"

definition build_accept_response :: "association_request \<Rightarrow> acse_aare \<Rightarrow> association_response_profile result" where
  "build_accept_response request aare =
     (if ss_kind (ar_session request) \<noteq> Spdu_connect \<or> ar_acse_context_id request = 0 \<or> ar_mms_context_id request = 0
      then Inl (Invalid_argument ''Association response requires a valid decoded request.'')
      else bindE (encode_aare aare) (\<lambda>encoded_aare.
        bindE (encode_cpa_accepting (ar_presentation request) encoded_aare) (\<lambda>cpa.
        bindE (session_encode_accept_mirroring (ar_session request) cpa) (\<lambda>payload.
          Inr \<lparr>rp_payload = payload, rp_mms_context_id = ar_mms_context_id request, rp_maximum_mms_pdu_size = 65000,
            rp_maximum_outstanding_calling = 10, rp_maximum_outstanding_called = 10, rp_data_structure_nesting_level = 5\<rparr>))))"

definition build_accept_response_octets :: "bytes \<Rightarrow> acse_aare \<Rightarrow> association_response_profile result" where
  "build_accept_response_octets encoded_request aare =
     bindE (decode_association_request encoded_request) (\<lambda>request. build_accept_response request aare)"

definition decode_association_response :: "bytes \<Rightarrow> association_response result" where
  "decode_association_response bs =
     bindE (session_decode_or_fail bs) (\<lambda>session.
     if ss_kind session \<noteq> Spdu_accept then Inl (acse_format_error ''Association response must use an ISO Session Accept SPDU.'')
     else bindE (decode_cpa (ss_user_data session)) (\<lambda>presentation.
       bindE (decode_aare (pv_single_asn1_type (ca_user_data presentation))) (\<lambda>aare.
         Inr \<lparr>as_session = session, as_presentation = presentation, as_aare = aare\<rparr>)))"

end
