(* ===== verification/Acse_Wire.thy ===== *)
theory Acse_Wire
  imports Acse
begin

text \<open>
  The association request and response are read back as written, and the answer to a decoded association
  request is read back by the requester with the contexts, the session parameters and the AARE.
\<close>

subsection \<open>Fields\<close>

lemma foldE_append: "foldE f (xs @ ys) s = bindE (foldE f xs s) (foldE f ys)"
proof (induction xs arbitrary: s)
  case (Cons x xs)
  then show ?case by (cases "f x s") simp_all
qed simp

lemma acse_tags_low [simp]:
  "low_tag 0x28" "low_tag 0x60" "low_tag 0xA1" "low_tag 0xA3" "low_tag 0xA6" "low_tag 0xA7" "low_tag 0xBE"
  by (simp_all add: low_tag_def)

lemma acse_read_single_tlv_eq: "acse_read_single_tlv = read_single_tlv"
  by (intro ext) (simp add: acse_read_single_tlv_def read_single_tlv_def)

lemma acse_read_int: "acse_read_integer d (int_tlv et v) = Inr v"
proof -
  have "ber_read_unsigned_integer (int_tlv et v) = Some (ucast v)" by (simp add: int_tlv_def)
  moreover have "(ucast v :: u64) \<le> 0xFFFFFFFF" using unat_less_exp [of v] by (simp add: word_le_nat_alt unat_ucast_widen)
  moreover have "(ucast (ucast v :: u64) :: u32) = v" by (simp add: ucast_ucast_narrow)
  ultimately show ?thesis by (simp add: acse_read_integer_def not_less)
qed

definition wrap_tlv :: "u8 \<Rightarrow> ber_tlv \<Rightarrow> ber_tlv" where
  "wrap_tlv et x = octet_tlv et (tlv_encoding x)"

lemma wrap_tlv_tag [simp]: "encoded_tag (wrap_tlv et x) = et"
  by (simp add: wrap_tlv_def)

lemma wrap_children: "tlv_wf x \<Longrightarrow> ber_read_children (tlv_value (wrap_tlv et x)) = Inr [x]"
  using children1 [of x] by (simp add: wrap_tlv_def)

lemma wrap_encoding:
  "ber_encode_tlv_octet et (tlv_encoding x) = Inr enc \<Longrightarrow> low_tag et \<Longrightarrow> enc = tlv_encoding (wrap_tlv et x) \<and> tlv_wf (wrap_tlv et x)"
  using octet_encoding by (simp add: wrap_tlv_def)

definition oid_tlv :: "u8 \<Rightarrow> bytes \<Rightarrow> ber_tlv" where
  "oid_tlv et oid = wrap_tlv et (octet_tlv 0x06 oid)"

definition integer_tlv :: "u8 \<Rightarrow> u32 \<Rightarrow> ber_tlv" where
  "integer_tlv et v = wrap_tlv et (int_tlv 0x02 v)"

lemma field_tags [simp]: "encoded_tag (oid_tlv et oid) = et" "encoded_tag (integer_tlv et v) = et"
  by (simp_all add: oid_tlv_def integer_tlv_def)

text \<open>What an encoder writes is one well-formed element that its decoder reads back.\<close>

definition reads_back :: "(ber_tlv \<Rightarrow> 'a result) \<Rightarrow> ber_tlv \<Rightarrow> 'a \<Rightarrow> bool" where
  "reads_back dec x v \<longleftrightarrow> tlv_wf x \<and> dec x = Inr v"

lemma explicit_oid_reads_back:
  assumes "encode_explicit_oid et oid allow_empty = Inr enc" "low_tag et"
  shows "enc = tlv_encoding (oid_tlv et oid) \<and> reads_back (decode_explicit_oid d allow_empty) (oid_tlv et oid) oid"
proof -
  obtain x where x: "acse_validate_oid ''ACSE OBJECT IDENTIFIER'' allow_empty oid = Inr ()" "ber_encode_tlv_octet 0x06 oid = Inr x"
      "ber_encode_tlv_octet et x = Inr enc"
    using assms(1) by (auto simp: encode_explicit_oid_def bindE_Inr_iff)
  note inner = octet_encoding [OF x(2)]
  have outer: "enc = tlv_encoding (oid_tlv et oid) \<and> tlv_wf (oid_tlv et oid)"
    using wrap_encoding [of et "octet_tlv 0x06 oid"] x(3) inner(1) assms(2) by (simp add: oid_tlv_def)
  have "acse_validate_oid d allow_empty oid = Inr ()" using x(1) by (auto simp: acse_validate_oid_def split: if_splits)
  with outer wrap_children [of "octet_tlv 0x06 oid" et] inner(2) show ?thesis
    by (simp add: reads_back_def decode_explicit_oid_def oid_tlv_def)
qed

lemma explicit_integer_reads_back:
  assumes "encode_explicit_integer et v = Inr enc" "low_tag et"
  shows "enc = tlv_encoding (integer_tlv et v) \<and> reads_back (decode_explicit_integer d) (integer_tlv et v) v"
proof -
  obtain x where x: "encode_integer v = Inr x" "ber_encode_tlv_octet et x = Inr enc"
    using assms(1) by (auto simp: encode_explicit_integer_def bindE_Inr_iff)
  note inner = encode_integer_Inr [OF x(1)]
  from wrap_encoding [of et "int_tlv 0x02 v"] x(2) inner assms(2) wrap_children [of "int_tlv 0x02 v" et] show ?thesis
    by (simp add: reads_back_def decode_explicit_integer_def integer_tlv_def acse_read_int)
qed

definition external_tlv :: "acse_external \<Rightarrow> ber_tlv" where
  "external_tlv x = octet_tlv 0x28 (tlv_encoding (octet_tlv 0x06 (ax_direct_reference x)) @
     tlv_encoding (int_tlv 0x02 (ax_indirect_reference x)) @ tlv_encoding (octet_tlv 0xA0 (ax_single_asn1_type x)))"

definition user_tlv :: "acse_external \<Rightarrow> ber_tlv" where
  "user_tlv x = wrap_tlv 0xBE (external_tlv x)"

lemma user_tlv_tag [simp]: "encoded_tag (user_tlv x) = 0xBE"
  by (simp add: user_tlv_def)

lemma user_information_reads_back:
  assumes "encode_user_information x = Inr enc"
  shows "enc = tlv_encoding (user_tlv x) \<and> reads_back decode_external (user_tlv x) x"
proof -
  obtain e a b c where e: "encode_external x = Inr e" "ber_encode_tlv_octet 0xBE e = Inr enc" "ber_encode_tlv_octet 0x06 (ax_direct_reference x) = Inr a"
      "encode_integer (ax_indirect_reference x) = Inr b" "ber_encode_tlv_octet 0xA0 (ax_single_asn1_type x) = Inr c"
      "ber_encode_tlv_octet 0x28 (a @ b @ c) = Inr e" "acse_validate_oid ''ACSE EXTERNAL direct-reference'' False (ax_direct_reference x) = Inr ()"
    using assms by (auto simp: encode_user_information_def encode_external_def bindE_Inr_iff split: if_splits)
  note a = octet_encoding [OF e(3)] note b = encode_integer_Inr [OF e(4)] note c = octet_encoding [OF e(5)]
  have ext: "e = tlv_encoding (external_tlv x)" "tlv_wf (external_tlv x)" "encoded_tag (external_tlv x) = 0x28"
    using octet_encoding [OF e(6)] a(1) b c(1) by (simp_all add: external_tlv_def)
  have user: "enc = tlv_encoding (user_tlv x) \<and> tlv_wf (user_tlv x)"
    using wrap_encoding [where et = "0xBE" and x = "external_tlv x"] e(2) ext(1) by (simp add: user_tlv_def)
  have "ber_read_children (tlv_value (external_tlv x)) =
      Inr [octet_tlv 0x06 (ax_direct_reference x), int_tlv 0x02 (ax_indirect_reference x), octet_tlv 0xA0 (ax_single_asn1_type x)]"
    using children3 [of "octet_tlv 0x06 (ax_direct_reference x)" "int_tlv 0x02 (ax_indirect_reference x)" "octet_tlv 0xA0 (ax_single_asn1_type x)"]
      a(2) b c(2) by (simp add: external_tlv_def)
  with user wrap_children [OF ext(2), where et = "0xBE"] ext(3) e(7) show ?thesis
    by (simp add: reads_back_def decode_external_def user_tlv_def parse_external_field_def acse_read_int)
qed

subsection \<open>Request\<close>

definition opt_tlv :: "bool \<Rightarrow> ber_tlv \<Rightarrow> ber_tlv list" where
  "opt_tlv present x = (if present then [x] else [])"

lemma optional_encoding:
  assumes "optional_octets c f = Inr enc" "\<And>e. c \<Longrightarrow> f = Inr e \<Longrightarrow> e = tlv_encoding x \<and> reads_back dec x v"
  shows "enc = concat (map tlv_encoding (opt_tlv c x))" "c \<longrightarrow> reads_back dec x v"
  using assms by (auto simp: optional_octets_def opt_tlv_def split: if_splits)

lemma opt_tlv_wf: "(c \<longrightarrow> reads_back dec x v) \<Longrightarrow> list_all tlv_wf (opt_tlv c x)"
  by (simp add: opt_tlv_def reads_back_def)

definition aarq_tlvs :: "acse_aarq \<Rightarrow> ber_tlv list" where
  "aarq_tlvs a = oid_tlv 0xA1 (aq_application_context_name a) #
     opt_tlv (aq_called_ap_title a \<noteq> []) (oid_tlv 0xA2 (aq_called_ap_title a)) @
     opt_tlv (aq_called_ae_qualifier a \<noteq> None) (integer_tlv 0xA3 (the (aq_called_ae_qualifier a))) @
     opt_tlv (aq_calling_ap_title a \<noteq> []) (oid_tlv 0xA6 (aq_calling_ap_title a)) @
     opt_tlv (aq_calling_ae_qualifier a \<noteq> None) (integer_tlv 0xA7 (the (aq_calling_ae_qualifier a))) @
     opt_tlv (aq_user_information a \<noteq> None) (user_tlv (the (aq_user_information a)))"

definition aarq_reads_back :: "acse_aarq \<Rightarrow> bool" where
  "aarq_reads_back a \<longleftrightarrow>
     reads_back (decode_explicit_oid ''ACSE application-context-name'' False) (oid_tlv 0xA1 (aq_application_context_name a)) (aq_application_context_name a) \<and>
     (aq_called_ap_title a \<noteq> [] \<longrightarrow>
        reads_back (decode_explicit_oid ''ACSE called AP-title'' True) (oid_tlv 0xA2 (aq_called_ap_title a)) (aq_called_ap_title a)) \<and>
     (aq_called_ae_qualifier a \<noteq> None \<longrightarrow>
        reads_back (decode_explicit_integer ''ACSE called AE-qualifier'') (integer_tlv 0xA3 (the (aq_called_ae_qualifier a))) (the (aq_called_ae_qualifier a))) \<and>
     (aq_calling_ap_title a \<noteq> [] \<longrightarrow>
        reads_back (decode_explicit_oid ''ACSE calling AP-title'' True) (oid_tlv 0xA6 (aq_calling_ap_title a)) (aq_calling_ap_title a)) \<and>
     (aq_calling_ae_qualifier a \<noteq> None \<longrightarrow>
        reads_back (decode_explicit_integer ''ACSE calling AE-qualifier'') (integer_tlv 0xA7 (the (aq_calling_ae_qualifier a))) (the (aq_calling_ae_qualifier a))) \<and>
     (aq_user_information a \<noteq> None \<longrightarrow> reads_back decode_external (user_tlv (the (aq_user_information a))) (the (aq_user_information a)))"

lemma encode_aarq_Inr:
  assumes "encode_aarq a = Inr bs"
  shows "ber_encode_tlv_octet 0x60 (concat (map tlv_encoding (aarq_tlvs a))) = Inr bs" "aarq_reads_back a"
proof -
  obtain app ap ae cp ce u where e: "encode_explicit_oid 0xA1 (aq_application_context_name a) False = Inr app"
      "optional_octets (aq_called_ap_title a \<noteq> []) (encode_explicit_oid 0xA2 (aq_called_ap_title a) True) = Inr ap"
      "optional_octets (aq_called_ae_qualifier a \<noteq> None) (encode_explicit_integer 0xA3 (the (aq_called_ae_qualifier a))) = Inr ae"
      "optional_octets (aq_calling_ap_title a \<noteq> []) (encode_explicit_oid 0xA6 (aq_calling_ap_title a) True) = Inr cp"
      "optional_octets (aq_calling_ae_qualifier a \<noteq> None) (encode_explicit_integer 0xA7 (the (aq_calling_ae_qualifier a))) = Inr ce"
      "optional_octets (aq_user_information a \<noteq> None) (encode_user_information (the (aq_user_information a))) = Inr u"
      "ber_encode_tlv_octet 0x60 (app @ ap @ ae @ cp @ ce @ u) = Inr bs"
    using assms by (auto simp: encode_aarq_def bindE_Inr_iff Let_def split: if_splits)
  note app = explicit_oid_reads_back [OF e(1), of "''ACSE application-context-name''"]
  note ap = optional_encoding [OF e(2) explicit_oid_reads_back [of _ _ _ _ "''ACSE called AP-title''"], simplified]
  note ae = optional_encoding [OF e(3) explicit_integer_reads_back [of _ _ _ "''ACSE called AE-qualifier''"], simplified]
  note cp = optional_encoding [OF e(4) explicit_oid_reads_back [of _ _ _ _ "''ACSE calling AP-title''"], simplified]
  note ce = optional_encoding [OF e(5) explicit_integer_reads_back [of _ _ _ "''ACSE calling AE-qualifier''"], simplified]
  note u = optional_encoding [OF e(6) user_information_reads_back, simplified]
  show "ber_encode_tlv_octet 0x60 (concat (map tlv_encoding (aarq_tlvs a))) = Inr bs"
    using e(7) app ap(1) ae(1) cp(1) ce(1) u(1) by (simp add: aarq_tlvs_def)
  show "aarq_reads_back a" using app ap(2) ae(2) cp(2) ce(2) u(2) by (simp add: aarq_reads_back_def)
qed

lemma aarq_tlvs_wf: "aarq_reads_back a \<Longrightarrow> list_all tlv_wf (aarq_tlvs a)"
  by (simp add: aarq_reads_back_def aarq_tlvs_def opt_tlv_def reads_back_def)

lemma parse_aarq_tlvs:
  assumes "aarq_reads_back a"
  shows "foldE parse_aarq_field (aarq_tlvs a) \<lparr>qf_application = None, qf_called_ap = None, qf_called_ae = None, qf_calling_ap = None,
      qf_calling_ae = None, qf_user_information = None\<rparr> =
    Inr \<lparr>qf_application = Some (aq_application_context_name a),
      qf_called_ap = (if aq_called_ap_title a = [] then None else Some (aq_called_ap_title a)), qf_called_ae = aq_called_ae_qualifier a,
      qf_calling_ap = (if aq_calling_ap_title a = [] then None else Some (aq_calling_ap_title a)), qf_calling_ae = aq_calling_ae_qualifier a,
      qf_user_information = aq_user_information a\<rparr>"
proof -
  have ap: "foldE parse_aarq_field (opt_tlv (aq_called_ap_title a \<noteq> []) (oid_tlv 0xA2 (aq_called_ap_title a))) q =
      Inr (q\<lparr>qf_called_ap := if aq_called_ap_title a = [] then None else Some (aq_called_ap_title a)\<rparr>)" if "qf_called_ap q = None" for q
    using assms that by (simp add: opt_tlv_def parse_aarq_field_def aarq_reads_back_def reads_back_def)
  have ae: "foldE parse_aarq_field (opt_tlv (aq_called_ae_qualifier a \<noteq> None) (integer_tlv 0xA3 (the (aq_called_ae_qualifier a)))) q =
      Inr (q\<lparr>qf_called_ae := aq_called_ae_qualifier a\<rparr>)" if "qf_called_ae q = None" for q
    using assms that by (auto simp: opt_tlv_def parse_aarq_field_def aarq_reads_back_def reads_back_def)
  have cp: "foldE parse_aarq_field (opt_tlv (aq_calling_ap_title a \<noteq> []) (oid_tlv 0xA6 (aq_calling_ap_title a))) q =
      Inr (q\<lparr>qf_calling_ap := if aq_calling_ap_title a = [] then None else Some (aq_calling_ap_title a)\<rparr>)" if "qf_calling_ap q = None" for q
    using assms that by (simp add: opt_tlv_def parse_aarq_field_def aarq_reads_back_def reads_back_def)
  have ce: "foldE parse_aarq_field (opt_tlv (aq_calling_ae_qualifier a \<noteq> None) (integer_tlv 0xA7 (the (aq_calling_ae_qualifier a)))) q =
      Inr (q\<lparr>qf_calling_ae := aq_calling_ae_qualifier a\<rparr>)" if "qf_calling_ae q = None" for q
    using assms that by (auto simp: opt_tlv_def parse_aarq_field_def aarq_reads_back_def reads_back_def)
  have u: "foldE parse_aarq_field (opt_tlv (aq_user_information a \<noteq> None) (user_tlv (the (aq_user_information a)))) q =
      Inr (q\<lparr>qf_user_information := aq_user_information a\<rparr>)" if "qf_user_information q = None" for q
    using assms that by (auto simp: opt_tlv_def parse_aarq_field_def aarq_reads_back_def reads_back_def)
  have app: "parse_aarq_field (oid_tlv 0xA1 (aq_application_context_name a)) q = Inr (q\<lparr>qf_application := Some (aq_application_context_name a)\<rparr>)"
    if "qf_application q = None" for q
    using assms that by (simp add: parse_aarq_field_def aarq_reads_back_def reads_back_def)
  show ?thesis unfolding aarq_tlvs_def by (simp add: foldE_append app ap ae cp ce u del: not_None_eq)
qed

lemma decode_encode_aarq:
  assumes "encode_aarq a = Inr bs"
  shows "decode_aarq bs =
    (if length bs > maximum_acse_bytes then Inl (acse_format_error ''ACSE AARQ size is outside the supported range.'')
     else if aq_user_information a = None then Inl (acse_format_error ''ACSE AARQ is missing required fields.'') else Inr a)"
proof -
  note e = encode_aarq_Inr [OF assms]
  note outer = octet_encoding [OF e(1)] read_single_encoding [where et = "0x60" and v = "concat (map tlv_encoding (aarq_tlvs a))"]
  have "acse_read_single_tlv 0x60 d bs = Inr (octet_tlv 0x60 (concat (map tlv_encoding (aarq_tlvs a))))" "bs \<noteq> []" for d
    using outer by (simp_all add: acse_read_single_tlv_eq)
  with ber_read_children_concat [OF aarq_tlvs_wf [OF e(2)]] parse_aarq_tlvs [OF e(2)] show ?thesis
    by (cases a) (auto simp: decode_aarq_def value_or_empty_def split: option.splits)
qed

subsection \<open>Response\<close>

definition aare_tlvs :: "acse_aare \<Rightarrow> ber_tlv list" where
  "aare_tlvs a = [oid_tlv 0xA1 (ae_application_context_name a), integer_tlv 0xA2 (ae_result a),
     wrap_tlv 0xA3 (integer_tlv 0xA1 (ae_result_source_diagnostic a))] @
     opt_tlv (ae_user_information a \<noteq> None) (user_tlv (the (ae_user_information a)))"

lemma encode_aare_Inr:
  assumes "encode_aare a = Inr bs"
  shows "ber_encode_tlv_octet 0x61 (concat (map tlv_encoding (aare_tlvs a))) = Inr bs" "list_all tlv_wf (aare_tlvs a)"
    "foldE parse_aare_field (aare_tlvs a) \<lparr>rq_application = None, rq_result = None, rq_diagnostic = None, rq_user_information = None\<rparr> =
      Inr \<lparr>rq_application = Some (ae_application_context_name a), rq_result = Some (ae_result a),
        rq_diagnostic = Some (ae_result_source_diagnostic a), rq_user_information = ae_user_information a\<rparr>"
proof -
  obtain app res dv d u where e: "encode_explicit_oid 0xA1 (ae_application_context_name a) False = Inr app"
      "encode_explicit_integer 0xA2 (ae_result a) = Inr res" "encode_explicit_integer 0xA1 (ae_result_source_diagnostic a) = Inr dv"
      "ber_encode_tlv_octet 0xA3 dv = Inr d"
      "optional_octets (ae_user_information a \<noteq> None) (encode_user_information (the (ae_user_information a))) = Inr u"
      "ber_encode_tlv_octet 0x61 (app @ res @ d @ u) = Inr bs"
    using assms by (auto simp: encode_aare_def bindE_Inr_iff Let_def split: if_splits)
  note app = explicit_oid_reads_back [OF e(1), of "''ACSE application-context-name''"]
  note res = explicit_integer_reads_back [OF e(2), of "''ACSE association result''"]
  note dv = explicit_integer_reads_back [OF e(3), of "''ACSE result-source-diagnostic''"]
  note u = optional_encoding [OF e(5) user_information_reads_back, simplified]
  have d: "d = tlv_encoding (wrap_tlv 0xA3 (integer_tlv 0xA1 (ae_result_source_diagnostic a)))"
      "tlv_wf (wrap_tlv 0xA3 (integer_tlv 0xA1 (ae_result_source_diagnostic a)))"
    using wrap_encoding [where et = "0xA3" and x = "integer_tlv 0xA1 (ae_result_source_diagnostic a)"] e(4) dv by simp_all
  show "ber_encode_tlv_octet 0x61 (concat (map tlv_encoding (aare_tlvs a))) = Inr bs"
    using e(6) app res d(1) u(1) by (simp add: aare_tlvs_def)
  show "list_all tlv_wf (aare_tlvs a)" using app res d(2) u(2) by (simp add: aare_tlvs_def opt_tlv_def reads_back_def)
  show "foldE parse_aare_field (aare_tlvs a) \<lparr>rq_application = None, rq_result = None, rq_diagnostic = None, rq_user_information = None\<rparr> =
      Inr \<lparr>rq_application = Some (ae_application_context_name a), rq_result = Some (ae_result a),
        rq_diagnostic = Some (ae_result_source_diagnostic a), rq_user_information = ae_user_information a\<rparr>"
    using app res dv u(2) wrap_children [of "integer_tlv 0xA1 (ae_result_source_diagnostic a)" "0xA3"]
    by (cases "ae_user_information a") (simp_all add: aare_tlvs_def opt_tlv_def parse_aare_field_def reads_back_def)
qed

lemma decode_encode_aare:
  assumes "encode_aare a = Inr bs"
  shows "decode_aare bs =
    (if length bs > maximum_acse_bytes then Inl (acse_format_error ''ACSE AARE size is outside the supported range.'') else Inr a)"
proof -
  note e = encode_aare_Inr [OF assms]
  note outer = octet_encoding [OF e(1)] read_single_encoding [where et = "0x61" and v = "concat (map tlv_encoding (aare_tlvs a))"]
  have "acse_read_single_tlv 0x61 d bs = Inr (octet_tlv 0x61 (concat (map tlv_encoding (aare_tlvs a))))" "bs \<noteq> []" for d
    using outer by (simp_all add: acse_read_single_tlv_eq)
  with ber_read_children_concat [OF e(2)] e(3) show ?thesis by (cases a) (simp add: decode_aare_def)
qed

text \<open>C15.  Association PDUs round trip: a written AARE is read back exactly, and a written AARQ is read back
  exactly when it carries user information; the encoder treats user information as optional, the
  decoder refuses an AARQ without it.  The only other exception is an encoding of more than one
  mebibyte, whose body the encoder still admits.\<close>

theorem acse_round_trip:
  "(case encode_aarq q of Inl _ \<Rightarrow> True
    | Inr bs \<Rightarrow> decode_aarq bs =
        (if length bs > maximum_acse_bytes then Inl (acse_format_error ''ACSE AARQ size is outside the supported range.'')
         else if aq_user_information q = None then Inl (acse_format_error ''ACSE AARQ is missing required fields.'') else Inr q)) \<and>
   (case encode_aare a of Inl _ \<Rightarrow> True
    | Inr bs \<Rightarrow> decode_aare bs =
        (if length bs > maximum_acse_bytes then Inl (acse_format_error ''ACSE AARE size is outside the supported range.'') else Inr a))"
  by (simp add: decode_encode_aarq decode_encode_aare split: sum.splits)

subsection \<open>The handshake\<close>

lemma session_parse_user_count:
  "session_parse rest ps ud saw = Inr (qs, ud') \<Longrightarrow> ud' \<noteq> ud \<Longrightarrow> length qs < 64"
  by (induction rest ps ud saw rule: session_parse.induct) (auto simp: Let_def split: if_splits)

lemma session_decode_user_count:
  "session_decode_or_fail bs = Inr s \<Longrightarrow> ss_user_data s \<noteq> [] \<Longrightarrow> length (ss_parameters s) < 64"
  by (auto simp: session_decode_or_fail_def session_decode_def session_decode_prefix_def bindE_Inr_iff Let_def
      dest: session_parse_user_count split: if_splits sum.splits prod.splits)

lemma cpa_longer: "encode_cpa rs i aare mode = Inr bs \<Longrightarrow> length aare < length bs"
  by (auto simp: encode_cpa_def bindE_Inr_iff dest!: pdv_longer octet_encoding(3) split: if_splits)

lemma decode_cp_nonempty: "decode_cp bs = Inr cp \<Longrightarrow> bs \<noteq> []"
  by (auto simp: decode_cp_def)

lemma decoded_request:
  assumes "decode_association_request bs = Inr r"
  shows "session_decode_or_fail bs = Inr (ar_session r)" "ss_kind (ar_session r) = Spdu_connect" "decode_cp (ss_user_data (ar_session r)) = Inr (ar_presentation r)"
    "decode_aarq (pv_single_asn1_type (cp_user_data (ar_presentation r))) = Inr (ar_aarq r)"
    "ar_acse_context_id r = context_id_for_abstract_syntax [0x52, 0x01, 0x00, 0x01] (ar_presentation r)"
    "ar_mms_context_id r = context_id_for_abstract_syntax [0x28, 0xCA, 0x22, 0x02, 0x01] (ar_presentation r)"
    "ar_acse_context_id r = pv_context_id (cp_user_data (ar_presentation r))" "ar_acse_context_id r \<noteq> 0" "ar_mms_context_id r \<noteq> 0"
  using assms by (auto simp: decode_association_request_def bindE_Inr_iff Let_def split: if_splits)

lemma context_id_defined:
  "context_id_for_abstract_syntax oid cp \<noteq> 0 \<Longrightarrow>
     \<exists>c\<in>set (cp_contexts cp). xd_abstract_syntax_name c = oid \<and> xd_id c = context_id_for_abstract_syntax oid cp"
proof (cases "find (\<lambda>c. xd_abstract_syntax_name c = oid) (cp_contexts cp)")
  case (Some c)
  then have "c \<in> set (cp_contexts cp)" "xd_abstract_syntax_name c = oid" by (auto simp: find_Some_iff)
  with Some show ?thesis by (auto simp: context_id_for_abstract_syntax_def)
qed (simp add: context_id_for_abstract_syntax_def)

definition acceptance :: "context_definition \<Rightarrow> context_result" where
  "acceptance c = \<lparr>xr_result = Acceptance, xr_transfer_syntax_name = hd (xd_transfer_syntax_names c)\<rparr>"

lemma encode_accepting:
  "encode_cpa_accepting request aare = Inr bs \<Longrightarrow>
     encode_cpa (map acceptance (cp_contexts request)) (pv_context_id (cp_user_data request)) aare (cp_mode_selector request) = Inr bs"
  by (auto simp: encode_cpa_accepting_def bindE_Inr_iff acceptance_def [abs_def] dest: accept_all split: if_splits)

lemma handshake_response:
  assumes "decode_association_request octets = Inr request" "build_accept_response request aare = Inr profile"
  shows "\<exists>spdu. session_decode (rp_payload profile) = Inr spdu \<and> ss_kind spdu = Spdu_accept \<and>
    ss_parameters spdu = ss_parameters (ar_session request) \<and>
    decode_association_response (rp_payload profile) = Inr \<lparr>as_session = spdu, as_presentation =
      \<lparr>ca_mode_selector = cp_mode_selector (ar_presentation request),
       ca_context_results = map acceptance (cp_contexts (ar_presentation request)),
       ca_user_data = \<lparr>pv_context_id = ar_acse_context_id request, pv_single_asn1_type = projr (encode_aare aare)\<rparr>\<rparr>, as_aare = aare\<rparr>"
    "length (rp_payload profile) \<le> 257" "rp_mms_context_id profile = ar_mms_context_id request"
proof -
  note r = decoded_request [OF assms(1)]
  obtain ea cpa where e: "encode_aare aare = Inr ea" "encode_cpa_accepting (ar_presentation request) ea = Inr cpa"
      "session_encode 0x0E (ss_parameters (ar_session request)) cpa = Inr (rp_payload profile)" "rp_mms_context_id profile = ar_mms_context_id request"
    using assms(2) r(2) by (auto simp: build_accept_response_def bindE_Inr_iff session_encode_accept_mirroring_def split: if_splits)
  note s = session_encode_Inr [OF e(3)]
  note cpa = decode_encode_cpa [OF encode_accepting [OF e(2)]] cpa_longer [OF encode_accepting [OF e(2)]]
  have count: "length (ss_parameters (ar_session request)) < 64"
    using session_decode_user_count [OF r(1)] decode_cp_nonempty [OF r(3)] by simp
  have aare: "decode_aare ea = Inr aare" using decode_encode_aare [OF e(1)] cpa(2) s(3) by simp
  let ?spdu = "\<lparr>ss_kind = kind_from_code 0x0E, ss_code = 0x0E, ss_length_indicator = of_nat (length (rp_payload profile) - 2),
    ss_parameters = ss_parameters (ar_session request), ss_user_data = cpa\<rparr>"
  have "session_decode (rp_payload profile) = Inr ?spdu" using spdu_decode_encode [OF e(3), of "[]" ?spdu] count by simp
  then show "\<exists>spdu. session_decode (rp_payload profile) = Inr spdu \<and> ss_kind spdu = Spdu_accept \<and>
    ss_parameters spdu = ss_parameters (ar_session request) \<and>
    decode_association_response (rp_payload profile) = Inr \<lparr>as_session = spdu, as_presentation =
      \<lparr>ca_mode_selector = cp_mode_selector (ar_presentation request),
       ca_context_results = map acceptance (cp_contexts (ar_presentation request)),
       ca_user_data = \<lparr>pv_context_id = ar_acse_context_id request, pv_single_asn1_type = projr (encode_aare aare)\<rparr>\<rparr>, as_aare = aare\<rparr>"
    using cpa(1) aare r(7) e(1)
    by (intro exI [of _ ?spdu]) (simp add: decode_association_response_def session_decode_or_fail_def kind_from_code_def)
  show "length (rp_payload profile) \<le> 257" using s(5,6) by simp
  show "rp_mms_context_id profile = ar_mms_context_id request" by (rule e(4))
qed

text \<open>A request assembled from any AARQ with user information and any contexts is decoded as it was built.\<close>

lemma cp_longer: "encode_cp cs i aarq calling called mode = Inr bs \<Longrightarrow> length aarq < length bs"
  by (auto simp: encode_cp_def bindE_Inr_iff dest!: pdv_longer octet_encoding(3) split: if_splits)

lemma request_decodes:
  assumes "encode_aarq q = Inr bq" "encode_cp cs i bq calling called mode = Inr cp" "session_encode_connect cp ps = Inr octets"
    "distinct (map xd_id cs)" "aq_user_information q \<noteq> None" "length ps < 64"
    "find (\<lambda>c. xd_abstract_syntax_name c = [0x52, 0x01, 0x00, 0x01]) cs = Some a" "xd_id a = i"
    "find (\<lambda>c. xd_abstract_syntax_name c = [0x28, 0xCA, 0x22, 0x02, 0x01]) cs = Some b" "xd_id b \<noteq> 0"
  shows "\<exists>spdu. decode_association_request octets = Inr \<lparr>ar_session = spdu, ar_presentation =
      \<lparr>cp_mode_selector = mode, cp_calling_selector = effective_selector calling, cp_called_selector = effective_selector called,
       cp_contexts = cs, cp_user_data = \<lparr>pv_context_id = i, pv_single_asn1_type = bq\<rparr>\<rparr>,
      ar_aarq = q, ar_acse_context_id = i, ar_mms_context_id = xd_id b\<rparr> \<and>
    ss_kind spdu = Spdu_connect \<and> ss_parameters spdu = effective_parameters ps"
proof -
  have enc: "session_encode 0x0D (effective_parameters ps) cp = Inr octets" using assms(3) by (simp add: session_encode_connect_def)
  let ?spdu = "\<lparr>ss_kind = kind_from_code 0x0D, ss_code = 0x0D, ss_length_indicator = of_nat (length octets - 2),
    ss_parameters = effective_parameters ps, ss_user_data = cp\<rparr>"
  have "length (effective_parameters ps) < 64" using assms(6) by (simp add: effective_parameters_def default_parameters_def)
  then have spdu: "session_decode octets = Inr ?spdu" using spdu_decode_encode [OF enc, of "[]" ?spdu] by simp
  have "length cp \<le> 255" using session_encode_Inr(3) [OF enc] .
  then have aarq: "decode_aarq bq = Inr q" using decode_encode_aarq [OF assms(1)] cp_longer [OF assms(2)] assms(5) by simp
  have "i \<noteq> 0" using assms(2) by (auto simp: encode_cp_def bindE_Inr_iff encode_fully_encoded_data_def split: if_splits)
  with spdu aarq decode_encode_cp [OF assms(2)] assms(4,7-10) show ?thesis
    by (intro exI [of _ ?spdu])
      (simp add: decode_association_request_def session_decode_or_fail_def kind_from_code_def context_id_for_abstract_syntax_def Let_def)
qed

text \<open>C11.  The association handshake: whatever request was decoded and whatever AARE the server answers with,
  an accept response that was built is decoded by the requester, as an accept SPDU with the session
  parameters of the request, one acceptance per requested context in their order and with its first
  transfer syntax, the user data in the ACSE context of the request, and exactly the server's AARE; it
  fits one session SPDU, and the MMS context the server goes on with is a context the request defines
  for the MMS abstract syntax.\<close>

theorem association_handshake:
  assumes "build_accept_response_octets octets aare = Inr profile"
  shows "\<exists>request response. decode_association_request octets = Inr request \<and>
    decode_association_response (rp_payload profile) = Inr response \<and>
    ss_kind (as_session response) = Spdu_accept \<and> ss_parameters (as_session response) = ss_parameters (ar_session request) \<and>
    ca_mode_selector (as_presentation response) = cp_mode_selector (ar_presentation request) \<and>
    ca_context_results (as_presentation response) = map acceptance (cp_contexts (ar_presentation request)) \<and>
    pv_context_id (ca_user_data (as_presentation response)) = ar_acse_context_id request \<and>
    as_aare response = aare \<and> length (rp_payload profile) \<le> 257 \<and>
    (\<exists>c\<in>set (cp_contexts (ar_presentation request)).
       xd_abstract_syntax_name c = [0x28, 0xCA, 0x22, 0x02, 0x01] \<and> xd_id c = rp_mms_context_id profile)"
proof -
  obtain request where r: "decode_association_request octets = Inr request" "build_accept_response request aare = Inr profile"
    using assms by (auto simp: build_accept_response_octets_def bindE_Inr_iff)
  note h = handshake_response [OF r] note d = decoded_request [OF r(1)]
  have "\<exists>c\<in>set (cp_contexts (ar_presentation request)).
      xd_abstract_syntax_name c = [0x28, 0xCA, 0x22, 0x02, 0x01] \<and> xd_id c = rp_mms_context_id profile"
    using context_id_defined [of "[0x28, 0xCA, 0x22, 0x02, 0x01]" "ar_presentation request"] d(6,9) h(3) by simp
  with h r(1) show ?thesis by auto
qed

subsection \<open>The default profile\<close>

lemma octet_long: "128 \<le> length v \<Longrightarrow> length v < 256 \<Longrightarrow> ber_encode_tlv_octet et v = Inr (et # 0x81 # of_nat (length v) # v)"
proof -
  assume "128 \<le> length v" "length v < 256"
  then have len: "length v \<in> set [128..<256]" and big: "\<not> length v < 128" "\<not> length v > 0xFFFFFFFF"
    by (simp_all only: set_upt atLeastLessThan_iff)
  have "\<forall>n \<in> set [128..<256]. ber_strip_zeros (be_bytes 4 (of_nat n :: u32)) = [of_nat n]" by code_simp
  from this len have "ber_strip_zeros (be_bytes 4 (of_nat (length v) :: u32)) = [of_nat (length v)]" by (rule bspec)
  with big show ?thesis by (simp add: ber_encode_tlv_octet_def ber_write_length_def)
qed

lemma small_integers: "ber_encode_unsigned_integer 0 = [0]" "ber_encode_unsigned_integer 12 = [12]"
  by code_simp+

lemmas default_profile_simps =
  default_mms_initiate_request_def default_mms_initiate_response_def default_balanced_aarq_def default_accept_aare_def
  mms_application_context_name_def balanced_called_ap_title_def balanced_calling_ap_title_def encode_aarq_def encode_aare_def
  encode_explicit_oid_def encode_explicit_integer_def encode_user_information_def encode_external_def optional_octets_def
  acse_validate_oid_def encode_integer_def octet_short octet_long integers_short small_integers

lemma default_aarq_encodes: "\<exists>q bs. default_balanced_aarq = Inr q \<and> encode_aarq q = Inr bs \<and> aq_user_information q \<noteq> None \<and> length bs = 91"
  by (simp add: default_profile_simps)

lemma default_aare_encodes: "\<exists>a bs. default_accept_aare = Inr a \<and> encode_aare a = Inr bs \<and> ae_result a = 0 \<and> length bs = 76"
  by (simp add: default_profile_simps)

lemmas request_simps =
  session_encode_connect_def session_encode_def effective_parameters_def default_parameters_def kind_from_code_def encode_cp_def
  default_contexts_def encode_mode_selector_def encode_context_definition_list_def encode_context_definition_def encode_transfer_syntax_def
  encode_fully_encoded_data_def effective_selector_def oid_ok_def

lemma default_request_decodes:
  "\<exists>octets request. build_default_association_request = Inr octets \<and> decode_association_request octets = Inr request \<and>
     ss_kind (ar_session request) = Spdu_connect \<and> ss_parameters (ar_session request) = default_parameters \<and>
     cp_mode_selector (ar_presentation request) = 1 \<and> cp_contexts (ar_presentation request) = default_contexts \<and>
     pv_context_id (cp_user_data (ar_presentation request)) = 1 \<and> ar_acse_context_id request = 1 \<and> ar_mms_context_id request = 3"
proof -
  have "\<exists>octets. build_default_association_request = Inr octets"
    by (simp add: build_default_association_request_def request_simps default_profile_simps)
  then obtain octets where octets: "build_default_association_request = Inr octets" by blast
  then obtain q bq cp where e: "default_balanced_aarq = Inr q" "encode_aarq q = Inr bq"
      "encode_cp default_contexts 1 bq [] [] 1 = Inr cp" "session_encode_connect cp [] = Inr octets"
    unfolding build_default_association_request_def bindE_Inr_iff by blast
  have "aq_user_information q \<noteq> None" using e(1) by (auto simp: default_balanced_aarq_def bindE_Inr_iff)
  from request_decodes [OF e(2,3,4) _ this, of "default_contexts ! 0" "default_contexts ! 1"] octets show ?thesis
    by (auto simp: default_contexts_def effective_parameters_def)
qed

theorem association_handshake_witness:
  "\<exists>octets aare profile. build_default_association_request = Inr octets \<and> default_accept_aare = Inr aare \<and>
     build_accept_response_octets octets aare = Inr profile \<and> rp_mms_context_id profile = 3 \<and>
     (\<exists>response. decode_association_response (rp_payload profile) = Inr response \<and> aare_accepted (as_aare response))"
proof -
  obtain octets r where r: "build_default_association_request = Inr octets" "decode_association_request octets = Inr r"
      "ss_kind (ar_session r) = Spdu_connect" "ss_parameters (ar_session r) = default_parameters" "cp_mode_selector (ar_presentation r) = 1"
      "cp_contexts (ar_presentation r) = default_contexts" "pv_context_id (cp_user_data (ar_presentation r)) = 1"
      "ar_acse_context_id r = 1" "ar_mms_context_id r = 3"
    using default_request_decodes by blast
  have "\<exists>aare profile. default_accept_aare = Inr aare \<and> aare_accepted aare \<and> build_accept_response r aare = Inr profile \<and> rp_mms_context_id profile = 3"
    using r(3-) by (simp add: build_accept_response_def encode_cpa_accepting_def encode_cpa_def session_encode_accept_mirroring_def
        encode_context_result_list_def encode_context_result_def aare_accepted_def request_simps default_profile_simps)
  then obtain aare profile where a: "default_accept_aare = Inr aare" "aare_accepted aare" "build_accept_response r aare = Inr profile"
      "rp_mms_context_id profile = 3" by blast
  have "build_accept_response_octets octets aare = Inr profile" by (simp add: build_accept_response_octets_def r(2) a(3))
  from association_handshake [OF this] this a r(1) show ?thesis by auto
qed

end
