(* ===== verification/Mms_Pdu.thy ===== *)
theory Mms_Pdu
  imports Presentation_Wire
begin

text \<open>
  MMS PDUs (\<open>src/mms/pdu.cpp\<close>) and the router of received PDUs (\<open>src/mms/invoke_router.cpp\<close>): the initiate
  exchange, confirmed requests, responses and errors, the envelope of any received PDU, its transport
  in presentation data, and the queues of results per invoke identifier.  The request and the response of the initiate exchange have the same
  fields and share one record, as they share the codec templates.
\<close>

datatype mms_pdu_kind =
    Pdu_unknown | Confirmed_request | Confirmed_response | Confirmed_error | Unconfirmed | Reject
  | Cancel_request | Cancel_response | Cancel_error | Initiate_request | Initiate_response | Initiate_error
  | Conclude_request | Conclude_response | Conclude_error

datatype mms_confirmed_service =
    Service_unknown | Get_name_list | Identify | Service_read | Service_write | Get_variable_access_attributes
  | Get_named_variable_list_attributes | File_open | File_read | File_close | File_delete | File_directory

record initiate_detail =
  id_version_number :: u32
  id_parameter_support_options :: bytes
  id_services_supported_calling :: bytes

record mms_initiate =
  mi_maximum_mms_pdu_size :: u32
  mi_maximum_outstanding_calling :: u32
  mi_maximum_outstanding_called :: u32
  mi_data_structure_nesting_level :: u32
  mi_detail :: initiate_detail

record mms_confirmed =
  mc_invoke_id :: u32
  mc_service_tag :: int
  mc_service_constructed :: bool
  mc_service_value :: bytes

record mms_confirmed_error =
  ce_invoke_id :: u32
  ce_error_class_tag :: int
  ce_error_value :: u32

record mms_envelope =
  me_kind :: mms_pdu_kind
  me_invoke_id :: "u32 option"
  me_service_tag :: "int option"
  me_information_report :: bool
  me_mms_payload :: bytes

abbreviation maximum_pdu_bytes :: nat where
  "maximum_pdu_bytes \<equiv> 1048576"

abbreviation maximum_invoke_id :: u32 where
  "maximum_invoke_id \<equiv> 0x7FFFFFFF"

definition confirmed_service :: "int \<Rightarrow> mms_confirmed_service" where
  "confirmed_service tag =
     (if tag = 1 then Get_name_list else if tag = 2 then Identify else if tag = 4 then Service_read else if tag = 5 then Service_write
      else if tag = 6 then Get_variable_access_attributes else if tag = 12 then Get_named_variable_list_attributes
      else if tag = 72 then File_open else if tag = 73 then File_read else if tag = 74 then File_close
      else if tag = 76 then File_delete else if tag = 77 then File_directory else Service_unknown)"

definition kind_for_tag :: "u8 \<Rightarrow> mms_pdu_kind" where
  "kind_for_tag tag =
     (if tag = 0xA0 then Confirmed_request else if tag = 0xA1 then Confirmed_response else if tag = 0xA2 then Confirmed_error
      else if tag = 0xA3 then Unconfirmed else if tag = 0xA4 then Reject else if tag = 0xA5 then Cancel_request
      else if tag = 0xA6 then Cancel_response else if tag = 0xA7 then Cancel_error else if tag = 0xA8 then Initiate_request
      else if tag = 0xA9 then Initiate_response else if tag = 0xAA then Initiate_error else if tag = 0x8B then Conclude_request
      else if tag = 0x8C then Conclude_response else if tag = 0xAD then Conclude_error else Pdu_unknown)"

definition confirmed_result :: "mms_envelope \<Rightarrow> bool" where
  "confirmed_result e \<longleftrightarrow> me_kind e = Confirmed_response \<or> me_kind e = Confirmed_error \<or> me_kind e = Reject"

definition matches_invoke :: "u32 \<Rightarrow> mms_envelope \<Rightarrow> bool" where
  "matches_invoke expected e \<longleftrightarrow> me_invoke_id e = Some expected"

subsection \<open>Shared readers and writers\<close>

fun mms_concat_length :: "bytes list \<Rightarrow> nat \<Rightarrow> nat result" where
  "mms_concat_length [] n = Inr n"
| "mms_concat_length (p # ps) n =
     (if length p > maximum_pdu_bytes - n then Inl (Mms_format_error ''MMS encoded length exceeds the configured limit.'')
      else mms_concat_length ps (n + length p))"

definition mms_concat :: "bytes list \<Rightarrow> bytes result" where
  "mms_concat parts = bindE (mms_concat_length parts 0) (\<lambda>_. Inr (concat parts))"

definition encode_positive_integer_content :: "u32 \<Rightarrow> bytes" where
  "encode_positive_integer_content v =
     (let bs = ber_encode_unsigned_integer (ucast v); bs = (if bs = [] then [0] else bs) in
      if hd bs AND 0x80 \<noteq> 0 then 0 # bs else bs)"

definition mms_read_u32 :: "string \<Rightarrow> ber_tlv \<Rightarrow> u32 result" where
  "mms_read_u32 field_name tlv = (case ber_read_unsigned_integer tlv of
     None \<Rightarrow> Inl (Mms_format_error (field_name @ '' is not a valid unsigned 32-bit value.''))
   | Some v \<Rightarrow> if v > 0xFFFFFFFF then Inl (Mms_format_error (field_name @ '' is not a valid unsigned 32-bit value.'')) else Inr (ucast v))"

definition read_outer_exact :: "u8 \<Rightarrow> string \<Rightarrow> bytes \<Rightarrow> ber_tlv result" where
  "read_outer_exact expected_tag name bs =
     (if bs = [] \<or> length bs > maximum_pdu_bytes then Inl (Mms_format_error (name @ '' length is outside the configured limit.''))
      else case ber_try_read_tlv bs 0 of
          Inl _ \<Rightarrow> Inl (Mms_format_error (name @ '' is not one exact BER TLV.''))
        | Inr (off, outer) \<Rightarrow>
            if off \<noteq> length bs then Inl (Mms_format_error (name @ '' is not one exact BER TLV.''))
            else if encoded_tag outer \<noteq> expected_tag \<or> \<not> constructed outer
            then Inl (Mms_format_error (name @ '' has an unexpected top-level tag.''))
            else Inr outer)"

subsection \<open>Initiate\<close>

text \<open>A field is \<open>Some\<close> once the loop has seen it.\<close>

record detail_fields =
  df_version :: "u32 option"
  df_parameters :: "bytes option"
  df_services :: "bytes option"

definition parse_detail_field :: "ber_tlv \<Rightarrow> detail_fields \<Rightarrow> detail_fields result" where
  "parse_detail_field child d =
     (if tag_class child \<noteq> Context_specific \<or> constructed child then Inl (Mms_format_error ''MMS initiate detail contains an invalid field.'')
      else if tag_number child = 0 then
        (if df_version d \<noteq> None then Inl (Mms_format_error ''Duplicate MMS initiate version field.'')
         else bindE (mms_read_u32 ''MMS version'' child) (\<lambda>v. Inr (d\<lparr>df_version := Some v\<rparr>)))
      else if tag_number child = 1 then
        (if df_parameters d \<noteq> None \<or> tlv_value child = [] \<or> length (tlv_value child) > 256
         then Inl (Mms_format_error ''Invalid MMS parameter-support bit string.'')
         else Inr (d\<lparr>df_parameters := Some (tlv_value child)\<rparr>))
      else if tag_number child = 2 then
        (if df_services d \<noteq> None \<or> tlv_value child = [] \<or> length (tlv_value child) > 256
         then Inl (Mms_format_error ''Invalid MMS services-supported bit string.'')
         else Inr (d\<lparr>df_services := Some (tlv_value child)\<rparr>))
      else Inl (Mms_format_error ''Unexpected MMS initiate-detail field.''))"

definition decode_detail :: "ber_tlv \<Rightarrow> initiate_detail result" where
  "decode_detail detail_field =
     (if encoded_tag detail_field \<noteq> 0xA4 \<or> \<not> constructed detail_field
      then Inl (Mms_format_error ''MMS initiate detail must be context [4] constructed.'')
      else bindE (ber_read_children (tlv_value detail_field)) (\<lambda>children.
        if length children \<noteq> 3 then Inl (Mms_format_error ''MMS initiate detail must contain exactly three fields.'')
        else bindE (foldE parse_detail_field children \<lparr>df_version = None, df_parameters = None, df_services = None\<rparr>) (\<lambda>d.
          case (df_version d, df_parameters d, df_services d) of
            (Some version, Some parameters, Some services) \<Rightarrow>
              Inr \<lparr>id_version_number = version, id_parameter_support_options = parameters, id_services_supported_calling = services\<rparr>
          | _ \<Rightarrow> Inl (Mms_format_error ''MMS initiate detail is incomplete.''))))"

definition bit_string_ok :: "bytes \<Rightarrow> bool" where
  "bit_string_ok bs \<longleftrightarrow> bs \<noteq> [] \<and> length bs \<le> 256"

definition encode_detail :: "initiate_detail \<Rightarrow> bytes result" where
  "encode_detail d =
     (if \<not> bit_string_ok (id_parameter_support_options d) \<or> \<not> bit_string_ok (id_services_supported_calling d)
      then Inl (Mms_format_error ''MMS initiate bit strings are outside the configured limit.'')
      else bindE (ber_encode_tlv Context_specific False 0 (encode_positive_integer_content (id_version_number d))) (\<lambda>version.
        bindE (ber_encode_tlv Context_specific False 1 (id_parameter_support_options d)) (\<lambda>parameters.
        bindE (ber_encode_tlv Context_specific False 2 (id_services_supported_calling d)) (\<lambda>services.
        bindE (mms_concat [version, parameters, services]) (\<lambda>body. ber_encode_tlv_octet 0xA4 body)))))"

record initiate_fields =
  if_values :: "u32 option list"
  if_detail :: "initiate_detail option"

definition parse_initiate_field :: "string \<Rightarrow> ber_tlv \<Rightarrow> initiate_fields \<Rightarrow> initiate_fields result" where
  "parse_initiate_field name child f =
     (if tag_class child \<noteq> Context_specific then Inl (Mms_format_error (name @ '' contains a non-context field.''))
      else if tag_number child \<ge> 0 \<and> tag_number child \<le> 3 \<and> \<not> constructed child then
        (let index = nat (tag_number child) in
         if if_values f ! index \<noteq> None then Inl (Mms_format_error (name @ '' contains a duplicate numeric field.''))
         else bindE (mms_read_u32 ''MMS initiate numeric field'' child) (\<lambda>v. Inr (f\<lparr>if_values := (if_values f)[index := Some v]\<rparr>)))
      else if tag_number child = 4 \<and> constructed child then
        (if if_detail f \<noteq> None then Inl (Mms_format_error (name @ '' contains duplicate detail.''))
         else bindE (decode_detail child) (\<lambda>d. Inr (f\<lparr>if_detail := Some d\<rparr>)))
      else Inl (Mms_format_error (name @ '' contains an unexpected field.'')))"

definition initiate_limits_ok :: "u32 list \<Rightarrow> bool" where
  "initiate_limits_ok values \<longleftrightarrow> values ! 0 \<ge> 64 \<and> unat (values ! 0) \<le> maximum_pdu_bytes \<and> values ! 1 \<noteq> 0 \<and> values ! 2 \<noteq> 0 \<and> values ! 3 \<noteq> 0"

definition decode_initiate_common :: "u8 \<Rightarrow> string \<Rightarrow> bytes \<Rightarrow> mms_initiate result" where
  "decode_initiate_common expected_tag name bs =
     bindE (read_outer_exact expected_tag name bs) (\<lambda>outer.
     bindE (ber_read_children (tlv_value outer)) (\<lambda>children.
       if length children \<noteq> 5 then Inl (Mms_format_error (name @ '' must contain exactly five fields.''))
       else bindE (foldE (parse_initiate_field name) children \<lparr>if_values = replicate 4 None, if_detail = None\<rparr>) (\<lambda>f.
         case if_detail f of
           None \<Rightarrow> Inl (Mms_format_error (name @ '' is missing a mandatory field.''))
         | Some d \<Rightarrow>
             if None \<in> set (if_values f) then Inl (Mms_format_error (name @ '' is missing a mandatory field.''))
             else let values = map the (if_values f) in
               if \<not> initiate_limits_ok values then Inl (Mms_format_error (name @ '' negotiated limits are invalid.''))
               else Inr \<lparr>mi_maximum_mms_pdu_size = values ! 0, mi_maximum_outstanding_calling = values ! 1,
                      mi_maximum_outstanding_called = values ! 2, mi_data_structure_nesting_level = values ! 3, mi_detail = d\<rparr>)))"

definition initiate_values :: "mms_initiate \<Rightarrow> u32 list" where
  "initiate_values i = [mi_maximum_mms_pdu_size i, mi_maximum_outstanding_calling i, mi_maximum_outstanding_called i,
     mi_data_structure_nesting_level i]"

definition encode_initiate_common :: "u8 \<Rightarrow> mms_initiate \<Rightarrow> bytes result" where
  "encode_initiate_common tag i =
     (let values = initiate_values i in
      if \<not> initiate_limits_ok values then Inl (Mms_format_error ''MMS initiate negotiated limits are invalid.'')
      else bindE (mapE (\<lambda>index. ber_encode_tlv Context_specific False (int index) (encode_positive_integer_content (values ! index))) [0, 1, 2, 3]) (\<lambda>fields.
        bindE (encode_detail (mi_detail i)) (\<lambda>detail.
        bindE (mms_concat (fields @ [detail])) (\<lambda>body. ber_encode_tlv_octet tag body))))"

definition default_initiate :: mms_initiate where
  "default_initiate = \<lparr>mi_maximum_mms_pdu_size = 65000, mi_maximum_outstanding_calling = 10, mi_maximum_outstanding_called = 10,
     mi_data_structure_nesting_level = 5, mi_detail = \<lparr>id_version_number = 1, id_parameter_support_options = [0x05, 0xF1, 0x00],
       id_services_supported_calling = [0x03, 0xEE, 0x1C, 0x00, 0x00, 0x04, 0x08, 0x00, 0x00, 0x79, 0xEF, 0x18]\<rparr>\<rparr>"

definition encode_initiate_request :: "mms_initiate \<Rightarrow> bytes result" where
  "encode_initiate_request = encode_initiate_common 0xA8"

definition decode_initiate_request :: "bytes \<Rightarrow> mms_initiate result" where
  "decode_initiate_request = decode_initiate_common 0xA8 ''MMS Initiate-Request''"

definition encode_initiate_response :: "mms_initiate \<Rightarrow> bytes result" where
  "encode_initiate_response = encode_initiate_common 0xA9"

definition decode_initiate_response :: "bytes \<Rightarrow> mms_initiate result" where
  "decode_initiate_response = decode_initiate_common 0xA9 ''MMS Initiate-Response''"

subsection \<open>Confirmed services\<close>

definition is_invoke_tlv :: "ber_tlv \<Rightarrow> bool" where
  "is_invoke_tlv tlv \<longleftrightarrow> (tag_class tlv = Universal \<and> tag_number tlv = 2 \<and> \<not> constructed tlv) \<or>
     (tag_class tlv = Context_specific \<and> tag_number tlv = 0 \<and> \<not> constructed tlv)"

definition decode_invoke_tlv :: "ber_tlv \<Rightarrow> u32 result" where
  "decode_invoke_tlv tlv =
     (if \<not> is_invoke_tlv tlv then Inl (Mms_format_error ''MMS PDU does not begin with a valid invoke ID.'')
      else bindE (mms_read_u32 ''MMS invoke ID'' tlv) (\<lambda>v.
        if v > maximum_invoke_id then Inl (Mms_format_error ''MMS invoke ID exceeds the supported range.'') else Inr v))"

definition encode_confirmed_common :: "u8 \<Rightarrow> mms_confirmed \<Rightarrow> bytes result" where
  "encode_confirmed_common outer_tag c =
     (if mc_invoke_id c > maximum_invoke_id then Inl (Mms_format_error ''MMS invoke ID exceeds the supported range.'')
      else if mc_service_tag c < 0 \<or> mc_service_tag c > 1000000 then Inl (Mms_format_error ''MMS confirmed service tag is invalid.'')
      else if length (mc_service_value c) > maximum_pdu_bytes then Inl (Mms_format_error ''MMS confirmed service payload is too large.'')
      else bindE (ber_encode_tlv_octet 0x02 (encode_positive_integer_content (mc_invoke_id c))) (\<lambda>invoke.
        bindE (ber_encode_tlv Context_specific (mc_service_constructed c) (mc_service_tag c) (mc_service_value c)) (\<lambda>service.
        bindE (mms_concat [invoke, service]) (\<lambda>body. ber_encode_tlv_octet outer_tag body))))"

definition decode_confirmed_common :: "u8 \<Rightarrow> string \<Rightarrow> bytes \<Rightarrow> mms_confirmed result" where
  "decode_confirmed_common expected_tag name bs =
     bindE (read_outer_exact expected_tag name bs) (\<lambda>outer.
     bindE (ber_read_children (tlv_value outer)) (\<lambda>children.
       if length children < 2 \<or> length children > 4 then Inl (Mms_format_error (name @ '' must contain invoke ID and one service.''))
       else bindE (decode_invoke_tlv (hd children)) (\<lambda>invoke_id.
         let service = last children in
         if tag_class service \<noteq> Context_specific \<or> tag_number service < 0
         then Inl (Mms_format_error (name @ '' service is not context-specific.''))
         else Inr \<lparr>mc_invoke_id = invoke_id, mc_service_tag = tag_number service, mc_service_constructed = constructed service,
                mc_service_value = tlv_value service\<rparr>)))"

definition encode_confirmed_request :: "mms_confirmed \<Rightarrow> bytes result" where
  "encode_confirmed_request = encode_confirmed_common 0xA0"

definition decode_confirmed_request :: "bytes \<Rightarrow> mms_confirmed result" where
  "decode_confirmed_request = decode_confirmed_common 0xA0 ''MMS Confirmed-Request''"

definition encode_confirmed_response :: "mms_confirmed \<Rightarrow> bytes result" where
  "encode_confirmed_response = encode_confirmed_common 0xA1"

definition decode_confirmed_response :: "bytes \<Rightarrow> mms_confirmed result" where
  "decode_confirmed_response = decode_confirmed_common 0xA1 ''MMS Confirmed-Response''"

definition encode_confirmed_error :: "mms_confirmed_error \<Rightarrow> bytes result" where
  "encode_confirmed_error e =
     (if ce_invoke_id e > maximum_invoke_id \<or> ce_error_class_tag e < 0 \<or> ce_error_class_tag e > 1000000
      then Inl (Mms_format_error ''MMS Confirmed-Error fields are invalid.'')
      else bindE (ber_encode_tlv Context_specific False 0 (encode_positive_integer_content (ce_invoke_id e))) (\<lambda>invoke.
        bindE (ber_encode_tlv Context_specific False (ce_error_class_tag e) (encode_positive_integer_content (ce_error_value e))) (\<lambda>class_choice.
        bindE (ber_encode_tlv_octet 0xA0 class_choice) (\<lambda>error_class.
        bindE (ber_encode_tlv_octet 0xA2 error_class) (\<lambda>service_error.
        bindE (mms_concat [invoke, service_error]) (\<lambda>body. ber_encode_tlv_octet 0xA2 body))))))"

definition decode_confirmed_error :: "bytes \<Rightarrow> mms_confirmed_error result" where
  "decode_confirmed_error bs =
     bindE (read_outer_exact 0xA2 ''MMS Confirmed-Error'' bs) (\<lambda>outer.
     bindE (ber_read_children (tlv_value outer)) (\<lambda>children.
       if length children \<noteq> 2 then Inl (Mms_format_error ''MMS Confirmed-Error must contain invoke ID and serviceError.'')
       else bindE (decode_invoke_tlv (children ! 0)) (\<lambda>invoke_id.
         let service_error = children ! 1 in
         if encoded_tag service_error \<noteq> 0xA2 \<or> \<not> constructed service_error
         then Inl (Mms_format_error ''MMS Confirmed-Error serviceError field is invalid.'')
         else bindE (ber_read_children (tlv_value service_error)) (\<lambda>service_children.
           if length service_children \<noteq> 1 \<or> encoded_tag (hd service_children) \<noteq> 0xA0 \<or> \<not> constructed (hd service_children)
           then Inl (Mms_format_error ''MMS Confirmed-Error errorClass wrapper is invalid.'')
           else bindE (ber_read_children (tlv_value (hd service_children))) (\<lambda>class_children.
             if length class_children \<noteq> 1 \<or> tag_class (hd class_children) \<noteq> Context_specific \<or> constructed (hd class_children)
             then Inl (Mms_format_error ''MMS Confirmed-Error class choice is invalid.'')
             else bindE (mms_read_u32 ''MMS service error value'' (hd class_children)) (\<lambda>v.
               Inr \<lparr>ce_invoke_id = invoke_id, ce_error_class_tag = tag_number (hd class_children), ce_error_value = v\<rparr>))))))"

subsection \<open>Envelopes\<close>

text \<open>The text of an exception (\<open>what\<close>).\<close>

fun exn_text :: "exn \<Rightarrow> string" where
  "exn_text (Ber_format_error n) = ''Invalid BER TLV at offset '' @ decimal n @ ''.''"
| "exn_text (Out_of_range t) = t" | "exn_text (Invalid_argument t) = t" | "exn_text (Length_error t) = t"
| "exn_text (Runtime_error t) = t" | "exn_text (Logic_error t) = t" | "exn_text (Tpkt_format_error t) = t"
| "exn_text (Cotp_format_error t) = t" | "exn_text (Mms_format_error t) = t"

definition extract_mms_payload :: "bytes \<Rightarrow> bytes result" where
  "extract_mms_payload bs =
     (if bs = [] \<or> length bs > maximum_pdu_bytes
      then Inl (Mms_format_error ''MMS/presentation payload length is outside the configured limit.'')
      else if kind_for_tag (hd bs) \<noteq> Pdu_unknown then Inr bs
      else case decode_p_data bs of
          Inl e \<Rightarrow> Inl (Mms_format_error (''MMS presentation P-DATA decode failed: '' @ exn_text e))
        | Inr pdv \<Rightarrow>
            if pv_single_asn1_type pdv = [] \<or> length (pv_single_asn1_type pdv) > maximum_pdu_bytes
            then Inl (Mms_format_error ''MMS presentation PDV payload is empty or too large.'')
            else Inr (pv_single_asn1_type pdv))"

definition wrap_p_data :: "bytes \<Rightarrow> u32 \<Rightarrow> bytes result" where
  "wrap_p_data payload context_id =
     (if payload = [] \<or> length payload > maximum_pdu_bytes then Inl (Mms_format_error ''MMS payload is empty or too large.'')
      else encode_p_data payload context_id True)"

definition try_read_invoke_from_children :: "ber_tlv list \<Rightarrow> u32 option" where
  "try_read_invoke_from_children children =
     (case find is_invoke_tlv (take 2 children) of
        None \<Rightarrow> None
      | Some child \<Rightarrow> (case decode_invoke_tlv child of Inl _ \<Rightarrow> None | Inr v \<Rightarrow> Some v))"

definition decode_envelope :: "bytes \<Rightarrow> mms_envelope result" where
  "decode_envelope bs =
     bindE (extract_mms_payload bs) (\<lambda>mms.
     case ber_try_read_tlv mms 0 of
       Inl _ \<Rightarrow> Inl (Mms_format_error ''MMS envelope is not one exact BER TLV.'')
     | Inr (off, outer) \<Rightarrow>
         if off \<noteq> length mms then Inl (Mms_format_error ''MMS envelope is not one exact BER TLV.'')
         else let kind = kind_for_tag (encoded_tag outer);
                  envelope = \<lparr>me_kind = kind, me_invoke_id = None, me_service_tag = None, me_information_report = False, me_mms_payload = mms\<rparr> in
           if kind = Pdu_unknown then Inl (Mms_format_error ''Unknown MMS top-level PDU tag.'')
           else if \<not> constructed outer then Inr envelope
           else bindE (ber_read_children (tlv_value outer)) (\<lambda>children.
             if kind = Confirmed_request then
               bindE (decode_confirmed_request mms) (\<lambda>c.
                 Inr (envelope\<lparr>me_invoke_id := Some (mc_invoke_id c), me_service_tag := Some (mc_service_tag c)\<rparr>))
             else if kind = Confirmed_response then
               bindE (decode_confirmed_response mms) (\<lambda>c.
                 Inr (envelope\<lparr>me_invoke_id := Some (mc_invoke_id c), me_service_tag := Some (mc_service_tag c)\<rparr>))
             else if kind = Confirmed_error then
               bindE (decode_confirmed_error mms) (\<lambda>c. Inr (envelope\<lparr>me_invoke_id := Some (ce_invoke_id c)\<rparr>))
             else if kind = Reject \<or> kind = Cancel_request \<or> kind = Cancel_response \<or> kind = Cancel_error then
               Inr (envelope\<lparr>me_invoke_id := try_read_invoke_from_children children\<rparr>)
             else if kind = Unconfirmed then
               Inr (envelope\<lparr>me_information_report :=
                 list_ex (\<lambda>child. tag_class child = Context_specific \<and> tag_number child = 0 \<and> constructed child) children\<rparr>)
             else Inr envelope))"

subsection \<open>Router\<close>

datatype route_action = Queued_confirmed_result | Queued_unmatched

record invoke_router =
  ir_maximum_queued_results :: nat
  ir_maximum_results_per_invoke :: nat
  ir_confirmed :: "u32 \<rightharpoonup> mms_envelope list"
  ir_unmatched :: "mms_envelope list"
  ir_confirmed_count :: nat

definition router_init :: "nat \<Rightarrow> nat \<Rightarrow> invoke_router result" where
  "router_init maximum_queued maximum_per_invoke =
     (if maximum_queued = 0 \<or> maximum_per_invoke = 0 \<or> maximum_per_invoke > maximum_queued
      then Inl (Invalid_argument ''MMS invoke-router limits are invalid.'')
      else Inr \<lparr>ir_maximum_queued_results = maximum_queued, ir_maximum_results_per_invoke = maximum_per_invoke,
             ir_confirmed = Map.empty, ir_unmatched = [], ir_confirmed_count = 0\<rparr>)"

text \<open>Looking up a queue creates it, also when the limit then throws.\<close>

definition route_envelope :: "mms_envelope \<Rightarrow> invoke_router \<Rightarrow> (route_action \<times> mms_envelope) result \<times> invoke_router" where
  "route_envelope envelope r =
     (case (if confirmed_result envelope then me_invoke_id envelope else None) of
        Some invoke_id \<Rightarrow>
          (if ir_confirmed_count r \<ge> ir_maximum_queued_results r
           then (Inl (Mms_format_error ''MMS invoke-router total queue limit exceeded.''), r)
           else let queue = (case ir_confirmed r invoke_id of None \<Rightarrow> [] | Some q \<Rightarrow> q);
                    r = r\<lparr>ir_confirmed := (ir_confirmed r)(invoke_id \<mapsto> queue)\<rparr> in
             if length queue \<ge> ir_maximum_results_per_invoke r
             then (Inl (Mms_format_error ''MMS invoke-router per-invoke queue limit exceeded.''), r)
             else (Inr (Queued_confirmed_result, envelope),
                   r\<lparr>ir_confirmed := (ir_confirmed r)(invoke_id \<mapsto> queue @ [envelope]), ir_confirmed_count := ir_confirmed_count r + 1\<rparr>))
      | None \<Rightarrow>
          (Inr (Queued_unmatched, envelope),
           r\<lparr>ir_unmatched := (if length (ir_unmatched r) \<ge> ir_maximum_queued_results r then tl (ir_unmatched r) else ir_unmatched r) @ [envelope]\<rparr>))"

definition router_route :: "bytes \<Rightarrow> invoke_router \<Rightarrow> (route_action \<times> mms_envelope) result \<times> invoke_router" where
  "router_route payload r = (case decode_envelope payload of Inl e \<Rightarrow> (Inl e, r) | Inr envelope \<Rightarrow> route_envelope envelope r)"

definition router_try_dequeue :: "u32 \<Rightarrow> invoke_router \<Rightarrow> mms_envelope option \<times> invoke_router" where
  "router_try_dequeue invoke_id r =
     (case ir_confirmed r invoke_id of
        None \<Rightarrow> (None, r)
      | Some [] \<Rightarrow> (None, r)
      | Some (envelope # rest) \<Rightarrow>
          (Some envelope, r\<lparr>ir_confirmed := (if rest = [] then (ir_confirmed r)(invoke_id := None) else (ir_confirmed r)(invoke_id \<mapsto> rest)),
             ir_confirmed_count := ir_confirmed_count r - 1\<rparr>))"

definition router_try_dequeue_unmatched :: "invoke_router \<Rightarrow> mms_envelope option \<times> invoke_router" where
  "router_try_dequeue_unmatched r =
     (case ir_unmatched r of [] \<Rightarrow> (None, r) | envelope # rest \<Rightarrow> (Some envelope, r\<lparr>ir_unmatched := rest\<rparr>))"

definition router_clear :: "invoke_router \<Rightarrow> invoke_router" where
  "router_clear r = r\<lparr>ir_confirmed := Map.empty, ir_unmatched := [], ir_confirmed_count := 0\<rparr>"

end
