(* ===== verification/Mms_Wire.thy ===== *)
theory Mms_Wire
  imports Mms_Pdu
begin

text \<open>
  MMS PDUs are read back as written, on their own and through the presentation data that carries
  them.
\<close>

subsection \<open>Fields\<close>

lemma mms_concat_length_Inr:
  "mms_concat_length ps n = Inr m \<Longrightarrow> n \<le> maximum_pdu_bytes \<Longrightarrow> n + length (concat ps) \<le> maximum_pdu_bytes"
proof (induction ps n rule: mms_concat_length.induct)
  case (2 p ps n)
  then have fits: "\<not> length p > maximum_pdu_bytes - n" "mms_concat_length ps (n + length p) = Inr m" by (auto split: if_splits)
  then have "n + length p \<le> maximum_pdu_bytes" using "2.prems"(2) by linarith
  with "2.IH" [OF fits] show ?case by simp
qed simp

lemma mms_concat_Inr: "mms_concat ps = Inr body \<Longrightarrow> body = concat ps \<and> length body \<le> maximum_pdu_bytes"
  using mms_concat_length_Inr [of ps 0] by (auto simp: mms_concat_def bindE_Inr_iff)

lemma strip_zeros_leading: "bs \<noteq> [] \<Longrightarrow> ber_strip_zeros (replicate n 0 @ bs) = ber_strip_zeros bs"
proof (induction n)
  case (Suc n)
  then show ?case by (cases "replicate n (0 :: u8) @ bs") auto
qed simp

lemma u32_octets: "be_bytes 8 (ucast (v :: u32) :: u64) = replicate 4 0 @ be_bytes 4 v"
proof -
  have low: "ucast (drop_bit (8 * i) (ucast v :: u64) AND 0xFF) = (ucast (drop_bit (8 * i) v AND 0xFF) :: u8)" for i
    by (rule bit_word_eqI) (auto simp: low_octet_mask bit_simps dest: bit_imp_le_length)
  have high: "drop_bit (8 * i) (ucast v :: u64) = 0" if "i \<ge> 4" for i
    using that by (intro bit_word_eqI) (auto simp: bit_simps dest: bit_imp_le_length)
  have "rev [0..<8] = [7, 6, 5, 4, 3, 2, 1, 0 :: nat]" "rev [0..<4] = [3, 2, 1, 0 :: nat]" by code_simp+
  then show ?thesis using high [of 7] high [of 6] high [of 5] high [of 4] low [of 0] low [of 1] low [of 2] low [of 3]
    by (simp add: be_bytes_def numeral_eq_Suc)
qed

lemma u32_content: "length (ber_encode_unsigned_integer (ucast (v :: u32))) \<le> 4" "ber_encode_unsigned_integer (ucast v) \<noteq> []"
proof -
  have "be_bytes 4 v \<noteq> []" by (metis length_be_bytes list.size(3) zero_neq_numeral)
  then have strip: "ber_encode_unsigned_integer (ucast v) = ber_strip_zeros (be_bytes 4 v)"
    by (simp add: ber_encode_unsigned_integer_def u32_octets strip_zeros_leading)
  show "length (ber_encode_unsigned_integer (ucast v)) \<le> 4" unfolding strip using ber_strip_zeros_length [of "be_bytes 4 v"] by simp
  show "ber_encode_unsigned_integer (ucast v) \<noteq> []" unfolding strip by (rule ber_strip_zeros_nonempty) fact
qed

lemma positive_content_length: "length (encode_positive_integer_content v) \<le> 5"
  using u32_content [of v] by (simp add: encode_positive_integer_content_def Let_def)

lemma read_positive_content: "tlv_value x = encode_positive_integer_content v \<Longrightarrow> mms_read_u32 f x = Inr v"
proof -
  assume x: "tlv_value x = encode_positive_integer_content v"
  have len: "length (encode_positive_integer_content v) \<le> 8" using positive_content_length [of v] by simp
  have "ber_read_unsigned_integer x = Some (be_value (encode_positive_integer_content v))"
    using len x by (simp add: ber_read_unsigned_integer_def)
  also have "be_value (encode_positive_integer_content v) = (be_value (ber_encode_unsigned_integer (ucast v)) :: u64)"
    using u32_content(2) [of v] by (simp add: encode_positive_integer_content_def Let_def)
  also have "Some (be_value (ber_encode_unsigned_integer (ucast v))) = Some (ucast v :: u64)"
    using ber_read_unsigned_encode [of "tlv_of Universal False 2 (ber_encode_unsigned_integer (ucast v))" "ucast v"] u32_content(1) [of v]
    unfolding ber_read_unsigned_integer_def by simp
  finally have "ber_read_unsigned_integer x = Some (ucast v)" .
  moreover have "(ucast v :: u64) \<le> 0xFFFFFFFF" using unat_less_exp [of v] by (simp add: word_le_nat_alt unat_ucast_widen)
  moreover have "(ucast (ucast v :: u64) :: u32) = v" by (simp add: ucast_ucast_narrow)
  ultimately show ?thesis by (simp add: mms_read_u32_def not_less)
qed

lemma ctx_encoding:
  assumes "ber_encode_tlv cls c t v = Inr enc" "t \<le> 1000000"
  shows "enc = tlv_encoding (tlv_of cls c t v)" "tlv_wf (tlv_of cls c t v)"
  using ber_encode_tlv_encoding [OF assms(1)] tlv_wf_of_encode [OF assms] by simp_all

lemma read_outer:
  assumes "ber_encode_tlv_octet tag body = Inr bs" "low_tag tag" "tag AND 0x20 \<noteq> 0"
  shows "read_outer_exact tag name bs =
    (if length bs > maximum_pdu_bytes then Inl (Mms_format_error (name @ '' length is outside the configured limit.'')) else Inr (octet_tlv tag body))"
    "ber_try_read_tlv bs 0 = Inr (length bs, octet_tlv tag body)" "bs \<noteq> []" "hd bs = tag"
proof -
  note e = octet_encoding [OF assms(1,2)]
  have single: "read_single_tlv tag d bs = Inr (octet_tlv tag body)" "bs \<noteq> []" for d using read_single_encoding [OF e(2)] e(1) by simp_all
  show read: "ber_try_read_tlv bs 0 = Inr (length bs, octet_tlv tag body)"
    using single(1) [of "[]"] by (auto simp: read_single_tlv_def split: sum.splits prod.splits if_splits)
  show "bs \<noteq> []" by (rule single(2))
  show "read_outer_exact tag name bs =
    (if length bs > maximum_pdu_bytes then Inl (Mms_format_error (name @ '' length is outside the configured limit.'')) else Inr (octet_tlv tag body))"
    using read single(2) assms(3) by (simp add: read_outer_exact_def)
  show "hd bs = tag" using assms(1) by (auto simp: ber_encode_tlv_octet_def bindE_Inr_iff)
qed

lemma mms_tags_low [simp]: "low_tag 0xA1" "low_tag 0xA8" "low_tag 0xA9"
  by (simp_all add: low_tag_def)

subsection \<open>Confirmed services\<close>

lemma decode_encode_confirmed:
  assumes "encode_confirmed_common tag c = Inr bs" "low_tag tag" "tag AND 0x20 \<noteq> 0"
  shows "decode_confirmed_common tag name bs =
    (if length bs > maximum_pdu_bytes then Inl (Mms_format_error (name @ '' length is outside the configured limit.'')) else Inr c)"
    "\<exists>body. ber_encode_tlv_octet tag body = Inr bs \<and> (\<exists>children. ber_read_children body = Inr children)"
proof -
  obtain a b body where e: "mc_invoke_id c \<le> maximum_invoke_id" "0 \<le> mc_service_tag c" "mc_service_tag c \<le> 1000000"
      "ber_encode_tlv_octet 0x02 (encode_positive_integer_content (mc_invoke_id c)) = Inr a"
      "ber_encode_tlv Context_specific (mc_service_constructed c) (mc_service_tag c) (mc_service_value c) = Inr b"
      "mms_concat [a, b] = Inr body" "ber_encode_tlv_octet tag body = Inr bs"
    using assms(1) by (auto simp: encode_confirmed_common_def bindE_Inr_iff split: if_splits)
  let ?a = "octet_tlv 0x02 (encode_positive_integer_content (mc_invoke_id c))"
  let ?b = "tlv_of Context_specific (mc_service_constructed c) (mc_service_tag c) (mc_service_value c)"
  have children: "ber_read_children body = Inr [?a, ?b]"
    using children2 [of ?a ?b] octet_encoding [OF e(4)] ctx_encoding [OF e(5,3)] mms_concat_Inr [OF e(6)] by simp
  have "is_invoke_tlv ?a" by (simp add: is_invoke_tlv_def ber_class_of_def)
  then have invoke: "decode_invoke_tlv ?a = Inr (mc_invoke_id c)" using e(1) read_positive_content [of ?a] by (simp add: decode_invoke_tlv_def)
  show "decode_confirmed_common tag name bs =
    (if length bs > maximum_pdu_bytes then Inl (Mms_format_error (name @ '' length is outside the configured limit.'')) else Inr c)"
    using read_outer(1) [OF e(7) assms(2,3)] children invoke e(2) by (simp add: decode_confirmed_common_def Let_def)
  show "\<exists>body. ber_encode_tlv_octet tag body = Inr bs \<and> (\<exists>children. ber_read_children body = Inr children)" using e(7) children by blast
qed

lemma error_children:
  assumes "encode_confirmed_error e = Inr bs"
  shows "\<exists>body. ber_encode_tlv_octet 0xA2 body = Inr bs \<and> (\<exists>invoke service. ber_read_children body = Inr [invoke, service] \<and>
      decode_invoke_tlv invoke = Inr (ce_invoke_id e) \<and> encoded_tag service = 0xA2 \<and> constructed service \<and>
      (\<exists>cls. ber_read_children (tlv_value service) = Inr [cls] \<and> encoded_tag cls = 0xA0 \<and> constructed cls \<and>
        ber_read_children (tlv_value cls) =
          Inr [tlv_of Context_specific False (ce_error_class_tag e) (encode_positive_integer_content (ce_error_value e))]))"
proof -
  obtain a b c d body where x: "ce_invoke_id e \<le> maximum_invoke_id" "0 \<le> ce_error_class_tag e" "ce_error_class_tag e \<le> 1000000"
      "ber_encode_tlv Context_specific False 0 (encode_positive_integer_content (ce_invoke_id e)) = Inr a"
      "ber_encode_tlv Context_specific False (ce_error_class_tag e) (encode_positive_integer_content (ce_error_value e)) = Inr b"
      "ber_encode_tlv_octet 0xA0 b = Inr c" "ber_encode_tlv_octet 0xA2 c = Inr d" "mms_concat [a, d] = Inr body" "ber_encode_tlv_octet 0xA2 body = Inr bs"
    using assms by (auto simp: encode_confirmed_error_def bindE_Inr_iff split: if_splits)
  let ?a = "tlv_of Context_specific False 0 (encode_positive_integer_content (ce_invoke_id e))"
  let ?b = "tlv_of Context_specific False (ce_error_class_tag e) (encode_positive_integer_content (ce_error_value e))"
  note a = ctx_encoding [OF x(4)] note b = ctx_encoding [OF x(5,3)] note c = octet_encoding [OF x(6)] note d = octet_encoding [OF x(7)]
  have body: "ber_read_children body = Inr [?a, octet_tlv 0xA2 c]"
    using children2 [of ?a "octet_tlv 0xA2 c"] a d mms_concat_Inr [OF x(8)] by simp
  have c': "ber_read_children c = Inr [octet_tlv 0xA0 b]" using children1 [OF c(2)] c(1) by simp
  have b': "ber_read_children b = Inr [?b]" using children1 [OF b(2)] b(1) by simp
  have "decode_invoke_tlv ?a = Inr (ce_invoke_id e)"
    using x(1) read_positive_content [of ?a] by (simp add: decode_invoke_tlv_def is_invoke_tlv_def)
  with x(9) body c' b' show ?thesis by (intro exI [of _ body]) simp
qed

lemma octet_size: "ber_encode_tlv_octet et v = Inr bs \<Longrightarrow> length bs \<le> length v + 6"
  using ber_strip_zeros_length [of "be_bytes 4 (of_nat (length v) :: u32)"]
  by (auto simp: ber_encode_tlv_octet_def ber_write_length_def bindE_Inr_iff Let_def split: if_splits)

lemma ctx_size: "ber_encode_tlv cls c t v = Inr bs \<Longrightarrow> t \<le> 1000000 \<Longrightarrow> length bs \<le> length v + 11"
  using ber_encode_tlv_Inr_bounds [of cls c t v bs] ber_encode_tlv_total [of t v cls c] by force

lemma decode_encode_error:
  assumes "encode_confirmed_error e = Inr bs"
  shows "decode_confirmed_error bs = Inr e" "length bs \<le> 200"
proof -
  show len: "length bs \<le> 200"
    using assms positive_content_length [of "ce_invoke_id e"] positive_content_length [of "ce_error_value e"]
    by (auto simp: encode_confirmed_error_def bindE_Inr_iff dest!: octet_size ctx_size mms_concat_Inr split: if_splits)
  obtain body invoke service cls where b: "ber_encode_tlv_octet 0xA2 body = Inr bs" "ber_read_children body = Inr [invoke, service]"
      "decode_invoke_tlv invoke = Inr (ce_invoke_id e)" "encoded_tag service = 0xA2" "constructed service"
      "ber_read_children (tlv_value service) = Inr [cls]" "encoded_tag cls = 0xA0" "constructed cls"
      "ber_read_children (tlv_value cls) = Inr [tlv_of Context_specific False (ce_error_class_tag e) (encode_positive_integer_content (ce_error_value e))]"
    using error_children [OF assms] by blast
  show "decode_confirmed_error bs = Inr e"
    using read_outer(1) [OF b(1)] b(2-) len by (simp add: decode_confirmed_error_def read_positive_content Let_def)
qed

subsection \<open>Initiate\<close>

lemma detail_reads_back:
  assumes "encode_detail d = Inr enc"
  shows "\<exists>v. enc = tlv_encoding (octet_tlv 0xA4 v) \<and> tlv_wf (octet_tlv 0xA4 v) \<and> decode_detail (octet_tlv 0xA4 v) = Inr d" "length enc \<le> 600"
proof -
  obtain a b c body where e: "bit_string_ok (id_parameter_support_options d)" "bit_string_ok (id_services_supported_calling d)"
      "ber_encode_tlv Context_specific False 0 (encode_positive_integer_content (id_version_number d)) = Inr a"
      "ber_encode_tlv Context_specific False 1 (id_parameter_support_options d) = Inr b"
      "ber_encode_tlv Context_specific False 2 (id_services_supported_calling d) = Inr c"
      "mms_concat [a, b, c] = Inr body" "ber_encode_tlv_octet 0xA4 body = Inr enc"
    using assms by (auto simp: encode_detail_def bindE_Inr_iff split: if_splits)
  let ?a = "tlv_of Context_specific False 0 (encode_positive_integer_content (id_version_number d))"
  let ?b = "tlv_of Context_specific False 1 (id_parameter_support_options d)" and ?c = "tlv_of Context_specific False 2 (id_services_supported_calling d)"
  have "ber_read_children body = Inr [?a, ?b, ?c]"
    using children3 [of ?a ?b ?c] ctx_encoding [OF e(3)] ctx_encoding [OF e(4)] ctx_encoding [OF e(5)] mms_concat_Inr [OF e(6)] by simp
  then have "decode_detail (octet_tlv 0xA4 body) = Inr d"
    using e(1,2) by (simp add: decode_detail_def parse_detail_field_def read_positive_content bit_string_ok_def)
  then show "\<exists>v. enc = tlv_encoding (octet_tlv 0xA4 v) \<and> tlv_wf (octet_tlv 0xA4 v) \<and> decode_detail (octet_tlv 0xA4 v) = Inr d"
    using octet_encoding [OF e(7)] by auto
  show "length enc \<le> 600"
    using octet_size [OF e(7)] mms_concat_Inr [OF e(6)] ctx_size [OF e(3)] ctx_size [OF e(4)] ctx_size [OF e(5)]
      positive_content_length [of "id_version_number d"] e(1,2) by (simp add: bit_string_ok_def)
qed

abbreviation numeric_tlv :: "int \<Rightarrow> u32 \<Rightarrow> ber_tlv" where
  "numeric_tlv k v \<equiv> tlv_of Context_specific False k (encode_positive_integer_content v)"

lemma decode_encode_initiate:
  assumes "encode_initiate_common tag i = Inr bs" "low_tag tag" "tag AND 0x20 \<noteq> 0"
  shows "decode_initiate_common tag name bs = Inr i"
proof -
  obtain p q r s dt where i: "i = \<lparr>mi_maximum_mms_pdu_size = p, mi_maximum_outstanding_calling = q, mi_maximum_outstanding_called = r,
      mi_data_structure_nesting_level = s, mi_detail = dt\<rparr>" by (cases i)
  then have vals: "initiate_values i = [p, q, r, s]" "mi_detail i = dt" by (simp_all add: initiate_values_def)
  obtain a b c d e body where x: "initiate_limits_ok [p, q, r, s]" "ber_encode_tlv Context_specific False 0 (encode_positive_integer_content p) = Inr a"
      "ber_encode_tlv Context_specific False 1 (encode_positive_integer_content q) = Inr b"
      "ber_encode_tlv Context_specific False 2 (encode_positive_integer_content r) = Inr c"
      "ber_encode_tlv Context_specific False 3 (encode_positive_integer_content s) = Inr d"
      "encode_detail dt = Inr e" "mms_concat [a, b, c, d, e] = Inr body" "ber_encode_tlv_octet tag body = Inr bs"
    using assms(1) by (auto simp: encode_initiate_common_def vals bindE_Inr_iff Let_def split: if_splits)
  obtain v where v: "e = tlv_encoding (octet_tlv 0xA4 v)" "tlv_wf (octet_tlv 0xA4 v)" "decode_detail (octet_tlv 0xA4 v) = Inr dt"
    using detail_reads_back(1) [OF x(6)] by blast
  note t = ctx_encoding [OF x(2)] ctx_encoding [OF x(3)] ctx_encoding [OF x(4)] ctx_encoding [OF x(5)]
  have "list_all tlv_wf [numeric_tlv 0 p, numeric_tlv 1 q, numeric_tlv 2 r, numeric_tlv 3 s, octet_tlv 0xA4 v]"
    using t v(2) by simp
  from ber_read_children_concat [OF this] have children: "ber_read_children body =
      Inr [numeric_tlv 0 p, numeric_tlv 1 q, numeric_tlv 2 r, numeric_tlv 3 s, octet_tlv 0xA4 v]"
    using t v(1) mms_concat_Inr [OF x(7)] by simp
  have "length bs \<le> maximum_pdu_bytes"
    using octet_size [OF x(8)] mms_concat_Inr [OF x(7)] ctx_size [OF x(2)] ctx_size [OF x(3)] ctx_size [OF x(4)] ctx_size [OF x(5)]
      detail_reads_back(2) [OF x(6)] positive_content_length [of p] positive_content_length [of q]
      positive_content_length [of r] positive_content_length [of s] by simp
  moreover have "replicate 4 None = [None, None, None, None :: u32 option]" by (simp add: numeral_eq_Suc)
  ultimately show ?thesis using read_outer(1) [OF x(8) assms(2,3)] children v(3) x(1)
    by (simp add: decode_initiate_common_def parse_initiate_field_def read_positive_content Let_def i ber_class_of_def)
qed

text \<open>C14.  MMS PDUs round trip: initiate requests and responses and confirmed errors that the encoder accepts
  are read back exactly; so are confirmed requests and responses, except that the encoder bounds the body
  and the decoder the whole PDU, so a PDU that exceeds one mebibyte by its header is written and refused.\<close>

theorem mms_pdu_round_trip:
  "(case encode_initiate_request i of Inl _ \<Rightarrow> True | Inr bs \<Rightarrow> decode_initiate_request bs = Inr i) \<and>
   (case encode_initiate_response i of Inl _ \<Rightarrow> True | Inr bs \<Rightarrow> decode_initiate_response bs = Inr i) \<and>
   (case encode_confirmed_error e of Inl _ \<Rightarrow> True | Inr bs \<Rightarrow> decode_confirmed_error bs = Inr e) \<and>
   (case encode_confirmed_request c of Inl _ \<Rightarrow> True
    | Inr bs \<Rightarrow> decode_confirmed_request bs = (if length bs > maximum_pdu_bytes
        then Inl (Mms_format_error ''MMS Confirmed-Request length is outside the configured limit.'') else Inr c)) \<and>
   (case encode_confirmed_response c of Inl _ \<Rightarrow> True
    | Inr bs \<Rightarrow> decode_confirmed_response bs = (if length bs > maximum_pdu_bytes
        then Inl (Mms_format_error ''MMS Confirmed-Response length is outside the configured limit.'') else Inr c))"
  by (simp add: encode_initiate_request_def decode_initiate_request_def encode_initiate_response_def decode_initiate_response_def
      encode_confirmed_request_def decode_confirmed_request_def encode_confirmed_response_def decode_confirmed_response_def
      decode_encode_initiate decode_encode_error decode_encode_confirmed(1) split: sum.splits)

subsection \<open>Envelopes through presentation data\<close>

definition response_envelope :: "mms_confirmed \<Rightarrow> bytes \<Rightarrow> mms_envelope" where
  "response_envelope c bs = \<lparr>me_kind = Confirmed_response, me_invoke_id = Some (mc_invoke_id c), me_service_tag = Some (mc_service_tag c),
     me_information_report = False, me_mms_payload = bs\<rparr>"

definition error_envelope :: "mms_confirmed_error \<Rightarrow> bytes \<Rightarrow> mms_envelope" where
  "error_envelope e bs = \<lparr>me_kind = Confirmed_error, me_invoke_id = Some (ce_invoke_id e), me_service_tag = None,
     me_information_report = False, me_mms_payload = bs\<rparr>"

lemma mms_payload_itself: "bs \<noteq> [] \<Longrightarrow> length bs \<le> maximum_pdu_bytes \<Longrightarrow> kind_for_tag (hd bs) \<noteq> Pdu_unknown \<Longrightarrow> extract_mms_payload bs = Inr bs"
  by (simp add: extract_mms_payload_def)

lemma envelope_response:
  assumes "encode_confirmed_response c = Inr bs" "length bs \<le> maximum_pdu_bytes"
  shows "decode_envelope bs = Inr (response_envelope c bs)" "hd bs = 0xA1" "bs \<noteq> []"
proof -
  have enc: "encode_confirmed_common 0xA1 c = Inr bs" using assms(1) by (simp add: encode_confirmed_response_def)
  obtain body children where b: "ber_encode_tlv_octet 0xA1 body = Inr bs" "ber_read_children body = Inr children"
    using decode_encode_confirmed(2) [OF enc] by auto
  have outer: "ber_try_read_tlv bs 0 = Inr (length bs, octet_tlv 0xA1 body)" "bs \<noteq> []" "hd bs = 0xA1" using read_outer(2-4) [OF b(1)] by simp_all
  then show "hd bs = 0xA1" "bs \<noteq> []" by simp_all
  have "extract_mms_payload bs = Inr bs" using outer assms(2) by (simp add: mms_payload_itself kind_for_tag_def)
  with outer b(2) decode_encode_confirmed(1) [OF enc, of "''MMS Confirmed-Response''"] assms(2) show "decode_envelope bs = Inr (response_envelope c bs)"
    by (simp add: decode_envelope_def kind_for_tag_def decode_confirmed_response_def response_envelope_def Let_def)
qed

lemma envelope_error:
  assumes "encode_confirmed_error e = Inr bs"
  shows "decode_envelope bs = Inr (error_envelope e bs)" "hd bs = 0xA2" "bs \<noteq> []"
proof -
  obtain body children where b: "ber_encode_tlv_octet 0xA2 body = Inr bs" "ber_read_children body = Inr children"
    using error_children [OF assms] by auto
  have outer: "ber_try_read_tlv bs 0 = Inr (length bs, octet_tlv 0xA2 body)" "bs \<noteq> []" "hd bs = 0xA2" using read_outer(2-4) [OF b(1)] by simp_all
  then show "hd bs = 0xA2" "bs \<noteq> []" by simp_all
  have "extract_mms_payload bs = Inr bs" using outer decode_encode_error(2) [OF assms] by (simp add: mms_payload_itself kind_for_tag_def)
  with outer b(2) decode_encode_error(1) [OF assms] show "decode_envelope bs = Inr (error_envelope e bs)"
    by (simp add: decode_envelope_def kind_for_tag_def error_envelope_def Let_def)
qed

text \<open>Wrapped in presentation data, a PDU has the envelope it has on its own.\<close>

lemma envelope_wrapped:
  assumes "wrap_p_data bs i = Inr out" "length out \<le> maximum_pdu_bytes" "kind_for_tag (hd bs) \<noteq> Pdu_unknown"
  shows "decode_envelope out = decode_envelope bs"
proof -
  have bs: "bs \<noteq> []" "length bs \<le> maximum_pdu_bytes" and enc: "encode_p_data bs i True = Inr out"
    using assms(1) by (auto simp: wrap_p_data_def split: if_splits)
  then obtain pdv where pdv: "encode_fully_encoded_data i bs = Inr pdv" "out = session_encode_data_transfer pdv True"
    by (auto simp: encode_p_data_def bindE_Inr_iff)
  then have first: "out \<noteq> []" "hd out = 0x01" "length pdv \<le> length out" by (simp_all add: session_encode_data_transfer_def)
  have "decode_p_data out = Inr \<lparr>pv_context_id = i, pv_single_asn1_type = bs\<rparr>" using p_data_decode [OF enc] pdv(1) first(3) assms(2) by auto
  then have "extract_mms_payload out = Inr bs" using first bs assms(2) by (simp add: extract_mms_payload_def kind_for_tag_def)
  moreover have "extract_mms_payload bs = Inr bs" using bs assms(3) by (rule mms_payload_itself)
  ultimately show ?thesis by (simp add: decode_envelope_def)
qed

end
