(* ===== verification/Invoke_Router.thy ===== *)
theory Invoke_Router
  imports Mms_Wire
begin

text \<open>
  The router of received PDUs keeps one queue of results per invoke identifier.  \<open>keyed_fifo\<close> is its
  contract: what a step accepts for a key is delivered for that key at most once and in order, and is
  lost only when the queues are cleared; \<open>fifo_run\<close> says so of a sequence of events.  The router's calls
  implement it.
\<close>

subsection \<open>Keyed queues\<close>

datatype ('k, 'v) fifo_event = Accepted 'k 'v | Delivered 'k 'v | Cleared | Neutral

fun accepted_for :: "'k \<Rightarrow> ('k, 'v) fifo_event list \<Rightarrow> 'v list" where
  "accepted_for k [] = []"
| "accepted_for k (Accepted j v # evs) = (if j = k then v # accepted_for k evs else accepted_for k evs)"
| "accepted_for k (_ # evs) = accepted_for k evs"

fun delivered_for :: "'k \<Rightarrow> ('k, 'v) fifo_event list \<Rightarrow> 'v list" where
  "delivered_for k [] = []"
| "delivered_for k (Delivered j v # evs) = (if j = k then v # delivered_for k evs else delivered_for k evs)"
| "delivered_for k (_ # evs) = delivered_for k evs"

text \<open>The queue of a key after some events; a delivery that is not the oldest queued value is impossible.\<close>

fun fifo_run :: "'k \<Rightarrow> 'v list \<Rightarrow> ('k, 'v) fifo_event list \<Rightarrow> 'v list option" where
  "fifo_run k q [] = Some q"
| "fifo_run k q (Accepted j v # evs) = fifo_run k (if j = k then q @ [v] else q) evs"
| "fifo_run k q (Delivered j v # evs) =
     (if j \<noteq> k then fifo_run k q evs else case q of [] \<Rightarrow> None | w # ws \<Rightarrow> if w = v then fifo_run k ws evs else None)"
| "fifo_run k q (Cleared # evs) = fifo_run k [] evs"
| "fifo_run k q (Neutral # evs) = fifo_run k q evs"

lemma fifo_run_append: "fifo_run k q (xs @ ys) = Option.bind (fifo_run k q xs) (\<lambda>p. fifo_run k p ys)"
  by (induction k q xs rule: fifo_run.induct) (auto split: list.splits)

lemma fifo_run_kept:
  "fifo_run k q evs = Some p \<Longrightarrow> Cleared \<notin> set evs \<Longrightarrow> q @ accepted_for k evs = delivered_for k evs @ p"
  by (induction k q evs rule: fifo_run.induct) (auto split: if_splits list.splits)

text \<open>A clear starts afresh: what counts is what was accepted after the last one.\<close>

lemma fifo_run_after_clear:
  "fifo_run k q (xs @ Cleared # ys) = Some p \<Longrightarrow> Cleared \<notin> set ys \<Longrightarrow> accepted_for k ys = delivered_for k ys @ p"
  using fifo_run_kept [of k "[]" ys p] by (auto simp: fifo_run_append split: bind_splits)

fun run_events :: "('a \<Rightarrow> 's \<Rightarrow> 'e \<times> 's) \<Rightarrow> 'a list \<Rightarrow> 's \<Rightarrow> 'e list \<times> 's" where
  "run_events step [] s = ([], s)"
| "run_events step (a # as) s = (let (e, s) = step a s; (es, s) = run_events step as s in (e # es, s))"

locale keyed_fifo =
  fixes inv :: "'s \<Rightarrow> bool" and pending :: "'s \<Rightarrow> 'k \<Rightarrow> 'v list" and step :: "'a \<Rightarrow> 's \<Rightarrow> ('k, 'v) fifo_event \<times> 's"
  assumes step_inv: "inv s \<Longrightarrow> inv (snd (step a s))"
    and step_accepted: "inv s \<Longrightarrow> fst (step a s) = Accepted k v \<Longrightarrow> pending (snd (step a s)) = (pending s)(k := pending s k @ [v])"
    and step_delivered: "inv s \<Longrightarrow> fst (step a s) = Delivered k v \<Longrightarrow>
      pending s k = v # pending (snd (step a s)) k \<and> (\<forall>j. j \<noteq> k \<longrightarrow> pending (snd (step a s)) j = pending s j)"
    and step_cleared: "inv s \<Longrightarrow> fst (step a s) = Cleared \<Longrightarrow> pending (snd (step a s)) k = []"
    and step_neutral: "inv s \<Longrightarrow> fst (step a s) = Neutral \<Longrightarrow> pending (snd (step a s)) = pending s"
begin

lemma run_fifo:
  "inv s \<Longrightarrow> inv (snd (run_events step as s)) \<and>
     fifo_run k (pending s k) (fst (run_events step as s)) = Some (pending (snd (run_events step as s)) k)"
proof (induction as arbitrary: s)
  case (Cons a as)
  obtain e t where step: "step a s = (e, t)" by (cases "step a s")
  have IH: "inv (snd (run_events step as t))"
      "fifo_run k (pending t k) (fst (run_events step as t)) = Some (pending (snd (run_events step as t)) k)"
    using Cons.IH step_inv [OF Cons.prems, of a] by (simp_all add: step)
  have run: "run_events step (a # as) s = (e # fst (run_events step as t), snd (run_events step as t))"
    by (simp add: step split: prod.splits)
  show ?case
  proof (cases e)
    case (Accepted j v)
    with step_accepted [OF Cons.prems, of a j v] IH show ?thesis by (auto simp: run step simp del: run_events.simps)
  next
    case (Delivered j v)
    with step_delivered [OF Cons.prems, of a j v] IH show ?thesis by (auto simp: run step simp del: run_events.simps)
  next
    case Cleared
    with step_cleared [OF Cons.prems, of a k] IH show ?thesis by (simp add: run step del: run_events.simps)
  next
    case Neutral
    with step_neutral [OF Cons.prems, of a] IH show ?thesis by (simp add: run step del: run_events.simps)
  qed
qed simp

end

subsection \<open>The router's invariant\<close>

definition router_pending :: "invoke_router \<Rightarrow> u32 \<Rightarrow> mms_envelope list" where
  "router_pending r k = (case ir_confirmed r k of None \<Rightarrow> [] | Some q \<Rightarrow> q)"

definition router_inv :: "invoke_router \<Rightarrow> bool" where
  "router_inv r \<longleftrightarrow> 0 < ir_maximum_results_per_invoke r \<and> 0 < ir_maximum_queued_results r \<and> finite (dom (ir_confirmed r)) \<and>
     ir_confirmed_count r = (\<Sum>k\<in>dom (ir_confirmed r). length (router_pending r k)) \<and> ir_confirmed_count r \<le> ir_maximum_queued_results r \<and>
     length (ir_unmatched r) \<le> ir_maximum_queued_results r \<and>
     (\<forall>k q. ir_confirmed r k = Some q \<longrightarrow> q \<noteq> [] \<and> length q \<le> ir_maximum_results_per_invoke r \<and>
        list_all (\<lambda>e. confirmed_result e \<and> me_invoke_id e = Some k) q)"

lemma router_init_inv: "router_init n m = Inr r \<Longrightarrow> router_inv r \<and> router_pending r k = []"
  by (auto simp: router_init_def router_inv_def router_pending_def split: if_splits)

lemma sum_length_update:
  assumes "finite D" "k \<notin> D \<Longrightarrow> p k = []"
  shows "(\<Sum>j\<in>insert k D. length ((p(k := q)) j)) + length (p k) = (\<Sum>j\<in>D. length (p j)) + length q"
    "(\<Sum>j\<in>D - {k}. length ((p(k := q)) j)) + length (p k) = (\<Sum>j\<in>D. length (p j))"
proof -
  have rest: "(\<Sum>j\<in>D - {k}. length ((p(k := q)) j)) = (\<Sum>j\<in>D - {k}. length (p j))" by (intro sum.cong) auto
  show delete: "(\<Sum>j\<in>D - {k}. length ((p(k := q)) j)) + length (p k) = (\<Sum>j\<in>D. length (p j))"
    unfolding rest using assms by (cases "k \<in> D") (simp_all add: sum.remove)
  show "(\<Sum>j\<in>insert k D. length ((p(k := q)) j)) + length (p k) = (\<Sum>j\<in>D. length (p j)) + length q"
    using delete assms(1) by (simp add: sum.insert_remove del: fun_upd_apply) simp
qed

lemma router_count_update:
  assumes "router_inv r"
  shows "(\<Sum>j\<in>insert k (dom (ir_confirmed r)). length (((router_pending r)(k := q)) j)) + length (router_pending r k) = ir_confirmed_count r + length q"
    "(\<Sum>j\<in>dom (ir_confirmed r) - {k}. length (((router_pending r)(k := q)) j)) + length (router_pending r k) = ir_confirmed_count r"
  using sum_length_update [of "dom (ir_confirmed r)" k "router_pending r" q] assms
  by (auto simp: router_inv_def router_pending_def domIff)

lemma router_queue:
  assumes "router_inv r"
  shows "length (router_pending r k) \<le> ir_maximum_results_per_invoke r" "list_all (\<lambda>e. confirmed_result e \<and> me_invoke_id e = Some k) (router_pending r k)"
    "ir_confirmed r k = (if router_pending r k = [] then None else Some (router_pending r k))"
  using assms by (auto simp: router_inv_def router_pending_def split: option.splits)

subsection \<open>Steps\<close>

datatype router_call = Route_call bytes | Dequeue_call u32 | Dequeue_unmatched_call | Clear_call

text \<open>The calls of the receive thread and of the clients; an exception of \<open>route\<close> queues nothing, and the
  association runtime clears the router when an association starts and ends.\<close>

definition router_step :: "router_call \<Rightarrow> invoke_router \<Rightarrow> (u32, mms_envelope) fifo_event \<times> invoke_router" where
  "router_step call r = (case call of
     Route_call payload \<Rightarrow>
       (case router_route payload r of
          (Inr (Queued_confirmed_result, e), r) \<Rightarrow> (Accepted (the (me_invoke_id e)) e, r)
        | (_, r) \<Rightarrow> (Neutral, r))
   | Dequeue_call k \<Rightarrow> (case router_try_dequeue k r of (Some e, r) \<Rightarrow> (Delivered k e, r) | (None, r) \<Rightarrow> (Neutral, r))
   | Dequeue_unmatched_call \<Rightarrow> (Neutral, snd (router_try_dequeue_unmatched r))
   | Clear_call \<Rightarrow> (Cleared, router_clear r))"

lemma route_envelope_cases:
  assumes "router_inv r"
  obtains (queued) k where "confirmed_result e" "me_invoke_id e = Some k" "ir_confirmed_count r < ir_maximum_queued_results r"
      "length (router_pending r k) < ir_maximum_results_per_invoke r"
      "route_envelope e r = (Inr (Queued_confirmed_result, e),
         r\<lparr>ir_confirmed := (ir_confirmed r)(k \<mapsto> router_pending r k @ [e]), ir_confirmed_count := ir_confirmed_count r + 1\<rparr>)"
    | (full) x where "route_envelope e r = (Inl x, r)"
    | (unmatched) "route_envelope e r = (Inr (Queued_unmatched, e),
         r\<lparr>ir_unmatched := (if length (ir_unmatched r) \<ge> ir_maximum_queued_results r then tl (ir_unmatched r) else ir_unmatched r) @ [e]\<rparr>)"
proof (cases "if confirmed_result e then me_invoke_id e else None")
  case None
  then show ?thesis by (intro unmatched) (simp add: route_envelope_def)
next
  case (Some k)
  then have k: "confirmed_result e" "me_invoke_id e = Some k" by (simp_all split: if_splits)
  consider "ir_confirmed_count r \<ge> ir_maximum_queued_results r"
    | "ir_confirmed_count r < ir_maximum_queued_results r" "length (router_pending r k) \<ge> ir_maximum_results_per_invoke r"
    | "ir_confirmed_count r < ir_maximum_queued_results r" "length (router_pending r k) < ir_maximum_results_per_invoke r"
    by linarith
  then show ?thesis
  proof cases
    case 1
    with k show ?thesis by (intro full) (simp add: route_envelope_def)
  next
    case 2
    moreover from this assms have "ir_confirmed r k = Some (router_pending r k)"
      by (auto simp: router_inv_def router_pending_def split: option.splits)
    moreover from this have "(ir_confirmed r)(k \<mapsto> router_pending r k) = ir_confirmed r" by (simp add: fun_upd_idem)
    ultimately show ?thesis using k by (intro full) (auto simp: route_envelope_def Let_def)
  next
    case 3
    with k show ?thesis by (intro queued [of k]) (simp_all add: route_envelope_def router_pending_def Let_def)
  qed
qed

lemma pending_update [simp]:
  "router_pending (r\<lparr>ir_confirmed := (ir_confirmed r)(k \<mapsto> q), ir_confirmed_count := c\<rparr>) = (router_pending r)(k := q)"
  "router_pending (r\<lparr>ir_confirmed := (ir_confirmed r)(k := if rest = [] then None else Some rest), ir_confirmed_count := c\<rparr>) =
     (router_pending r)(k := rest)"
  "router_pending (r\<lparr>ir_confirmed := (ir_confirmed r)(k := None), ir_confirmed_count := c\<rparr>) = (router_pending r)(k := [])"
  "router_pending (r\<lparr>ir_unmatched := us\<rparr>) = router_pending r"
  by (auto simp: router_pending_def)

lemma router_route_inv: "router_inv r \<Longrightarrow> router_inv (snd (route_envelope e r))"
proof -
  assume inv: "router_inv r"
  then show ?thesis
  proof (cases rule: route_envelope_cases [where e = e])
    case (queued k)
    note router_count_update(1) [OF inv, of k "router_pending r k @ [e]"] router_queue(2) [OF inv, of k]
    with inv queued show ?thesis by (simp add: router_inv_def)
  next
    case (full x)
    with inv show ?thesis by simp
  next
    case unmatched
    with inv show ?thesis by (auto simp: router_inv_def)
  qed
qed

lemma router_dequeue_pending:
  "router_try_dequeue k r = (case router_pending r k of
      [] \<Rightarrow> (None, r)
    | e # rest \<Rightarrow> (Some e, r\<lparr>ir_confirmed := (ir_confirmed r)(k := if rest = [] then None else Some rest),
        ir_confirmed_count := ir_confirmed_count r - 1\<rparr>))"
  by (auto simp: router_try_dequeue_def router_pending_def split: option.splits list.splits)

lemma router_dequeue_inv:
  assumes "router_inv r"
  shows "router_inv (snd (router_try_dequeue k r))"
proof (cases "router_pending r k")
  case Nil
  then show ?thesis using assms by (simp add: router_dequeue_pending)
next
  case (Cons e rest)
  note router_count_update [OF assms, of k rest] router_queue(1,2) [OF assms, of k]
  with assms Cons show ?thesis by (cases "rest = []") (auto simp: router_inv_def router_dequeue_pending)
qed

lemma router_clear_inv: "router_inv r \<Longrightarrow> router_inv (router_clear r) \<and> router_pending (router_clear r) k = []"
  by (auto simp: router_clear_def router_inv_def router_pending_def)

lemma router_step_shape:
  assumes "router_inv r"
  shows "router_inv (snd (router_step a r)) \<and>
    (case fst (router_step a r) of
       Accepted k v \<Rightarrow> router_pending (snd (router_step a r)) = (router_pending r)(k := router_pending r k @ [v])
     | Delivered k v \<Rightarrow> \<exists>rest. router_pending r k = v # rest \<and> router_pending (snd (router_step a r)) = (router_pending r)(k := rest)
     | Cleared \<Rightarrow> router_pending (snd (router_step a r)) = (\<lambda>_. [])
     | Neutral \<Rightarrow> router_pending (snd (router_step a r)) = router_pending r)"
proof (cases a)
  case (Route_call payload)
  show ?thesis
  proof (cases "decode_envelope payload")
    case (Inl x)
    then show ?thesis using Route_call assms by (simp add: router_step_def router_route_def)
  next
    case (Inr e)
    note inv = router_route_inv [OF assms, of e]
    from assms show ?thesis
      by (cases rule: route_envelope_cases [where e = e]) (use inv Inr Route_call in \<open>simp_all add: router_step_def router_route_def\<close>)
  qed
next
  case (Dequeue_call k)
  then show ?thesis using router_dequeue_inv [OF assms, of k] assms
    by (cases "router_pending r k") (simp_all add: router_step_def router_dequeue_pending)
next
  case Dequeue_unmatched_call
  then show ?thesis using assms
    by (auto simp: router_step_def router_try_dequeue_unmatched_def router_inv_def router_pending_def split: list.splits)
next
  case Clear_call
  then show ?thesis using router_clear_inv [OF assms] by (simp add: router_step_def fun_eq_iff)
qed

interpretation router: keyed_fifo router_inv router_pending router_step
proof
  fix r a k v assume inv: "router_inv r"
  note shape = router_step_shape [OF inv, of a]
  show "router_inv (snd (router_step a r))" using shape by simp
  show "router_pending (snd (router_step a r)) = (router_pending r)(k := router_pending r k @ [v])" if "fst (router_step a r) = Accepted k v"
    using shape that by simp
  show "router_pending r k = v # router_pending (snd (router_step a r)) k \<and> (\<forall>j. j \<noteq> k \<longrightarrow> router_pending (snd (router_step a r)) j = router_pending r j)"
    if "fst (router_step a r) = Delivered k v" using shape that by auto
  show "router_pending (snd (router_step a r)) k = []" if "fst (router_step a r) = Cleared" using shape that by simp
  show "router_pending (snd (router_step a r)) = router_pending r" if "fst (router_step a r) = Neutral" using shape that by simp
qed

text \<open>C12.  The router delivers results at most once, in order, and loses none but by \<open>clear\<close>: after any
  calls on a new router, clears included, the events seen are those of a queue for each invoke
  identifier, in which a delivery is always the oldest result accepted for that identifier and neither
  delivered nor cleared before, and what that queue holds at the end is what is pending.  So the results
  delivered since the last clear followed by those still pending are exactly the results accepted since
  then, in the order of their arrival.  What is pending is a confirmed result with that identifier, each
  queue is within the limit per invoke, and the counter is the number of pending results and within the
  total limit.\<close>

theorem router_exactly_once:
  assumes "router_init n m = Inr r" "run_events router_step calls r = (events, s)"
  shows "fifo_run k [] events = Some (router_pending s k) \<and>
    (\<forall>before since. events = before @ since \<and> (before = [] \<or> last before = Cleared) \<and> Cleared \<notin> set since \<longrightarrow>
       accepted_for k since = delivered_for k since @ router_pending s k) \<and>
    list_all (\<lambda>e. confirmed_result e \<and> me_invoke_id e = Some k) (router_pending s k) \<and>
    length (router_pending s k) \<le> ir_maximum_results_per_invoke s \<and>
    ir_confirmed_count s = (\<Sum>j\<in>dom (ir_confirmed s). length (router_pending s j)) \<and>
    ir_confirmed_count s \<le> ir_maximum_queued_results s \<and> length (ir_unmatched s) \<le> ir_maximum_queued_results s"
proof -
  note init = router_init_inv [OF assms(1), of k]
  from router.run_fifo [of r calls k] init assms(2) have inv: "router_inv s" and fifo: "fifo_run k [] events = Some (router_pending s k)"
    by simp_all
  have since: "accepted_for k since = delivered_for k since @ router_pending s k"
    if "events = before @ since \<and> (before = [] \<or> last before = Cleared) \<and> Cleared \<notin> set since" for before since
  proof (cases before rule: rev_cases)
    case Nil
    then show ?thesis using that fifo_run_kept [OF fifo] by simp
  next
    case (snoc xs x)
    then show ?thesis using that fifo fifo_run_after_clear [of k "[]" xs since] by simp
  qed
  from inv have "list_all (\<lambda>e. confirmed_result e \<and> me_invoke_id e = Some k) (router_pending s k) \<and>
      length (router_pending s k) \<le> ir_maximum_results_per_invoke s"
    by (auto simp: router_inv_def router_pending_def split: option.splits)
  moreover from since have "\<forall>before since. events = before @ since \<and> (before = [] \<or> last before = Cleared) \<and> Cleared \<notin> set since \<longrightarrow>
      accepted_for k since = delivered_for k since @ router_pending s k" by blast
  ultimately show ?thesis using inv fifo by (simp add: router_inv_def)
qed

text \<open>C13.  A confirmed response reaches the caller that waits for it: encoded, wrapped in presentation data
  and routed by a router with room, it joins the queue of its own invoke identifier and no other, it is
  the next result taken for that identifier when none was queued before it, and its payload decodes to
  the response that was sent.\<close>

theorem mms_result_reaches_caller:
  assumes "ir_confirmed_count r < ir_maximum_queued_results r" "length (router_pending r (mc_invoke_id c)) < ir_maximum_results_per_invoke r"
    "encode_confirmed_response c = Inr bs" "wrap_p_data bs i = Inr out" "length out \<le> maximum_pdu_bytes"
  shows "\<exists>r'. router_route out r = (Inr (Queued_confirmed_result, response_envelope c bs), r') \<and>
    router_pending r' = (router_pending r)(mc_invoke_id c := router_pending r (mc_invoke_id c) @ [response_envelope c bs]) \<and>
    decode_confirmed_response (me_mms_payload (response_envelope c bs)) = Inr c \<and>
    (router_pending r (mc_invoke_id c) = [] \<longrightarrow> fst (router_try_dequeue (mc_invoke_id c) r') = Some (response_envelope c bs))"
proof -
  have bs: "length bs \<le> maximum_pdu_bytes" using assms(4) by (auto simp: wrap_p_data_def split: if_splits)
  note env = envelope_response [OF assms(3) bs]
  have "decode_envelope out = Inr (response_envelope c bs)"
    using envelope_wrapped [OF assms(4,5)] env by (simp add: kind_for_tag_def)
  then have route: "router_route out r = route_envelope (response_envelope c bs) r" by (simp add: router_route_def)
  have e: "confirmed_result (response_envelope c bs)" "me_invoke_id (response_envelope c bs) = Some (mc_invoke_id c)"
      "me_mms_payload (response_envelope c bs) = bs" by (simp_all add: response_envelope_def confirmed_result_def)
  let ?r = "r\<lparr>ir_confirmed := (ir_confirmed r)(mc_invoke_id c \<mapsto> router_pending r (mc_invoke_id c) @ [response_envelope c bs]),
    ir_confirmed_count := ir_confirmed_count r + 1\<rparr>"
  have queued: "route_envelope (response_envelope c bs) r = (Inr (Queued_confirmed_result, response_envelope c bs), ?r)"
    using assms(1,2) e by (simp add: route_envelope_def router_pending_def Let_def)
  have "decode_confirmed_response bs = Inr c"
    using decode_encode_confirmed(1) [of "0xA1" c bs] assms(3) bs by (simp add: encode_confirmed_response_def decode_confirmed_response_def)
  then show ?thesis using route queued e(3) by (intro exI [of _ ?r]) (simp add: router_dequeue_pending)
qed

subsection \<open>A sample response\<close>

definition sample_response :: mms_confirmed where
  "sample_response = \<lparr>mc_invoke_id = 7, mc_service_tag = 4, mc_service_constructed = True, mc_service_value = []\<rparr>"

abbreviation sample_octets :: bytes where
  "sample_octets \<equiv> [0xA1, 5, 0x02, 1, 7, 0xA4, 0]"

lemma sample_encodes: "encode_confirmed_response sample_response = Inr sample_octets"
proof -
  have "ber_encode_unsigned_integer 7 = [7]" by code_simp
  moreover have "ber_encode_tlv Context_specific True 4 [] = Inr [0xA4, 0]" by code_simp
  ultimately show ?thesis
    by (simp add: sample_response_def encode_confirmed_response_def encode_confirmed_common_def encode_positive_integer_content_def
        octet_short mms_concat_def)
qed

lemma sample_envelope: "decode_envelope sample_octets = Inr (response_envelope sample_response sample_octets)"
  using envelope_response(1) [OF sample_encodes] by simp

lemma sample_envelope_fields [simp]:
  "confirmed_result (response_envelope sample_response bs)" "me_invoke_id (response_envelope sample_response bs) = Some 7"
  by (simp_all add: response_envelope_def confirmed_result_def sample_response_def)

theorem router_exactly_once_witness:
  "\<exists>r s e. router_init 4 2 = Inr r \<and>
     run_events router_step [Route_call sample_octets, Clear_call, Route_call sample_octets, Route_call sample_octets, Dequeue_call 7] r =
       ([Accepted 7 e, Cleared, Accepted 7 e, Accepted 7 e, Delivered 7 e], s) \<and>
     router_pending s 7 = [e] \<and> ir_confirmed_count s \<le> ir_maximum_queued_results s"
proof -
  let ?r = "\<lparr>ir_maximum_queued_results = 4, ir_maximum_results_per_invoke = 2, ir_confirmed = Map.empty, ir_unmatched = [], ir_confirmed_count = 0\<rparr>"
  let ?e = "response_envelope sample_response sample_octets"
  let ?calls = "[Route_call sample_octets, Clear_call, Route_call sample_octets, Route_call sample_octets, Dequeue_call 7]"
  let ?events = "[Accepted 7 ?e, Cleared, Accepted 7 ?e, Accepted 7 ?e, Delivered 7 ?e]"
  have init: "router_init 4 2 = Inr ?r" by (simp add: router_init_def)
  have "\<exists>s. run_events router_step ?calls ?r = (?events, s)"
    by (simp add: router_step_def router_route_def sample_envelope route_envelope_def router_try_dequeue_def router_clear_def Let_def)
  then obtain s where run: "run_events router_step ?calls ?r = (?events, s)" by blast
  from router_exactly_once [OF init run, of 7] init run show ?thesis
    by (intro exI [of _ ?r] exI [of _ s] exI [of _ ?e]) simp
qed

theorem mms_result_reaches_caller_witness:
  "\<exists>r out r'. router_init 4 2 = Inr r \<and> wrap_p_data sample_octets 3 = Inr out \<and>
     router_route out r = (Inr (Queued_confirmed_result, response_envelope sample_response sample_octets), r') \<and>
     fst (router_try_dequeue 7 r') = Some (response_envelope sample_response sample_octets)"
proof -
  let ?r = "\<lparr>ir_maximum_queued_results = 4, ir_maximum_results_per_invoke = 2, ir_confirmed = Map.empty, ir_unmatched = [], ir_confirmed_count = 0\<rparr>"
  have init: "router_init 4 2 = Inr ?r" by (simp add: router_init_def)
  have id: "mc_invoke_id sample_response = 7" by (simp add: sample_response_def)
  have "\<exists>out. wrap_p_data sample_octets 3 = Inr out \<and> length out \<le> maximum_pdu_bytes"
    by (simp add: wrap_p_data_def encode_p_data_def encode_fully_encoded_data_def encode_integer_def octet_short integers_short session_encode_data_transfer_def)
  then obtain out where out: "wrap_p_data sample_octets 3 = Inr out" "length out \<le> maximum_pdu_bytes" by blast
  have room: "ir_confirmed_count ?r < ir_maximum_queued_results ?r" "length (router_pending ?r (mc_invoke_id sample_response)) < ir_maximum_results_per_invoke ?r"
    and none: "router_pending ?r 7 = []"
    by (simp_all add: router_pending_def)
  from mms_result_reaches_caller [OF room sample_encodes out] init out none show ?thesis unfolding id by blast
qed

end
