(* ===== verification/Ptp.thy ===== *)
theory Ptp
  imports Ethernet
begin

text \<open>
  Precision time protocol messages (\<open>src/time_sync/ptp.cpp\<close>): timestamps, the builders of the event and
  general messages, their Ethernet framing and the parsers.  Message types, clock accuracy and time
  source are the codes of their enumerations (the parser casts any code); the signed correction, UTC
  offset and message interval are words of their width.
\<close>

record ptp_port_identity =
  pi_clock_identity :: bytes  \<comment> \<open>\<open>std::array<std::uint8_t, 8>\<close>\<close>
  pi_port_number :: u16

definition identity_ok :: "ptp_port_identity \<Rightarrow> bool" where
  "identity_ok i \<longleftrightarrow> length (pi_clock_identity i) = 8"

record ptp_timestamp =
  pt_seconds :: u64
  pt_nanoseconds :: u32

record ptp_header =
  ph_transport_specific :: u8
  ph_message_type :: u8
  ph_version :: u8
  ph_message_length :: u16
  ph_domain_number :: u8
  ph_flags :: u16
  ph_correction_field :: u64
  ph_source_port_identity :: ptp_port_identity
  ph_sequence_id :: u16
  ph_control_field :: u8
  ph_log_message_interval :: u8

definition is_two_step :: "ptp_header \<Rightarrow> bool" where
  "is_two_step h \<longleftrightarrow> ph_flags h AND 0x0200 \<noteq> 0"

record ptp_announce =
  pa_origin_timestamp :: ptp_timestamp
  pa_current_utc_offset :: u16
  pa_priority1 :: u8
  pa_clock_class :: u8
  pa_clock_accuracy :: u8
  pa_offset_scaled_log_variance :: u16
  pa_priority2 :: u8
  pa_grandmaster_identity :: bytes
  pa_steps_removed :: u16
  pa_time_source :: u8

record ptp_frame =
  pf_header :: ptp_header
  pf_timestamp :: "ptp_timestamp option"
  pf_announce :: "ptp_announce option"
  pf_message :: bytes
  pf_body :: bytes
  pf_vlan_id :: "u16 option"
  pf_outer_vlan_id :: "u16 option"
  pf_peer_delay_multicast :: bool

record ptp_time_properties =
  tp_current_utc_offset_valid :: bool
  tp_ptp_timescale :: bool
  tp_time_traceable :: bool
  tp_frequency_traceable :: bool

definition time_properties_flags :: "ptp_time_properties \<Rightarrow> u16" where
  "time_properties_flags t = (if tp_current_utc_offset_valid t then 0x0004 else 0) OR (if tp_ptp_timescale t then 0x0008 else 0) OR
     (if tp_time_traceable t then 0x0010 else 0) OR (if tp_frequency_traceable t then 0x0020 else 0)"

record ptp_options =
  po_transport_specific :: u8
  po_domain_number :: u8
  po_source_port_identity :: ptp_port_identity
  po_sequence_id :: u16
  po_correction_field :: u64
  po_log_message_interval :: u8
  po_two_step :: bool
  po_time_properties :: ptp_time_properties
  po_priority1 :: u8
  po_priority2 :: u8
  po_clock_class :: u8
  po_clock_accuracy :: u8
  po_offset_scaled_log_variance :: u16
  po_grandmaster_identity :: bytes
  po_steps_removed :: u16
  po_time_source :: u8
  po_timestamp :: ptp_timestamp

abbreviation (input) "ptp_sync \<equiv> 0x0 :: u8"
abbreviation (input) "ptp_pdelay_req \<equiv> 0x2 :: u8"
abbreviation (input) "ptp_pdelay_resp \<equiv> 0x3 :: u8"
abbreviation (input) "ptp_follow_up \<equiv> 0x8 :: u8"
abbreviation (input) "ptp_pdelay_resp_follow_up \<equiv> 0xA :: u8"
abbreviation (input) "ptp_announce_type \<equiv> 0xB :: u8"

subsection \<open>Timestamps\<close>

definition timestamp_try_read :: "bytes \<Rightarrow> ptp_timestamp option" where
  "timestamp_try_read src =
     (if length src < 10 then None
      else let nanos = read_be_u32 src 6 in
        if nanos \<ge> 1000000000 then None
        else Some \<lparr>pt_seconds = push_bit 32 (ucast (read_be_u16 src 0)) OR ucast (read_be_u32 src 2), pt_nanoseconds = nanos\<rparr>)"

text \<open>The ten octets, or \<open>None\<close> when the value does not fit the wire; every caller passes ten octets of room.\<close>

definition timestamp_write :: "ptp_timestamp \<Rightarrow> bytes option" where
  "timestamp_write t =
     (if pt_seconds t > 0x0000FFFFFFFFFFFF \<or> pt_nanoseconds t \<ge> 1000000000 then None
      else Some (write_be_u16 (ucast (drop_bit 32 (pt_seconds t))) @ be_bytes 4 (ucast (pt_seconds t AND 0xFFFFFFFF) :: u32) @
                 be_bytes 4 (pt_nanoseconds t)))"

text \<open>The clock counts nanoseconds since the epoch.\<close>

definition from_system_time :: "int \<Rightarrow> ptp_timestamp" where
  "from_system_time elapsed =
     (if elapsed \<le> 0 then \<lparr>pt_seconds = 0, pt_nanoseconds = 0\<rparr>
      else \<lparr>pt_seconds = word_of_int (elapsed div 1000000000), pt_nanoseconds = word_of_int (elapsed mod 1000000000)\<rparr>)"

subsection \<open>Building messages\<close>

definition build_message :: "u8 \<Rightarrow> ptp_options \<Rightarrow> u8 \<Rightarrow> bytes \<Rightarrow> bytes" where
  "build_message message_type opts control_field body =
     (if length body > 65535 - 34 then []
      else [push_bit 4 (po_transport_specific opts) OR (message_type AND 0x0F), 2] @ write_be_u16 (of_nat (34 + length body)) @
           [po_domain_number opts, 0] @
           write_be_u16 ((if po_two_step opts then 0x0200 else 0) OR time_properties_flags (po_time_properties opts)) @
           be_bytes 8 (po_correction_field opts) @ [0, 0, 0, 0] @ pi_clock_identity (po_source_port_identity opts) @
           write_be_u16 (pi_port_number (po_source_port_identity opts)) @ write_be_u16 (po_sequence_id opts) @
           [control_field, po_log_message_interval opts] @ body)"

definition build_timestamp_message :: "u8 \<Rightarrow> ptp_options \<Rightarrow> u8 \<Rightarrow> bytes" where
  "build_timestamp_message message_type opts control_field =
     (case timestamp_write (po_timestamp opts) of None \<Rightarrow> [] | Some body \<Rightarrow> build_message message_type opts control_field body)"

definition build_sync :: "ptp_options \<Rightarrow> bytes" where
  "build_sync opts = build_timestamp_message ptp_sync opts 0x00"

definition build_follow_up :: "ptp_options \<Rightarrow> bytes" where
  "build_follow_up opts = build_timestamp_message ptp_follow_up opts 0x02"

definition build_pdelay_req :: "ptp_options \<Rightarrow> bytes" where
  "build_pdelay_req opts = build_timestamp_message ptp_pdelay_req opts 0x05"

definition build_pdelay_resp :: "ptp_options \<Rightarrow> ptp_port_identity \<Rightarrow> bytes" where
  "build_pdelay_resp opts requesting =
     (case timestamp_write (po_timestamp opts) of None \<Rightarrow> []
      | Some t \<Rightarrow> build_message ptp_pdelay_resp opts 0x05 (t @ pi_clock_identity requesting @ write_be_u16 (pi_port_number requesting)))"

definition build_pdelay_resp_follow_up :: "ptp_options \<Rightarrow> ptp_port_identity \<Rightarrow> bytes" where
  "build_pdelay_resp_follow_up opts requesting =
     (case timestamp_write (po_timestamp opts) of None \<Rightarrow> []
      | Some t \<Rightarrow> build_message ptp_pdelay_resp_follow_up opts 0x05 (t @ pi_clock_identity requesting @ write_be_u16 (pi_port_number requesting)))"

definition is_zero_identity :: "bytes \<Rightarrow> bool" where
  "is_zero_identity = list_all (\<lambda>b. b = 0)"

definition build_announce :: "ptp_options \<Rightarrow> u16 \<Rightarrow> bytes" where
  "build_announce opts current_utc_offset =
     (case timestamp_write (po_timestamp opts) of None \<Rightarrow> []
      | Some t \<Rightarrow>
          let grandmaster = (if is_zero_identity (po_grandmaster_identity opts)
                then pi_clock_identity (po_source_port_identity opts) else po_grandmaster_identity opts)
          in build_message ptp_announce_type opts 0x05
            (t @ write_be_u16 current_utc_offset @ [0, po_priority1 opts, po_clock_class opts, po_clock_accuracy opts] @
             write_be_u16 (po_offset_scaled_log_variance opts) @ [po_priority2 opts] @ grandmaster @ write_be_u16 (po_steps_removed opts) @
             [po_time_source opts]))"

text \<open>The encoder cannot throw: priority and identifier are checked before.\<close>

definition build_ethernet_frame :: "mac_address \<Rightarrow> mac_address \<Rightarrow> bytes \<Rightarrow> u16 option \<Rightarrow> u8 \<Rightarrow> bytes result" where
  "build_ethernet_frame dst src message vid prio =
     (if \<not> is_valid_vlan_priority prio \<or> (case vid of None \<Rightarrow> False | Some v \<Rightarrow> \<not> is_valid_vlan_id v) then Inr []
      else ethernet_encode \<lparr>destination = dst, source = src, ether_type = 0x88F7,
             vlan = map_option (\<lambda>v. \<lparr>priority_code_point = prio, drop_eligible = False, vlan_id = v\<rparr>) vid, payload = message\<rparr>)"

subsection \<open>Parsing\<close>

definition parse_header :: "bytes \<Rightarrow> ptp_header" where
  "parse_header m = \<lparr>ph_transport_specific = drop_bit 4 (m ! 0), ph_message_type = m ! 0 AND 0x0F, ph_version = m ! 1 AND 0x0F,
     ph_message_length = read_be_u16 m 2, ph_domain_number = m ! 4, ph_flags = read_be_u16 m 6,
     ph_correction_field = be_value (take 8 (drop 8 m)),
     ph_source_port_identity = \<lparr>pi_clock_identity = take 8 (drop 20 m), pi_port_number = read_be_u16 m 28\<rparr>,
     ph_sequence_id = read_be_u16 m 30, ph_control_field = m ! 32, ph_log_message_interval = m ! 33\<rparr>"

definition parse_announce :: "bytes \<Rightarrow> ptp_timestamp \<Rightarrow> ptp_announce" where
  "parse_announce body t = \<lparr>pa_origin_timestamp = t, pa_current_utc_offset = read_be_u16 body 10, pa_priority1 = body ! 13,
     pa_clock_class = body ! 14, pa_clock_accuracy = body ! 15, pa_offset_scaled_log_variance = read_be_u16 body 16,
     pa_priority2 = body ! 18, pa_grandmaster_identity = take 8 (drop 19 body), pa_steps_removed = read_be_u16 body 27,
     pa_time_source = body ! 29\<rparr>"

definition try_parse_message :: "bytes \<Rightarrow> ptp_frame option" where
  "try_parse_message m =
     (if length m < 34 then None
      else if m ! 1 AND 0x0F \<noteq> 2 then None
      else let message_length = unat (read_be_u16 m 2) in
        if message_length < 34 \<or> length m < message_length then None
        else let header = parse_header m; body = drop 34 (take message_length m);
                 frame = \<lparr>pf_header = header, pf_timestamp = None, pf_announce = None, pf_message = take message_length m, pf_body = body,
                   pf_vlan_id = None, pf_outer_vlan_id = None, pf_peer_delay_multicast = False\<rparr>;
                 frame = (if (ph_message_type header = ptp_sync \<or> ph_message_type header = ptp_follow_up) \<and> length body \<ge> 10
                          then frame\<lparr>pf_timestamp := timestamp_try_read (take 10 body)\<rparr> else frame) in
          if ph_message_type header = ptp_announce_type \<and> length body \<ge> 30 then
            (case timestamp_try_read (take 10 body) of
               None \<Rightarrow> None
             | Some t \<Rightarrow> Some (frame\<lparr>pf_timestamp := Some t, pf_announce := Some (parse_announce body t)\<rparr>))
          else Some frame)"

definition vlan_id_from_tci :: "u16 \<Rightarrow> u16" where
  "vlan_id_from_tci tci = tci AND 0x0FFF"

text \<open>One optional tag at the offset: its identifier, the next ether type and the offset behind; \<open>None\<close> when
  the frame ends inside the tag.\<close>

definition parse_tag :: "u16 \<Rightarrow> bytes \<Rightarrow> u16 \<times> nat \<Rightarrow> (u16 option \<times> u16 \<times> nat) option" where
  "parse_tag tag_type bs = (\<lambda>(type, off).
     if type = tag_type then
       (if length bs < off + 4 then None
        else Some (Some (vlan_id_from_tci (read_be_u16 bs off)), read_be_u16 bs (off + 2), off + 4))
     else Some (None, type, off))"

definition try_parse_ethernet_frame :: "bytes \<Rightarrow> ptp_frame option" where
  "try_parse_ethernet_frame bs =
     (if length bs < 14 then None
      else case parse_tag 0x88A8 bs (read_be_u16 bs 12, 14) of
          None \<Rightarrow> None
        | Some (outer_vlan, tagged) \<Rightarrow>
            (case parse_tag 0x8100 bs tagged of
               None \<Rightarrow> None
             | Some (inner_vlan, type, off) \<Rightarrow>
                 if type \<noteq> 0x88F7 \<or> length bs < off + 34 then None
                 else case try_parse_message (drop off bs) of
                     None \<Rightarrow> None
                   | Some f \<Rightarrow> Some (f\<lparr>pf_outer_vlan_id := outer_vlan, pf_vlan_id := inner_vlan,
                       pf_peer_delay_multicast := (take 6 bs = [0x01, 0x80, 0xC2, 0x00, 0x00, 0x0E])\<rparr>)))"

end
