(* ===== verification/Ptp_Wire.thy ===== *)
theory Ptp_Wire
  imports Ptp
begin

text \<open>
  PTP messages on the wire: timestamps and every message the stack builds are read back from the frame,
  with and without a VLAN tag and with padding behind the message.
\<close>

subsection \<open>Fields\<close>

lemma read_be_u16_drop: "Suc i < length bs \<Longrightarrow> read_be_u16 bs i = read_be_u16 (drop i bs) 0"
  by (simp add: read_be_u16_def)

lemma read_be_u32_be_bytes [simp]: "read_be_u32 (be_bytes 4 (v :: u32) @ rest) 0 = v"
  by (simp add: read_be_u32_eq_be_value be_value_be_bytes)

lemma read_be_u32_drop: "i + 4 \<le> length bs \<Longrightarrow> read_be_u32 bs i = read_be_u32 (drop i bs) 0"
  by (simp add: read_be_u32_def)

lemma seconds_halves:
  assumes "(s :: u64) \<le> 0x0000FFFFFFFFFFFF"
  shows "push_bit 32 (ucast (ucast (drop_bit 32 s) :: u16)) OR ucast (ucast (s AND 0xFFFFFFFF) :: u32) = s"
proof (rule bit_word_eqI)
  fix k assume "k < LENGTH(64)"
  have "s = take_bit 48 s"
  proof -
    have "unat s < 2 ^ 48" using assms by (simp add: word_le_nat_alt)
    then show ?thesis by (metis take_bit_nat_eq_self unsigned_take_bit_eq unsigned_word_eqI)
  qed
  then have high: "bit s k \<Longrightarrow> k < 48" by (metis bit_take_bit_iff)
  have low: "(0xFFFFFFFF :: u64) = mask 32" by (simp add: mask_eq_exp_minus_1)
  show "bit (push_bit 32 (ucast (ucast (drop_bit 32 s) :: u16)) OR ucast (ucast (s AND 0xFFFFFFFF) :: u32) :: u64) k = bit s k"
    using \<open>k < LENGTH(64)\<close> high unfolding low by (auto simp: bit_simps)
qed

lemma timestamp_write_length: "timestamp_write t = Some bs \<Longrightarrow> length bs = 10"
  by (auto simp: timestamp_write_def split: if_splits)

lemma timestamp_read_write:
  assumes "timestamp_write t = Some bs"
  shows "timestamp_try_read (bs @ rest) = Some t"
proof -
  from assms have bs: "bs = write_be_u16 (ucast (drop_bit 32 (pt_seconds t))) @ be_bytes 4 (ucast (pt_seconds t AND 0xFFFFFFFF) :: u32) @
      be_bytes 4 (pt_nanoseconds t)"
    and ok: "pt_seconds t \<le> 0x0000FFFFFFFFFFFF" "\<not> pt_nanoseconds t \<ge> 1000000000"
    by (auto simp: timestamp_write_def split: if_splits)
  have "read_be_u32 (bs @ rest) 2 = ucast (pt_seconds t AND 0xFFFFFFFF)" "read_be_u32 (bs @ rest) 6 = pt_nanoseconds t"
    by (subst read_be_u32_drop; simp add: bs)+
  moreover have "read_be_u16 (bs @ rest) 0 = ucast (drop_bit 32 (pt_seconds t))" by (simp add: bs)
  ultimately show ?thesis
    using ok(2) seconds_halves [OF ok(1)] timestamp_write_length [OF assms] by (simp add: timestamp_try_read_def Let_def)
qed

subsection \<open>Messages\<close>

definition sent_header :: "u8 \<Rightarrow> ptp_options \<Rightarrow> u8 \<Rightarrow> bytes \<Rightarrow> ptp_header" where
  "sent_header message_type opts control_field body = \<lparr>ph_transport_specific = take_bit 4 (po_transport_specific opts),
     ph_message_type = message_type, ph_version = 2, ph_message_length = of_nat (34 + length body),
     ph_domain_number = po_domain_number opts,
     ph_flags = (if po_two_step opts then 0x0200 else 0) OR time_properties_flags (po_time_properties opts),
     ph_correction_field = po_correction_field opts, ph_source_port_identity = po_source_port_identity opts,
     ph_sequence_id = po_sequence_id opts, ph_control_field = control_field, ph_log_message_interval = po_log_message_interval opts\<rparr>"

lemma high_nibble [simp]: "drop_bit 4 (push_bit 4 (ts :: u8)) = take_bit 4 ts"
  by (rule bit_word_eqI) (auto simp: bit_simps)

lemma first_octet:
  assumes "mt < 16"
  shows "drop_bit 4 (push_bit 4 (ts :: u8) OR (mt AND 0x0F)) = take_bit 4 ts" "(push_bit 4 ts OR (mt AND 0x0F)) AND 0x0F = mt"
proof -
  have low: "(0x0F :: u8) = mask 4" by (simp add: mask_eq_exp_minus_1)
  have "mt = take_bit 4 mt" using assms by (simp add: take_bit_eq_mod word_mod_def word_less_def unsigned_of_int)
  then have mt: "bit mt k \<Longrightarrow> k < 4" for k by (metis bit_take_bit_iff)
  show "drop_bit 4 (push_bit 4 ts OR (mt AND 0x0F)) = take_bit 4 ts"
    unfolding low by (rule bit_word_eqI) (auto simp: bit_simps)
  show "(push_bit 4 ts OR (mt AND 0x0F)) AND 0x0F = mt"
    unfolding low by (rule bit_word_eqI) (auto simp: bit_simps dest: mt)
qed

lemma built_message:
  assumes "identity_ok (po_source_port_identity opts)" "length body \<le> 65501" "mt < 16"
  shows "length (build_message mt opts cf body) = 34 + length body" "drop 34 (build_message mt opts cf body) = body"
    "parse_header (build_message mt opts cf body @ rest) = sent_header mt opts cf body"
    "build_message mt opts cf body ! 1 = 2"
proof -
  let ?m = "build_message mt opts cf body"
  have len: "length (pi_clock_identity (po_source_port_identity opts)) = 8" using assms(1) by (simp add: identity_ok_def)
  note m = build_message_def [of mt opts cf body]
  show n: "length ?m = 34 + length body" using assms(2) by (simp add: m len)
  show "drop 34 ?m = body" using assms(2) by (simp add: m len)
  show "?m ! 1 = 2" using assms(2) by (simp add: m)
  have "read_be_u16 (?m @ rest) 2 = of_nat (34 + length body)" "read_be_u16 (?m @ rest) 6 = ph_flags (sent_header mt opts cf body)"
    "read_be_u16 (?m @ rest) 28 = pi_port_number (po_source_port_identity opts)" "read_be_u16 (?m @ rest) 30 = po_sequence_id opts"
    using assms(2) by (subst read_be_u16_drop; simp add: m len sent_header_def)+
  moreover have "be_value (take 8 (drop 8 (?m @ rest))) = po_correction_field opts"
    using assms(2) be_value_be_bytes [of 8 "po_correction_field opts", where 'b = 64] by (simp add: m len)
  moreover have "take 8 (drop 20 (?m @ rest)) = pi_clock_identity (po_source_port_identity opts)" using assms(2) by (simp add: m len)
  moreover have "(?m @ rest) ! 0 = push_bit 4 (po_transport_specific opts) OR (mt AND 0x0F)" "(?m @ rest) ! 1 = 2"
    "(?m @ rest) ! 4 = po_domain_number opts" "(?m @ rest) ! 32 = cf" "(?m @ rest) ! 33 = po_log_message_interval opts"
    using assms(2) by (simp_all add: m len nth_append)
  ultimately show "parse_header (?m @ rest) = sent_header mt opts cf body"
    by (simp add: parse_header_def sent_header_def first_octet [OF assms(3)])
qed

text \<open>The messages the stack builds, with what they carry beyond the options.\<close>

datatype ptp_send = Send_sync | Send_follow_up | Send_pdelay_req | Send_pdelay_resp ptp_port_identity
  | Send_pdelay_resp_follow_up ptp_port_identity | Send_announce u16

fun ptp_build :: "ptp_send \<Rightarrow> ptp_options \<Rightarrow> bytes" where
  "ptp_build Send_sync opts = build_sync opts"
| "ptp_build Send_follow_up opts = build_follow_up opts"
| "ptp_build Send_pdelay_req opts = build_pdelay_req opts"
| "ptp_build (Send_pdelay_resp r) opts = build_pdelay_resp opts r"
| "ptp_build (Send_pdelay_resp_follow_up r) opts = build_pdelay_resp_follow_up opts r"
| "ptp_build (Send_announce utc_offset) opts = build_announce opts utc_offset"

fun send_type :: "ptp_send \<Rightarrow> u8" where
  "send_type Send_sync = 0" | "send_type Send_follow_up = 8" | "send_type Send_pdelay_req = 2"
| "send_type (Send_pdelay_resp _) = 3" | "send_type (Send_pdelay_resp_follow_up _) = 10" | "send_type (Send_announce _) = 11"

fun send_control :: "ptp_send \<Rightarrow> u8" where
  "send_control Send_sync = 0" | "send_control Send_follow_up = 2" | "send_control _ = 5"

definition grandmaster :: "ptp_options \<Rightarrow> bytes" where
  "grandmaster opts = (if is_zero_identity (po_grandmaster_identity opts) then pi_clock_identity (po_source_port_identity opts)
     else po_grandmaster_identity opts)"

fun send_body :: "ptp_send \<Rightarrow> ptp_options \<Rightarrow> bytes \<Rightarrow> bytes" where
  "send_body (Send_pdelay_resp r) opts t = t @ pi_clock_identity r @ write_be_u16 (pi_port_number r)"
| "send_body (Send_pdelay_resp_follow_up r) opts t = t @ pi_clock_identity r @ write_be_u16 (pi_port_number r)"
| "send_body (Send_announce utc_offset) opts t = t @ write_be_u16 utc_offset @
     [0, po_priority1 opts, po_clock_class opts, po_clock_accuracy opts] @ write_be_u16 (po_offset_scaled_log_variance opts) @
     [po_priority2 opts] @ grandmaster opts @ write_be_u16 (po_steps_removed opts) @ [po_time_source opts]"
| "send_body _ opts t = t"

fun send_ok :: "ptp_send \<Rightarrow> bool" where
  "send_ok (Send_pdelay_resp r) = identity_ok r"
| "send_ok (Send_pdelay_resp_follow_up r) = identity_ok r"
| "send_ok _ = True"

definition options_ok :: "ptp_options \<Rightarrow> bool" where
  "options_ok opts \<longleftrightarrow> identity_ok (po_source_port_identity opts) \<and> length (po_grandmaster_identity opts) = 8"

definition sent_announce :: "ptp_options \<Rightarrow> u16 \<Rightarrow> ptp_announce" where
  "sent_announce opts utc_offset = \<lparr>pa_origin_timestamp = po_timestamp opts, pa_current_utc_offset = utc_offset,
     pa_priority1 = po_priority1 opts, pa_clock_class = po_clock_class opts, pa_clock_accuracy = po_clock_accuracy opts,
     pa_offset_scaled_log_variance = po_offset_scaled_log_variance opts, pa_priority2 = po_priority2 opts,
     pa_grandmaster_identity = grandmaster opts, pa_steps_removed = po_steps_removed opts, pa_time_source = po_time_source opts\<rparr>"

fun sent_times :: "ptp_send \<Rightarrow> ptp_options \<Rightarrow> ptp_timestamp option \<times> ptp_announce option" where
  "sent_times Send_sync opts = (Some (po_timestamp opts), None)"
| "sent_times Send_follow_up opts = (Some (po_timestamp opts), None)"
| "sent_times (Send_announce utc_offset) opts = (Some (po_timestamp opts), Some (sent_announce opts utc_offset))"
| "sent_times _ opts = (None, None)"

definition sent_frame :: "ptp_send \<Rightarrow> ptp_options \<Rightarrow> bytes \<Rightarrow> ptp_frame" where
  "sent_frame k opts t = \<lparr>pf_header = sent_header (send_type k) opts (send_control k) (send_body k opts t),
     pf_timestamp = fst (sent_times k opts), pf_announce = snd (sent_times k opts), pf_message = ptp_build k opts,
     pf_body = send_body k opts t, pf_vlan_id = None, pf_outer_vlan_id = None, pf_peer_delay_multicast = False\<rparr>"

lemma ptp_build_message:
  "timestamp_write (po_timestamp opts) = Some t \<Longrightarrow> ptp_build k opts = build_message (send_type k) opts (send_control k) (send_body k opts t)"
  by (cases k) (simp_all add: build_sync_def build_follow_up_def build_pdelay_req_def build_timestamp_message_def
      build_pdelay_resp_def build_pdelay_resp_follow_up_def build_announce_def grandmaster_def Let_def)

lemma send_body_facts:
  assumes "options_ok opts" "send_ok k" "timestamp_write (po_timestamp opts) = Some t"
  shows "length (send_body k opts t) \<le> 30" "length (send_body k opts t) \<ge> 10" "take 10 (send_body k opts t) = t"
    "\<And>utc_offset. length (send_body (Send_announce utc_offset) opts t) = 30" "send_type k < 16"
proof -
  have len: "length t = 10" "length (grandmaster opts) = 8" using timestamp_write_length [OF assms(3)] assms(1)
    by (simp_all add: grandmaster_def options_ok_def identity_ok_def)
  show "length (send_body k opts t) \<le> 30" "length (send_body k opts t) \<ge> 10" "take 10 (send_body k opts t) = t" "send_type k < 16"
    "\<And>utc_offset. length (send_body (Send_announce utc_offset) opts t) = 30"
    using assms(2) len by (cases k; simp add: identity_ok_def)+
qed

lemma parse_sent_announce:
  assumes "options_ok opts" "timestamp_write (po_timestamp opts) = Some t"
  shows "parse_announce (send_body (Send_announce utc_offset) opts t) (po_timestamp opts) = sent_announce opts utc_offset"
proof -
  have len: "length t = 10" "length (grandmaster opts) = 8" using timestamp_write_length [OF assms(2)] assms(1)
    by (simp_all add: grandmaster_def options_ok_def identity_ok_def)
  let ?b = "send_body (Send_announce utc_offset) opts t"
  have "read_be_u16 ?b 10 = utc_offset" "read_be_u16 ?b 16 = po_offset_scaled_log_variance opts" "read_be_u16 ?b 27 = po_steps_removed opts"
    by (subst read_be_u16_drop; simp add: len)+
  moreover have "?b ! 13 = po_priority1 opts" "?b ! 14 = po_clock_class opts" "?b ! 15 = po_clock_accuracy opts" "?b ! 18 = po_priority2 opts"
    "?b ! 29 = po_time_source opts" "take 8 (drop 19 ?b) = grandmaster opts"
    by (simp_all add: len nth_append)
  ultimately show ?thesis by (simp add: parse_announce_def sent_announce_def)
qed

lemma ptp_parse_built:
  assumes "options_ok opts" "send_ok k" "timestamp_write (po_timestamp opts) = Some t"
  shows "try_parse_message (ptp_build k opts @ rest) = Some (sent_frame k opts t)"
proof -
  note body = send_body_facts [OF assms]
  let ?b = "send_body k opts t"
  have id: "identity_ok (po_source_port_identity opts)" "length ?b \<le> 65501" using assms(1) body(1) by (simp_all add: options_ok_def)
  note m = built_message [OF id body(5), of "send_control k", folded ptp_build_message [OF assms(3)]]
  have len: "unat (read_be_u16 (ptp_build k opts @ rest) 2) = 34 + length ?b"
  proof -
    have "read_be_u16 (ptp_build k opts @ rest) 2 = of_nat (34 + length ?b)"
      using arg_cong [OF m(3) [of rest], of ph_message_length] by (simp add: parse_header_def sent_header_def)
    then show ?thesis using body(1) by (simp add: unsigned_of_nat take_bit_nat_eq_self del: of_nat_add)
  qed
  have t: "timestamp_try_read t = Some (po_timestamp opts)" using timestamp_read_write [OF assms(3), of "[]"] by simp
  have octet: "(ptp_build k opts @ rest) ! 1 = 2" using m(1,4) by (simp add: nth_append)
  have body_eq: "take (34 + length ?b) (ptp_build k opts @ rest) = ptp_build k opts" using m(1) by simp
  show ?thesis
    unfolding try_parse_message_def len body_eq m(2) octet m(3) Let_def
    using body(1,2,3,4) m(1) t parse_sent_announce [OF assms(1,3)]
    by (cases k) (simp_all add: sent_frame_def sent_header_def)
qed

subsection \<open>Frames\<close>

lemma vlan_id_from_tci_eq: "vlan_id_from_tci tci = vlan_id (from_tag_control_information tci)"
  by (simp add: vlan_id_from_tci_def from_tag_control_information_def)

lemma ptp_parse_untagged:
  assumes "options_ok opts" "send_ok k" "timestamp_write (po_timestamp opts) = Some t" "mac_ok dst" "mac_ok src"
  shows "try_parse_ethernet_frame (dst @ src @ write_be_u16 0x88F7 @ ptp_build k opts @ padding) =
    Some ((sent_frame k opts t)\<lparr>pf_peer_delay_multicast := (dst = [0x01, 0x80, 0xC2, 0x00, 0x00, 0x0E])\<rparr>)"
proof -
  have m: "length (ptp_build k opts) \<ge> 34" "try_parse_message (ptp_build k opts @ padding) = Some (sent_frame k opts t)"
    using ptp_parse_built [OF assms(1-3), of padding] ptp_parse_built [OF assms(1-3), of "[]"]
    by (simp_all add: try_parse_message_def split: if_splits)
  have macs: "length dst = 6" "length src = 6" using assms(4,5) by (simp_all add: mac_ok_def)
  have "read_be_u16 (dst @ src @ write_be_u16 0x88F7 @ ptp_build k opts @ padding) 12 = 0x88F7"
    by (subst read_be_u16_drop) (simp_all add: macs)
  with m macs show ?thesis by (simp add: try_parse_ethernet_frame_def parse_tag_def sent_frame_def)
qed

text \<open>C37.  PTP round trip: every message the stack builds with a timestamp that fits the wire is read back
  from its Ethernet frame, with or without a VLAN tag and whatever padding follows: the header with all
  its fields, the timestamp of sync, follow-up and announce messages, the announce data set with the
  source clock as grandmaster when none is given, the exact message and body octets, the VLAN
  identifier and whether the frame was addressed to the peer-delay group.\<close>

theorem ptp_frame_round_trip:
  assumes "options_ok opts" "send_ok k" "timestamp_write (po_timestamp opts) = Some t" "mac_ok dst" "mac_ok src"
    "build_ethernet_frame dst src (ptp_build k opts) vid prio = Inr bs" "bs \<noteq> []"
  shows "try_parse_ethernet_frame (bs @ padding) =
    Some ((sent_frame k opts t)\<lparr>pf_vlan_id := vid, pf_peer_delay_multicast := (dst = [0x01, 0x80, 0xC2, 0x00, 0x00, 0x0E])\<rparr>)"
proof -
  let ?m = "ptp_build k opts"
  have macs: "length dst = 6" "length src = 6" using assms(4,5) by (simp_all add: mac_ok_def)
  have m: "length ?m \<ge> 34" "\<And>rest. try_parse_message (?m @ rest) = Some (sent_frame k opts t)"
    using ptp_parse_built [OF assms(1-3)] ptp_parse_built [OF assms(1-3), of "[]"]
    by (simp_all add: try_parse_message_def split: if_splits)
  show ?thesis
  proof (cases vid)
    case None
    with assms(6,7) have bs: "bs = dst @ src @ write_be_u16 0x88F7 @ ?m"
      by (auto simp: build_ethernet_frame_def ethernet_encode_def split: if_splits)
    then show ?thesis using None ptp_parse_untagged [OF assms(1-5), of padding] by (simp add: sent_frame_def)
  next
    case (Some v)
    with assms(6,7) obtain tci where tci: "to_tag_control_information \<lparr>priority_code_point = prio, drop_eligible = False, vlan_id = v\<rparr> = Inr tci"
      and bs: "bs = dst @ src @ write_be_u16 0x8100 @ write_be_u16 tci @ write_be_u16 0x88F7 @ ?m"
      by (auto simp: build_ethernet_frame_def ethernet_encode_def bindE_Inr_iff split: if_splits)
    have "read_be_u16 (bs @ padding) 12 = 0x8100" "read_be_u16 (bs @ padding) 14 = tci" "read_be_u16 (bs @ padding) 16 = 0x88F7"
      by (subst read_be_u16_drop; simp add: bs macs)+
    moreover have "vlan_id_from_tci tci = v" using from_to_tci [OF tci] by (simp add: vlan_id_from_tci_eq)
    ultimately show ?thesis using Some m macs by (simp add: try_parse_ethernet_frame_def parse_tag_def bs sent_frame_def)
  qed
qed

definition sample_options :: ptp_options where
  "sample_options = \<lparr>po_transport_specific = 0, po_domain_number = 3,
     po_source_port_identity = \<lparr>pi_clock_identity = [1, 2, 3, 4, 5, 6, 7, 8], pi_port_number = 1\<rparr>, po_sequence_id = 9,
     po_correction_field = 0, po_log_message_interval = 0, po_two_step = True,
     po_time_properties = \<lparr>tp_current_utc_offset_valid = True, tp_ptp_timescale = True, tp_time_traceable = False, tp_frequency_traceable = False\<rparr>,
     po_priority1 = 128, po_priority2 = 128, po_clock_class = 248, po_clock_accuracy = 0xFE, po_offset_scaled_log_variance = 0xFFFF,
     po_grandmaster_identity = [0, 0, 0, 0, 0, 0, 0, 0], po_steps_removed = 0, po_time_source = 0xA0,
     po_timestamp = \<lparr>pt_seconds = 5, pt_nanoseconds = 6\<rparr>\<rparr>"

theorem ptp_frame_round_trip_witness:
  "\<exists>bs. build_ethernet_frame [1, 2, 3, 4, 5, 6] [2, 2, 3, 4, 5, 6] (ptp_build (Send_announce 37) sample_options) None 0 = Inr bs \<and>
     map_option pf_timestamp (try_parse_ethernet_frame (bs @ [0, 0])) = Some (Some \<lparr>pt_seconds = 5, pt_nanoseconds = 6\<rparr>)"
proof -
  obtain bs where bs: "build_ethernet_frame [1, 2, 3, 4, 5, 6] [2, 2, 3, 4, 5, 6] (ptp_build (Send_announce 37) sample_options) None 0 = Inr bs" "bs \<noteq> []"
    by (auto simp: build_ethernet_frame_def is_valid_vlan_priority_def ethernet_encode_def)
  obtain t where "timestamp_write (po_timestamp sample_options) = Some t" by (auto simp: sample_options_def timestamp_write_def)
  moreover have "options_ok sample_options" "send_ok (Send_announce 37)" "mac_ok [1, 2, 3, 4, 5, 6]" "mac_ok [2, 2, 3, 4, 5, 6]"
    by (simp_all add: options_ok_def identity_ok_def sample_options_def mac_ok_def)
  ultimately show ?thesis using ptp_frame_round_trip [OF _ _ _ _ _ bs, of _ "[0, 0]"] bs(1)
    by (simp add: sent_frame_def) (simp add: sample_options_def)
qed

end
