(* ===== verification/Ptp_Monitor.thy ===== *)
theory Ptp_Monitor
  imports Ptp_Wire Decimal "HOL-Library.Multiset" "HOL-Library.Product_Lexorder"
begin

text \<open>
  Passive PTP monitoring (\<open>src/time_sync/ptp_monitor.cpp\<close>): the frames seen on an interface summarised per
  source clock, the health report over a snapshot, and the synchronisation value a sampled value
  publisher may claim.  Time points are nanoseconds of the system clock.
\<close>

record ptp_observed =
  ob_observed_at :: int
  ob_message_type :: u8
  ob_transport_specific :: u8
  ob_domain_number :: u8
  ob_source_port_identity :: ptp_port_identity
  ob_sequence_id :: u16
  ob_two_step :: bool
  ob_vlan_id :: "u16 option"
  ob_outer_vlan_id :: "u16 option"
  ob_peer_delay_multicast :: bool

record ptp_source =
  sc_domain_number :: u8
  sc_source_port_identity :: ptp_port_identity
  sc_first_seen_at :: int
  sc_last_seen_at :: int
  sc_message_counts :: "u32 list"  \<comment> \<open>16\<close>
  sc_last_sequence_ids :: "u16 option list"  \<comment> \<open>16\<close>
  sc_sequence_anomaly_count :: u32
  sc_transport_specific :: "u8 option"
  sc_transport_specific_change_count :: u32
  sc_vlan_id :: "u16 option"
  sc_outer_vlan_id :: "u16 option"

definition message_index :: "u8 \<Rightarrow> nat" where
  "message_index t = unat (t AND 0x0F)"

definition source_count :: "u8 \<Rightarrow> ptp_source \<Rightarrow> u32" where
  "source_count t s = sc_message_counts s ! message_index t"

record ptp_snapshot =
  sn_captured_at :: int
  sn_total_frames :: u64
  sn_valid_ptp_frames :: u64
  sn_invalid_frames :: u64
  sn_recent_messages :: "ptp_observed list"
  sn_sources :: "ptp_source list"

definition has_ptp :: "ptp_snapshot \<Rightarrow> bool" where
  "has_ptp s \<longleftrightarrow> sn_valid_ptp_frames s \<noteq> 0"

subsection \<open>The monitor\<close>

record ptp_monitor =
  pm_recent_capacity :: nat
  pm_total_frames :: u64
  pm_valid_frames :: u64
  pm_invalid_frames :: u64
  pm_recent_messages :: "ptp_observed list"
  pm_sources :: "ptp_source list"

definition monitor_init :: "nat \<Rightarrow> ptp_monitor" where
  "monitor_init recent_capacity = \<lparr>pm_recent_capacity = max recent_capacity 8, pm_total_frames = 0, pm_valid_frames = 0,
     pm_invalid_frames = 0, pm_recent_messages = [], pm_sources = []\<rparr>"

definition observed_message :: "ptp_frame \<Rightarrow> int \<Rightarrow> ptp_observed" where
  "observed_message f now = \<lparr>ob_observed_at = now, ob_message_type = ph_message_type (pf_header f),
     ob_transport_specific = ph_transport_specific (pf_header f), ob_domain_number = ph_domain_number (pf_header f),
     ob_source_port_identity = ph_source_port_identity (pf_header f), ob_sequence_id = ph_sequence_id (pf_header f),
     ob_two_step = is_two_step (pf_header f), ob_vlan_id = pf_vlan_id f, ob_outer_vlan_id = pf_outer_vlan_id f,
     ob_peer_delay_multicast = pf_peer_delay_multicast f\<rparr>"

definition same_source :: "ptp_observed \<Rightarrow> ptp_source \<Rightarrow> bool" where
  "same_source e s \<longleftrightarrow> sc_domain_number s = ob_domain_number e \<and> sc_source_port_identity s = ob_source_port_identity e"

definition fresh_source :: "ptp_observed \<Rightarrow> ptp_source" where
  "fresh_source e = \<lparr>sc_domain_number = ob_domain_number e, sc_source_port_identity = ob_source_port_identity e,
     sc_first_seen_at = ob_observed_at e, sc_last_seen_at = ob_observed_at e, sc_message_counts = replicate 16 0,
     sc_last_sequence_ids = replicate 16 None, sc_sequence_anomaly_count = 0, sc_transport_specific = Some (ob_transport_specific e),
     sc_transport_specific_change_count = 0, sc_vlan_id = None, sc_outer_vlan_id = None\<rparr>"

definition note_message :: "ptp_observed \<Rightarrow> ptp_source \<Rightarrow> ptp_source" where
  "note_message e s =
     (let i = message_index (ob_message_type e);
          changed = (case sc_transport_specific s of None \<Rightarrow> False | Some t \<Rightarrow> t \<noteq> ob_transport_specific e);
          anomaly = (case sc_last_sequence_ids s ! i of None \<Rightarrow> False | Some n \<Rightarrow> ob_sequence_id e \<noteq> ucast (ucast n + 1 :: u32))
      in s\<lparr>sc_last_seen_at := ob_observed_at e,
           sc_transport_specific_change_count := sc_transport_specific_change_count s + (if changed then 1 else 0),
           sc_transport_specific := Some (ob_transport_specific e), sc_vlan_id := ob_vlan_id e, sc_outer_vlan_id := ob_outer_vlan_id e,
           sc_message_counts := (sc_message_counts s)[i := sc_message_counts s ! i + 1],
           sc_sequence_anomaly_count := sc_sequence_anomaly_count s + (if anomaly then 1 else 0),
           sc_last_sequence_ids := (sc_last_sequence_ids s)[i := Some (ob_sequence_id e)]\<rparr>)"

text \<open>\<open>find_source\<close>, or a new source at the end of the table.\<close>

fun observe_source :: "ptp_observed \<Rightarrow> ptp_source list \<Rightarrow> ptp_source list" where
  "observe_source e [] = [note_message e (fresh_source e)]"
| "observe_source e (s # ss) = (if same_source e s then note_message e s # ss else s # observe_source e ss)"

definition monitor_observe :: "ptp_frame \<Rightarrow> int \<Rightarrow> ptp_monitor \<Rightarrow> ptp_monitor" where
  "monitor_observe f now m =
     (let e = observed_message f now; recent = pm_recent_messages m @ [e] in
      m\<lparr>pm_valid_frames := pm_valid_frames m + 1,
        pm_recent_messages := drop (length recent - pm_recent_capacity m) recent,
        pm_sources := observe_source e (pm_sources m)\<rparr>)"

definition monitor_observe_ethernet_frame :: "bytes \<Rightarrow> int \<Rightarrow> ptp_monitor \<Rightarrow> bool \<times> ptp_monitor" where
  "monitor_observe_ethernet_frame bs now m =
     (let m = m\<lparr>pm_total_frames := pm_total_frames m + 1\<rparr> in
      case try_parse_ethernet_frame bs of
        None \<Rightarrow> (False, m\<lparr>pm_invalid_frames := pm_invalid_frames m + 1\<rparr>)
      | Some f \<Rightarrow> (True, monitor_observe f now m))"

text \<open>\<open>std::sort\<close> may order sources with equal keys in any way: the sorting function is an argument.\<close>

definition source_key :: "ptp_source \<Rightarrow> u8 \<times> nat list" where
  "source_key s = (sc_domain_number s, map unat (pi_clock_identity (sc_source_port_identity s)))"

definition monitor_snapshot :: "(ptp_source list \<Rightarrow> ptp_source list) \<Rightarrow> int \<Rightarrow> ptp_monitor \<Rightarrow> ptp_snapshot" where
  "monitor_snapshot sorter captured_at m = \<lparr>sn_captured_at = captured_at, sn_total_frames = pm_total_frames m,
     sn_valid_ptp_frames = pm_valid_frames m, sn_invalid_frames = pm_invalid_frames m, sn_recent_messages = pm_recent_messages m,
     sn_sources = sorter (pm_sources m)\<rparr>"

definition monitor_reset :: "ptp_monitor \<Rightarrow> ptp_monitor" where
  "monitor_reset m = m\<lparr>pm_total_frames := 0, pm_valid_frames := 0, pm_invalid_frames := 0, pm_recent_messages := [], pm_sources := []\<rparr>"

subsection \<open>Health\<close>

datatype ptp_severity = Sev_ok | Sev_warning | Sev_fail

record ptp_check =
  ck_id :: string
  ck_severity :: ptp_severity
  ck_message :: string

record ptp_health_options =
  ho_expected_domain_number :: "u8 option"
  ho_expected_transport_specific :: "u8 option"
  ho_source_timeout :: int  \<comment> \<open>milliseconds\<close>
  ho_require_announce :: bool
  ho_require_sync :: bool
  ho_require_follow_up_for_two_step :: bool
  ho_require_peer_delay_activity :: bool
  ho_maximum_sequence_anomalies :: u32

record ptp_report =
  pr_evaluated_at :: int
  pr_severity :: ptp_severity
  pr_snapshot :: ptp_snapshot
  pr_checks :: "ptp_check list"
  pr_selected_source :: "ptp_port_identity option"

definition is_healthy :: "ptp_report \<Rightarrow> bool" where
  "is_healthy r \<longleftrightarrow> pr_severity r = Sev_ok"

definition port_identity_text :: "ptp_port_identity \<Rightarrow> string" where
  "port_identity_text i = mac_to_string (pi_clock_identity i) @ ''/'' @ decimal (unat (pi_port_number i))"

abbreviation check :: "string \<Rightarrow> ptp_severity \<Rightarrow> string \<Rightarrow> ptp_check" where
  "check i s m \<equiv> \<lparr>ck_id = i, ck_severity = s, ck_message = m\<rparr>"

definition presence_check :: "ptp_source \<Rightarrow> u8 \<Rightarrow> string \<Rightarrow> string \<Rightarrow> ptp_check" where
  "presence_check s t i label =
     (if source_count t s \<noteq> 0
      then check i Sev_ok (label @ '' messages are visible from '' @ port_identity_text (sc_source_port_identity s) @ ''.'')
      else check i Sev_fail (''No '' @ label @ '' message is visible from selected PTP source '' @
             port_identity_text (sc_source_port_identity s) @ ''.''))"

definition report_severity :: "ptp_check list \<Rightarrow> ptp_severity" where
  "report_severity cs = (if list_ex (\<lambda>c. ck_severity c = Sev_fail) cs then Sev_fail
     else if list_ex (\<lambda>c. ck_severity c = Sev_warning) cs then Sev_warning else Sev_ok)"

definition source_active :: "ptp_health_options \<Rightarrow> int \<Rightarrow> ptp_source \<Rightarrow> bool" where
  "source_active opts captured_at s \<longleftrightarrow> captured_at \<ge> sc_last_seen_at s \<and>
     captured_at - sc_last_seen_at s \<le> ho_source_timeout opts * 1000000"

definition domain_matches :: "ptp_health_options \<Rightarrow> ptp_source \<Rightarrow> bool" where
  "domain_matches opts s \<longleftrightarrow> (case ho_expected_domain_number opts of None \<Rightarrow> True | Some d \<Rightarrow> sc_domain_number s = d)"

definition transport_matches :: "ptp_health_options \<Rightarrow> ptp_source \<Rightarrow> bool" where
  "transport_matches opts s \<longleftrightarrow> (case ho_expected_transport_specific opts of None \<Rightarrow> True | Some t \<Rightarrow> sc_transport_specific s = Some t)"

definition better_source :: "ptp_source \<Rightarrow> ptp_source \<Rightarrow> bool" where
  "better_source s t \<longleftrightarrow> source_count 0xB s > source_count 0xB t \<or>
     (source_count 0xB s = source_count 0xB t \<and> source_count 0x0 s > source_count 0x0 t) \<or>
     (source_count 0xB s = source_count 0xB t \<and> source_count 0x0 s = source_count 0x0 t \<and> sc_last_seen_at s > sc_last_seen_at t)"

fun select_source :: "ptp_health_options \<Rightarrow> ptp_source list \<Rightarrow> ptp_source option \<Rightarrow> ptp_source option" where
  "select_source opts [] sel = sel"
| "select_source opts (s # ss) sel =
     (if \<not> domain_matches opts s \<or> \<not> transport_matches opts s then select_source opts ss sel
      else case sel of
          None \<Rightarrow> select_source opts ss (Some s)
        | Some t \<Rightarrow> select_source opts ss (if better_source s t then Some s else sel))"

definition visibility_checks :: "ptp_health_options \<Rightarrow> ptp_snapshot \<Rightarrow> ptp_source list \<Rightarrow> ptp_check list" where
  "visibility_checks opts snap active =
     [check ''ptp.visibility'' Sev_ok (''Observed '' @ decimal (unat (sn_valid_ptp_frames snap)) @ '' valid PTP frame(s).''),
      if active = [] then check ''ptp.liveness'' Sev_fail ''No PTP source is within the configured liveness timeout.''
      else check ''ptp.liveness'' Sev_ok (decimal (length active) @ '' active PTP source(s) are visible.'')] @
     (case ho_expected_domain_number opts of None \<Rightarrow> []
      | Some d \<Rightarrow> [if list_ex (domain_matches opts) active
          then check ''ptp.domain'' Sev_ok (''PTP domain '' @ decimal (unat d) @ '' is visible.'')
          else check ''ptp.domain'' Sev_fail (''No active source is using expected PTP domain '' @ decimal (unat d) @ ''.'')]) @
     (case ho_expected_transport_specific opts of None \<Rightarrow> []
      | Some t \<Rightarrow> [if list_ex (transport_matches opts) active
          then check ''ptp.transportSpecific'' Sev_ok ''Expected transportSpecific is visible.''
          else check ''ptp.transportSpecific'' Sev_fail
            (''No active source is using expected transportSpecific '' @ decimal (unat t) @ ''.'')])"

definition source_checks :: "ptp_health_options \<Rightarrow> ptp_source \<Rightarrow> ptp_check list" where
  "source_checks opts s =
     [if sc_transport_specific_change_count s \<noteq> 0
      then check ''ptp.transportSpecific.stability'' Sev_warning (''Selected source changed transportSpecific '' @
             decimal (unat (sc_transport_specific_change_count s)) @ '' time(s) during the capture.'')
      else check ''ptp.transportSpecific.stability'' Sev_ok ''Selected source transportSpecific remained stable.''] @
     (if ho_require_announce opts then [presence_check s 0xB ''ptp.announce'' ''Announce''] else []) @
     (if ho_require_sync opts then [presence_check s 0x0 ''ptp.sync'' ''Sync''] else []) @
     (if ho_require_follow_up_for_two_step opts then [presence_check s 0x8 ''ptp.followup'' ''Follow_Up''] else []) @
     (if ho_require_peer_delay_activity opts
      then [if source_count 0x2 s + source_count 0x3 s + source_count 0xA s \<noteq> 0
            then check ''ptp.pdelay'' Sev_ok ''Peer-delay activity is visible.''
            else check ''ptp.pdelay'' Sev_warning
              ''No peer-delay activity is visible; some power-utility profiles expect peer-delay behavior.'']
      else []) @
     [if sc_sequence_anomaly_count s > ho_maximum_sequence_anomalies opts
      then check ''ptp.sequence'' Sev_warning (''Detected '' @ decimal (unat (sc_sequence_anomaly_count s)) @
             '' PTP sequence anomaly/anomalies for '' @ port_identity_text (sc_source_port_identity s) @ ''.'')
      else check ''ptp.sequence'' Sev_ok ''No PTP sequence anomaly above threshold.'']"

definition evaluate_health :: "ptp_snapshot \<Rightarrow> ptp_health_options \<Rightarrow> ptp_report" where
  "evaluate_health snap opts =
     (if \<not> has_ptp snap
      then \<lparr>pr_evaluated_at = sn_captured_at snap, pr_severity = Sev_fail, pr_snapshot = snap,
             pr_checks = [check ''ptp.visibility'' Sev_fail ''No valid PTP frame has been observed on the selected interface.''],
             pr_selected_source = None\<rparr>
      else let active = filter (source_active opts (sn_captured_at snap)) (sn_sources snap);
               checks = visibility_checks opts snap active;
               selected = select_source opts active None;
               checks = (case selected of None \<Rightarrow> checks | Some s \<Rightarrow> checks @ source_checks opts s)
        in \<lparr>pr_evaluated_at = sn_captured_at snap, pr_severity = report_severity checks, pr_snapshot = snap,
             pr_checks = checks, pr_selected_source = map_option sc_source_port_identity selected\<rparr>)"

datatype smp_synch = Not_synchronized | Local_synchronized | Global_synchronized

definition resolve_smp_synch :: "ptp_report \<Rightarrow> bool \<Rightarrow> smp_synch" where
  "resolve_smp_synch r allow_local_fallback =
     (if is_healthy r then Global_synchronized
      else if allow_local_fallback \<and> has_ptp (pr_snapshot r) then Local_synchronized else Not_synchronized)"

end
