(* ===== verification/Ptp_Health.thy ===== *)
theory Ptp_Health
  imports Ptp_Monitor "HOL-Library.List_Lexorder"
begin

text \<open>
  What the PTP monitor knows: its per-source state is a summary of the observed messages, and its health
  report and the synchronisation value follow from that summary.
\<close>

subsection \<open>The monitor as a summary of its observations\<close>

definition breaks :: "('a \<Rightarrow> 'a \<Rightarrow> bool) \<Rightarrow> 'a list \<Rightarrow> nat" where
  "breaks r xs = length (filter (\<lambda>(a, b). r a b) (zip xs (tl xs)))"

definition last_of :: "'a list \<Rightarrow> 'a option" where
  "last_of xs = (if xs = [] then None else Some (last xs))"

lemma breaks_snoc: "breaks r (xs @ [x]) = breaks r xs + (case last_of xs of None \<Rightarrow> 0 | Some y \<Rightarrow> if r y x then 1 else 0)"
proof (induction xs)
  case (Cons a xs)
  then show ?case by (cases xs) (auto simp: breaks_def last_of_def)
qed (simp add: breaks_def last_of_def)

lemma last_of_simps [simp]: "last_of [] = None" "last_of (xs @ [x]) = Some x" "last_of xs = None \<longleftrightarrow> xs = []"
  by (simp_all add: last_of_def)

abbreviation of_type :: "nat \<Rightarrow> ptp_observed list \<Rightarrow> ptp_observed list" where
  "of_type i \<equiv> filter (\<lambda>e. message_index (ob_message_type e) = i)"

abbreviation sequence_ids :: "nat \<Rightarrow> ptp_observed list \<Rightarrow> u16 list" where
  "sequence_ids i es \<equiv> map ob_sequence_id (of_type i es)"

definition source_summary :: "ptp_observed list \<Rightarrow> ptp_source" where
  "source_summary es = \<lparr>sc_domain_number = ob_domain_number (hd es), sc_source_port_identity = ob_source_port_identity (hd es),
     sc_first_seen_at = ob_observed_at (hd es), sc_last_seen_at = ob_observed_at (last es),
     sc_message_counts = map (\<lambda>i. of_nat (length (of_type i es))) [0..<16],
     sc_last_sequence_ids = map (\<lambda>i. last_of (sequence_ids i es)) [0..<16],
     sc_sequence_anomaly_count = of_nat (\<Sum>i < 16. breaks (\<lambda>a b. b \<noteq> a + 1) (sequence_ids i es)),
     sc_transport_specific = Some (ob_transport_specific (last es)),
     sc_transport_specific_change_count = of_nat (breaks (\<noteq>) (map ob_transport_specific es)),
     sc_vlan_id = ob_vlan_id (last es), sc_outer_vlan_id = ob_outer_vlan_id (last es)\<rparr>"

lemma message_index_less: "message_index t < 16"
proof -
  have "t AND 0x0F = take_bit 4 t" by (simp add: take_bit_eq_mask mask_eq_exp_minus_1)
  then have "message_index t = take_bit 4 (unat t)" by (simp add: message_index_def unsigned_take_bit_eq)
  then show ?thesis using take_bit_nat_less_exp [of 4 "unat t"] by simp
qed

lemma next_sequence: "ucast (ucast (n :: u16) + 1 :: u32) = n + 1"
proof -
  have "unat (ucast n + 1 :: u32) = unat n + 1"
    using unat_less_exp [of n] by (subst unat_word_ariths) (simp add: unat_ucast_widen)
  then have "unat (ucast (ucast n + 1 :: u32) :: u16) = unat (n + 1)"
    by (simp add: unsigned_ucast_eq take_bit_nat_def unat_word_ariths)
  then show ?thesis by (rule unsigned_word_eqI)
qed

lemma sum_bump:
  fixes f g :: "nat \<Rightarrow> nat"
  assumes "finite I" "i \<in> I" "\<And>j. j \<in> I \<Longrightarrow> j \<noteq> i \<Longrightarrow> f j = g j"
  shows "sum f I + g i = sum g I + f i"
proof -
  have "sum f (I - {i}) = sum g (I - {i})" using assms(3) by (intro sum.cong) auto
  then show ?thesis using assms(1,2) by (simp add: sum.remove [of I i])
qed

lemma note_message_summary:
  assumes "es \<noteq> []"
  shows "note_message e (source_summary es) = source_summary (es @ [e])"
proof -
  let ?i = "message_index (ob_message_type e)"
  have i: "?i < 16" by (rule message_index_less)
  let ?br = "\<lambda>es j. breaks (\<lambda>a b. b \<noteq> a + 1) (sequence_ids j es)"
  have "(\<Sum>j<16. ?br (es @ [e]) j) + ?br es ?i = (\<Sum>j<16. ?br es j) + ?br (es @ [e]) ?i"
    using i by (intro sum_bump) auto
  moreover have "?br (es @ [e]) ?i = ?br es ?i + (case last_of (sequence_ids ?i es) of None \<Rightarrow> 0 | Some n \<Rightarrow> if ob_sequence_id e \<noteq> n + 1 then 1 else 0)"
    by (simp add: breaks_snoc)
  ultimately have anomalies: "(\<Sum>j<16. ?br (es @ [e]) j) =
      (\<Sum>j<16. ?br es j) + (case last_of (sequence_ids ?i es) of None \<Rightarrow> 0 | Some n \<Rightarrow> if ob_sequence_id e \<noteq> n + 1 then 1 else 0)"
    by simp
  have changes: "breaks (\<noteq>) (map ob_transport_specific (es @ [e])) = breaks (\<noteq>) (map ob_transport_specific es) +
      (if ob_transport_specific (last es) \<noteq> ob_transport_specific e then 1 else 0)"
    using assms by (simp add: breaks_snoc last_of_def last_map)
  have upd: "(map f [0..<16])[?i := v] = map (\<lambda>j. if j = ?i then v else f j) [0..<16]" for f :: "nat \<Rightarrow> 'z" and v
    by (rule nth_equalityI) (auto simp: nth_list_update)
  show ?thesis unfolding note_message_def Let_def source_summary_def anomalies changes
    using assms i by (auto simp: upd next_sequence split: option.splits)
qed

lemma note_message_fresh: "note_message e (fresh_source e) = source_summary [e]"
proof -
  have i: "message_index (ob_message_type e) < 16" by (rule message_index_less)
  have "replicate 16 v = map (\<lambda>_. v) [0..<16]" for v :: 'z by (simp add: map_replicate_const)
  with i show ?thesis
    by (auto simp: note_message_def fresh_source_def source_summary_def breaks_def last_of_def Let_def nth_list_update intro!: nth_equalityI)
qed

type_synonym clock_key = "u8 \<times> ptp_port_identity"

definition message_key :: "ptp_observed \<Rightarrow> clock_key" where
  "message_key e = (ob_domain_number e, ob_source_port_identity e)"

definition of_clock :: "clock_key \<Rightarrow> ptp_observed list \<Rightarrow> ptp_observed list" where
  "of_clock k = filter (\<lambda>e. message_key e = k)"

text \<open>The clocks in the order of their first message.\<close>

definition clocks :: "ptp_observed list \<Rightarrow> clock_key list" where
  "clocks log = rev (remdups (rev (map message_key log)))"

lemma clocks_snoc: "clocks (log @ [e]) = (if message_key e \<in> set (clocks log) then clocks log else clocks log @ [message_key e])"
  by (auto simp: clocks_def)

lemma set_clocks: "set (clocks log) = message_key ` set log" "distinct (clocks log)"
  by (simp_all add: clocks_def)

lemma of_clock_facts:
  "of_clock k log = [] \<longleftrightarrow> k \<notin> set (clocks log)"
  "of_clock k (log @ [e]) = of_clock k log @ (if message_key e = k then [e] else [])"
  by (auto simp: of_clock_def set_clocks filter_empty_conv)

lemma same_source_summary:
  assumes "of_clock k log \<noteq> []"
  shows "same_source e (source_summary (of_clock k log)) \<longleftrightarrow> message_key e = k"
proof -
  have "hd (of_clock k log) \<in> set (of_clock k log)" using assms by (rule hd_in_set)
  then have "message_key (hd (of_clock k log)) = k" by (simp add: of_clock_def)
  then show ?thesis by (auto simp: same_source_def source_summary_def message_key_def)
qed

lemma observe_source_summaries:
  "\<forall>k\<in>set ks. of_clock k log \<noteq> [] \<Longrightarrow> distinct ks \<Longrightarrow>
     observe_source e (map (\<lambda>k. source_summary (of_clock k log)) ks) =
     map (\<lambda>k. source_summary (of_clock k (log @ [e]))) ks @ (if message_key e \<in> set ks then [] else [source_summary [e]])"
proof (induction ks)
  case (Cons k ks)
  then have k: "of_clock k log \<noteq> []" by simp
  have "map (\<lambda>k. source_summary (of_clock k (log @ [e]))) ks = map (\<lambda>k. source_summary (of_clock k log)) ks" if "message_key e = k"
    using Cons.prems(2) that by (auto simp: of_clock_facts)
  with Cons k show ?case by (auto simp: same_source_summary note_message_summary of_clock_facts(2))
qed (simp add: note_message_fresh)

definition monitor_knows :: "ptp_observed list \<Rightarrow> ptp_monitor \<Rightarrow> bool" where
  "monitor_knows log m \<longleftrightarrow> pm_valid_frames m = of_nat (length log) \<and>
     pm_recent_messages m = drop (length log - pm_recent_capacity m) log \<and>
     pm_sources m = map (\<lambda>k. source_summary (of_clock k log)) (clocks log)"

lemma monitor_observe_knows:
  assumes "monitor_knows log m"
  shows "monitor_knows (log @ [observed_message f now]) (monitor_observe f now m)"
proof -
  let ?e = "observed_message f now"
  have "observe_source ?e (pm_sources m) = map (\<lambda>k. source_summary (of_clock k (log @ [?e]))) (clocks (log @ [?e]))"
    using assms observe_source_summaries [of "clocks log" log ?e] set_clocks(2) [of log]
    by (auto simp: monitor_knows_def of_clock_facts clocks_snoc) (simp add: of_clock_facts(1) [THEN iffD2])
  moreover have "drop (length (pm_recent_messages m @ [?e]) - pm_recent_capacity m) (pm_recent_messages m @ [?e]) =
      drop (length (log @ [?e]) - pm_recent_capacity m) (log @ [?e])"
    using assms by (cases "pm_recent_capacity m \<le> length log") (auto simp: monitor_knows_def Suc_diff_le)
  ultimately show ?thesis using assms by (simp add: monitor_knows_def monitor_observe_def Let_def)
qed

definition monitor_run :: "(bytes \<times> int) list \<Rightarrow> ptp_monitor \<Rightarrow> ptp_monitor" where
  "monitor_run = fold (\<lambda>(bs, now) m. snd (monitor_observe_ethernet_frame bs now m))"

definition observations :: "(bytes \<times> int) list \<Rightarrow> ptp_observed list" where
  "observations = List.map_filter (\<lambda>(bs, now). map_option (\<lambda>f. observed_message f now) (try_parse_ethernet_frame bs))"

lemma map_filter_append: "List.map_filter f (xs @ ys) = List.map_filter f xs @ List.map_filter f ys"
  by (simp add: List.map_filter_def)

lemma monitor_run_snoc: "monitor_run (frames @ [(bs, now)]) m = snd (monitor_observe_ethernet_frame bs now (monitor_run frames m))"
  by (simp add: monitor_run_def)

lemma monitor_run_knows:
  "monitor_knows (observations frames) (monitor_run frames (monitor_init capacity)) \<and>
    pm_recent_capacity (monitor_run frames (monitor_init capacity)) = max capacity 8 \<and>
    pm_total_frames (monitor_run frames (monitor_init capacity)) = of_nat (length frames) \<and>
    pm_invalid_frames (monitor_run frames (monitor_init capacity)) + pm_valid_frames (monitor_run frames (monitor_init capacity)) =
      of_nat (length frames)"
proof (induction frames rule: rev_induct)
  case Nil
  show ?case by (simp add: monitor_run_def monitor_init_def monitor_knows_def observations_def clocks_def List.map_filter_def)
next
  case (snoc x frames)
  obtain bs now where x: "x = (bs, now)" by fastforce
  let ?m = "monitor_run frames (monitor_init capacity)"
  have total: "monitor_knows log (m\<lparr>pm_total_frames := n\<rparr>) = monitor_knows log m" "monitor_knows log (m\<lparr>pm_invalid_frames := n\<rparr>) = monitor_knows log m"
    for log m n by (simp_all add: monitor_knows_def)
  show ?case
  proof (cases "try_parse_ethernet_frame bs")
    case None
    with snoc x show ?thesis
      by (simp add: monitor_run_snoc monitor_observe_ethernet_frame_def observations_def map_filter_append List.map_filter_def total Let_def ac_simps)
  next
    case (Some f)
    have "monitor_knows (observations frames @ [observed_message f now]) (monitor_observe f now (?m\<lparr>pm_total_frames := pm_total_frames ?m + 1\<rparr>))"
      using snoc by (intro monitor_observe_knows) (simp add: total)
    with snoc x Some show ?thesis
      by (simp add: monitor_run_snoc monitor_observe_ethernet_frame_def observations_def map_filter_append List.map_filter_def Let_def ac_simps)
        (simp add: monitor_observe_def Let_def ac_simps)
  qed
qed

text \<open>C7.  The PTP monitor is a summary of what it observed: after any frames, the total is the number of
  frames, valid and invalid frames add up to it, the recent messages are the last of the valid ones
  up to the capacity, and the table has exactly one entry per clock in the order of first
  appearance, whose times, counts per message type, last sequence numbers, number of sequence
  discontinuities and transport changes are those of the messages of that clock (modulo the width of the
  counters).\<close>

theorem ptp_monitor_refines_log:
  "let m = monitor_run frames (monitor_init capacity); log = observations frames in
   pm_total_frames m = of_nat (length frames) \<and> pm_valid_frames m = of_nat (length log) \<and>
   pm_invalid_frames m + pm_valid_frames m = pm_total_frames m \<and>
   pm_recent_messages m = drop (length log - max capacity 8) log \<and>
   pm_sources m = map (\<lambda>k. source_summary (of_clock k log)) (clocks log)"
  using monitor_run_knows [of frames capacity] unfolding Let_def monitor_knows_def by metis

subsection \<open>Health\<close>

lemma report_severity_ok: "report_severity cs = Sev_ok \<longleftrightarrow> (\<forall>c\<in>set cs. ck_severity c = Sev_ok)"
proof -
  have "s = Sev_ok \<longleftrightarrow> s \<noteq> Sev_fail \<and> s \<noteq> Sev_warning" for s by (cases s) simp_all
  then show ?thesis by (auto simp: report_severity_def list_ex_iff)
qed

definition source_rank :: "ptp_source \<Rightarrow> u32 \<times> u32 \<times> int" where
  "source_rank s = (source_count 0xB s, source_count 0x0 s, sc_last_seen_at s)"

lemma better_source_rank: "better_source s t \<longleftrightarrow> source_rank t < source_rank s"
  by (auto simp: better_source_def source_rank_def less_prod_def)

definition eligible :: "ptp_health_options \<Rightarrow> ptp_snapshot \<Rightarrow> ptp_source set" where
  "eligible opts snap = {s \<in> set (sn_sources snap). source_active opts (sn_captured_at snap) s \<and> domain_matches opts s \<and> transport_matches opts s}"

lemma select_source_best:
  "case select_source opts ss sel of
     None \<Rightarrow> sel = None \<and> (\<forall>s\<in>set ss. \<not> (domain_matches opts s \<and> transport_matches opts s))
   | Some b \<Rightarrow> (Some b = sel \<or> b \<in> set ss \<and> domain_matches opts b \<and> transport_matches opts b) \<and>
       (\<forall>s\<in>set ss. domain_matches opts s \<and> transport_matches opts s \<longrightarrow> source_rank s \<le> source_rank b) \<and>
       (\<forall>t. sel = Some t \<longrightarrow> source_rank t \<le> source_rank b)"
proof (induction ss arbitrary: sel)
  case (Cons s ss)
  show ?case
  proof (cases "domain_matches opts s \<and> transport_matches opts s")
    case False
    with Cons [of sel] show ?thesis by (auto split: option.splits)
  next
    case True
    define sel' where "sel' = (case sel of None \<Rightarrow> Some s | Some t \<Rightarrow> if better_source s t then Some s else sel)"
    have "select_source opts (s # ss) sel = select_source opts ss sel'"
      using True by (auto simp: sel'_def split: option.splits)
    moreover have "\<exists>t. sel' = Some t \<and> (t = s \<or> sel = Some t) \<and> source_rank s \<le> source_rank t \<and> (\<forall>u. sel = Some u \<longrightarrow> source_rank u \<le> source_rank t)"
      by (auto simp: sel'_def better_source_rank split: option.splits)
    ultimately show ?thesis using Cons [of sel'] True by (fastforce split: option.splits)
  qed
qed (auto split: option.splits)

definition source_sound :: "ptp_health_options \<Rightarrow> ptp_source \<Rightarrow> bool" where
  "source_sound opts s \<longleftrightarrow> sc_transport_specific_change_count s = 0 \<and> (ho_require_announce opts \<longrightarrow> source_count 0xB s \<noteq> 0) \<and>
     (ho_require_sync opts \<longrightarrow> source_count 0x0 s \<noteq> 0) \<and> (ho_require_follow_up_for_two_step opts \<longrightarrow> source_count 0x8 s \<noteq> 0) \<and>
     (ho_require_peer_delay_activity opts \<longrightarrow> source_count 0x2 s + source_count 0x3 s + source_count 0xA s \<noteq> 0) \<and>
     sc_sequence_anomaly_count s \<le> ho_maximum_sequence_anomalies opts"

lemma check_severity_if: "ck_severity (if b then check i s m else check i' s' m') = (if b then s else s')"
  by simp

lemma ball_set_if: "(\<forall>c\<in>set (if b then xs else []). P c) \<longleftrightarrow> (b \<longrightarrow> (\<forall>c\<in>set xs. P c))"
  by auto

lemma ok_if: "(if b then Sev_ok else s) = Sev_ok \<longleftrightarrow> b \<or> s = Sev_ok" "(if b then s else Sev_ok) = Sev_ok \<longleftrightarrow> \<not> b \<or> s = Sev_ok"
  by simp_all

lemma ball_singleton: "(\<forall>c\<in>set [x]. P c) \<longleftrightarrow> P x"
  by simp

lemma source_checks_ok: "(\<forall>c\<in>set (source_checks opts s). ck_severity c = Sev_ok) \<longleftrightarrow> source_sound opts s"
  unfolding source_checks_def source_sound_def presence_check_def set_append ball_Un ball_set_if ball_singleton check_severity_if ok_if
  by (simp add: not_less)

definition active_sources :: "ptp_health_options \<Rightarrow> ptp_snapshot \<Rightarrow> ptp_source set" where
  "active_sources opts snap = {s \<in> set (sn_sources snap). source_active opts (sn_captured_at snap) s}"

lemma visibility_checks_ok:
  "(\<forall>c\<in>set (visibility_checks opts snap active). ck_severity c = Sev_ok) \<longleftrightarrow>
     active \<noteq> [] \<and> (\<exists>s\<in>set active. domain_matches opts s) \<and> (\<exists>s\<in>set active. transport_matches opts s)"
proof -
  have two: "(\<forall>c\<in>set [x, y]. P c) \<longleftrightarrow> P x \<and> P y" for x y :: ptp_check and P by simp
  have none: "(\<forall>s\<in>set (case z of None \<Rightarrow> [] | Some d \<Rightarrow> [g d]). P s) \<longleftrightarrow> (\<forall>d. z = Some d \<longrightarrow> P (g d))"
    for z :: "u8 option" and g :: "u8 \<Rightarrow> ptp_check" and P by (cases z) simp_all
  have "(\<forall>c\<in>set (visibility_checks opts snap active). ck_severity c = Sev_ok) \<longleftrightarrow>
     active \<noteq> [] \<and> (ho_expected_domain_number opts \<noteq> None \<longrightarrow> list_ex (domain_matches opts) active) \<and>
     (ho_expected_transport_specific opts \<noteq> None \<longrightarrow> list_ex (transport_matches opts) active)"
    unfolding visibility_checks_def set_append ball_Un two none check_severity_if ok_if by auto
  also have "\<dots> \<longleftrightarrow> active \<noteq> [] \<and> (\<exists>s\<in>set active. domain_matches opts s) \<and> (\<exists>s\<in>set active. transport_matches opts s)"
    by (cases active) (auto simp: list_ex_iff domain_matches_def transport_matches_def)
  finally show ?thesis .
qed

definition selected_source :: "ptp_health_options \<Rightarrow> ptp_snapshot \<Rightarrow> ptp_source option" where
  "selected_source opts snap = select_source opts (filter (source_active opts (sn_captured_at snap)) (sn_sources snap)) None"

lemma selected_source_best:
  "case selected_source opts snap of None \<Rightarrow> eligible opts snap = {}
   | Some b \<Rightarrow> b \<in> eligible opts snap \<and> source_rank b = Max (source_rank ` eligible opts snap)"
proof -
  let ?active = "filter (source_active opts (sn_captured_at snap)) (sn_sources snap)"
  note best = select_source_best [where opts = opts and ss = ?active and sel = None, folded selected_source_def]
  show ?thesis
  proof (cases "selected_source opts snap")
    case (Some b)
    with best have b: "b \<in> eligible opts snap" "\<forall>s\<in>eligible opts snap. source_rank s \<le> source_rank b" by (auto simp: eligible_def)
    moreover have "finite (source_rank ` eligible opts snap)" by (simp add: eligible_def)
    ultimately have "Max (source_rank ` eligible opts snap) = source_rank b" by (intro Max_eqI) auto
    with b(1) Some show ?thesis by simp
  qed (use best in \<open>auto simp: eligible_def\<close>)
qed

lemma evaluate_health_facts:
  assumes "has_ptp snap"
  shows "pr_selected_source (evaluate_health snap opts) = map_option sc_source_port_identity (selected_source opts snap)"
    "is_healthy (evaluate_health snap opts) \<longleftrightarrow>
       (\<exists>s\<in>active_sources opts snap. domain_matches opts s) \<and> (\<exists>s\<in>active_sources opts snap. transport_matches opts s) \<and>
       (case selected_source opts snap of None \<Rightarrow> True | Some b \<Rightarrow> source_sound opts b)"
proof -
  let ?active = "filter (source_active opts (sn_captured_at snap)) (sn_sources snap)"
  have active: "set ?active = active_sources opts snap" by (auto simp: active_sources_def)
  show "pr_selected_source (evaluate_health snap opts) = map_option sc_source_port_identity (selected_source opts snap)"
    using assms by (simp add: evaluate_health_def selected_source_def Let_def)
  have vis: "(\<forall>c\<in>set (visibility_checks opts snap ?active). ck_severity c = Sev_ok) \<longleftrightarrow>
      (\<exists>s\<in>active_sources opts snap. domain_matches opts s) \<and> (\<exists>s\<in>active_sources opts snap. transport_matches opts s)"
    unfolding visibility_checks_ok active by (metis active empty_iff set_empty)
  show "is_healthy (evaluate_health snap opts) \<longleftrightarrow>
       (\<exists>s\<in>active_sources opts snap. domain_matches opts s) \<and> (\<exists>s\<in>active_sources opts snap. transport_matches opts s) \<and>
       (case selected_source opts snap of None \<Rightarrow> True | Some b \<Rightarrow> source_sound opts b)"
    using assms by (cases "selected_source opts snap")
      (simp_all add: is_healthy_def evaluate_health_def selected_source_def Let_def report_severity_ok ball_Un source_checks_ok vis)
qed

text \<open>C38.  The health report is exact.  It is healthy just when PTP was seen, an active source meets the
  expected domain and one meets the expected transport, and the selected source, if any, passes all its
  checks.  A source is selected just when some active source meets both expectations, and it is then one
  with the most announce messages, then the most sync messages, then the latest.  So a report is
  healthy without any selected source exactly when the two expectations are met by different
  sources only.\<close>

theorem ptp_health_exact:
  "(is_healthy (evaluate_health snap opts) \<longleftrightarrow>
      has_ptp snap \<and> (\<exists>s\<in>active_sources opts snap. domain_matches opts s) \<and> (\<exists>s\<in>active_sources opts snap. transport_matches opts s) \<and>
      (case selected_source opts snap of None \<Rightarrow> True | Some b \<Rightarrow> source_sound opts b)) \<and>
   (case selected_source opts snap of None \<Rightarrow> eligible opts snap = {}
    | Some b \<Rightarrow> b \<in> eligible opts snap \<and> source_rank b = Max (source_rank ` eligible opts snap)) \<and>
   pr_selected_source (evaluate_health snap opts) =
     (if has_ptp snap then map_option sc_source_port_identity (selected_source opts snap) else None)"
proof (cases "has_ptp snap")
  case True
  then show ?thesis using selected_source_best [of opts snap] by (simp add: evaluate_health_facts)
next
  case False
  then show ?thesis using selected_source_best [of opts snap] by (simp add: is_healthy_def evaluate_health_def)
qed

text \<open>A clock in the expected domain and another with the expected transport make a report healthy although
  no source meets both.\<close>

definition split_sources :: ptp_snapshot where
  "split_sources = (let s = fresh_source \<lparr>ob_observed_at = 0, ob_message_type = 0, ob_transport_specific = 0, ob_domain_number = 0,
       ob_source_port_identity = \<lparr>pi_clock_identity = [1], pi_port_number = 1\<rparr>, ob_sequence_id = 0, ob_two_step = False,
       ob_vlan_id = None, ob_outer_vlan_id = None, ob_peer_delay_multicast = False\<rparr> in
     \<lparr>sn_captured_at = 0, sn_total_frames = 2, sn_valid_ptp_frames = 2, sn_invalid_frames = 0, sn_recent_messages = [],
       sn_sources = [s, s\<lparr>sc_domain_number := 1, sc_transport_specific := Some 1\<rparr>]\<rparr>)"

lemma ptp_healthy_without_source:
  "\<exists>opts. is_healthy (evaluate_health split_sources opts) \<and> pr_selected_source (evaluate_health split_sources opts) = None \<and>
     resolve_smp_synch (evaluate_health split_sources opts) False = Global_synchronized"
proof -
  let ?opts = "\<lparr>ho_expected_domain_number = Some 0, ho_expected_transport_specific = Some 1, ho_source_timeout = 3000,
    ho_require_announce = True, ho_require_sync = True, ho_require_follow_up_for_two_step = True,
    ho_require_peer_delay_activity = False, ho_maximum_sequence_anomalies = 0\<rparr>"
  let ?a = "hd (sn_sources split_sources)" and ?b = "last (sn_sources split_sources)"
  have "has_ptp split_sources" "selected_source ?opts split_sources = None" "?a \<in> active_sources ?opts split_sources"
    "?b \<in> active_sources ?opts split_sources" "domain_matches ?opts ?a" "transport_matches ?opts ?b"
    by (simp_all add: has_ptp_def split_sources_def selected_source_def active_sources_def source_active_def domain_matches_def
        transport_matches_def fresh_source_def Let_def)
  then have "is_healthy (evaluate_health split_sources ?opts)" "pr_selected_source (evaluate_health split_sources ?opts) = None"
    unfolding evaluate_health_facts [OF \<open>has_ptp split_sources\<close>] by auto
  then show ?thesis unfolding resolve_smp_synch_def by auto
qed

lemma message_key_domain: "message_key e = k \<Longrightarrow> ob_domain_number e = fst k"
  by (auto simp: message_key_def)

definition sorts_sources :: "(ptp_source list \<Rightarrow> ptp_source list) \<Rightarrow> bool" where
  "sorts_sources sorter \<longleftrightarrow> (\<forall>ss. mset (sorter ss) = mset ss \<and> sorted (map source_key (sorter ss)))"

lemma counted_message: "source_count t (source_summary es) \<noteq> 0 \<Longrightarrow> \<exists>e\<in>set es. message_index (ob_message_type e) = message_index t"
  using message_index_less [of t] by (cases "of_type (message_index t) es = []") (auto simp: source_count_def source_summary_def filter_empty_conv)

text \<open>What the log must show of a clock for a claim of synchronisation: it was heard within the timeout, it
  meets an expectation, and the messages that are required of it were received.\<close>

definition heard_recently :: "ptp_health_options \<Rightarrow> int \<Rightarrow> ptp_observed list \<Rightarrow> bool" where
  "heard_recently opts now es \<longleftrightarrow>
     es \<noteq> [] \<and> ob_observed_at (last es) \<le> now \<and> now - ob_observed_at (last es) \<le> ho_source_timeout opts * 1000000"

definition in_domain :: "ptp_health_options \<Rightarrow> ptp_observed list \<Rightarrow> bool" where
  "in_domain opts es \<longleftrightarrow> ho_expected_domain_number opts \<in> {None, Some (ob_domain_number (last es))}"

definition on_transport :: "ptp_health_options \<Rightarrow> ptp_observed list \<Rightarrow> bool" where
  "on_transport opts es \<longleftrightarrow> ho_expected_transport_specific opts \<in> {None, Some (ob_transport_specific (last es))}"

definition sent_required :: "ptp_health_options \<Rightarrow> ptp_observed list \<Rightarrow> bool" where
  "sent_required opts es \<longleftrightarrow>
     (ho_require_announce opts \<longrightarrow> (\<exists>e\<in>set es. message_index (ob_message_type e) = 0xB)) \<and>
     (ho_require_sync opts \<longrightarrow> (\<exists>e\<in>set es. message_index (ob_message_type e) = 0x0)) \<and>
     (ho_require_follow_up_for_two_step opts \<longrightarrow> (\<exists>e\<in>set es. message_index (ob_message_type e) = 0x8)) \<and>
     (ho_require_peer_delay_activity opts \<longrightarrow> (\<exists>e\<in>set es. message_index (ob_message_type e) \<in> {0x2, 0x3, 0xA}))"

lemma source_sound_sent:
  assumes "source_sound opts (source_summary es)"
  shows "sent_required opts es"
proof -
  note sent = counted_message [where es = es, unfolded message_index_def]
  have "source_count 0x2 (source_summary es) \<noteq> 0 \<or> source_count 0x3 (source_summary es) \<noteq> 0 \<or> source_count 0xA (source_summary es) \<noteq> 0"
    if "ho_require_peer_delay_activity opts" using assms that by (auto simp: source_sound_def)
  then have "\<exists>e\<in>set es. message_index (ob_message_type e) \<in> {0x2, 0x3, 0xA}" if "ho_require_peer_delay_activity opts"
    using that sent [of "0x2"] sent [of "0x3"] sent [of "0xA"] by (auto simp: message_index_def)
  then show ?thesis using assms sent [of "0xB"] sent [of "0x0"] sent [of "0x8"]
    by (simp add: source_sound_def sent_required_def message_index_def)
qed

text \<open>The sources of a snapshot are the clocks of the log, and the tests on a source are tests on its log.\<close>

lemma snapshot_sources:
  assumes "sorts_sources sorter"
  shows "set (sn_sources (monitor_snapshot sorter now (monitor_run frames (monitor_init capacity)))) =
    (\<lambda>k. source_summary (of_clock k (observations frames))) ` set (clocks (observations frames))"
proof -
  have "set (sorter ss) = set ss" for ss using assms unfolding sorts_sources_def by (metis set_mset_mset)
  then show ?thesis using monitor_run_knows [of frames capacity] by (simp add: monitor_snapshot_def monitor_knows_def)
qed

lemma clock_source:
  assumes "k \<in> set (clocks log)"
  shows "source_active opts now (source_summary (of_clock k log)) \<longleftrightarrow> heard_recently opts now (of_clock k log)"
    "domain_matches opts (source_summary (of_clock k log)) \<longleftrightarrow> in_domain opts (of_clock k log)"
    "transport_matches opts (source_summary (of_clock k log)) \<longleftrightarrow> on_transport opts (of_clock k log)"
proof -
  have ne: "of_clock k log \<noteq> []" using assms by (simp add: of_clock_facts)
  then have "ob_domain_number (hd (of_clock k log)) = ob_domain_number (last (of_clock k log))"
    using hd_in_set [OF ne] last_in_set [OF ne] by (simp add: of_clock_def message_key_domain)
  with ne show "source_active opts now (source_summary (of_clock k log)) \<longleftrightarrow> heard_recently opts now (of_clock k log)"
    "domain_matches opts (source_summary (of_clock k log)) \<longleftrightarrow> in_domain opts (of_clock k log)"
    "transport_matches opts (source_summary (of_clock k log)) \<longleftrightarrow> on_transport opts (of_clock k log)"
    by (auto simp: source_active_def domain_matches_def transport_matches_def heard_recently_def in_domain_def on_transport_def
        source_summary_def split: option.splits)
qed

text \<open>C6.  A global synchronisation claim is justified: if the monitor, after any frames and under any
  health options, lets the sampled value stream be declared globally synchronised, then one of two
  things holds.  Either some clock was heard within the timeout, is in the expected domain and used the
  expected transport in its last message, where these are expected, and sent every kind of message the
  options require (announce, sync, follow-up, peer delay).  Or both a domain and a transport are
  expected, a clock heard within the timeout is in that domain, another used that transport in its last
  message, and no clock meets both: then the code declares global synchronisation although no clock was
  selected or checked.\<close>

theorem ptp_global_sync_justified:
  assumes "sorts_sources sorter"
    "resolve_smp_synch (evaluate_health (monitor_snapshot sorter now (monitor_run frames (monitor_init capacity))) opts) fallback = Global_synchronized"
  shows "(\<exists>k. heard_recently opts now (of_clock k (observations frames)) \<and> in_domain opts (of_clock k (observations frames)) \<and> on_transport opts (of_clock k (observations frames)) \<and>
      sent_required opts (of_clock k (observations frames))) \<or>
    (ho_expected_domain_number opts \<noteq> None \<and> ho_expected_transport_specific opts \<noteq> None \<and>
     (\<exists>k. heard_recently opts now (of_clock k (observations frames)) \<and> in_domain opts (of_clock k (observations frames))) \<and>
     (\<exists>k. heard_recently opts now (of_clock k (observations frames)) \<and> on_transport opts (of_clock k (observations frames))) \<and>
     \<not> (\<exists>k. heard_recently opts now (of_clock k (observations frames)) \<and> in_domain opts (of_clock k (observations frames)) \<and> on_transport opts (of_clock k (observations frames))))"
proof -
  let ?log = "observations frames"
  let ?snap = "monitor_snapshot sorter now (monitor_run frames (monitor_init capacity))"
  have healthy: "is_healthy (evaluate_health ?snap opts)" using assms(2) by (auto simp: resolve_smp_synch_def split: if_splits)
  then have ptp: "has_ptp ?snap" by (auto simp: is_healthy_def evaluate_health_def split: if_splits)
  have captured: "sn_captured_at ?snap = now" by (simp add: monitor_snapshot_def)
  note sources = snapshot_sources [OF assms(1), of now frames capacity]
  have heard: "k \<in> set (clocks ?log)" if "heard_recently opts now (of_clock k ?log)" for k
    using that by (simp add: heard_recently_def of_clock_facts)
  have active: "active_sources opts ?snap = (\<lambda>k. source_summary (of_clock k ?log)) ` {k. heard_recently opts now (of_clock k ?log)}"
    unfolding active_sources_def sources captured using heard by (auto simp: clock_source)
  have eligible: "eligible opts ?snap = (\<lambda>k. source_summary (of_clock k ?log)) `
      {k. heard_recently opts now (of_clock k ?log) \<and> in_domain opts (of_clock k ?log) \<and> on_transport opts (of_clock k ?log)}"
    unfolding eligible_def sources captured using heard by (auto simp: clock_source)
  have met: "\<exists>k. heard_recently opts now (of_clock k ?log) \<and> in_domain opts (of_clock k ?log)"
      "\<exists>k. heard_recently opts now (of_clock k ?log) \<and> on_transport opts (of_clock k ?log)"
    using healthy heard unfolding evaluate_health_facts(2) [OF ptp] active by (auto simp: clock_source)
  show ?thesis
  proof (cases "selected_source opts ?snap")
    case None
    then have "eligible opts ?snap = {}" using selected_source_best [of opts ?snap] by simp
    then show ?thesis using met unfolding eligible by (auto simp: in_domain_def on_transport_def)
  next
    case (Some b)
    then have "b \<in> eligible opts ?snap" "source_sound opts b"
      using selected_source_best [of opts ?snap] healthy unfolding evaluate_health_facts(2) [OF ptp] by simp_all
    then show ?thesis unfolding eligible using source_sound_sent by blast
  qed
qed

lemma sorts_sources_sort_key: "sorts_sources (sort_key source_key)"
  by (simp add: sorts_sources_def)

definition sample_health_options :: ptp_health_options where
  "sample_health_options = \<lparr>ho_expected_domain_number = Some 3, ho_expected_transport_specific = None, ho_source_timeout = 3000,
    ho_require_announce = True, ho_require_sync = True, ho_require_follow_up_for_two_step = False,
    ho_require_peer_delay_activity = False, ho_maximum_sequence_anomalies = 0\<rparr>"

definition sample_ptp_frames :: "(bytes \<times> int) list" where
  "sample_ptp_frames = map (\<lambda>k. ([1, 2, 3, 4, 5, 6] @ [2, 2, 3, 4, 5, 6] @ write_be_u16 0x88F7 @ ptp_build k sample_options, 5)) [Send_announce 37, Send_sync]"

definition sample_observed :: "u8 \<Rightarrow> ptp_observed" where
  "sample_observed t = \<lparr>ob_observed_at = 5, ob_message_type = t, ob_transport_specific = 0, ob_domain_number = 3,
     ob_source_port_identity = po_source_port_identity sample_options, ob_sequence_id = 9, ob_two_step = True,
     ob_vlan_id = None, ob_outer_vlan_id = None, ob_peer_delay_multicast = False\<rparr>"

lemma sample_observations: "observations sample_ptp_frames = [sample_observed 0xB, sample_observed 0x0]"
proof -
  obtain t where t: "timestamp_write (po_timestamp sample_options) = Some t" by (auto simp: sample_options_def timestamp_write_def)
  have "options_ok sample_options" "mac_ok [1, 2, 3, 4, 5, 6]" "mac_ok [2, 2, 3, 4, 5, 6]"
    by (simp_all add: options_ok_def identity_ok_def sample_options_def mac_ok_def)
  note parse = ptp_parse_untagged [OF this(1) _ t this(2,3), of _ "[]", simplified]
  have two_step: "(512 OR time_properties_flags (po_time_properties sample_options)) AND 512 \<noteq> 0"
    by (simp add: sample_options_def time_properties_flags_def)
  show ?thesis
    using two_step by (simp add: observations_def sample_ptp_frames_def parse List.map_filter_def observed_message_def sent_frame_def sent_header_def
        sample_observed_def is_two_step_def del: ptp_build.simps) (simp add: sample_options_def)
qed

theorem ptp_global_sync_justified_witness:
  "\<exists>k. heard_recently sample_health_options 7 (of_clock k (observations sample_ptp_frames)) \<and>
     ob_domain_number (last (of_clock k (observations sample_ptp_frames))) = 3 \<and>
     (\<exists>e\<in>set (of_clock k (observations sample_ptp_frames)). message_index (ob_message_type e) = 0xB)"
proof -
  let ?m = "monitor_run sample_ptp_frames (monitor_init 0)" and ?id = "po_source_port_identity sample_options"
  let ?snap = "monitor_snapshot (sort_key source_key) 7 ?m" and ?es = "[sample_observed 0xB, sample_observed 0x0]"
  have "clocks ?es = [(3, ?id)]" "of_clock (3, ?id) ?es = ?es"
    by (simp_all add: clocks_def message_key_def sample_observed_def of_clock_def)
  then have m: "pm_valid_frames ?m = 2" "pm_sources ?m = [source_summary ?es]"
    using monitor_run_knows [of sample_ptp_frames 0] by (simp_all add: sample_observations monitor_knows_def)
  have "source_sound sample_health_options (source_summary ?es)" "sc_domain_number (source_summary ?es) = 3"
    "sc_last_seen_at (source_summary ?es) = 5"
    by (simp_all add: source_sound_def sample_health_options_def source_summary_def source_count_def sample_observed_def message_index_def
        breaks_def upt_rec)
  moreover have "has_ptp ?snap" using m by (simp add: has_ptp_def monitor_snapshot_def)
  ultimately have "is_healthy (evaluate_health ?snap sample_health_options)" using m
    by (simp add: evaluate_health_facts selected_source_def active_sources_def source_active_def domain_matches_def transport_matches_def
        sample_health_options_def monitor_snapshot_def)
  then have "resolve_smp_synch (evaluate_health ?snap sample_health_options) False = Global_synchronized"
    by (simp add: resolve_smp_synch_def)
  from ptp_global_sync_justified [OF sorts_sources_sort_key this] show ?thesis
    by (auto simp: sample_health_options_def in_domain_def sent_required_def)
qed

end
