(* ===== verification/Setting_Group.thy ===== *)
theory Setting_Group
  imports Mms_Tables "HOL-Library.Product_Lexorder" "HOL-Library.List_Lexorder"
begin

text \<open>
  Setting groups (\<open>src/mms/static_setting_group.cpp\<close>): the shared state of a setting group control block,
  its five attributes, the guarded activation of a group by several protocol workers at once, and the
  object bank that publishes the attributes.
\<close>

subsection \<open>State and attributes\<close>

record sg_state =
  sg_number_of_setting_groups :: u32
  sg_active_setting_group :: u32
  sg_last_activation_time_be :: u64
  sg_activation_in_progress :: bool

definition sg_init :: "u32 \<Rightarrow> u32 \<Rightarrow> sg_state" where
  "sg_init number_of_groups active_group = \<lparr>sg_number_of_setting_groups = number_of_groups, sg_active_setting_group = active_group,
     sg_last_activation_time_be = 0, sg_activation_in_progress = False\<rparr>"

definition sg_valid :: "sg_state \<Rightarrow> bool" where
  "sg_valid st \<longleftrightarrow> sg_number_of_setting_groups st \<noteq> 0 \<and> sg_active_setting_group st \<noteq> 0 \<and>
     sg_active_setting_group st \<le> sg_number_of_setting_groups st"

datatype sg_attribute = Active_setting_group | Confirm_edit | Edit_setting_group | Last_activation_time | Number_of_setting_groups

definition sg_attributes :: "(sg_attribute \<times> string) list" where
  "sg_attributes = [(Active_setting_group, ''ActSG''), (Confirm_edit, ''CnfEdit''), (Edit_setting_group, ''EditSG''),
     (Last_activation_time, ''LActTm''), (Number_of_setting_groups, ''NumOfSG'')]"

fun type_for :: "sg_attribute \<Rightarrow> bytes" where
  "type_for Confirm_edit = [0x83, 0x00]"
| "type_for Last_activation_time = [0x91, 0x00]"
| "type_for _ = [0x86, 0x01, 0x08]"

definition encode_unsigned8 :: "u32 \<Rightarrow> bytes \<Rightarrow> encode_result \<times> bytes" where
  "encode_unsigned8 v dest =
     (if v > 0xFF then ((Value_out_of_range, 0, 3), dest)
      else if length dest < 3 then ((Buffer_too_small, 0, 3), dest)
      else ((Encode_ok, 3, 3), put_at 0 [0x86, 0x01, ucast v] dest))"

definition encode_boolean :: "bool \<Rightarrow> bytes \<Rightarrow> encode_result \<times> bytes" where
  "encode_boolean v dest =
     (if length dest < 3 then ((Buffer_too_small, 0, 3), dest)
      else ((Encode_ok, 3, 3), put_at 0 [0x83, 0x01, if v then 0xFF else 0x00] dest))"

definition pack_utc :: "bytes \<Rightarrow> u64" where
  "pack_utc bs = be_value bs"

text \<open>The loop from the last octet down, as the octets from the first to the last.\<close>

definition unpack_utc :: "u64 \<Rightarrow> bytes" where
  "unpack_utc packed = be_bytes 8 packed"

definition encode_utc :: "u64 \<Rightarrow> bytes \<Rightarrow> encode_result \<times> bytes" where
  "encode_utc packed dest =
     (if length dest < 10 then ((Buffer_too_small, 0, 10), dest)
      else ((Encode_ok, 10, 10), put_at 0 ([0x91, 0x08] @ unpack_utc packed) dest))"

fun read_attribute :: "sg_state \<Rightarrow> sg_attribute \<Rightarrow> read_callback" where
  "read_attribute st Active_setting_group dest = encode_unsigned8 (sg_active_setting_group st) dest"
| "read_attribute st Confirm_edit dest = encode_boolean False dest"
| "read_attribute st Edit_setting_group dest = encode_unsigned8 0 dest"
| "read_attribute st Last_activation_time dest = encode_utc (sg_last_activation_time_be st) dest"
| "read_attribute st Number_of_setting_groups dest = encode_unsigned8 (sg_number_of_setting_groups st) dest"

definition decode_unsigned8 :: "bytes \<Rightarrow> u32 option" where
  "decode_unsigned8 encoded =
     (case ber_span_try_read_exact encoded of
        None \<Rightarrow> None
      | Some v \<Rightarrow>
          if view_tag_class v \<noteq> Context_specific \<or> view_tag_number v \<noteq> 6 \<or> view_constructed v \<or> view_value v = [] \<or>
             length (view_value v) > 4 then None
          else case ber_span_read_unsigned_integer v of
              None \<Rightarrow> None
            | Some parsed \<Rightarrow> if parsed > 0xFF then None else Some (ucast parsed))"

subsection \<open>Activation\<close>

text \<open>Success and failure code.  \<open>now\<close> is what the clock callback gives: \<open>None\<close> when there is no callback or it
  fails.  The body of the function, seen by one worker while no other runs.\<close>

definition write_active_setting_group :: "bytes option \<Rightarrow> bytes \<Rightarrow> sg_state \<Rightarrow> (bool \<times> u32) \<times> sg_state" where
  "write_active_setting_group now encoded st =
     (case decode_unsigned8 encoded of
        None \<Rightarrow> ((False, 7), st)
      | Some requested \<Rightarrow>
          if requested = 0 \<or> requested > sg_number_of_setting_groups st then ((False, 11), st)
          else if sg_activation_in_progress st then ((False, 2), st)
          else let st = st\<lparr>sg_activation_in_progress := True\<rparr>;
                   st = st\<lparr>sg_active_setting_group := requested\<rparr>;
                   st = (case now of None \<Rightarrow> st | Some utc \<Rightarrow> st\<lparr>sg_last_activation_time_be := pack_utc utc\<rparr>)
            in ((True, 0), st\<lparr>sg_activation_in_progress := False\<rparr>))"

text \<open>The same function as the atomic operations of concurrent workers: the flag is tested and set, the
  clock is read, the group is stored, the time is stored, the guard clears the flag.  \<open>sl_done\<close> lists the
  activations in the order in which they cleared the flag.\<close>

datatype sg_phase = Sg_outside | Sg_entered u32 | Sg_timed u32 "bytes option" | Sg_activated u32 "bytes option" | Sg_dated u32 "bytes option"

record sg_system =
  sl_state :: sg_state
  sl_phase :: "nat \<Rightarrow> sg_phase"
  sl_done :: "(u32 \<times> bytes option) list"

inductive sg_step :: "sg_system \<Rightarrow> sg_system \<Rightarrow> bool" where
  enter: "sl_phase s w = Sg_outside \<Longrightarrow> decode_unsigned8 encoded = Some requested \<Longrightarrow> requested \<noteq> 0 \<Longrightarrow>
    requested \<le> sg_number_of_setting_groups (sl_state s) \<Longrightarrow> \<not> sg_activation_in_progress (sl_state s) \<Longrightarrow>
    sg_step s (s\<lparr>sl_state := (sl_state s)\<lparr>sg_activation_in_progress := True\<rparr>, sl_phase := (sl_phase s)(w := Sg_entered requested)\<rparr>)"
| refused: "sl_phase s w = Sg_outside \<Longrightarrow> fst (fst (write_active_setting_group now encoded (sl_state s))) = False \<Longrightarrow> sg_step s s"
| clock: "sl_phase s w = Sg_entered requested \<Longrightarrow> sg_step s (s\<lparr>sl_phase := (sl_phase s)(w := Sg_timed requested now)\<rparr>)"
| store_group: "sl_phase s w = Sg_timed requested now \<Longrightarrow>
    sg_step s (s\<lparr>sl_state := (sl_state s)\<lparr>sg_active_setting_group := requested\<rparr>,
      sl_phase := (sl_phase s)(w := Sg_activated requested now)\<rparr>)"
| store_time: "sl_phase s w = Sg_activated requested (Some utc) \<Longrightarrow>
    sg_step s (s\<lparr>sl_state := (sl_state s)\<lparr>sg_last_activation_time_be := pack_utc utc\<rparr>,
      sl_phase := (sl_phase s)(w := Sg_dated requested (Some utc))\<rparr>)"
| no_time: "sl_phase s w = Sg_activated requested None \<Longrightarrow> sg_step s (s\<lparr>sl_phase := (sl_phase s)(w := Sg_dated requested None)\<rparr>)"
| leave: "sl_phase s w = Sg_dated requested now \<Longrightarrow>
    sg_step s (s\<lparr>sl_state := (sl_state s)\<lparr>sg_activation_in_progress := False\<rparr>, sl_phase := (sl_phase s)(w := Sg_outside),
      sl_done := sl_done s @ [(requested, now)]\<rparr>)"

subsection \<open>The object bank\<close>

text \<open>\<open>None\<close> stands for the largest size the code returns when a name is too long.\<close>

fun add_name_bytes :: "string \<Rightarrow> string list \<Rightarrow> nat \<Rightarrow> nat option" where
  "add_name_bytes item [] acc = Some acc"
| "add_name_bytes item (suffix # ss) acc =
     (if length item > 1024 - 1 - length suffix then None else add_name_bytes item ss (acc + (length item + 1 + length suffix)))"

definition required_name_bytes :: "string \<Rightarrow> nat option" where
  "required_name_bytes item = add_name_bytes item (map snd sg_attributes) 0"

definition sg_entry :: "string \<Rightarrow> string \<Rightarrow> sg_state \<Rightarrow> sg_attribute \<times> string \<Rightarrow> object_entry" where
  "sg_entry domain item st = (\<lambda>(a, suffix). \<lparr>oe_domain = domain, oe_item = item @ ''$'' @ suffix, oe_type_specification = type_for a,
     oe_read = Some (read_attribute st a)\<rparr>)"

definition entry_key :: "object_entry \<Rightarrow> nat list \<times> nat list" where
  "entry_key e = (map of_char (oe_domain e), map of_char (oe_item e))"

text \<open>The sizes of the object, context and name storage; the table, whose read callbacks load from the
  shared state.\<close>

definition bank_initialize :: "string \<Rightarrow> string \<Rightarrow> sg_state \<Rightarrow> object_entry list \<Rightarrow> nat \<Rightarrow> nat \<Rightarrow> nat \<Rightarrow> object_entry list option" where
  "bank_initialize domain item st base object_storage context_storage name_storage =
     (if \<not> sg_valid st \<or> sg_number_of_setting_groups st > 0xFF then None
      else let required_objects = length base + 5 in
        case required_name_bytes item of
          None \<Rightarrow> None
        | Some required_names \<Rightarrow>
            if required_objects > object_storage \<or> required_objects > 8192 \<or> 5 > context_storage \<or> required_names > name_storage then None
            else let table = sort_key entry_key (base @ map (sg_entry domain item st) sg_attributes) in
              if objects_valid table then Some table else None)"

end
