(* ===== verification/Setting_Group_Safety.thy ===== *)
theory Setting_Group_Safety
  imports Setting_Group "HOL-Library.Multiset"
begin

text \<open>
  Setting group activation is safe under any interleaving of workers, what is written is read back, and the
  object bank publishes the attributes beside the objects it is given.
\<close>

subsection \<open>Interleaved activations\<close>

definition apply_activation :: "u32 \<times> bytes option \<Rightarrow> sg_state \<Rightarrow> sg_state" where
  "apply_activation = (\<lambda>(requested, now) st. st\<lparr>sg_active_setting_group := requested,
     sg_last_activation_time_be := (case now of None \<Rightarrow> sg_last_activation_time_be st | Some utc \<Rightarrow> pack_utc utc)\<rparr>)"

definition idle_system :: "sg_state \<Rightarrow> sg_system" where
  "idle_system st = \<lparr>sl_state = st, sl_phase = (\<lambda>_. Sg_outside), sl_done = []\<rparr>"

text \<open>The state a worker inside the guarded section has made of the state it entered.\<close>

fun midway :: "sg_phase \<Rightarrow> sg_state \<Rightarrow> sg_state" where
  "midway Sg_outside st = st"
| "midway (Sg_entered _) st = st\<lparr>sg_activation_in_progress := True\<rparr>"
| "midway (Sg_timed _ _) st = st\<lparr>sg_activation_in_progress := True\<rparr>"
| "midway (Sg_activated requested _) st = st\<lparr>sg_activation_in_progress := True, sg_active_setting_group := requested\<rparr>"
| "midway (Sg_dated requested now) st = (apply_activation (requested, now) st)\<lparr>sg_activation_in_progress := True\<rparr>"

fun phase_group :: "sg_phase \<Rightarrow> u32 set" where
  "phase_group Sg_outside = {}"
| "phase_group (Sg_entered r) = {r}" | "phase_group (Sg_timed r _) = {r}" | "phase_group (Sg_activated r _) = {r}" | "phase_group (Sg_dated r _) = {r}"

definition group_ok :: "sg_state \<Rightarrow> u32 \<Rightarrow> bool" where
  "group_ok st r \<longleftrightarrow> r \<noteq> 0 \<and> r \<le> sg_number_of_setting_groups st"

text \<open>At most one worker \<open>w\<close> is inside; its phase determines the state.\<close>

definition guarded :: "sg_state \<Rightarrow> sg_system \<Rightarrow> bool" where
  "guarded st0 s \<longleftrightarrow> (\<exists>w p. sl_phase s = (\<lambda>_. Sg_outside)(w := p) \<and> sl_state s = midway p (fold apply_activation (sl_done s) st0) \<and>
     (\<forall>r\<in>phase_group p \<union> fst ` set (sl_done s). group_ok st0 r))"

lemma fold_apply_activation [simp]:
  "sg_number_of_setting_groups (fold apply_activation as st) = sg_number_of_setting_groups st"
  "sg_activation_in_progress (fold apply_activation as st) = sg_activation_in_progress st"
  by (induction as arbitrary: st) (auto simp: apply_activation_def)

lemma midway_number [simp]: "sg_number_of_setting_groups (midway p st) = sg_number_of_setting_groups st"
  by (cases p) (simp_all add: apply_activation_def)

lemma midway_flag [simp]: "\<not> sg_activation_in_progress st \<Longrightarrow> sg_activation_in_progress (midway p st) \<longleftrightarrow> p \<noteq> Sg_outside"
  by (cases p) simp_all

lemma guardedI:
  "sl_phase s = (\<lambda>_. Sg_outside)(w := p) \<Longrightarrow> sl_state s = midway p (fold apply_activation (sl_done s) st0) \<Longrightarrow>
     \<forall>r\<in>phase_group p \<union> fst ` set (sl_done s). group_ok st0 r \<Longrightarrow> guarded st0 s"
  unfolding guarded_def by blast

lemma guarded_step:
  assumes "sg_step s s'" "guarded st0 s" "\<not> sg_activation_in_progress st0"
  shows "guarded st0 s'"
proof -
  from assms(2) obtain v p where s: "sl_phase s = (\<lambda>_. Sg_outside)(v := p)" "sl_state s = midway p (fold apply_activation (sl_done s) st0)"
      "\<forall>r\<in>phase_group p \<union> fst ` set (sl_done s). group_ok st0 r"
    unfolding guarded_def by blast
  from assms(1) show ?thesis
  proof cases
    case (enter w encoded requested)
    with s assms(3) have "p = Sg_outside" by simp
    with enter s show ?thesis by (intro guardedI [of _ w "Sg_entered requested"]) (auto simp: group_ok_def)
  next
    case (refused w now encoded)
    with assms(2) show ?thesis by simp
  next
    case (clock w requested now)
    with s have "v = w" "p = Sg_entered requested" by (auto split: if_splits)
    with clock s show ?thesis by (intro guardedI [of _ w "Sg_timed requested now"]) auto
  next
    case (store_group w requested now)
    with s have "v = w" "p = Sg_timed requested now" by (auto split: if_splits)
    with store_group s show ?thesis by (intro guardedI [of _ w "Sg_activated requested now"]) auto
  next
    case (store_time w requested utc)
    with s have "v = w" "p = Sg_activated requested (Some utc)" by (auto split: if_splits)
    with store_time s show ?thesis by (intro guardedI [of _ w "Sg_dated requested (Some utc)"]) (auto simp: apply_activation_def)
  next
    case (no_time w requested)
    with s have "v = w" "p = Sg_activated requested None" by (auto split: if_splits)
    with no_time s show ?thesis by (intro guardedI [of _ w "Sg_dated requested None"]) (auto simp: apply_activation_def)
  next
    case (leave w requested now)
    with s have "v = w" "p = Sg_dated requested now" by (auto split: if_splits)
    moreover have "(apply_activation a st)\<lparr>sg_activation_in_progress := True, sg_activation_in_progress := False\<rparr> = apply_activation a st"
      if "\<not> sg_activation_in_progress st" for a st using that by (cases a, cases st) (simp add: apply_activation_def)
    ultimately show ?thesis using leave s assms(3) by (intro guardedI [of _ w Sg_outside]) auto
  qed
qed

lemma guarded_reachable: "sg_step\<^sup>*\<^sup>* (idle_system st0) s \<Longrightarrow> \<not> sg_activation_in_progress st0 \<Longrightarrow> guarded st0 s"
proof (induction rule: rtranclp_induct)
  case base
  show ?case by (rule guardedI [of _ 0 Sg_outside]) (auto simp: idle_system_def)
qed (blast intro: guarded_step)

lemma fold_group_ok:
  "\<forall>r\<in>fst ` set as. group_ok st0 r \<Longrightarrow> group_ok st0 (sg_active_setting_group st0) \<Longrightarrow>
     group_ok st0 (sg_active_setting_group (fold apply_activation as st0))"
  by (cases as rule: rev_cases) (auto simp: apply_activation_def)

lemma fold_last_activation:
  "sg_active_setting_group (fold apply_activation as st) = (if as = [] then sg_active_setting_group st else fst (last as))"
  "sg_last_activation_time_be (fold apply_activation as st) = (case List.map_filter snd as of
      [] \<Rightarrow> sg_last_activation_time_be st
    | u # us \<Rightarrow> pack_utc (last (u # us)))"
  by (induction as rule: rev_induct) (auto simp: apply_activation_def List.map_filter_def split: list.splits option.splits)

text \<open>C8.  Concurrent activation: whatever the interleaving of the atomic operations of any number of
  workers, at most one is between setting and clearing the flag, the flag is set exactly while one is,
  the active group is always one of the configured groups, and whenever no worker is inside, the state
  is the one left by the completed activations one after the other.  The active group is then that of
  the last completed activation, and the activation time is the one the clock gave to the last completed
  activation for which it answered.  So the group and the time come from the same activation when the
  clock answered the last one; an activation without a clock answer leaves the time of an earlier one.\<close>

theorem setting_group_activation_atomic:
  assumes "sg_step\<^sup>*\<^sup>* (idle_system st0) s" "sg_valid st0" "\<not> sg_activation_in_progress st0"
  shows "sg_valid (sl_state s) \<and> (\<exists>w. \<forall>v. v = w \<or> sl_phase s v = Sg_outside) \<and>
    (sg_activation_in_progress (sl_state s) \<longleftrightarrow> (\<exists>w. sl_phase s w \<noteq> Sg_outside)) \<and>
    ((\<forall>w. sl_phase s w = Sg_outside) \<longrightarrow> sl_state s = fold apply_activation (sl_done s) st0 \<and>
       sg_active_setting_group (sl_state s) = (if sl_done s = [] then sg_active_setting_group st0 else fst (last (sl_done s))) \<and>
       sg_last_activation_time_be (sl_state s) = (case List.map_filter snd (sl_done s) of
           [] \<Rightarrow> sg_last_activation_time_be st0
         | u # us \<Rightarrow> pack_utc (last (u # us))))"
proof -
  from guarded_reachable [OF assms(1,3)] obtain w p where s: "sl_phase s = (\<lambda>_. Sg_outside)(w := p)"
      "sl_state s = midway p (fold apply_activation (sl_done s) st0)" "\<forall>r\<in>phase_group p \<union> fst ` set (sl_done s). group_ok st0 r"
    unfolding guarded_def by blast
  have "group_ok st0 (sg_active_setting_group (fold apply_activation (sl_done s) st0))"
    using fold_group_ok [of "sl_done s" st0] s(3) assms(2) by (simp add: sg_valid_def group_ok_def)
  then have "group_ok st0 (sg_active_setting_group (sl_state s))"
    using s(2,3) by (cases p) (auto simp: apply_activation_def)
  then have "sg_valid (sl_state s)" using assms(2) by (simp add: sg_valid_def group_ok_def s(2))
  moreover have "\<exists>w. \<forall>v. v = w \<or> sl_phase s v = Sg_outside" using s(1) by auto
  moreover have "sg_activation_in_progress (sl_state s) \<longleftrightarrow> (\<exists>w. sl_phase s w \<noteq> Sg_outside)" using s(1,2) assms(3) by auto
  moreover have "p = Sg_outside" if "\<forall>w. sl_phase s w = Sg_outside" using that [rule_format, of w] s(1) by simp
  ultimately show ?thesis using s(2) fold_last_activation [of "sl_done s" st0] by auto
qed

subsection \<open>One worker alone\<close>

lemma decode_unsigned8_octet: "decode_unsigned8 [0x86, 0x01, b] = Some (ucast b)"
proof -
  have "ber_span_try_read_exact [0x86, 0x01, b] = Some \<lparr>view_encoded_tag = 0x86, view_tag_class = Context_specific, view_constructed = False,
      view_tag_number = 6, view_header_bytes = 2, view_encoded_bytes = 3, view_value = [b]\<rparr>"
    by (simp add: ber_span_try_read_exact_def ber_span_try_read_tlv_def ber_read_tag_def ber_span_read_length_def ber_class_of_def Let_def)
  moreover have "(ucast b :: u64) \<le> 0xFF" using unat_less_exp [of b] by (simp add: word_le_nat_alt unat_ucast_widen)
  moreover have "(ucast (ucast b :: u64) :: u32) = ucast b" by (rule bit_word_eqI) (auto simp: bit_simps)
  ultimately show ?thesis by (simp add: decode_unsigned8_def ber_span_read_unsigned_integer_def be_value_def not_less)
qed

lemma group_zero: "(ucast (b :: u8) :: u32) = 0 \<longleftrightarrow> b = 0"
  by (simp add: word_unat_eq_iff unat_ucast_widen)

lemma write_path:
  assumes "decode_unsigned8 encoded = Some r" "fst (write_active_setting_group now encoded (sl_state s)) = (True, 0)" "sl_phase s w = Sg_outside"
  shows "sg_step\<^sup>*\<^sup>* s (s\<lparr>sl_state := snd (write_active_setting_group now encoded (sl_state s)), sl_done := sl_done s @ [(r, now)]\<rparr>)"
proof -
  let ?in = "\<lambda>p st. s\<lparr>sl_state := st, sl_phase := (sl_phase s)(w := p)\<rparr>"
  let ?st1 = "(sl_state s)\<lparr>sg_activation_in_progress := True\<rparr>" let ?st2 = "?st1\<lparr>sg_active_setting_group := r\<rparr>"
  let ?st3 = "case now of None \<Rightarrow> ?st2 | Some utc \<Rightarrow> ?st2\<lparr>sg_last_activation_time_be := pack_utc utc\<rparr>"
  have ok: "r \<noteq> 0" "r \<le> sg_number_of_setting_groups (sl_state s)" "\<not> sg_activation_in_progress (sl_state s)"
    using assms(1,2) by (auto simp: write_active_setting_group_def split: if_splits)
  have 1: "sg_step s (?in (Sg_entered r) ?st1)" using sg_step.enter [of s w encoded r] ok assms(1,3) by simp
  have 2: "sg_step (?in (Sg_entered r) ?st1) (?in (Sg_timed r now) ?st1)"
    using sg_step.clock [of "?in (Sg_entered r) ?st1" w r now] by simp
  have 3: "sg_step (?in (Sg_timed r now) ?st1) (?in (Sg_activated r now) ?st2)"
    using sg_step.store_group [of "?in (Sg_timed r now) ?st1" w r now] by simp
  have 4: "sg_step (?in (Sg_activated r now) ?st2) (?in (Sg_dated r now) ?st3)"
    using sg_step.no_time [of "?in (Sg_activated r now) ?st2" w r] sg_step.store_time [of "?in (Sg_activated r now) ?st2" w r]
    by (cases now) simp_all
  have "(sl_phase s)(w := Sg_outside) = sl_phase s" using assms(3) by auto
  then have 5: "sg_step (?in (Sg_dated r now) ?st3) (s\<lparr>sl_state := ?st3\<lparr>sg_activation_in_progress := False\<rparr>, sl_done := sl_done s @ [(r, now)]\<rparr>)"
    using sg_step.leave [of "?in (Sg_dated r now) ?st3" w r now] by simp
  have "snd (write_active_setting_group now encoded (sl_state s)) = ?st3\<lparr>sg_activation_in_progress := False\<rparr>"
    using assms(1) ok by (simp add: write_active_setting_group_def Let_def not_less)
  then show ?thesis
    using rtranclp.rtrancl_into_rtrancl [OF rtranclp.rtrancl_into_rtrancl [OF rtranclp.rtrancl_into_rtrancl [OF
      rtranclp.rtrancl_into_rtrancl [OF r_into_rtranclp [of sg_step, OF 1] 2] 3] 4] 5] by simp
qed

lemma write_octet:
  assumes "\<not> sg_activation_in_progress st"
  shows "write_active_setting_group now [0x86, 0x01, b] st =
    (if b = 0 \<or> ucast b > sg_number_of_setting_groups st then ((False, 11), st) else ((True, 0), apply_activation (ucast b, now) st))"
proof -
  have "(case now of None \<Rightarrow> st\<lparr>sg_activation_in_progress := True, sg_active_setting_group := r\<rparr>
      | Some utc \<Rightarrow> st\<lparr>sg_activation_in_progress := True, sg_active_setting_group := r, sg_last_activation_time_be := pack_utc utc\<rparr>)
      \<lparr>sg_activation_in_progress := False\<rparr> = apply_activation (r, now) st" for r
    using assms by (cases st; cases now) (simp_all add: apply_activation_def)
  with assms show ?thesis by (simp add: write_active_setting_group_def decode_unsigned8_octet group_zero Let_def)
qed

text \<open>C39.  Written and read back: writing the single-octet encoding of a group number while no activation is
  in progress, with a clock that answers, succeeds exactly for the configured groups; the active group then
  reads as the octets written and the activation time as the octets of the clock, and the call is a run of
  the interleaved operations.  Any other number is refused and changes nothing.\<close>

theorem setting_group_write_read:
  assumes "\<not> sg_activation_in_progress st" "length utc = 8" "st' = snd (write_active_setting_group (Some utc) [0x86, 0x01, b] st)"
  shows "if b \<noteq> 0 \<and> ucast b \<le> sg_number_of_setting_groups st
    then fst (write_active_setting_group (Some utc) [0x86, 0x01, b] st) = (True, 0) \<and>
      read_attribute st' Active_setting_group [x, y, z] = ((Encode_ok, 3, 3), [0x86, 0x01, b]) \<and>
      read_attribute st' Last_activation_time (replicate 10 x) = ((Encode_ok, 10, 10), [0x91, 0x08] @ utc) \<and>
      sg_number_of_setting_groups st' = sg_number_of_setting_groups st \<and>
      sg_step\<^sup>*\<^sup>* (idle_system st) ((idle_system st)\<lparr>sl_state := st', sl_done := [(ucast b, Some utc)]\<rparr>)
    else write_active_setting_group (Some utc) [0x86, 0x01, b] st = ((False, 11), st)"
proof (cases "b \<noteq> 0 \<and> ucast b \<le> sg_number_of_setting_groups st")
  case True
  have "\<not> (0xFF :: u32) < ucast b" using unat_less_exp [of b] by (simp add: word_less_nat_alt unat_ucast_widen)
  moreover have "ucast (ucast b :: u32) = b" by (simp add: ucast_ucast_narrow)
  moreover have "be_bytes 8 (be_value utc :: u64) = utc" using assms(2) by (simp add: be_bytes_be_value)
  moreover have st': "st' = apply_activation (ucast b, Some utc) st" using True assms(3) by (auto simp: write_octet [OF assms(1)] not_less)
  moreover have success: "fst (write_active_setting_group (Some utc) [0x86, 0x01, b] st) = (True, 0)"
    using True by (simp add: write_octet [OF assms(1)] not_less)
  moreover have "sg_step\<^sup>*\<^sup>* (idle_system st) ((idle_system st)\<lparr>sl_state := st', sl_done := [(ucast b, Some utc)]\<rparr>)"
    using write_path [OF decode_unsigned8_octet, of "Some utc" b "idle_system st" 0] success assms(3) by (simp add: idle_system_def)
  ultimately show ?thesis using True
    by (simp add: encode_unsigned8_def encode_utc_def unpack_utc_def pack_utc_def apply_activation_def assms(2))
next
  case False
  then show ?thesis by (auto simp: write_octet [OF assms(1)])
qed

theorem setting_group_write_read_witness:
  "fst (write_active_setting_group (Some [1, 2, 3, 4, 5, 6, 7, 8]) [0x86, 0x01, 2] (sg_init 4 1)) = (True, 0) \<and>
   read_attribute (snd (write_active_setting_group (Some [1, 2, 3, 4, 5, 6, 7, 8]) [0x86, 0x01, 2] (sg_init 4 1))) Active_setting_group [0, 0, 0] =
     ((Encode_ok, 3, 3), [0x86, 0x01, 2])"
  using setting_group_write_read [OF _ _ refl, of "sg_init 4 1" "[1, 2, 3, 4, 5, 6, 7, 8]" 2 0 0 0] by (simp add: sg_init_def)

text \<open>Two writes in turn: the clock answers the first and not the second.\<close>

theorem setting_group_activation_atomic_witness:
  "\<exists>s. sg_step\<^sup>*\<^sup>* (idle_system (sg_init 4 1)) s \<and> sl_done s = [(2, Some [1, 2, 3, 4, 5, 6, 7, 8]), (3, None)] \<and> sg_valid (sl_state s) \<and>
     sg_active_setting_group (sl_state s) = 3 \<and> sg_last_activation_time_be (sl_state s) = pack_utc [1, 2, 3, 4, 5, 6, 7, 8]"
proof -
  let ?utc = "[1, 2, 3, 4, 5, 6, 7, 8] :: bytes"
  have idle: "\<not> sg_activation_in_progress (sg_init 4 1)" "sg_valid (sg_init 4 1)" by (simp_all add: sg_init_def sg_valid_def)
  let ?s = "(idle_system (sg_init 4 1))\<lparr>sl_state := apply_activation (2, Some ?utc) (sg_init 4 1), sl_done := [(2, Some ?utc)]\<rparr>"
  let ?t = "?s\<lparr>sl_state := apply_activation (3, None) (sl_state ?s), sl_done := [(2, Some ?utc), (3, None)]\<rparr>"
  have first: "sg_step\<^sup>*\<^sup>* (idle_system (sg_init 4 1)) ?s"
    using write_path [OF decode_unsigned8_octet, of "Some ?utc" 2 "idle_system (sg_init 4 1)" 0] write_octet [OF idle(1), of "Some ?utc" 2]
    by (simp add: idle_system_def sg_init_def)
  have "\<not> sg_activation_in_progress (sl_state ?s)" by (simp add: apply_activation_def sg_init_def)
  then have "sg_step\<^sup>*\<^sup>* ?s ?t"
    using write_path [OF decode_unsigned8_octet, of None 3 ?s 0] write_octet [of "sl_state ?s" None 3]
    by (simp add: idle_system_def sg_init_def apply_activation_def)
  with first have run: "sg_step\<^sup>*\<^sup>* (idle_system (sg_init 4 1)) ?t" by simp
  from setting_group_activation_atomic [OF run idle(2,1)] run show ?thesis
    by (intro exI [of _ ?t]) (simp add: idle_system_def)
qed

subsection \<open>The object bank\<close>

lemma objects_valid_from_mem:
  "objects_valid_from xs \<Longrightarrow> e \<in> set xs \<Longrightarrow> find (\<lambda>x. oe_domain e = oe_domain x \<and> oe_item e = oe_item x) xs = Some e"
proof (induction xs)
  case (Cons x xs)
  then show ?case by (auto simp: list_all_iff)
qed simp

lemma objects_valid_from_name: "objects_valid_from xs \<Longrightarrow> e \<in> set xs \<Longrightarrow> oe_domain e \<noteq> [] \<and> oe_item e \<noteq> []"
  by (induction xs) (auto simp: valid_name_def visible_ascii_def)

lemma objects_find_mem:
  assumes "objects_valid xs" "e \<in> set xs"
  shows "objects_find xs (Domain_specific (oe_domain e) (oe_item e)) = Some e"
  using assms objects_valid_from_mem [of xs e] objects_valid_from_name [of xs e] by (simp add: objects_valid_def)

text \<open>C40.  The object bank: when it initializes, its table is valid, has every object it was given and
  exactly the five attributes of the control block, finds each of them by its name, and the
  attributes read the current state; a state that is not valid or has more than 255 groups is
  refused.\<close>

theorem setting_group_bank_complete:
  assumes "bank_initialize domain item st base object_storage context_storage name_storage = Some table"
  shows "objects_valid table \<and> mset table = mset base + mset (map (sg_entry domain item st) sg_attributes) \<and>
    (\<forall>e\<in>set base. objects_find table (Domain_specific (oe_domain e) (oe_item e)) = Some e) \<and>
    (\<forall>(a, suffix)\<in>set sg_attributes. map_option oe_read (objects_find table (Domain_specific domain (item @ ''$'' @ suffix))) =
       Some (Some (read_attribute st a))) \<and>
    sorted (map entry_key table) \<and> sg_valid st \<and> sg_number_of_setting_groups st \<le> 255 \<and> length table \<le> object_storage"
proof -
  let ?all = "base @ map (sg_entry domain item st) sg_attributes"
  have t: "table = sort_key entry_key ?all" "objects_valid table" "sg_valid st" "sg_number_of_setting_groups st \<le> 255" "length base + 5 \<le> object_storage"
    using assms by (auto simp: bank_initialize_def Let_def not_less split: if_splits option.splits)
  have "objects_find table (Domain_specific (oe_domain e) (oe_item e)) = Some e" if "e \<in> set ?all" for e
    using that t(1) by (intro objects_find_mem [OF t(2)]) simp
  then have find: "objects_find table (Domain_specific (oe_domain e) (oe_item e)) = Some e" if "e \<in> set base \<or> e \<in> sg_entry domain item st ` set sg_attributes" for e
    using that by auto
  have "map_option oe_read (objects_find table (Domain_specific domain (item @ ''$'' @ suffix))) = Some (Some (read_attribute st a))"
    if "(a, suffix) \<in> set sg_attributes" for a suffix
    using find [OF disjI2 [OF imageI [OF that]]] by (simp add: sg_entry_def del: objects_find.simps)
  moreover have "length table \<le> object_storage" using t(5) by (simp add: t(1) sg_attributes_def)
  moreover have "mset table = mset base + mset (map (sg_entry domain item st) sg_attributes)" by (simp add: t(1))
  moreover have "sorted (map entry_key table)" by (simp add: t(1))
  ultimately show ?thesis using t(2,3,4) find by auto
qed

theorem setting_group_bank_complete_witness:
  "map_option objects_valid (bank_initialize ''LD'' ''SGCB'' (sg_init 4 1) [] 5 5 100) = Some True"
proof -
  have "bank_initialize ''LD'' ''SGCB'' (sg_init 4 1) [] 5 5 100 \<noteq> None"
    by code_simp
  then obtain table where "bank_initialize ''LD'' ''SGCB'' (sg_init 4 1) [] 5 5 100 = Some table" by blast
  with setting_group_bank_complete [OF this] show ?thesis by simp
qed

end
