(* ===== verification/Spec2Isabelle.thy ===== *)
theory Spec2Isabelle
  imports Goose_Link Cotp_Span Brcb_Reservation Brcb_Journal Sv_Frame Sv_Stream Control_Safety Control_Reference Acse_Wire Invoke_Router Ptp_Health Setting_Group_Safety
begin

text \<open>
  \<^bold>\<open>ARStack61850: a verified model of the protocol core.\<close>

  The repository is an IEC 61850 stack in C++: codecs for the MMS protocol stack (ASN.1 BER, TPKT,
  COTP, session, presentation, ACSE, MMS), process bus publishers and subscribers (GOOSE and Sampled
  Values over Ethernet), PTP time synchronisation, guarded control, and a static, allocation-free MMS
  server with buffered reporting and setting groups.  Applications, simulators and embedded firmware are
  built on this core.

  \<^bold>\<open>Parts and how they interact.\<close>
  A report or a GOOSE message is built from MMS data values, which are BER encoded.  An association is
  opened by an AARQ inside a presentation connect inside a session connect, and answered by an AARE the
  same way; MMS PDUs then travel in presentation data inside session data transfers, as TSDUs through
  COTP, which cuts them into TPDUs framed by TPKT on a TCP octet stream, and the client's router queues
  the results by invoke identifier.  GOOSE PDUs, Sampled Values and PTP messages travel in Ethernet
  frames; the PTP monitor decides the synchronisation state that Sampled Values declare.  The buffered
  report control block (BRCB) collects changes of data set members, captures them as encoded reports into
  a ring of retained entries, delivers them to the client that owns the block, and is saved to a two-bank
  journal.  The control planner lets a client operate an object only under a selection it holds.

  \<^bold>\<open>Theories and sources.\<close>
  \<^item> \<open>Prelude\<close>: machine integers, exceptions as values, big-endian octets, the interfaces \<open>offset_codec\<close> (a
    self-delimiting code read at an offset) and \<open>machine\<close> (an event machine with an invariant).
    \<open>Decimal\<close>: \<open>std::to_string\<close>.
  \<^item> \<open>Ber\<close>, \<open>Ber_Span\<close>: \<open>asn1/ber.cpp\<close>, \<open>ber_span_reader.cpp\<close>, \<open>ber_span_writer.hpp\<close>.  TLVs, lengths,
    integers; the allocation-free reader and writer agree with the allocating ones.
  \<^item> \<open>Utc_Time\<close>: \<open>mms/utc_time.cpp\<close>; accuracy of the 24-bit fraction.
  \<^item> \<open>Mms_Data\<close>: \<open>mms/data_value.cpp\<close>, \<open>data_codec.cpp\<close>; every value of the MMS data type survives
    encoding, with arrays and structures nested to any depth.
  \<^item> \<open>Ethernet\<close>, \<open>Goose_Codec\<close>: \<open>ethernet/ethernet.cpp\<close>, \<open>goose/pdu_codec.cpp\<close>, \<open>goose/frame_codec.cpp\<close>.
  \<^item> \<open>Goose_Publisher\<close>, \<open>Goose_Subscriber\<close>, \<open>Goose_Link\<close>: \<open>goose/retransmission_schedule.cpp\<close>,
    \<open>publisher_runtime.cpp\<close>, \<open>subscriber_supervisor.cpp\<close> and their composition over a link with bounded
    delay; the time to live of every publication, whatever calls led to it.
  \<^item> \<open>Tpkt\<close>, \<open>Cotp\<close>, \<open>Cotp_Span\<close>: \<open>osi/tpkt.cpp\<close>, \<open>tpkt_span.cpp\<close>, \<open>cotp.cpp\<close>, \<open>cotp_span.cpp\<close>; stream
    decoding under any chunking, segmentation and reassembly, and the composition of both layers.
  \<^item> \<open>Session\<close>, \<open>Session_Wire\<close>: \<open>osi/session.cpp\<close>, \<open>session_span.cpp\<close>; SPDUs round trip up to one exact
    exception, and the caller-buffer codec agrees with the owning one.
  \<^item> \<open>Presentation\<close>, \<open>Presentation_Wire\<close>: \<open>osi/presentation.cpp\<close>; connect, accept and data PPDUs round trip,
    with the exact conditions under which the decoder refuses what the encoder wrote.
  \<^item> \<open>Acse\<close>, \<open>Acse_Wire\<close>: \<open>acse/association.cpp\<close>; AARQ and AARE round trip, and the handshake through
    presentation and session answers every decoded request so that the requester reads the answer back.
  \<^item> \<open>Mms_Pdu\<close>, \<open>Mms_Wire\<close>, \<open>Invoke_Router\<close>: \<open>mms/pdu.cpp\<close>, \<open>mms/invoke_router.cpp\<close>; PDUs round trip, the router
    implements the interface \<open>keyed_fifo\<close> (in order, once, lost only by \<open>clear\<close>), and a response sent through presentation data reaches the
    caller that waits for its invoke identifier.
  \<^item> \<open>Report\<close>: \<open>mms/buffered_selective_information_report_span.cpp\<close> and its detail header.
  \<^item> \<open>Mms_Tables\<close>: lookup and validation of \<open>mms/static_object_table.cpp\<close> and \<open>static_data_set_table.cpp\<close>.
  \<^item> \<open>Brcb\<close>, \<open>Brcb_Delivery\<close>: \<open>mms/static_brcb_runtime.cpp\<close>; the state is the record \<open>brcb\<close>, one function per
    member function, an invariant over all operations, and the refinement of a bounded log.
  \<^item> \<open>Brcb_Control\<close>, \<open>Brcb_Reservation\<close>: \<open>mms/static_brcb_control.cpp\<close>; ownership of a block, refining a
    labelled step relation of reservations.
  \<^item> \<open>Brcb_State\<close>, \<open>Brcb_Recovery\<close>: \<open>mms/static_brcb_state_codec.cpp\<close>; the recovery image of a block is read
    back and restores it; what an accepted image of either version makes of a block.  \<open>Brcb_Checkpoint\<close>, \<open>Brcb_Journal\<close>: \<open>mms/static_brcb_checkpoint_store.cpp\<close>; whichever
    device operation a checkpoint is cut off in, a later restore gives the old or the new block.
  \<^item> \<open>Sv_Codec\<close>, \<open>Sv_Wire\<close>, \<open>Sv_Frame\<close>, \<open>Sv_Stream\<close>: \<open>sampled_values/pdu_codec.cpp\<close>, \<open>frame_codec.cpp\<close>,
    \<open>quality.cpp\<close>, \<open>sample_counter.cpp\<close>, \<open>stream_supervisor.cpp\<close>; frames round trip and losses are counted.
  \<^item> \<open>Ptp\<close>, \<open>Ptp_Wire\<close>, \<open>Ptp_Monitor\<close>, \<open>Ptp_Health\<close>: \<open>time_sync/ptp.cpp\<close>, \<open>ptp_monitor.cpp\<close>; frames round trip,
    the monitor refines the log of observed messages, and global synchronisation is declared only with
    the reasons stated, among them the case in which no single clock meets both expectations.
  \<^item> \<open>Control_Planner\<close>, \<open>Control_Safety\<close>, \<open>Control_Reference\<close>: \<open>control/guarded_control.cpp\<close>; the
    select-before-operate machine and the names of control objects.
  \<^item> \<open>Setting_Group\<close>, \<open>Setting_Group_Safety\<close>: \<open>mms/static_setting_group.cpp\<close>; activation by concurrent workers
    as interleaved atomic operations; the group is that of the last activation, the time that of the
    last one the clock answered.

  \<^bold>\<open>Modelling conventions.\<close>
  Unsigned integers of the source are words of the same width and wrap as in C++; \<open>std::size_t\<close> counts of
  in-memory buffers are natural numbers.  Exceptions are values of type \<open>exn\<close>; status enumerations are
  datatypes.  A mutable object is a record, a member function maps the record to its result and the
  updated record.  Spans written by the code are returned as updated octet lists.  Pointers that the
  constructors take from references are never null.  Callbacks (clocks, sockets, object readers) are
  arguments of the definitions.

  \<^bold>\<open>Loops and fuel.\<close>
  All loops are total functions; those whose recursion is not structural carry a termination proof by the
  number of octets left (TLV children, TPKT frames, COTP segments, session parameters) or the bits left to
  shift.  No theorem depends
  on a bound chosen for the model.

  \<^bold>\<open>Not modelled.\<close>
  The caller-buffer variants of the presentation, association and MMS PDU codecs; the codecs of the
  individual MMS services and the dispatcher, object views and unbuffered report blocks that need them;
  the client runtimes (sockets, threads and timers around the codecs), report selection and the client
  control session; compiled Sampled Values profiles.  Outside the protocol core: Qt applications,
  command line tools, board firmware and fuzzing drivers (user interface and I/O around the library),
  raw Ethernet access, the SCL and COMTRADE text readers and capture files.
\<close>

end
